(* ===== verification/Prelude.thy ===== *)
theory Prelude
  imports Main "HOL-Library.Word" "HOL-Library.Product_Lexorder" "HOL-Library.Sublist"
    "HOL-Library.Code_Target_Nat"
begin

text \<open>
  Shared vocabulary of the development: results of fallible Go functions (\<open>'e + 'a\<close>, \<open>Inl\<close> is the
  returned error), the sequencing of such results, loops that stop at the first error, SQL-like
  updates of tables held as lists of rows, and the step-machine interface through which the
  components state their invariants.
\<close>

named_theorems res_simps \<open>rewriting of fallible computations\<close>

named_theorems table_simps \<open>rewriting of table updates and look-ups\<close>

type_synonym ('e, 'a) result = "'e + 'a"

type_synonym int64 = "64 word"

section \<open>Fallible computations\<close>

definition bindE :: "('e, 'a) result \<Rightarrow> ('a \<Rightarrow> ('e, 'b) result) \<Rightarrow> ('e, 'b) result" where
  "bindE m f = (case m of Inl e \<Rightarrow> Inl e | Inr x \<Rightarrow> f x)"

definition guardE :: "bool \<Rightarrow> 'e \<Rightarrow> ('e, unit) result" where
  "guardE ok e = (if ok then Inr () else Inl e)"

definition failE :: "'e \<Rightarrow> ('e, 'a) result" where
  "failE e = Inl e"

definition okE :: "('e, 'a) result \<Rightarrow> bool" where
  "okE m = (case m of Inl _ \<Rightarrow> False | Inr _ \<Rightarrow> True)"

definition ofOption :: "'e \<Rightarrow> 'a option \<Rightarrow> ('e, 'a) result" where
  "ofOption e m = (case m of None \<Rightarrow> Inl e | Some x \<Rightarrow> Inr x)"

definition mapErr :: "('e \<Rightarrow> 'f) \<Rightarrow> ('e, 'a) result \<Rightarrow> ('f, 'a) result" where
  "mapErr f m = (case m of Inl e \<Rightarrow> Inl (f e) | Inr x \<Rightarrow> Inr x)"

lemma bindE_Inl [simp]: "bindE (Inl e) f = Inl e"
  by (simp add: bindE_def)

lemma bindE_Inr [simp]: "bindE (Inr x) f = f x"
  by (simp add: bindE_def)

lemma bindE_eq_Inr [res_simps]:
  "bindE m f = Inr y \<longleftrightarrow> (\<exists>x. m = Inr x \<and> f x = Inr y)"
  by (cases m) auto

lemma bindE_eq_Inl [res_simps]:
  "bindE m f = Inl e \<longleftrightarrow> m = Inl e \<or> (\<exists>x. m = Inr x \<and> f x = Inl e)"
  by (cases m) auto

lemma bindE_cong [fundef_cong]:
  "m = m' \<Longrightarrow> (\<And>x. m' = Inr x \<Longrightarrow> f x = f' x) \<Longrightarrow> bindE m f = bindE m' f'"
  by (cases m) auto

lemma guardE_eq_Inr [res_simps]: "guardE b e = Inr u \<longleftrightarrow> b"
  by (simp add: guardE_def)

lemma guardE_eq_Inl [res_simps]: "guardE b e = Inl e' \<longleftrightarrow> \<not> b \<and> e = e'"
  by (auto simp: guardE_def)

lemma guardE_True [simp]: "guardE True e = Inr ()"
  by (simp add: guardE_def)

lemma guardE_False [simp]: "guardE False e = Inl e"
  by (simp add: guardE_def)

lemma ofOption_eq_Inr [res_simps]: "ofOption e m = Inr x \<longleftrightarrow> m = Some x"
  by (cases m) (auto simp: ofOption_def)

lemma ofOption_eq_Inl [res_simps]: "ofOption e m = Inl e' \<longleftrightarrow> m = None \<and> e = e'"
  by (cases m) (auto simp: ofOption_def)

lemma ofOption_simps [simp]: "ofOption e None = Inl e" "ofOption e (Some x) = Inr x"
  by (simp_all add: ofOption_def)

lemma mapErr_eq_Inr [res_simps]: "mapErr f m = Inr x \<longleftrightarrow> m = Inr x"
  by (cases m) (auto simp: mapErr_def)

lemma mapErr_eq_Inl [res_simps]: "mapErr f m = Inl e \<longleftrightarrow> (\<exists>e'. m = Inl e' \<and> e = f e')"
  by (cases m) (auto simp: mapErr_def)

lemma mapErr_simps [simp]: "mapErr f (Inl e) = Inl (f e)" "mapErr f (Inr x) = Inr x"
  by (simp_all add: mapErr_def)

lemma okE_simps [simp]: "okE (Inr x) = True" "okE (Inl e) = False"
  by (simp_all add: okE_def)

lemma okE_iff: "okE m \<longleftrightarrow> (\<exists>x. m = Inr x)"
  by (cases m) auto

section \<open>Loops that stop at the first error\<close>

fun foldE :: "('a \<Rightarrow> 's \<Rightarrow> ('e, 's) result) \<Rightarrow> 'a list \<Rightarrow> 's \<Rightarrow> ('e, 's) result" where
  "foldE f [] s = Inr s"
| "foldE f (x # xs) s = bindE (f x s) (foldE f xs)"

lemma foldE_invariant:
  assumes "foldE f xs s = Inr s'" and "P s"
    and "\<And>x s s'. x \<in> set xs \<Longrightarrow> P s \<Longrightarrow> f x s = Inr s' \<Longrightarrow> P s'"
  shows "P s'"
  using assms
proof (induction xs arbitrary: s)
  case Nil
  then show ?case by simp
next
  case (Cons x xs)
  from Cons.prems(1) obtain t where t: "f x s = Inr t" and rest: "foldE f xs t = Inr s'"
    by (auto simp: res_simps)
  have "P t" using Cons.prems(2) t by (rule Cons.prems(3)[rotated]) simp
  with rest Cons.prems(3) show ?case by (auto intro: Cons.IH)
qed

lemma foldE_append: "foldE f (xs @ ys) s = bindE (foldE f xs s) (foldE f ys)"
  by (induction xs arbitrary: s) (simp_all add: bindE_def split: sum.split)

section \<open>Tables as lists of rows\<close>

definition upd_where :: "('r \<Rightarrow> bool) \<Rightarrow> ('r \<Rightarrow> 'r) \<Rightarrow> 'r list \<Rightarrow> 'r list" where
  "upd_where p f rows = map (\<lambda>r. if p r then f r else r) rows"

definition del_where :: "('r \<Rightarrow> bool) \<Rightarrow> 'r list \<Rightarrow> 'r list" where
  "del_where p rows = filter (\<lambda>r. \<not> p r) rows"

definition count_where :: "('r \<Rightarrow> bool) \<Rightarrow> 'r list \<Rightarrow> nat" where
  "count_where p rows = length (filter p rows)"

lemma upd_where_Nil [table_simps]: "upd_where p f [] = []"
  by (simp add: upd_where_def)

lemma upd_where_Cons [table_simps]:
  "upd_where p f (r # rs) = (if p r then f r else r) # upd_where p f rs"
  by (simp add: upd_where_def)

lemma length_upd_where [simp]: "length (upd_where p f rs) = length rs"
  by (simp add: upd_where_def)

lemma set_upd_where: "set (upd_where p f rs) = (\<lambda>r. if p r then f r else r) ` set rs"
  by (simp add: upd_where_def)

lemma set_del_where [table_simps]: "set (del_where p rs) = {r \<in> set rs. \<not> p r}"
  by (auto simp: del_where_def)

lemma map_key_upd_where [table_simps]:
  "(\<And>r. p r \<Longrightarrow> k (f r) = k r) \<Longrightarrow> map k (upd_where p f rs) = map k rs"
  by (simp add: upd_where_def)

lemma map_key_del_where_subset: "set (map k (del_where p rs)) \<subseteq> set (map k rs)"
  by (auto simp: del_where_def)

lemma distinct_del_where: "distinct (map k rs) \<Longrightarrow> distinct (map k (del_where p rs))"
  by (simp add: del_where_def distinct_map_filter)

lemma upd_where_id [table_simps]: "(\<And>r. r \<in> set rs \<Longrightarrow> \<not> p r) \<Longrightarrow> upd_where p f rs = rs"
  by (simp add: upd_where_def map_idI)

lemma count_where_pos: "0 < count_where p rs \<longleftrightarrow> (\<exists>r\<in>set rs. p r)"
  by (auto simp: count_where_def filter_empty_conv)

lemma count_where_eq_0: "count_where p rs = 0 \<longleftrightarrow> (\<forall>r\<in>set rs. \<not> p r)"
  by (auto simp: count_where_def filter_empty_conv)

lemma find_eq_Some_iff:
  "distinct (map k rs) \<Longrightarrow> List.find (\<lambda>r. k r = i) rs = Some r \<longleftrightarrow> r \<in> set rs \<and> k r = i"
  by (induction rs) auto

lemma find_SomeD: "List.find p rs = Some r \<Longrightarrow> r \<in> set rs \<and> p r"
  by (auto simp: find_Some_iff in_set_conv_nth)

lemma find_NoneD: "List.find p rs = None \<Longrightarrow> r \<in> set rs \<Longrightarrow> \<not> p r"
  by (auto simp: find_None_iff)

lemma find_upd_where_other:
  "(\<And>r. p r \<Longrightarrow> \<not> q r) \<Longrightarrow> (\<And>r. p r \<Longrightarrow> \<not> q (f r)) \<Longrightarrow>
     List.find q (upd_where p f rs) = List.find q rs"
  by (induction rs) (auto simp: table_simps)

lemma insort_key_map: "(\<And>x. k (f x) = k x) \<Longrightarrow> insort_key k (f x) (map f xs) = map f (insort_key k x xs)"
  by (induction xs) auto

lemma sort_key_map: "(\<And>x. k (f x) = k x) \<Longrightarrow> sort_key k (map f xs) = map f (sort_key k xs)"
  by (induction xs) (simp_all add: insort_key_map)

lemma filter_upd_where:
  "(\<And>r. p r \<Longrightarrow> q (f r) = q r) \<Longrightarrow> filter q (upd_where p f rs) = upd_where p f (filter q rs)"
  by (induction rs) (auto simp: table_simps)

lemma distinct_map_inj: "distinct (map k rs) \<Longrightarrow> r \<in> set rs \<Longrightarrow> s \<in> set rs \<Longrightarrow> k r = k s \<Longrightarrow> r = s"
  by (auto simp: distinct_map inj_on_def)

section \<open>Step machines\<close>

text \<open>
  The contract between an operation-by-operation component and the statements about whole
  histories: an initial-state predicate, a step relation and an invariant that every step keeps.
\<close>

locale step_machine =
  fixes init :: "'s \<Rightarrow> bool"
    and step :: "'s \<Rightarrow> 's \<Rightarrow> bool"
    and inv :: "'s \<Rightarrow> bool"
  assumes inv_init: "init s \<Longrightarrow> inv s"
    and inv_step: "inv s \<Longrightarrow> step s t \<Longrightarrow> inv t"
begin

lemma inv_steps: "step\<^sup>*\<^sup>* s t \<Longrightarrow> inv s \<Longrightarrow> inv t"
  by (induction rule: rtranclp_induct) (auto intro: inv_step)

lemma inv_reachable: "init s \<Longrightarrow> step\<^sup>*\<^sup>* s t \<Longrightarrow> inv t"
  using inv_init inv_steps by blast

end

lemma okE_projr: "okE m \<Longrightarrow> m = Inr (projr m)"
  by (auto simp: okE_iff)

lemma okE_pair: "okE m \<Longrightarrow> m = Inr (fst (projr m), snd (projr m))"
  by (auto simp: okE_iff)

lemma upd_where_elim:
  assumes "r \<in> set (upd_where p f rows)"
  obtains "r \<in> set rows" "\<not> p r" | q where "q \<in> set rows" "p q" "r = f q"
  using assms unfolding set_upd_where by (auto split: if_splits)

end
