(* ===== verification/GoText.thy ===== *)
theory GoText
  imports Prelude
begin

text \<open>
  The parts of Go's standard library that the ledger relies on for text: strings are byte lists
  (\<open>string\<close>, one \<open>char\<close> per byte), a \<open>range\<close> loop over a string decodes UTF-8 rune by rune with
  the replacement rune for every invalid byte, \<open>unicode.IsSpace\<close>, \<open>unicode.IsControl\<close> and the
  category tables Cf and Bidi\_Control are the tables of Unicode 15, which Go's \<open>unicode\<close> package
  carries.
\<close>

abbreviation byte :: "char \<Rightarrow> nat" where
  "byte c \<equiv> of_char c"

section \<open>UTF-8\<close>

definition RuneError :: nat where
  "RuneError = 65533"

definition byte_in :: "nat \<Rightarrow> nat \<Rightarrow> char \<Rightarrow> bool" where
  "byte_in lo hi c \<longleftrightarrow> lo \<le> byte c \<and> byte c \<le> hi"

text \<open>
  \<open>utf8.DecodeRuneInString\<close>: the rune and its width; an invalid sequence has width one. The
  functions \<open>seq2\<close>, \<open>seq3\<close> and \<open>seq4\<close> decode the continuation bytes after a leading byte.
\<close>

definition second_ok :: "nat \<Rightarrow> char \<Rightarrow> bool" where
  "second_ok b0 c1 \<longleftrightarrow>
     byte_in (if b0 = 224 then 160 else if b0 = 240 then 144 else 128)
             (if b0 = 237 then 159 else if b0 = 244 then 143 else 191) c1"

definition seq2 :: "nat \<Rightarrow> string \<Rightarrow> nat \<times> nat" where
  "seq2 b0 cs =
     (case cs of
        c1 # _ \<Rightarrow> if byte_in 128 191 c1 then ((b0 - 192) * 64 + (byte c1 - 128), 2)
                  else (RuneError, 1)
      | [] \<Rightarrow> (RuneError, 1))"

definition seq3 :: "nat \<Rightarrow> string \<Rightarrow> nat \<times> nat" where
  "seq3 b0 cs =
     (case cs of
        c1 # c2 # _ \<Rightarrow>
          if second_ok b0 c1 \<and> byte_in 128 191 c2
          then ((b0 - 224) * 4096 + (byte c1 - 128) * 64 + (byte c2 - 128), 3)
          else (RuneError, 1)
      | _ \<Rightarrow> (RuneError, 1))"

definition seq4 :: "nat \<Rightarrow> string \<Rightarrow> nat \<times> nat" where
  "seq4 b0 cs =
     (case cs of
        c1 # c2 # c3 # _ \<Rightarrow>
          if second_ok b0 c1 \<and> byte_in 128 191 c2 \<and> byte_in 128 191 c3
          then ((b0 - 240) * 262144 + (byte c1 - 128) * 4096 + (byte c2 - 128) * 64
                  + (byte c3 - 128), 4)
          else (RuneError, 1)
      | _ \<Rightarrow> (RuneError, 1))"

fun DecodeRune :: "string \<Rightarrow> nat \<times> nat" where
  "DecodeRune [] = (RuneError, 0)"
| "DecodeRune (c0 # cs) =
     (let b0 = byte c0 in
      if b0 < 128 then (b0, 1)
      else if 194 \<le> b0 \<and> b0 \<le> 223 then seq2 b0 cs
      else if 224 \<le> b0 \<and> b0 \<le> 239 then seq3 b0 cs
      else if 240 \<le> b0 \<and> b0 \<le> 244 then seq4 b0 cs
      else (RuneError, 1))"

declare DecodeRune.simps(2) [simp del]

lemma seq_width:
  "1 \<le> snd (seq2 b cs) \<and> snd (seq2 b cs) \<le> Suc (length cs)"
  "1 \<le> snd (seq3 b cs) \<and> snd (seq3 b cs) \<le> Suc (length cs)"
  "1 \<le> snd (seq4 b cs) \<and> snd (seq4 b cs) \<le> Suc (length cs)"
  by (simp_all add: seq2_def seq3_def seq4_def split: list.split)

lemma DecodeRune_width:
  "s \<noteq> [] \<Longrightarrow> 1 \<le> snd (DecodeRune s) \<and> snd (DecodeRune s) \<le> length s"
  using seq_width by (cases s) (simp_all add: DecodeRune.simps(2) Let_def)

text \<open>The decoder looks only at the bytes of the rune it returns.\<close>

lemma seq2_prefix: "snd (seq2 b cs) \<le> Suc m \<Longrightarrow> seq2 b (take m cs) = seq2 b cs"
  by (cases m; cases cs) (auto simp: seq2_def)

lemma seq3_prefix: "snd (seq3 b cs) \<le> Suc m \<Longrightarrow> seq3 b (take m cs) = seq3 b cs"
proof -
  consider "cs = []" | c1 where "cs = [c1]" | c1 c2 ds where "cs = c1 # c2 # ds"
    by (metis list.exhaust)
  then show "snd (seq3 b cs) \<le> Suc m \<Longrightarrow> ?thesis"
    by cases (auto simp: seq3_def take_Cons split: nat.split if_split_asm)
qed

lemma seq4_prefix: "snd (seq4 b cs) \<le> Suc m \<Longrightarrow> seq4 b (take m cs) = seq4 b cs"
proof -
  consider "cs = []" | c1 where "cs = [c1]" | c1 c2 where "cs = [c1, c2]"
    | c1 c2 c3 ds where "cs = c1 # c2 # c3 # ds"
    by (metis list.exhaust)
  then show "snd (seq4 b cs) \<le> Suc m \<Longrightarrow> ?thesis"
    by cases (auto simp: seq4_def take_Cons split: nat.split if_split_asm)
qed

lemma DecodeRune_prefix:
  assumes "snd (DecodeRune s) \<le> n" and "0 < n"
  shows "DecodeRune (take n s) = DecodeRune s"
proof (cases s)
  case (Cons c cs)
  obtain m where m: "n = Suc m" using assms(2) by (cases n) auto
  let ?b = "byte c"
  consider "?b < 128" | "\<not> ?b < 128" "194 \<le> ?b \<and> ?b \<le> 223"
    | "\<not> ?b < 128" "\<not> (194 \<le> ?b \<and> ?b \<le> 223)" "224 \<le> ?b \<and> ?b \<le> 239"
    | "\<not> ?b < 128" "\<not> (194 \<le> ?b \<and> ?b \<le> 223)" "\<not> (224 \<le> ?b \<and> ?b \<le> 239)"
    by blast
  then show ?thesis
    using assms(1) unfolding Cons m
    by cases (auto simp: DecodeRune.simps(2) Let_def seq2_prefix seq3_prefix seq4_prefix)
qed simp

text \<open>The runes of a string with the bytes each was decoded from.\<close>

function chunks :: "string \<Rightarrow> (nat \<times> string) list" where
  "chunks s =
     (if s = [] then []
      else let (r, n) = DecodeRune s in (r, take n s) # chunks (drop n s))"
  by pat_completeness auto
termination
proof (relation "measure length")
  fix s :: string and x r n
  assume "s \<noteq> []" and "x = DecodeRune s" and "(r, n) = x"
  then have "1 \<le> n" and "n \<le> length s"
    using DecodeRune_width[of s] by (metis snd_conv)+
  then show "(drop n s, s) \<in> measure length" using \<open>s \<noteq> []\<close> by simp
qed simp

declare chunks.simps [simp del]

lemma chunks_Nil [simp]: "chunks [] = []"
  by (simp add: chunks.simps)

lemma chunks_step:
  "s \<noteq> [] \<Longrightarrow> chunks s = (fst (DecodeRune s), take (snd (DecodeRune s)) s)
     # chunks (drop (snd (DecodeRune s)) s)"
  by (subst chunks.simps) (simp add: Let_def split: prod.split)

lemma concat_chunks [simp]: "concat (map snd (chunks s)) = s"
proof (induction s rule: chunks.induct)
  case (1 s)
  show ?case
  proof (cases "s = []")
    case False
    have "concat (map snd (chunks (drop (snd (DecodeRune s)) s))) = drop (snd (DecodeRune s)) s"
      using "1.IH"[OF False refl] by (metis prod.collapse)
    then show ?thesis using False by (simp add: chunks_step)
  qed simp
qed

lemma chunks_eq_Nil [simp]: "chunks s = [] \<longleftrightarrow> s = []"
  by (cases "s = []") (simp_all add: chunks_step)

lemma chunks_suffix: "chunks s = xs @ ys \<Longrightarrow> chunks (concat (map snd ys)) = ys"
proof (induction xs arbitrary: s)
  case Nil
  then show ?case by (metis append_Nil concat_chunks)
next
  case (Cons x xs)
  then have "s \<noteq> []" by auto
  then have "chunks (drop (snd (DecodeRune s)) s) = xs @ ys"
    using Cons.prems by (simp add: chunks_step)
  then show ?case by (rule Cons.IH)
qed

lemma chunks_prefix: "chunks s = xs @ ys \<Longrightarrow> chunks (concat (map snd xs)) = xs"
proof (induction xs arbitrary: s)
  case Nil
  then show ?case by simp
next
  case (Cons x xs)
  let ?n = "snd (DecodeRune s)" and ?rest = "concat (map snd xs)"
  have ne: "s \<noteq> []" using Cons.prems by auto
  have n: "1 \<le> ?n" "?n \<le> length s" using DecodeRune_width[OF ne] by auto
  have x: "x = (fst (DecodeRune s), take ?n s)" and tail: "chunks (drop ?n s) = xs @ ys"
    using Cons.prems ne by (simp_all add: chunks_step)
  have IH: "chunks ?rest = xs" by (rule Cons.IH[OF tail])
  have "drop ?n s = ?rest @ concat (map snd ys)"
    using arg_cong[OF tail, of "\<lambda>cs. concat (map snd cs)"] by simp
  then have s: "s = take ?n s @ ?rest @ concat (map snd ys)"
    by (metis append_take_drop_id)
  define t where "t = take ?n s @ ?rest"
  have t: "t = take (length t) s" using s unfolding t_def by (metis append.assoc append_eq_conv_conj)
  have len: "?n \<le> length t" unfolding t_def using n by simp
  have dec: "DecodeRune t = DecodeRune s"
    using DecodeRune_prefix[of s "length t"] len n t by (metis le_trans not_one_le_zero not_gr0)
  have "t \<noteq> []" using len n by auto
  then have "chunks t = (fst (DecodeRune s), take ?n t) # chunks (drop ?n t)"
    by (simp add: chunks_step dec)
  moreover have "take ?n t = take ?n s" "drop ?n t = ?rest"
    using n unfolding t_def by simp_all
  ultimately show ?case using x IH by (simp add: t_def)
qed

definition runes :: "string \<Rightarrow> nat list" where
  "runes s = map fst (chunks s)"

definition ValidString :: "string \<Rightarrow> bool" where
  "ValidString s \<longleftrightarrow> list_all (\<lambda>(r, b). \<not> (r = RuneError \<and> length b = 1)) (chunks s)"

section \<open>Unicode classes\<close>

definition IsControl :: "nat \<Rightarrow> bool" where
  "IsControl r \<longleftrightarrow> r \<le> 31 \<or> (127 \<le> r \<and> r \<le> 159)"

definition IsSpace :: "nat \<Rightarrow> bool" where
  "IsSpace r \<longleftrightarrow> (9 \<le> r \<and> r \<le> 13) \<or> r = 32 \<or> r = 133 \<or> r = 160 \<or> r = 5760 \<or>
     (8192 \<le> r \<and> r \<le> 8202) \<or> r = 8232 \<or> r = 8233 \<or> r = 8239 \<or> r = 8287 \<or> r = 12288"

definition IsCf :: "nat \<Rightarrow> bool" where
  "IsCf r \<longleftrightarrow> r = 173 \<or> (1536 \<le> r \<and> r \<le> 1541) \<or> r = 1564 \<or> r = 1757 \<or> r = 1807 \<or>
     (2192 \<le> r \<and> r \<le> 2193) \<or> r = 2274 \<or> r = 6158 \<or> (8203 \<le> r \<and> r \<le> 8207) \<or>
     (8234 \<le> r \<and> r \<le> 8238) \<or> (8288 \<le> r \<and> r \<le> 8292) \<or> (8294 \<le> r \<and> r \<le> 8303) \<or>
     r = 65279 \<or> (65529 \<le> r \<and> r \<le> 65531) \<or> r = 69821 \<or> r = 69837 \<or>
     (78896 \<le> r \<and> r \<le> 78911) \<or> (113824 \<le> r \<and> r \<le> 113827) \<or>
     (119155 \<le> r \<and> r \<le> 119162) \<or> r = 917505 \<or> (917536 \<le> r \<and> r \<le> 917631)"

definition IsBidiControl :: "nat \<Rightarrow> bool" where
  "IsBidiControl r \<longleftrightarrow> r = 1564 \<or> (8206 \<le> r \<and> r \<le> 8207) \<or> (8234 \<le> r \<and> r \<le> 8238) \<or>
     (8294 \<le> r \<and> r \<le> 8297)"

lemma IsBidiControl_imp_IsCf: "IsBidiControl r \<Longrightarrow> IsCf r"
  unfolding IsBidiControl_def by (elim disjE) (simp_all add: IsCf_def)

section \<open>strings.TrimSpace, strings.Split, strings.ToLower on ASCII\<close>

definition dropWhileEnd :: "('a \<Rightarrow> bool) \<Rightarrow> 'a list \<Rightarrow> 'a list" where
  "dropWhileEnd p xs = rev (dropWhile p (rev xs))"

definition TrimSpace :: "string \<Rightarrow> string" where
  "TrimSpace s = concat (map snd (dropWhileEnd (\<lambda>(r, _). IsSpace r)
     (dropWhile (\<lambda>(r, _). IsSpace r) (chunks s))))"

lemma dropWhileEnd_decomp: "\<exists>zs. xs = dropWhileEnd p xs @ zs"
  by (metis dropWhileEnd_def rev_append rev_rev_ident takeWhile_dropWhile_id)

lemma dropWhileEnd_last: "dropWhileEnd p xs \<noteq> [] \<Longrightarrow> \<not> p (last (dropWhileEnd p xs))"
  by (metis dropWhileEnd_def hd_dropWhile last_rev rev_is_Nil_conv)

lemma dropWhileEnd_fix: "xs = [] \<or> \<not> p (last xs) \<Longrightarrow> dropWhileEnd p xs = xs"
  by (cases xs rule: rev_cases) (auto simp: dropWhileEnd_def)

lemma dropWhileEnd_hd: "dropWhileEnd p xs \<noteq> [] \<Longrightarrow> hd (dropWhileEnd p xs) = hd xs"
  by (metis dropWhileEnd_decomp hd_append2)

lemma chunks_TrimSpace:
  "chunks (TrimSpace s) = dropWhileEnd (\<lambda>(r, _). IsSpace r)
     (dropWhile (\<lambda>(r, _). IsSpace r) (chunks s))"
proof -
  let ?p = "\<lambda>(r :: nat, _ :: string). IsSpace r"
  let ?l = "dropWhile ?p (chunks s)"
  have "chunks s = takeWhile ?p (chunks s) @ ?l" by simp
  then have l: "chunks (concat (map snd ?l)) = ?l" by (rule chunks_suffix)
  obtain zs where "?l = dropWhileEnd ?p ?l @ zs" using dropWhileEnd_decomp by blast
  then have "chunks (concat (map snd ?l)) = dropWhileEnd ?p ?l @ zs" using l by simp
  then show ?thesis unfolding TrimSpace_def by (rule chunks_prefix)
qed

lemma TrimSpace_idem [simp]: "TrimSpace (TrimSpace s) = TrimSpace s"
proof -
  let ?p = "\<lambda>(r :: nat, _ :: string). IsSpace r"
  let ?e = "dropWhileEnd ?p (dropWhile ?p (chunks s))"
  have "dropWhile ?p ?e = ?e"
  proof (cases "?e = []")
    case False
    then have "hd ?e = hd (dropWhile ?p (chunks s))" by (rule dropWhileEnd_hd)
    moreover have "dropWhile ?p (chunks s) \<noteq> []"
      using False by (metis dropWhile.simps(1) dropWhileEnd_def rev.simps(1))
    ultimately have "\<not> ?p (hd ?e)" using hd_dropWhile[of ?p "chunks s"] by metis
    then show ?thesis using False by (cases ?e) auto
  qed simp
  moreover have "dropWhileEnd ?p ?e = ?e"
    by (rule dropWhileEnd_fix) (metis dropWhileEnd_last)
  ultimately show ?thesis
    by (simp add: TrimSpace_def[of "TrimSpace s"] chunks_TrimSpace)
       (simp add: TrimSpace_def)
qed

fun split_on :: "char \<Rightarrow> string \<Rightarrow> string list" where
  "split_on d [] = [[]]"
| "split_on d (c # cs) =
     (if c = d then [] # split_on d cs
      else case split_on d cs of [] \<Rightarrow> [[c]] | w # ws \<Rightarrow> (c # w) # ws)"

lemma split_on_ne: "split_on d s \<noteq> []"
  by (induction s) (auto split: list.splits)

lemma split_on_no_sep: "\<forall>w\<in>set (split_on d s). d \<notin> set w"
  by (induction s) (auto split: list.splits)

section \<open>Concatenation of valid text\<close>

text \<open>A rune that decodes validly decodes the same way whatever follows it.\<close>

lemma seq_extend:
  "snd (seq2 b cs) \<noteq> 1 \<Longrightarrow> seq2 b (cs @ ds) = seq2 b cs"
  "snd (seq3 b cs) \<noteq> 1 \<Longrightarrow> seq3 b (cs @ ds) = seq3 b cs"
  "snd (seq4 b cs) \<noteq> 1 \<Longrightarrow> seq4 b (cs @ ds) = seq4 b cs"
  by (auto simp: seq2_def seq3_def seq4_def split: list.split_asm if_split_asm)

lemma seq_RuneError:
  "snd (seq2 b cs) = 1 \<Longrightarrow> fst (seq2 b cs) = RuneError"
  "snd (seq3 b cs) = 1 \<Longrightarrow> fst (seq3 b cs) = RuneError"
  "snd (seq4 b cs) = 1 \<Longrightarrow> fst (seq4 b cs) = RuneError"
  by (auto simp: seq2_def seq3_def seq4_def split: list.split_asm if_split_asm)

lemma DecodeRune_extend:
  assumes "s \<noteq> []" and "\<not> (fst (DecodeRune s) = RuneError \<and> snd (DecodeRune s) = 1)"
  shows "DecodeRune (s @ t) = DecodeRune s"
proof (cases s)
  case (Cons c cs)
  let ?b = "byte c"
  consider "?b < 128" | "\<not> ?b < 128" "194 \<le> ?b \<and> ?b \<le> 223"
    | "\<not> ?b < 128" "\<not> (194 \<le> ?b \<and> ?b \<le> 223)" "224 \<le> ?b \<and> ?b \<le> 239"
    | "\<not> ?b < 128" "\<not> (194 \<le> ?b \<and> ?b \<le> 223)" "\<not> (224 \<le> ?b \<and> ?b \<le> 239)"
    by blast
  then show ?thesis
  proof cases
    case 1
    then show ?thesis using Cons by (simp add: DecodeRune.simps(2))
  next
    case 2
    then show ?thesis
      using assms(2) Cons seq_RuneError(1)[of ?b cs] seq_extend(1)[of ?b cs t]
      by (simp add: DecodeRune.simps(2) Let_def split: if_split_asm) blast+
  next
    case 3
    then show ?thesis
      using assms(2) Cons seq_RuneError(2)[of ?b cs] seq_extend(2)[of ?b cs t]
      by (simp add: DecodeRune.simps(2) Let_def split: if_split_asm) blast+
  next
    case 4
    then show ?thesis
      using assms(2) Cons seq_RuneError(3)[of ?b cs] seq_extend(3)[of ?b cs t]
      by (simp add: DecodeRune.simps(2) Let_def split: if_split_asm) blast+
  qed
qed (use assms in simp)

lemma chunk_bytes_width:
  "(r, b) \<in> set (chunks s) \<Longrightarrow> b \<noteq> [] \<and> DecodeRune b = (r, length b)"
proof (induction s rule: chunks.induct)
  case (1 s)
  let ?n = "snd (DecodeRune s)"
  have ne: "s \<noteq> []" using "1.prems" by auto
  have n: "1 \<le> ?n" "?n \<le> length s" using DecodeRune_width[OF ne] by auto
  consider "r = fst (DecodeRune s)" "b = take ?n s" | "(r, b) \<in> set (chunks (drop ?n s))"
    using "1.prems" ne by (auto simp: chunks_step)
  then show ?case
  proof cases
    case 1
    have "DecodeRune (take ?n s) = DecodeRune s" using n by (intro DecodeRune_prefix) auto
    then show ?thesis using 1 n by (auto simp: prod_eq_iff)
  next
    case 2
    then show ?thesis using "1.IH"[OF ne refl] by (metis prod.collapse)
  qed
qed

lemma ValidString_Nil [simp]: "ValidString []"
  by (simp add: ValidString_def)

lemma chunks_append: "ValidString s \<Longrightarrow> chunks (s @ t) = chunks s @ chunks t"
proof (induction s rule: chunks.induct)
  case (1 s)
  show ?case
  proof (cases "s = []")
    case False
    let ?n = "snd (DecodeRune s)"
    have n: "1 \<le> ?n" "?n \<le> length s" using DecodeRune_width[OF False] by auto
    have v: "\<not> (fst (DecodeRune s) = RuneError \<and> ?n = 1)" and vs: "ValidString (drop ?n s)"
      using "1.prems" n by (auto simp: ValidString_def chunks_step[OF False])
    have "chunks (drop ?n s @ t) = chunks (drop ?n s) @ chunks t"
      using "1.IH"[OF False refl _ vs] by (metis prod.collapse)
    then show ?thesis
      using DecodeRune_extend[OF False v, of t] n False by (simp add: chunks_step)
  qed simp
qed

lemma ValidString_append: "ValidString s \<Longrightarrow> ValidString t \<Longrightarrow> ValidString (s @ t)"
  by (simp add: ValidString_def chunks_append)

lemma ValidString_append_left: "ValidString s \<Longrightarrow> ValidString (s @ t) \<longleftrightarrow> ValidString t"
  by (simp add: ValidString_def chunks_append)

lemma chunks_ascii:
  "byte c < 128 \<Longrightarrow> chunks (c # cs) = (byte c, [c]) # chunks cs"
  by (subst chunks_step) (simp_all add: DecodeRune.simps(2) Let_def)

lemma ValidString_ascii: "byte c < 128 \<Longrightarrow> ValidString (c # cs) \<longleftrightarrow> ValidString cs"
  by (simp add: ValidString_def chunks_ascii RuneError_def)

lemma seq_nonascii:
  "194 \<le> b \<Longrightarrow> 128 \<le> fst (seq2 b cs)"
  "224 \<le> b \<Longrightarrow> 128 \<le> fst (seq3 b cs)"
  "240 \<le> b \<Longrightarrow> 128 \<le> fst (seq4 b cs)"
  by (auto simp: seq2_def seq3_def seq4_def RuneError_def second_ok_def byte_in_def
      split: list.split if_split_asm)

lemma DecodeRune_ascii:
  assumes "fst (DecodeRune s) < 128"
  shows "\<exists>c cs. s = c # cs \<and> byte c = fst (DecodeRune s) \<and> snd (DecodeRune s) = 1"
proof (cases s)
  case Nil
  then show ?thesis using assms by (simp add: RuneError_def)
next
  case (Cons c cs)
  then have "byte c < 128"
    using assms seq_nonascii[of "byte c" cs]
    by (auto simp: DecodeRune.simps(2) Let_def RuneError_def not_le split: if_split_asm)
  then show ?thesis using Cons by (simp add: DecodeRune.simps(2))
qed

lemma ascii_chunk:
  assumes "(r, b) \<in> set (chunks s)" and "r < 128"
  shows "\<exists>c. b = [c] \<and> byte c = r"
proof -
  have b: "DecodeRune b = (r, length b)" using chunk_bytes_width[OF assms(1)] by simp
  then obtain c cs where "b = c # cs" "byte c = r" "length b = 1"
    using DecodeRune_ascii[of b] assms(2) by auto
  then show ?thesis by simp
qed

lemma nonascii_chunk:
  assumes "(r, b) \<in> set (chunks s)" and "128 \<le> r" and "c \<in> set b"
  shows "128 \<le> byte c"
proof -
  have b: "DecodeRune b = (r, length b)" using chunk_bytes_width[OF assms(1)] by simp
  obtain c0 cs where c0: "b = c0 # cs" using assms(3) by (cases b) auto
  have "128 \<le> byte c0"
    using b assms(2) c0 by (cases "byte c0 < 128") (simp_all add: DecodeRune.simps(2) Let_def)
  moreover have "\<forall>c\<in>set cs. 128 \<le> byte c"
    using b c0 calculation
    by (auto simp: DecodeRune.simps(2) Let_def seq2_def seq3_def seq4_def second_ok_def byte_in_def
        split: list.split_asm if_split_asm)
  ultimately show ?thesis using assms(3) c0 by auto
qed

end
