(* ===== verification/GoJSON.thy ===== *)
theory GoJSON
  imports GoText
begin

text \<open>
  The part of Go's \<open>encoding/json\<close> that the ledger settings use: marshalling a string slice and
  decoding one JSON value into a string slice, followed by a check that only white space is left.
  A value that is not an array of strings and nulls is an error of \<open>Decode\<close> (a syntax error or an
  \<open>UnmarshalTypeError\<close>); a null element leaves the empty string.
\<close>

section \<open>Encoding\<close>

definition EncodeRune :: "nat \<Rightarrow> string" where
  "EncodeRune r =
     (if r < 128 then [char_of r]
      else if r < 2048 then [char_of (192 + r div 64), char_of (128 + r mod 64)]
      else if r < 65536 then
        [char_of (224 + r div 4096), char_of (128 + r div 64 mod 64), char_of (128 + r mod 64)]
      else [char_of (240 + r div 262144), char_of (128 + r div 4096 mod 64),
            char_of (128 + r div 64 mod 64), char_of (128 + r mod 64)])"

definition hex_digit :: "nat \<Rightarrow> char" where
  "hex_digit n = (if n < 10 then char_of (48 + n) else char_of (87 + n))"

text \<open>The escape of one decoded rune: the short escapes, the HTML-safe escapes, the line
  separators, the replacement of an invalid byte, and otherwise the bytes themselves.\<close>

definition json_escape :: "nat \<times> string \<Rightarrow> string" where
  "json_escape = (\<lambda>(r, b).
     if r = 34 \<and> length b = 1 then [CHR 0x5C, CHR 0x22]
     else if r = 92 \<and> length b = 1 then [CHR 0x5C, CHR 0x5C]
     else if r = 8 then [CHR 0x5C, CHR ''b'']
     else if r = 12 then [CHR 0x5C, CHR ''f'']
     else if r = 10 then [CHR 0x5C, CHR ''n'']
     else if r = 13 then [CHR 0x5C, CHR ''r'']
     else if r = 9 then [CHR 0x5C, CHR ''t'']
     else if r < 32 \<or> r = 60 \<or> r = 62 \<or> r = 38 then
       [CHR 0x5C, CHR ''u'', CHR ''0'', CHR ''0'', hex_digit (r div 16), hex_digit (r mod 16)]
     else if r = RuneError \<and> length b = 1 then CHR 0x5C # ''ufffd''
     else if r = 8232 then CHR 0x5C # ''u2028''
     else if r = 8233 then CHR 0x5C # ''u2029''
     else b)"

definition json_string :: "string \<Rightarrow> string" where
  "json_string s = [CHR 0x22] @ concat (map json_escape (chunks s)) @ [CHR 0x22]"

fun json_join :: "string list \<Rightarrow> string" where
  "json_join [] = []"
| "json_join [s] = json_string s"
| "json_join (s # t # ss) = json_string s @ CHR '','' # json_join (t # ss)"

definition json_marshal_strings :: "string list \<Rightarrow> string" where
  "json_marshal_strings ss = CHR ''['' # json_join ss @ [CHR '']'']"

section \<open>Decoding\<close>

definition json_space :: "char \<Rightarrow> bool" where
  "json_space c \<longleftrightarrow> c = CHR '' '' \<or> c = CHR 0x09 \<or> c = CHR 0x0A \<or> c = CHR 0x0D"

definition skip_space :: "string \<Rightarrow> string" where
  "skip_space s = dropWhile json_space s"

definition hex_val :: "char \<Rightarrow> nat option" where
  "hex_val c =
     (let b = byte c in
      if 48 \<le> b \<and> b \<le> 57 then Some (b - 48)
      else if 97 \<le> b \<and> b \<le> 102 then Some (b - 87)
      else if 65 \<le> b \<and> b \<le> 70 then Some (b - 55)
      else None)"

definition hex4 :: "char \<Rightarrow> char \<Rightarrow> char \<Rightarrow> char \<Rightarrow> nat option" where
  "hex4 a b c d =
     (case (hex_val a, hex_val b, hex_val c, hex_val d) of
        (Some p, Some q, Some r, Some s) \<Rightarrow> Some (p * 4096 + q * 256 + r * 16 + s)
      | _ \<Rightarrow> None)"

definition IsSurrogate :: "nat \<Rightarrow> bool" where
  "IsSurrogate r \<longleftrightarrow> 55296 \<le> r \<and> r < 57344"

text \<open>The low surrogate that a \<open>\u\<close> escape at the front of the input would supply.\<close>

definition low_surrogate :: "string \<Rightarrow> nat option" where
  "low_surrogate s =
     (case s of
        x # u # a # b # c # d # _ \<Rightarrow>
          (if x = CHR 0x5C \<and> u = CHR ''u'' then
             (case hex4 a b c d of
                Some r \<Rightarrow> if 56320 \<le> r \<and> r < 57344 then Some r else None
              | None \<Rightarrow> None)
           else None)
      | _ \<Rightarrow> None)"

definition simple_escape :: "char \<Rightarrow> char option" where
  "simple_escape e =
     (if e = CHR 0x22 \<or> e = CHR 0x5C \<or> e = CHR ''/'' then Some e
      else if e = CHR ''b'' then Some (CHR 0x08)
      else if e = CHR ''f'' then Some (CHR 0x0C)
      else if e = CHR ''n'' then Some (CHR 0x0A)
      else if e = CHR ''r'' then Some (CHR 0x0D)
      else if e = CHR ''t'' then Some (CHR 0x09)
      else None)"

definition prepend :: "string \<Rightarrow> (string \<times> string) option \<Rightarrow> (string \<times> string) option" where
  "prepend p m = map_option (\<lambda>(s, rest). (p @ s, rest)) m"

text \<open>One character or escape of a string literal: its decoded bytes and the rest.\<close>

definition json_u :: "string \<Rightarrow> (string \<times> string) option" where
  "json_u s =
     (case s of
        a # b # c # d # rest \<Rightarrow>
          (case hex4 a b c d of
             None \<Rightarrow> None
           | Some r \<Rightarrow>
               if IsSurrogate r then
                 (case (if r < 56320 then low_surrogate rest else None) of
                    Some lo \<Rightarrow>
                      Some (EncodeRune (65536 + (r - 55296) * 1024 + (lo - 56320)), drop 6 rest)
                  | None \<Rightarrow> Some (EncodeRune RuneError, rest))
               else Some (EncodeRune r, rest))
      | _ \<Rightarrow> None)"

definition json_char :: "char \<Rightarrow> string \<Rightarrow> (string \<times> string) option" where
  "json_char c cs =
     (if byte c < 32 then None
      else if c = CHR 0x5C then
        (case cs of
           [] \<Rightarrow> None
         | e # ds \<Rightarrow>
             if e = CHR ''u'' then json_u ds
             else map_option (\<lambda>x. ([x], ds)) (simple_escape e))
      else Some ([c], cs))"

lemma json_u_length: "json_u s = Some (p, rest) \<Longrightarrow> length rest < length s"
  by (auto simp: json_u_def split: list.split_asm if_split_asm option.split_asm)

lemma json_char_length: "json_char c cs = Some (p, rest) \<Longrightarrow> length rest \<le> length cs"
  by (auto simp: json_char_def split: list.split_asm if_split_asm dest: json_u_length)

text \<open>The body of a string literal after its opening quote: the decoded text and the rest.\<close>

function json_body :: "string \<Rightarrow> (string \<times> string) option" where
  "json_body [] = None"
| "json_body (c # cs) =
     (if c = CHR 0x22 then Some ([], cs)
      else (case json_char c cs of
              None \<Rightarrow> None
            | Some (p, rest) \<Rightarrow> prepend p (json_body rest)))"
  by pat_completeness auto
termination
proof (relation "measure length")
  fix c cs x p rest
  assume "json_char c cs = Some x" and "(p, rest) = x"
  then show "(rest, c # cs) \<in> measure length"
    using json_char_length[of c cs p rest] by simp
qed simp

lemma json_body_length: "json_body s = Some (t, rest) \<Longrightarrow> length rest < length s"
proof (induction s arbitrary: t rest rule: json_body.induct)
  case (2 c cs)
  show ?case
  proof (cases "c = CHR 0x22")
    case False
    then obtain p r where step: "json_char c cs = Some (p, r)"
      and "prepend p (json_body r) = Some (t, rest)"
      using "2.prems" by (auto split: option.split_asm)
    then obtain t' where "json_body r = Some (t', rest)" by (auto simp: prepend_def)
    then have "length rest < length r" using "2.IH"[OF False step refl] by blast
    then show ?thesis using json_char_length[OF step] by simp
  qed (use "2.prems" in simp)
qed simp

definition json_element :: "string \<Rightarrow> (string \<times> string) option" where
  "json_element s =
     (case s of
        c # cs \<Rightarrow> if c = CHR 0x22 then json_body cs
                  else if take 4 s = ''null'' then Some ([], drop 4 s)
                  else None
      | [] \<Rightarrow> None)"

lemma json_element_length: "json_element s = Some (t, rest) \<Longrightarrow> length rest < length s"
  by (auto simp: json_element_def split: list.split_asm if_split_asm dest: json_body_length)

lemma skip_space_length: "length (skip_space s) \<le> length s"
  by (simp add: skip_space_def length_dropWhile_le)

text \<open>The elements of an array after its opening bracket or a comma.\<close>

function json_elements :: "string \<Rightarrow> (string list \<times> string) option" where
  "json_elements s =
     (case json_element (skip_space s) of
        None \<Rightarrow> None
      | Some (x, rest) \<Rightarrow>
          (case skip_space rest of
             [] \<Rightarrow> None
           | c # cs \<Rightarrow>
               if c = CHR '']'' then Some ([x], cs)
               else if c = CHR '','' then
                 map_option (\<lambda>(xs, r). (x # xs, r)) (json_elements cs)
               else None))"
  by pat_completeness auto
termination
proof (relation "measure length")
  fix s :: string and x21 x rest c cs
  assume "json_element (skip_space s) = Some x21" and "(x, rest) = x21"
    and "skip_space rest = c # cs"
  then have "length rest < length s" "length (c # cs) \<le> length rest"
    using json_element_length[of "skip_space s" x rest] skip_space_length[of s]
      skip_space_length[of rest] by auto
  then show "(cs, s) \<in> measure length" by simp
qed simp

declare json_elements.simps [simp del]

text \<open>\<open>Decode(&items)\<close>: the decoded slice and the unread input. \<open>None\<close> is an error or a nil slice.\<close>

definition json_decode_strings :: "string \<Rightarrow> (string list \<times> string) option" where
  "json_decode_strings s =
     (case skip_space s of
        [] \<Rightarrow> None
      | c # cs \<Rightarrow>
          if c = CHR ''['' then
            (case skip_space cs of
               d # ds \<Rightarrow> if d = CHR '']'' then Some ([], ds) else json_elements cs
             | [] \<Rightarrow> None)
          else None)"

text \<open>A second \<open>Decode\<close> answers \<open>io.EOF\<close> exactly when only white space is left.\<close>

definition json_at_eof :: "string \<Rightarrow> bool" where
  "json_at_eof s \<longleftrightarrow> skip_space s = []"

section \<open>Round trip\<close>

lemma prepend_simps [simp]:
  "prepend p None = None" "prepend p (Some (s, rest)) = Some (p @ s, rest)"
  by (simp_all add: prepend_def)

lemma prepend_prepend [simp]: "prepend p (prepend q m) = prepend (p @ q) m"
  by (cases m) (auto simp: prepend_def)

lemma prepend_Nil [simp]: "prepend [] m = m"
  by (cases m) (auto simp: prepend_def)

lemma json_body_raw: "(\<And>c. c \<in> set b \<Longrightarrow> 128 \<le> byte c) \<Longrightarrow> json_body (b @ t) = prepend b (json_body t)"
proof (induction b)
  case (Cons c cs)
  have c: "128 \<le> byte c" using Cons.prems by simp
  then have ne: "c \<noteq> CHR 0x22" "c \<noteq> CHR 0x5C" "\<not> byte c < 32" by auto
  have "json_body (cs @ t) = prepend cs (json_body t)" using Cons by simp
  then show ?case by (simp add: json_char_def ne)
qed simp

lemma hex_val_digit: "n < 16 \<Longrightarrow> hex_val (hex_digit n) = Some n"
  by (auto simp: hex_val_def hex_digit_def Let_def)

lemma hex_val_0: "hex_val (CHR ''0'') = Some 0"
  by (simp add: hex_val_def)

lemma json_body_u00:
  assumes "r < 128"
  shows "json_body (CHR 0x5C # CHR ''u'' # CHR ''0'' # CHR ''0'' # hex_digit (r div 16)
            # hex_digit (r mod 16) # t) = prepend [char_of r] (json_body t)"
proof -
  have "hex4 (CHR ''0'') (CHR ''0'') (hex_digit (r div 16)) (hex_digit (r mod 16)) = Some r"
    using assms by (simp add: hex4_def hex_val_digit hex_val_0 less_mult_imp_div_less)
  moreover have "\<not> IsSurrogate r" using assms by (simp add: IsSurrogate_def)
  ultimately show ?thesis
    using assms by (simp add: json_char_def json_u_def EncodeRune_def)
qed

lemma json_body_escape:
  assumes chunk: "(r, b) \<in> set (chunks s)" and ok: "\<not> (r = RuneError \<and> length b = 1)"
    and sep: "r \<noteq> 8232" "r \<noteq> 8233"
  shows "json_body (json_escape (r, b) @ t) = prepend b (json_body t)"
proof (cases "r < 128")
  case False
  then have "\<And>c. c \<in> set b \<Longrightarrow> 128 \<le> byte c" using nonascii_chunk[OF chunk] by simp
  moreover have "json_escape (r, b) = b"
    using False ok sep by (auto simp: json_escape_def)
  ultimately show ?thesis by (simp add: json_body_raw)
next
  case True
  then obtain c where b: "b = [c]" and r: "byte c = r" using ascii_chunk[OF chunk] by blast
  have c: "c = char_of r" using r by (metis char_of_char)
  have re: "r \<noteq> RuneError" using True by (simp add: RuneError_def)
  consider "r = 34" | "r = 92" | "r = 8" | "r = 12" | "r = 10" | "r = 13" | "r = 9"
    | "r \<notin> {34, 92, 8, 12, 10, 13, 9}" "r < 32 \<or> r = 60 \<or> r = 62 \<or> r = 38"
    | "r \<notin> {34, 92, 8, 12, 10, 13, 9}" "\<not> (r < 32 \<or> r = 60 \<or> r = 62 \<or> r = 38)"
    by auto
  then show ?thesis
  proof cases
    case 8
    have esc: "json_escape (r, b) = [CHR 0x5C, CHR ''u'', CHR ''0'', CHR ''0'',
        hex_digit (r div 16), hex_digit (r mod 16)]"
      using 8 b by (simp add: json_escape_def)
    show ?thesis using json_body_u00[OF True, of t] unfolding esc by (simp add: b c)
  next
    case 9
    have esc: "json_escape (r, b) = b" using 9 re sep by (simp add: json_escape_def)
    have "c \<noteq> CHR 0x22" "c \<noteq> CHR 0x5C" "\<not> byte c < 32" using 9 r by auto
    then show ?thesis unfolding esc by (simp add: b json_char_def)
  qed (simp_all add: json_escape_def b c json_char_def simple_escape_def char_of_def bit_Suc_0_iff)
qed

definition json_plain :: "string \<Rightarrow> bool" where
  "json_plain s \<longleftrightarrow> ValidString s \<and> (\<forall>r\<in>set (runes s). r \<noteq> 8232 \<and> r \<noteq> 8233)"

lemma json_body_string:
  assumes "json_plain s"
  shows "json_body (concat (map json_escape (chunks s)) @ CHR 0x22 # rest) = Some (s, rest)"
proof -
  have "set cs \<subseteq> set (chunks s) \<Longrightarrow>
      json_body (concat (map json_escape cs) @ CHR 0x22 # rest) = Some (concat (map snd cs), rest)"
    for cs
  proof (induction cs)
    case (Cons x cs)
    obtain r b where x: "x = (r, b)" by (cases x)
    have "(r, b) \<in> set (chunks s)" using Cons.prems x by simp
    moreover have "\<not> (r = RuneError \<and> length b = 1)" "r \<noteq> 8232" "r \<noteq> 8233"
      using assms calculation
      by (force simp: json_plain_def ValidString_def list_all_iff runes_def)+
    ultimately show ?case
      using Cons x by (simp add: json_body_escape)
  qed simp
  from this[of "chunks s"] show ?thesis by simp
qed

lemma json_element_string: "json_plain s \<Longrightarrow> json_element (json_string s @ rest) = Some (s, rest)"
  by (simp add: json_element_def json_string_def json_body_string)

lemma skip_space_id [simp]: "\<not> json_space c \<Longrightarrow> skip_space (c # cs) = c # cs"
  by (simp add: skip_space_def)

lemma skip_space_Nil [simp]: "skip_space [] = []"
  by (simp add: skip_space_def)

lemma not_json_space [simp]:
  "\<not> json_space (CHR 0x22)" "\<not> json_space (CHR '','')" "\<not> json_space (CHR ''['')"
  "\<not> json_space (CHR '']'')"
  by (simp_all add: json_space_def)

lemma skip_space_string [simp]: "skip_space (json_string s @ rest) = json_string s @ rest"
  by (simp add: json_string_def)

lemma json_elements_join:
  "ss \<noteq> [] \<Longrightarrow> (\<And>s. s \<in> set ss \<Longrightarrow> json_plain s) \<Longrightarrow>
     json_elements (json_join ss @ CHR '']'' # rest) = Some (ss, rest)"
proof (induction ss rule: json_join.induct)
  case (2 s)
  then show ?case by (subst json_elements.simps) (simp add: json_element_string)
next
  case (3 s t ss)
  then show ?case by (subst json_elements.simps) (simp add: json_element_string)
qed simp

theorem json_strings_roundtrip:
  assumes "\<And>s. s \<in> set ss \<Longrightarrow> json_plain s"
  shows "json_decode_strings (json_marshal_strings ss) = Some (ss, [])"
proof (cases "ss = []")
  case True
  then show ?thesis by (simp add: json_decode_strings_def json_marshal_strings_def)
next
  case False
  then obtain s ts where ss: "ss = s # ts" by (cases ss) auto
  then obtain w where w: "json_join ss = CHR 0x22 # w"
    by (cases ts) (simp_all add: json_string_def)
  have "json_elements (json_join ss @ [CHR '']'']) = Some (ss, [])"
    using json_elements_join[OF False assms] by simp
  then show ?thesis
    by (simp add: json_decode_strings_def json_marshal_strings_def w)
qed

text \<open>What is marshalled is valid UTF-8 again, which the parser of settings demands.\<close>

lemma ValidString_concat: "(\<And>s. s \<in> set ss \<Longrightarrow> ValidString s) \<Longrightarrow> ValidString (concat ss)"
  by (induction ss) (simp_all add: ValidString_append)

lemma ValidString_chunk:
  assumes "(r, b) \<in> set (chunks s)" and "\<not> (r = RuneError \<and> length b = 1)"
  shows "ValidString b"
  using chunk_bytes_width[OF assms(1)] assms(2)
  by (simp add: ValidString_def chunks_step)

lemma hex_digit_ascii: "n < 16 \<Longrightarrow> byte (hex_digit n) < 128"
  by (auto simp: hex_digit_def)

lemma ValidString_escape:
  assumes chunk: "(r, b) \<in> set (chunks s)" and ok: "\<not> (r = RuneError \<and> length b = 1)"
  shows "ValidString (json_escape (r, b))"
proof (cases "r < 128")
  case True
  have "r div 16 < 16" using True by simp
  then show ?thesis
    using ValidString_chunk[OF assms]
    by (auto simp: json_escape_def ValidString_ascii hex_digit_ascii)
next
  case False
  then show ?thesis
    using ValidString_chunk[OF assms] ok
    by (auto simp: json_escape_def ValidString_ascii)
qed

lemma ValidString_json_string:
  assumes "ValidString s"
  shows "ValidString (json_string s)"
proof -
  have "ValidString (json_escape x)" if "x \<in> set (chunks s)" for x
    using assms that ValidString_escape[of "fst x" "snd x" s]
    by (auto simp: ValidString_def[of s] list_all_iff)
  then have "ValidString (concat (map json_escape (chunks s)))"
    by (intro ValidString_concat) auto
  then show ?thesis
    unfolding json_string_def by (auto simp: ValidString_ascii intro!: ValidString_append)
qed

lemma ValidString_json_join:
  "(\<And>s. s \<in> set ss \<Longrightarrow> ValidString s) \<Longrightarrow> ValidString (json_join ss)"
  by (induction ss rule: json_join.induct)
     (auto simp: ValidString_ascii intro!: ValidString_json_string ValidString_append)

lemma ValidString_marshal:
  "(\<And>s. s \<in> set ss \<Longrightarrow> ValidString s) \<Longrightarrow> ValidString (json_marshal_strings ss)"
  unfolding json_marshal_strings_def
  by (auto simp: ValidString_ascii intro!: ValidString_json_join ValidString_append)

end
