(* ===== verification/Validation.thy ===== *)
theory Validation
  imports GoJSON
begin

text \<open>
  The package \<open>backend/validation\<close>: bounds and checked arithmetic on amounts (\<open>amount.go\<close>), tag
  names and tag levels (\<open>tag.go\<close>), and the text and setting policies shared by every write path
  (\<open>text.go\<close>). Error values keep the branch that produced them; the human-readable texts are not
  modelled.
\<close>

datatype text_label = LAccount | LItem | LMemo | LType | LSettingItem

datatype verr =
    ErrAmountNotPositive | ErrAmountTooLarge | ErrInt64Range
  | ErrTagNameRequired | ErrTagNameUTF8 | ErrTagNameTooLong | ErrTagNameRune
  | ErrTagNameLineSeparator | ErrTagNamePathSeparator
  | ErrTagLevel | ErrRootLevel | ErrParentLevel | ErrLevelStep
  | ErrTextRequired text_label | ErrTextUTF8 text_label | ErrTextTooLong text_label
  | ErrTextRune text_label | ErrTextControl text_label
  | ErrSettingCount | ErrSettingDuplicate | ErrSettingShape | ErrSettingTrailing

section \<open>amount.go\<close>

definition MaxInt64 :: int64 where
  "MaxInt64 = 0x7FFFFFFFFFFFFFFF"

definition MinInt64 :: int64 where
  "MinInt64 = 0x8000000000000000"

definition MaxTransactionAmount :: int64 where
  "MaxTransactionAmount = 1000000000"

definition ValidateTransactionAmount :: "int64 \<Rightarrow> (verr, unit) result" where
  "ValidateTransactionAmount amount =
     (if sint amount \<le> 0 then Inl ErrAmountNotPositive
      else if sint amount > sint MaxTransactionAmount then Inl ErrAmountTooLarge
      else Inr ())"

text \<open>Both operations compute the bound with Go's wrapping \<open>int64\<close> arithmetic before comparing.\<close>

definition CheckedAddInt64 :: "int64 \<Rightarrow> int64 \<Rightarrow> (verr, int64) result" where
  "CheckedAddInt64 a b =
     (if (sint b > 0 \<and> sint a > sint (MaxInt64 - b)) \<or> (sint b < 0 \<and> sint a < sint (MinInt64 - b))
      then Inl ErrInt64Range else Inr (a + b))"

definition CheckedSubInt64 :: "int64 \<Rightarrow> int64 \<Rightarrow> (verr, int64) result" where
  "CheckedSubInt64 a b =
     (if (sint b > 0 \<and> sint a < sint (MinInt64 + b)) \<or> (sint b < 0 \<and> sint a > sint (MaxInt64 + b))
      then Inl ErrInt64Range else Inr (a - b))"

section \<open>tag.go\<close>

definition MaxTagNameBytes :: nat where
  "MaxTagNameBytes = 255"

definition MaxTagLevel :: int where
  "MaxTagLevel = 3"

fun tag_name_runes :: "nat list \<Rightarrow> (verr, unit) result" where
  "tag_name_runes [] = Inr ()"
| "tag_name_runes (r # rs) =
     (if IsControl r \<or> IsCf r then Inl ErrTagNameRune
      else if r = 8232 \<or> r = 8233 then Inl ErrTagNameLineSeparator
      else if r = 47 \<or> r = 92 then Inl ErrTagNamePathSeparator
      else tag_name_runes rs)"

definition ValidateTagName :: "string \<Rightarrow> (verr, string) result" where
  "ValidateTagName name0 =
     (let name = TrimSpace name0 in
      if name = [] then Inl ErrTagNameRequired
      else if \<not> ValidString name then Inl ErrTagNameUTF8
      else if length name > MaxTagNameBytes then Inl ErrTagNameTooLong
      else bindE (tag_name_runes (runes name)) (\<lambda>_. Inr name))"

definition ValidateTagLevel :: "int \<Rightarrow> (verr, unit) result" where
  "ValidateTagLevel level = (if level < 1 \<or> level > MaxTagLevel then Inl ErrTagLevel else Inr ())"

definition ValidateTagHierarchy :: "int \<Rightarrow> int option \<Rightarrow> (verr, unit) result" where
  "ValidateTagHierarchy level parentLevel =
     bindE (ValidateTagLevel level) (\<lambda>_.
       case parentLevel of
         None \<Rightarrow> if level \<noteq> 1 then Inl ErrRootLevel else Inr ()
       | Some p \<Rightarrow>
           bindE (mapErr (\<lambda>_. ErrParentLevel) (ValidateTagLevel p)) (\<lambda>_.
             if p + 1 \<noteq> level then Inl ErrLevelStep else Inr ()))"

section \<open>text.go\<close>

definition MaxAccountBytes :: int where "MaxAccountBytes = 256"
definition MaxItemBytes :: int where "MaxItemBytes = 512"
definition MaxMemoBytes :: int where "MaxMemoBytes = 4096"
definition MaxSettingItemBytes :: int where "MaxSettingItemBytes = 255"
definition MaxSettingItems :: int where "MaxSettingItems = 4096"

datatype LedgerSettingParseMode = LedgerSettingStrict | LedgerSettingArchive

fun ledger_text_runes :: "text_label \<Rightarrow> nat list \<Rightarrow> (verr, unit) result" where
  "ledger_text_runes l [] = Inr ()"
| "ledger_text_runes l (r # rs) =
     (if r = 0 \<or> IsCf r \<or> r = 8232 \<or> r = 8233 then Inl (ErrTextRune l)
      else if IsControl r \<and> r \<noteq> 9 \<and> r \<noteq> 10 \<and> r \<noteq> 13 then Inl (ErrTextControl l)
      else ledger_text_runes l rs)"

definition ValidateLedgerText :: "text_label \<Rightarrow> string \<Rightarrow> int \<Rightarrow> bool \<Rightarrow> (verr, unit) result" where
  "ValidateLedgerText l value maxBytes required =
     (if required \<and> value = [] then Inl (ErrTextRequired l)
      else if \<not> ValidString value then Inl (ErrTextUTF8 l)
      else if maxBytes > 0 \<and> int (length value) > maxBytes then Inl (ErrTextTooLong l)
      else ledger_text_runes l (runes value))"

fun archived_text_runes :: "text_label \<Rightarrow> nat list \<Rightarrow> (verr, unit) result" where
  "archived_text_runes l [] = Inr ()"
| "archived_text_runes l (r # rs) =
     (if r = 0 \<or> IsBidiControl r \<or> r = 8232 \<or> r = 8233 then Inl (ErrTextRune l)
      else if IsControl r \<and> r \<noteq> 9 \<and> r \<noteq> 10 \<and> r \<noteq> 13 then Inl (ErrTextControl l)
      else archived_text_runes l rs)"

definition ValidateArchivedLedgerText ::
  "text_label \<Rightarrow> string \<Rightarrow> int \<Rightarrow> bool \<Rightarrow> (verr, unit) result" where
  "ValidateArchivedLedgerText l value maxBytes required =
     (if required \<and> value = [] then Inl (ErrTextRequired l)
      else if \<not> ValidString value then Inl (ErrTextUTF8 l)
      else if maxBytes > 0 \<and> int (length value) > maxBytes then Inl (ErrTextTooLong l)
      else archived_text_runes l (runes value))"

text \<open>The loop of \<open>ValidateLedgerSettingItems\<close>; \<open>seen\<close> is its Go map used as a set.\<close>

fun setting_items_loop :: "string set \<Rightarrow> string list \<Rightarrow> (verr, unit) result" where
  "setting_items_loop seen [] = Inr ()"
| "setting_items_loop seen (item # rest) =
     bindE (ValidateLedgerText LSettingItem item MaxSettingItemBytes True) (\<lambda>_.
       if item \<in> seen then Inl ErrSettingDuplicate
       else setting_items_loop (insert item seen) rest)"

definition ValidateLedgerSettingItems :: "string list \<Rightarrow> (verr, unit) result" where
  "ValidateLedgerSettingItems items =
     (if int (length items) > MaxSettingItems then Inl ErrSettingCount
      else setting_items_loop {} items)"

text \<open>A nil slice and an empty slice are both the empty list here, and both marshal to
  \<open>[]\<close>.\<close>

definition MarshalLedgerSettingItems :: "string list \<Rightarrow> (verr, string) result" where
  "MarshalLedgerSettingItems items =
     bindE (ValidateLedgerSettingItems items) (\<lambda>_. Inr (json_marshal_strings items))"

definition ParseLedgerSettingItems :: "string \<Rightarrow> (verr, string list) result" where
  "ParseLedgerSettingItems value =
     (if \<not> ValidString value \<or> value = [] then Inl ErrSettingShape
      else (case json_decode_strings value of
              None \<Rightarrow> Inl ErrSettingShape
            | Some (items, rest) \<Rightarrow>
                if \<not> json_at_eof rest then Inl ErrSettingTrailing
                else bindE (ValidateLedgerSettingItems items) (\<lambda>_. Inr items)))"

definition ParseArchivedLedgerSettingItems ::
  "string \<Rightarrow> int \<Rightarrow> int \<Rightarrow> (verr, string list) result" where
  "ParseArchivedLedgerSettingItems value maxItemBytes maxItems =
     (if \<not> ValidString value \<or> value = [] \<or> maxItemBytes \<le> 0 \<or> maxItems \<le> 0
      then Inl ErrSettingShape
      else (case json_decode_strings value of
              None \<Rightarrow> Inl ErrSettingShape
            | Some (items, rest) \<Rightarrow>
                if \<not> json_at_eof rest then Inl ErrSettingTrailing
                else if int (length items) > maxItems then Inl ErrSettingCount
                else bindE (foldE (\<lambda>item _.
                       ValidateArchivedLedgerText LSettingItem item maxItemBytes False) items ())
                     (\<lambda>_. Inr items)))"

definition ParseLedgerSettingItemsWithMode ::
  "string \<Rightarrow> LedgerSettingParseMode \<Rightarrow> int \<Rightarrow> int \<Rightarrow> (verr, string list \<times> bool) result" where
  "ParseLedgerSettingItemsWithMode value mode maxItemBytes maxItems =
     (if mode = LedgerSettingArchive
      then bindE (ParseArchivedLedgerSettingItems value maxItemBytes maxItems)
             (\<lambda>items. Inr (items, True))
      else bindE (ParseLedgerSettingItems value) (\<lambda>items. Inr (items, False)))"

section \<open>Checked arithmetic is exact\<close>

definition in_int64 :: "int \<Rightarrow> bool" where
  "in_int64 n \<longleftrightarrow> - (2 ^ 63) \<le> n \<and> n < 2 ^ 63"

lemma in_int64_sint [simp]: "in_int64 (sint (a :: int64))"
  using sint_greater_eq[of a] sint_lt[of a] by (simp add: in_int64_def)

lemma signed_take_bit_63: "in_int64 n \<Longrightarrow> signed_take_bit 63 n = n"
  by (auto simp: in_int64_def intro!: signed_take_bit_int_eq_self)

lemma sint_add64: "in_int64 (sint a + sint b) \<Longrightarrow> sint (a + b :: int64) = sint a + sint b"
  by (simp add: sint_word_ariths signed_take_bit_63)

lemma sint_sub64: "in_int64 (sint a - sint b) \<Longrightarrow> sint (a - b :: int64) = sint a - sint b"
  by (simp add: sint_word_ariths signed_take_bit_63)

lemma sint_MaxInt64 [simp]: "sint MaxInt64 = 2 ^ 63 - 1"
  by (simp add: MaxInt64_def)

lemma sint_MinInt64 [simp]: "sint MinInt64 = - (2 ^ 63)"
  by (simp add: MinInt64_def)

lemma sint_MaxTransactionAmount [simp]: "sint MaxTransactionAmount = 1000000000"
  by (simp add: MaxTransactionAmount_def)

lemma checked_bounds:
  "0 < sint b \<Longrightarrow> sint (MaxInt64 - b) = 2 ^ 63 - 1 - sint b"
  "sint b < 0 \<Longrightarrow> sint (MinInt64 - b) = - (2 ^ 63) - sint b"
  "0 < sint b \<Longrightarrow> sint (MinInt64 + b) = - (2 ^ 63) + sint b"
  "sint b < 0 \<Longrightarrow> sint (MaxInt64 + b) = 2 ^ 63 - 1 + sint b"
  using in_int64_sint[of b]
  by (simp_all add: sint_sub64 sint_add64 in_int64_def)

lemma CheckedAddInt64_eq:
  "CheckedAddInt64 a b =
     (if in_int64 (sint a + sint b) then Inr (a + b) else Inl ErrInt64Range)"
proof -
  have "(sint b > 0 \<and> sint a > sint (MaxInt64 - b)) \<or> (sint b < 0 \<and> sint a < sint (MinInt64 - b))
      \<longleftrightarrow> \<not> in_int64 (sint a + sint b)"
    using in_int64_sint[of a] checked_bounds(1,2)[of b]
    by (cases "sint b" "0 :: int" rule: linorder_cases) (auto simp: in_int64_def)
  then show ?thesis by (simp add: CheckedAddInt64_def)
qed

lemma CheckedSubInt64_eq:
  "CheckedSubInt64 a b =
     (if in_int64 (sint a - sint b) then Inr (a - b) else Inl ErrInt64Range)"
proof -
  have "(sint b > 0 \<and> sint a < sint (MinInt64 + b)) \<or> (sint b < 0 \<and> sint a > sint (MaxInt64 + b))
      \<longleftrightarrow> \<not> in_int64 (sint a - sint b)"
    using in_int64_sint[of a] checked_bounds(3,4)[of b]
    by (cases "sint b" "0 :: int" rule: linorder_cases) (auto simp: in_int64_def)
  then show ?thesis by (simp add: CheckedSubInt64_def)
qed

lemma sint_inject: "sint a = sint b \<longleftrightarrow> a = (b :: int64)"
  by (metis scast_id scast_eq)

lemma CheckedAddInt64_Inr:
  "CheckedAddInt64 a b = Inr c \<longleftrightarrow> in_int64 (sint a + sint b) \<and> sint c = sint a + sint b"
  by (auto simp: CheckedAddInt64_eq sint_add64 sint_inject[symmetric])

lemma CheckedSubInt64_Inr:
  "CheckedSubInt64 a b = Inr c \<longleftrightarrow> in_int64 (sint a - sint b) \<and> sint c = sint a - sint b"
  by (auto simp: CheckedSubInt64_eq sint_sub64 sint_inject[symmetric])

lemma ValidateTransactionAmount_iff:
  "ValidateTransactionAmount a = Inr u \<longleftrightarrow> 1 \<le> sint a \<and> sint a \<le> 1000000000"
  by (auto simp: ValidateTransactionAmount_def)

section \<open>Tag names\<close>

lemma tag_name_runes_ok:
  "tag_name_runes rs = Inr u \<longleftrightarrow>
     (\<forall>r\<in>set rs. \<not> IsControl r \<and> \<not> IsCf r \<and> r \<noteq> 8232 \<and> r \<noteq> 8233 \<and> r \<noteq> 47 \<and> r \<noteq> 92)"
  by (induction rs) auto

lemma ValidateTagName_iff:
  "ValidateTagName n = Inr c \<longleftrightarrow>
     c = TrimSpace n \<and> c \<noteq> [] \<and> ValidString c \<and> length c \<le> MaxTagNameBytes \<and>
     (\<forall>r\<in>set (runes c). \<not> IsControl r \<and> \<not> IsCf r \<and> r \<noteq> 8232 \<and> r \<noteq> 8233 \<and> r \<noteq> 47 \<and> r \<noteq> 92)"
  by (auto simp: ValidateTagName_def Let_def res_simps tag_name_runes_ok not_less)

lemma ascii_in_runes:
  assumes "ValidString s" and "c \<in> set s" and "byte c < 128"
  shows "byte c \<in> set (runes s)"
proof -
  from assms(2) obtain b where b: "b \<in> set (map snd (chunks s))" "c \<in> set b"
    by (metis UN_iff concat_chunks set_concat)
  then obtain r where rb: "(r, b) \<in> set (chunks s)" by auto
  have "r < 128" using nonascii_chunk[OF rb _ b(2)] assms(3) by (meson not_le)
  then obtain c' where "b = [c']" "byte c' = r" using ascii_chunk[OF rb] by blast
  then show ?thesis using rb b(2) by (force simp: runes_def)
qed

section \<open>Text policies\<close>

text \<open>
  The contract both text validators implement: acceptance is presence, valid UTF-8, a byte bound
  and a set of forbidden runes.
\<close>

locale text_policy =
  fixes validate :: "text_label \<Rightarrow> string \<Rightarrow> int \<Rightarrow> bool \<Rightarrow> (verr, unit) result"
    and forbidden :: "nat \<Rightarrow> bool"
  assumes accepts: "validate l v m req = Inr u \<longleftrightarrow>
      (req \<longrightarrow> v \<noteq> []) \<and> ValidString v \<and> (0 < m \<longrightarrow> int (length v) \<le> m) \<and>
      (\<forall>r\<in>set (runes v). \<not> forbidden r)"
begin

lemma accepts_relax:
  assumes "validate l v m req = Inr u" and "m \<le> m'" and "0 < m" and "req' \<longrightarrow> req"
  shows "validate l' v m' req' = Inr u"
  using assms accepts by auto

lemma accepts_append:
  assumes "validate l v m req = Inr u" and "validate l w m' req' = Inr u" and "0 < m" and "0 < m'"
  shows "validate l (v @ w) (m + m') (req \<or> req') = Inr u"
  using assms by (auto simp: accepts ValidString_append runes_def chunks_append)

lemma rejects_forbidden:
  assumes "r \<in> set (runes v)" and "forbidden r"
  shows "\<not> okE (validate l v m req)"
  using assms accepts by (auto simp: okE_iff)

end

definition ledger_forbidden :: "nat \<Rightarrow> bool" where
  "ledger_forbidden r \<longleftrightarrow> r = 0 \<or> IsCf r \<or> r = 8232 \<or> r = 8233 \<or>
     (IsControl r \<and> r \<noteq> 9 \<and> r \<noteq> 10 \<and> r \<noteq> 13)"

definition archive_forbidden :: "nat \<Rightarrow> bool" where
  "archive_forbidden r \<longleftrightarrow> r = 0 \<or> IsBidiControl r \<or> r = 8232 \<or> r = 8233 \<or>
     (IsControl r \<and> r \<noteq> 9 \<and> r \<noteq> 10 \<and> r \<noteq> 13)"

lemma ledger_text_runes_ok:
  "ledger_text_runes l rs = Inr u \<longleftrightarrow> (\<forall>r\<in>set rs. \<not> ledger_forbidden r)"
  by (induction rs) (auto simp: ledger_forbidden_def)

lemma archived_text_runes_ok:
  "archived_text_runes l rs = Inr u \<longleftrightarrow> (\<forall>r\<in>set rs. \<not> archive_forbidden r)"
  by (induction rs) (auto simp: archive_forbidden_def)

interpretation ledger_text: text_policy ValidateLedgerText ledger_forbidden
  by unfold_locales (auto simp: ValidateLedgerText_def ledger_text_runes_ok)

interpretation archived_text: text_policy ValidateArchivedLedgerText archive_forbidden
  by unfold_locales (auto simp: ValidateArchivedLedgerText_def archived_text_runes_ok)

lemma archive_forbidden_imp: "archive_forbidden r \<Longrightarrow> ledger_forbidden r"
  by (auto simp: archive_forbidden_def ledger_forbidden_def IsBidiControl_imp_IsCf)

section \<open>Setting items\<close>

lemma setting_items_loop_ok:
  "setting_items_loop seen items = Inr u \<longleftrightarrow>
     distinct items \<and> set items \<inter> seen = {} \<and>
     (\<forall>i\<in>set items. ValidateLedgerText LSettingItem i MaxSettingItemBytes True = Inr ())"
  by (induction items arbitrary: seen) (auto simp: res_simps)

lemma ValidateLedgerSettingItems_iff:
  "ValidateLedgerSettingItems items = Inr u \<longleftrightarrow>
     int (length items) \<le> MaxSettingItems \<and> distinct items \<and>
     (\<forall>i\<in>set items. ValidateLedgerText LSettingItem i MaxSettingItemBytes True = Inr ())"
  by (auto simp: ValidateLedgerSettingItems_def setting_items_loop_ok)

lemma ledger_text_json_plain:
  "ValidateLedgerText l s m req = Inr u \<Longrightarrow> json_plain s"
  by (auto simp: ledger_text.accepts json_plain_def ledger_forbidden_def)

lemma setting_items_json:
  assumes "ValidateLedgerSettingItems items = Inr u"
  shows "json_decode_strings (json_marshal_strings items) = Some (items, [])"
    and "ValidString (json_marshal_strings items)"
  using assms
  by (auto simp: ValidateLedgerSettingItems_iff ledger_text.accepts
      intro!: json_strings_roundtrip ledger_text_json_plain ValidString_marshal)

lemma json_marshal_ne [simp]: "json_marshal_strings items \<noteq> []"
  by (simp add: json_marshal_strings_def)

lemma json_at_eof_Nil [simp]: "json_at_eof []"
  by (simp add: json_at_eof_def)

lemma archived_of_ledger:
  assumes "ValidateLedgerText l v m True = Inr u" and "0 < m" and "m \<le> m'"
  shows "ValidateArchivedLedgerText l' v m' req = Inr ()"
  using assms archive_forbidden_imp
  by (auto simp: ledger_text.accepts archived_text.accepts)

lemma foldE_unit_ok: "foldE (\<lambda>x _. f x) xs () = Inr () \<longleftrightarrow> (\<forall>x\<in>set xs. f x = Inr ())"
  by (induction xs) (auto simp: res_simps)

section \<open>Properties\<close>

text \<open>Checked addition and subtraction never wrap: they return the exact sum or difference when it is a
  64-bit value, and otherwise fail.\<close>

theorem checked_arithmetic_exact:
  "CheckedAddInt64 a b = (if in_int64 (sint a + sint b) then Inr (word_of_int (sint a + sint b)) else Inl ErrInt64Range) \<and>
   CheckedSubInt64 a b = (if in_int64 (sint a - sint b) then Inr (word_of_int (sint a - sint b)) else Inl ErrInt64Range)"
  by (simp add: CheckedAddInt64_eq CheckedSubInt64_eq)

text \<open>The stored form of a tag name is canonical: validating an accepted name again accepts it
  unchanged, and it has no surrounding space, no path separator and at most 255 bytes.\<close>

theorem tag_name_canonical:
  assumes "ValidateTagName name = Inr c"
  shows "ValidateTagName c = Inr c \<and> TrimSpace c = c \<and> c \<noteq> [] \<and> length c \<le> MaxTagNameBytes \<and>
    CHR ''/'' \<notin> set c"
proof -
  note iff = assms[unfolded ValidateTagName_iff]
  then have "CHR ''/'' \<notin> set c" using ascii_in_runes[of c "CHR ''/''"] by auto
  then show ?thesis using iff by (auto simp: ValidateTagName_iff)
qed

theorem tag_name_canonical_witness: "ValidateTagName ''food'' = Inr ''food'' \<and> CHR ''/'' \<notin> set ''food''"
proof -
  have "ValidateTagName '' food '' = Inr ''food''" by code_simp
  from tag_name_canonical[OF this] show ?thesis by simp
qed

text \<open>Settings are archived without loss: items that pass validation are marshalled, and the result
  parses back to the same items in the strict mode and, losing nothing, in the archive mode.\<close>

theorem setting_items_roundtrip:
  assumes "MarshalLedgerSettingItems items = Inr v"
  shows "ParseLedgerSettingItems v = Inr items"
proof -
  have ok: "ValidateLedgerSettingItems items = Inr ()" and v: "v = json_marshal_strings items"
    using assms by (auto simp: MarshalLedgerSettingItems_def res_simps)
  show ?thesis
    using setting_items_json[OF ok] ok by (simp add: ParseLedgerSettingItems_def v)
qed

theorem setting_items_roundtrip_witness:
  "ParseLedgerSettingItems (projr (MarshalLedgerSettingItems [''Visa'', ''JCB''])) = Inr [''Visa'', ''JCB'']"
proof -
  have "MarshalLedgerSettingItems [''Visa'', ''JCB''] = Inr (projr (MarshalLedgerSettingItems [''Visa'', ''JCB'']))"
    by code_simp
  from setting_items_roundtrip[OF this] show ?thesis .
qed

text \<open>Text accepted for a ledger field is accepted when an archive of it is restored, under any bound
  that is at least as large.\<close>

theorem ledger_text_restorable:
  assumes "ValidateLedgerText l v m req = Inr ()" and "0 < m" and "m \<le> m'" and "req' \<longrightarrow> req"
  shows "ValidateArchivedLedgerText l' v m' req' = Inr ()"
  using assms archive_forbidden_imp by (auto simp: ledger_text.accepts archived_text.accepts)

theorem ledger_text_restorable_witness:
  "ValidateArchivedLedgerText LMemo ''lunch'' MaxMemoBytes True = Inr ()"
  by (rule ledger_text_restorable[of LItem _ MaxItemBytes True]) (code_simp, simp_all add: MaxItemBytes_def MaxMemoBytes_def)

end
