(* ===== verification/ImageContainer.thy ===== *)
theory ImageContainer
  imports Prelude
begin

text \<open>
  The container checks of \<open>backend/core/image_security.go\<close>: JPEG, PNG, GIF and WebP byte walks that
  run before any decoder. Every index and slice of the Go code is a checked access here, with
  \<open>GoPanic\<close> for an access out of range, so that the absence of panics is a theorem and not an
  assumption. Byte offsets are natural numbers: data is at most 5 MiB, so Go's \<open>int\<close> does not
  overflow.
\<close>

unbundle bit_operations_syntax

type_synonym bytes = "8 word list"

datatype ierr =
    GoPanic
  | ErrJPEGContainer | ErrJPEGMarker | ErrJPEGNoEnd | ErrJPEGTrailing | ErrJPEGSegment
  | ErrJPEGSegmentLength | ErrJPEGScan
  | ErrPNGContainer | ErrPNGChunk | ErrPNGTrailing | ErrPNGNoEnd
  | ErrGIFContainer | ErrGIFColorTable | ErrGIFNotStill | ErrGIFExtension | ErrGIFAnimated
  | ErrGIFImageBlock | ErrGIFImageData | ErrGIFBlock | ErrGIFNoEnd
  | ErrWebPContainer | ErrWebPLength | ErrWebPChunk | ErrWebPAnimated | ErrWebPBoundary
  | ErrUnsupportedImage | ErrDimensions | ErrTooManyPixels

definition byte_at :: "bytes \<Rightarrow> nat \<Rightarrow> (ierr, 8 word) result" where
  "byte_at d i = (if i < length d then Inr (d ! i) else Inl GoPanic)"

definition slice :: "bytes \<Rightarrow> nat \<Rightarrow> nat \<Rightarrow> (ierr, bytes) result" where
  "slice d i j = (if i \<le> j \<and> j \<le> length d then Inr (take (j - i) (drop i d)) else Inl GoPanic)"

fun be_uint :: "bytes \<Rightarrow> nat" where
  "be_uint [] = 0"
| "be_uint (b # bs) = unat b * 256 ^ length bs + be_uint bs"

fun le_uint :: "bytes \<Rightarrow> nat" where
  "le_uint [] = 0"
| "le_uint (b # bs) = unat b + 256 * le_uint bs"

lemma byte_at_Inr [res_simps]: "byte_at d i = Inr b \<longleftrightarrow> i < length d \<and> b = d ! i"
  by (auto simp: byte_at_def)

lemma byte_at_Inl [res_simps]: "byte_at d i = Inl e \<longleftrightarrow> length d \<le> i \<and> e = GoPanic"
  by (auto simp: byte_at_def)

lemma byte_at_in [simp]: "i < length d \<Longrightarrow> byte_at d i = Inr (d ! i)"
  by (simp add: byte_at_def)

lemma slice_in [simp]: "i \<le> j \<Longrightarrow> j \<le> length d \<Longrightarrow> slice d i j = Inr (take (j - i) (drop i d))"
  by (simp add: slice_def)

section \<open>JPEG\<close>

text \<open>The inner loop over fill bytes \<open>0xff\<close>, and the offset it stops at.\<close>

function skip_ff :: "bytes \<Rightarrow> nat \<Rightarrow> (ierr, nat) result" where
  "skip_ff d i =
     (if i < length d then bindE (byte_at d i) (\<lambda>b. if b = 0xFF then skip_ff d (Suc i) else Inr i) else Inr i)"
  by pat_completeness auto
termination
  by (relation "measure (\<lambda>(d, i). length d - i)") auto

declare skip_ff.simps [simp del]

function ff_end :: "bytes \<Rightarrow> nat \<Rightarrow> nat" where
  "ff_end d i = (if i < length d \<and> d ! i = 0xFF then ff_end d (Suc i) else i)"
  by pat_completeness auto
termination
  by (relation "measure (\<lambda>(d, i). length d - i)") auto

declare ff_end.simps [simp del]

lemma skip_ff_eq [simp]: "skip_ff d i = Inr (ff_end d i)"
proof (induction d i rule: skip_ff.induct)
  case (1 d i)
  then show ?case by (subst skip_ff.simps, subst ff_end.simps) simp
qed

lemma ff_end_ge: "i \<le> ff_end d i"
  by (induction d i rule: ff_end.induct) (subst ff_end.simps, auto)

lemma ff_end_le: "i \<le> length d \<Longrightarrow> ff_end d i \<le> length d"
  by (induction d i rule: ff_end.induct) (subst ff_end.simps, auto)

lemma ff_end_gt: "i < length d \<Longrightarrow> d ! i = 0xFF \<Longrightarrow> i < ff_end d i"
  using ff_end_ge[of "Suc i" d] by (subst ff_end.simps) simp

lemma ff_end_before: "i < ff_end d i \<Longrightarrow> d ! (ff_end d i - 1) = 0xFF"
proof (induction d i rule: ff_end.induct)
  case (1 d i)
  have c: "i < length d \<and> d ! i = 0xFF" using "1.prems" by (subst (asm) ff_end.simps) (auto split: if_splits)
  then have eq: "ff_end d i = ff_end d (Suc i)" by (subst ff_end.simps) simp
  show ?case
  proof (cases "Suc i < ff_end d (Suc i)")
    case True
    then show ?thesis using "1.IH"[OF c] eq by simp
  next
    case False
    then have "ff_end d (Suc i) = Suc i" using ff_end_ge[of "Suc i" d] by simp
    then show ?thesis using eq c by simp
  qed
qed

definition restart_marker :: "8 word \<Rightarrow> bool" where
  "restart_marker m \<longleftrightarrow> 0xD0 \<le> m \<and> m \<le> 0xD7"

text \<open>The scan data after a Start-of-Scan segment: the offset of the next marker, if any.\<close>

function jpeg_scan :: "bytes \<Rightarrow> nat \<Rightarrow> (ierr, nat option) result" where
  "jpeg_scan d i =
     (if i < length d then
        bindE (byte_at d i) (\<lambda>b.
          if b \<noteq> 0xFF then jpeg_scan d (Suc i)
          else bindE (skip_ff d i) (\<lambda>j.
            if length d \<le> j then Inl ErrJPEGScan
            else bindE (byte_at d j) (\<lambda>m.
              if m = 0 \<or> restart_marker m then jpeg_scan d (Suc j)
              else Inr (Some i))))
      else Inr None)"
  by pat_completeness auto
termination
proof (relation "measure (\<lambda>(d, i). length d - i)")
  fix d :: bytes and i b j m
  assume "i < length d" "byte_at d i = Inr b" "\<not> b \<noteq> 0xFF" "skip_ff d i = Inr j" "\<not> length d \<le> j"
  then show "((d, Suc j), d, i) \<in> measure (\<lambda>(d, i). length d - i)"
    using ff_end_ge[of i d] by simp
qed auto

declare jpeg_scan.simps [simp del]

lemma jpeg_scan_ge: "jpeg_scan d i = Inr (Some p) \<Longrightarrow> i \<le> p \<and> p < length d"
proof (induction d i rule: jpeg_scan.induct)
  case (1 d i)
  have c: "i < length d" using "1.prems" by (subst (asm) jpeg_scan.simps) (simp split: if_splits)
  show ?case
  proof (cases "d ! i = 0xFF")
    case False
    then have "jpeg_scan d (Suc i) = Inr (Some p)"
      using "1.prems" c by (subst (asm) jpeg_scan.simps) simp
    then show ?thesis using "1.IH"(1)[OF c] False c by fastforce
  next
    case True
    let ?j = "ff_end d i"
    have j: "\<not> length d \<le> ?j" using "1.prems" c True
      by (subst (asm) jpeg_scan.simps) (auto simp: Let_def split: if_splits)
    show ?thesis
    proof (cases "d ! ?j = 0 \<or> restart_marker (d ! ?j)")
      case m: True
      then have "jpeg_scan d (Suc ?j) = Inr (Some p)"
        using "1.prems" c j True by (subst (asm) jpeg_scan.simps) (simp add: Let_def)
      then have "Suc ?j \<le> p \<and> p < length d" using "1.IH"(2)[OF c _ _ skip_ff_eq j] True c j m by simp
      then show ?thesis using ff_end_ge[of i d] by simp
    next
      case False
      then have "p = i"
        using "1.prems" c j True by (subst (asm) jpeg_scan.simps) (simp add: Let_def)
      then show ?thesis using c by simp
    qed
  qed
qed

function jpeg_walk :: "bytes \<Rightarrow> nat \<Rightarrow> (ierr, unit) result" where
  "jpeg_walk d i =
     (if i < length d then
        bindE (byte_at d i) (\<lambda>b.
          if b \<noteq> 0xFF then Inl ErrJPEGMarker
          else bindE (skip_ff d i) (\<lambda>j.
            if length d \<le> j then Inl ErrJPEGNoEnd
            else bindE (byte_at d j) (\<lambda>m.
              let k = Suc j in
              if m = 0xD9 then (if k \<noteq> length d then Inl ErrJPEGTrailing else Inr ())
              else if m = 0xD8 \<or> m = 0 then Inl ErrJPEGMarker
              else if m = 1 \<or> restart_marker m then jpeg_walk d k
              else if length d < k + 2 then Inl ErrJPEGSegment
              else bindE (slice d k (k + 2)) (\<lambda>w.
                let n = be_uint w in
                if n < 2 \<or> length d - k < n then Inl ErrJPEGSegmentLength
                else if m \<noteq> 0xDA then jpeg_walk d (k + n)
                else bindE (jpeg_scan d (k + n)) (\<lambda>next.
                  case next of None \<Rightarrow> Inl ErrJPEGNoEnd | Some p \<Rightarrow> jpeg_walk d p)))))
      else Inl ErrJPEGNoEnd)"
  by pat_completeness auto
termination
proof (relation "measure (\<lambda>(d, i). length d - i)")
  fix d :: bytes and i b j m k w n x p
  assume "i < length d" "skip_ff d i = Inr j" "k = Suc j" and "jpeg_scan d (k + n) = Inr x" "x = Some p"
  then show "((d, p), d, i) \<in> measure (\<lambda>(d, i). length d - i)"
    using ff_end_ge[of i d] jpeg_scan_ge[of d "k + n" p] by auto
qed (auto simp: less_Suc_eq_le intro!: diff_less_mono2 trans_le_add1 ff_end_ge)

declare jpeg_walk.simps [simp del]

definition validateJPEGContainer :: "bytes \<Rightarrow> (ierr, unit) result" where
  "validateJPEGContainer d =
     (if length d < 4 then Inl ErrJPEGContainer
      else bindE (byte_at d 0) (\<lambda>b0. if b0 \<noteq> 0xFF then Inl ErrJPEGContainer
      else bindE (byte_at d 1) (\<lambda>b1. if b1 \<noteq> 0xD8 then Inl ErrJPEGContainer
      else jpeg_walk d 2)))"

section \<open>PNG\<close>

definition png_signature :: bytes where
  "png_signature = [0x89, 0x50, 0x4E, 0x47, 0x0D, 0x0A, 0x1A, 0x0A]"

definition png_iend :: bytes where
  "png_iend = [0x49, 0x45, 0x4E, 0x44]"

function png_walk :: "bytes \<Rightarrow> nat \<Rightarrow> (ierr, unit) result" where
  "png_walk d i =
     (if i + 12 \<le> length d then
        bindE (slice d i (i + 4)) (\<lambda>w.
          let n = be_uint w; e = i + 12 + n in
          if length d < e then Inl ErrPNGChunk
          else bindE (slice d (i + 4) (i + 8)) (\<lambda>t.
            if t = png_iend then
              (if n \<noteq> 0 \<or> e \<noteq> length d then Inl ErrPNGTrailing else Inr ())
            else png_walk d e))
      else Inl ErrPNGNoEnd)"
  by pat_completeness auto
termination
  by (relation "measure (\<lambda>(d, i). length d - i)") auto

declare png_walk.simps [simp del]

definition validatePNGContainer :: "bytes \<Rightarrow> (ierr, unit) result" where
  "validatePNGContainer d =
     (if length d < 8 then Inl ErrPNGContainer
      else bindE (slice d 0 8) (\<lambda>h. if h \<noteq> png_signature then Inl ErrPNGContainer
      else png_walk d 8))"

section \<open>GIF\<close>

function skipGIFSubBlocks :: "bytes \<Rightarrow> nat \<Rightarrow> (ierr, nat option) result" where
  "skipGIFSubBlocks d i =
     (if i < length d then
        bindE (byte_at d i) (\<lambda>b.
          let n = unat b; j = Suc i in
          if n = 0 then Inr (Some j)
          else if length d - j < n then Inr None
          else skipGIFSubBlocks d (j + n))
      else Inr None)"
  by pat_completeness auto
termination
  by (relation "measure (\<lambda>(d, i). length d - i)") auto

declare skipGIFSubBlocks.simps [simp del]

text \<open>The grammar of a sequence of data sub-blocks, from offset \<open>i\<close> to just behind the empty block that ends it.\<close>

inductive gif_sub_blocks :: "bytes \<Rightarrow> nat \<Rightarrow> nat \<Rightarrow> bool" for d where
  stop: "i < length d \<Longrightarrow> d ! i = 0 \<Longrightarrow> gif_sub_blocks d i (Suc i)"
| block: "i < length d \<Longrightarrow> d ! i \<noteq> 0 \<Longrightarrow> Suc i + unat (d ! i) \<le> length d \<Longrightarrow>
    gif_sub_blocks d (Suc i + unat (d ! i)) j \<Longrightarrow> gif_sub_blocks d i j"

lemma gif_sub_blocks_gt: "gif_sub_blocks d i j \<Longrightarrow> i < j \<and> j \<le> length d"
  by (induction rule: gif_sub_blocks.induct) auto

lemma skipGIFSubBlocks_no_panic: "skipGIFSubBlocks d i \<noteq> Inl e"
proof (induction d i rule: skipGIFSubBlocks.induct)
  case (1 d i)
  then show ?case by (subst skipGIFSubBlocks.simps) (auto simp: Let_def)
qed

lemma skipGIFSubBlocks_sound: "skipGIFSubBlocks d i = Inr (Some j) \<Longrightarrow> gif_sub_blocks d i j"
proof (induction d i rule: skipGIFSubBlocks.induct)
  case (1 d i)
  have c: "i < length d" using "1.prems" by (subst (asm) skipGIFSubBlocks.simps) (simp split: if_splits)
  show ?case
  proof (cases "d ! i = 0")
    case True
    then have "j = Suc i" using "1.prems" c by (subst (asm) skipGIFSubBlocks.simps) simp
    then show ?thesis using c True by (simp add: gif_sub_blocks.stop)
  next
    case False
    then have n: "unat (d ! i) \<noteq> 0" by (simp add: unat_eq_zero)
    then have nb: "\<not> length d - Suc i < unat (d ! i)" and r: "skipGIFSubBlocks d (Suc i + unat (d ! i)) = Inr (Some j)"
      using "1.prems" c by (subst (asm) skipGIFSubBlocks.simps, simp add: Let_def split: if_splits)+
    have "gif_sub_blocks d (Suc i + unat (d ! i)) j" using "1.IH"[OF c byte_at_in[OF c] refl refl n nb r] .
    moreover have "Suc i + unat (d ! i) \<le> length d" using nb c by simp
    ultimately show ?thesis using c False by (simp add: gif_sub_blocks.block)
  qed
qed

lemma skipGIFSubBlocks_complete: "gif_sub_blocks d i j \<Longrightarrow> skipGIFSubBlocks d i = Inr (Some j)"
proof (induction rule: gif_sub_blocks.induct)
  case (block i j)
  then show ?case by (subst skipGIFSubBlocks.simps) (simp add: Let_def unat_eq_zero)
qed (subst skipGIFSubBlocks.simps, simp)

lemma skipGIFSubBlocks_iff: "skipGIFSubBlocks d i = Inr (Some j) \<longleftrightarrow> gif_sub_blocks d i j"
  using skipGIFSubBlocks_sound skipGIFSubBlocks_complete by blast

lemma skipGIFSubBlocks_gt: "skipGIFSubBlocks d i = Inr (Some j) \<Longrightarrow> i < j \<and> j \<le> length d"
  using gif_sub_blocks_gt by (simp add: skipGIFSubBlocks_iff)

text \<open>The size of the color table announced by a packed byte.\<close>

definition gif_table :: "8 word \<Rightarrow> nat" where
  "gif_table packed =
     (if packed AND 0x80 \<noteq> 0 then 3 * 2 ^ (unat (packed AND 0x07) + 1) else 0)"

function gif_walk :: "bytes \<Rightarrow> nat \<Rightarrow> nat \<Rightarrow> (ierr, unit) result" where
  "gif_walk d i frames =
     (if i < length d then
        bindE (byte_at d i) (\<lambda>b.
          if b = 0x3B then
            (if frames \<noteq> 1 \<or> Suc i \<noteq> length d then Inl ErrGIFNotStill else Inr ())
          else if b = 0x21 then
            (if length d < i + 2 then Inl ErrGIFExtension
             else bindE (skipGIFSubBlocks d (i + 2)) (\<lambda>next.
                  case next of None \<Rightarrow> Inl ErrGIFExtension | Some j \<Rightarrow> gif_walk d j frames))
          else if b = 0x2C then
            (if frames + 1 > 1 then Inl ErrGIFAnimated
             else if length d < i + 10 then Inl ErrGIFImageBlock
             else bindE (byte_at d (i + 9)) (\<lambda>packed.
               let j = i + 10 + gif_table packed in
               if length d \<le> j then Inl ErrGIFImageData
               else bindE (skipGIFSubBlocks d (Suc j)) (\<lambda>next.
                    case next of None \<Rightarrow> Inl ErrGIFImageData | Some k \<Rightarrow> gif_walk d k (frames + 1))))
          else Inl ErrGIFBlock)
      else Inl ErrGIFNoEnd)"
  by pat_completeness auto
termination
proof (relation "measure (\<lambda>(d, i, n). length d - i)")
  fix d :: bytes and i frames b x j
  assume "i < length d" "skipGIFSubBlocks d (i + 2) = Inr x" "x = Some j"
  then show "((d, j, frames), d, i, frames) \<in> measure (\<lambda>(d, i, n). length d - i)"
    using skipGIFSubBlocks_gt[of d "i + 2" j] by auto
next
  fix d :: bytes and i frames b packed j x k
  assume "i < length d" "j = i + 10 + gif_table packed" "skipGIFSubBlocks d (Suc j) = Inr x" "x = Some k"
  then show "((d, k, frames + 1), d, i, frames) \<in> measure (\<lambda>(d, i, n). length d - i)"
    using skipGIFSubBlocks_gt[of d "Suc j" k] by auto
qed simp

declare gif_walk.simps [simp del]

definition gif87a :: bytes where "gif87a = [0x47, 0x49, 0x46, 0x38, 0x37, 0x61]"
definition gif89a :: bytes where "gif89a = [0x47, 0x49, 0x46, 0x38, 0x39, 0x61]"

definition validateSingleFrameGIF :: "bytes \<Rightarrow> (ierr, unit) result" where
  "validateSingleFrameGIF d =
     (if length d < 14 then Inl ErrGIFContainer
      else bindE (slice d 0 6) (\<lambda>h.
        if h \<noteq> gif87a \<and> h \<noteq> gif89a then Inl ErrGIFContainer
        else bindE (byte_at d 10) (\<lambda>packed.
          let i = 13 + gif_table packed in
          if length d < i then Inl ErrGIFColorTable else gif_walk d i 0)))"

section \<open>WebP\<close>

definition riff :: bytes where "riff = [0x52, 0x49, 0x46, 0x46]"
definition webp :: bytes where "webp = [0x57, 0x45, 0x42, 0x50]"
definition anim_chunk :: bytes where "anim_chunk = [0x41, 0x4E, 0x49, 0x4D]"
definition anmf_chunk :: bytes where "anmf_chunk = [0x41, 0x4E, 0x4D, 0x46]"
definition vp8x_chunk :: bytes where "vp8x_chunk = [0x56, 0x50, 0x38, 0x58]"

function webp_walk :: "bytes \<Rightarrow> nat \<Rightarrow> (ierr, unit) result" where
  "webp_walk d i =
     (if i + 8 \<le> length d then
        bindE (slice d i (i + 4)) (\<lambda>t.
        bindE (slice d (i + 4) (i + 8)) (\<lambda>w.
          let n = le_uint w; s = i + 8; e = s + n in
          if length d < e then Inl ErrWebPChunk
          else if t = anim_chunk \<or> t = anmf_chunk then Inl ErrWebPAnimated
          else bindE (if t = vp8x_chunk \<and> 1 \<le> n
                      then bindE (byte_at d s) (\<lambda>f. Inr (f AND 0x02 \<noteq> 0)) else Inr False)
            (\<lambda>animated.
              if animated then Inl ErrWebPAnimated
              else webp_walk d (if odd n then Suc e else e))))
      else if i \<noteq> length d then Inl ErrWebPBoundary
      else Inr ())"
  by pat_completeness auto
termination
  by (relation "measure (\<lambda>(d, i). length d - i)") auto

declare webp_walk.simps [simp del]

definition validateStillWebP :: "bytes \<Rightarrow> (ierr, unit) result" where
  "validateStillWebP d =
     (if length d < 20 then Inl ErrWebPContainer
      else bindE (slice d 0 4) (\<lambda>h. if h \<noteq> riff then Inl ErrWebPContainer
      else bindE (slice d 8 12) (\<lambda>w. if w \<noteq> webp then Inl ErrWebPContainer
      else bindE (slice d 4 8) (\<lambda>z.
        if le_uint z + 8 \<noteq> length d then Inl ErrWebPLength else webp_walk d 12))))"

section \<open>Dispatch and dimensions\<close>

definition validateImageContainer :: "string \<Rightarrow> bytes \<Rightarrow> (ierr, unit) result" where
  "validateImageContainer mime d =
     (if mime = ''image/jpeg'' then validateJPEGContainer d
      else if mime = ''image/png'' then validatePNGContainer d
      else if mime = ''image/gif'' then validateSingleFrameGIF d
      else if mime = ''image/webp'' then validateStillWebP d
      else Inl ErrUnsupportedImage)"

definition MaxImagePixels :: int where
  "MaxImagePixels = 20000000"

text \<open>The quotient is of positive numbers, where Go's truncating division is \<open>div\<close>.\<close>

definition validateImageDimensions :: "int \<Rightarrow> int \<Rightarrow> (ierr, unit) result" where
  "validateImageDimensions width height =
     (if width \<le> 0 \<or> height \<le> 0 then Inl ErrDimensions
      else if width > MaxImagePixels div height then Inl ErrTooManyPixels
      else Inr ())"

section \<open>No out-of-range access\<close>

lemma ff_end_lt: "\<not> length d \<le> ff_end d i \<Longrightarrow> ff_end d i < length d"
  by simp

lemma jpeg_scan_no_panic: "jpeg_scan d i \<noteq> Inl GoPanic"
proof (induction d i rule: jpeg_scan.induct)
  case (1 d i)
  show ?case
    by (subst jpeg_scan.simps) (use "1.IH" in \<open>auto simp: Let_def res_simps\<close>)
qed

lemma jpeg_walk_no_panic: "jpeg_walk d i \<noteq> Inl GoPanic"
proof (induction d i rule: jpeg_walk.induct)
  case (1 d i)
  note IH = "1.IH"
  show ?case
  proof (cases "i < length d \<and> d ! i = 0xFF \<and> ff_end d i < length d")
    case False
    then show ?thesis by (subst jpeg_walk.simps) (auto simp: Let_def res_simps)
  next
    case True
    then have c: "i < length d" and b: "byte_at d i = Inr 0xFF" and nb: "\<not> (0xFF :: 8 word) \<noteq> 0xFF"
      and j: "\<not> length d \<le> ff_end d i" and m: "byte_at d (ff_end d i) = Inr (d ! ff_end d i)"
      by auto
    note H = IH[OF c b nb skip_ff_eq j m refl]
    show ?thesis
      by (subst jpeg_walk.simps)
         (use True H jpeg_scan_no_panic in \<open>auto simp: Let_def res_simps split: option.split\<close>)
  qed
qed

lemma validateJPEGContainer_no_panic: "validateJPEGContainer d \<noteq> Inl GoPanic"
  using jpeg_walk_no_panic by (auto simp: validateJPEGContainer_def res_simps)

lemma png_walk_no_panic: "png_walk d i \<noteq> Inl GoPanic"
proof (induction d i rule: png_walk.induct)
  case (1 d i)
  show ?case by (subst png_walk.simps) (use "1.IH" in \<open>auto simp: Let_def res_simps\<close>)
qed

lemma validatePNGContainer_no_panic: "validatePNGContainer d \<noteq> Inl GoPanic"
  using png_walk_no_panic by (auto simp: validatePNGContainer_def res_simps)

lemma gif_walk_no_panic: "gif_walk d i n \<noteq> Inl GoPanic"
proof (induction d i n rule: gif_walk.induct)
  case (1 d i n)
  show ?case
    by (subst gif_walk.simps) (use "1.IH" in \<open>auto simp: Let_def res_simps skipGIFSubBlocks_no_panic split: option.split\<close>)
qed

lemma validateSingleFrameGIF_no_panic: "validateSingleFrameGIF d \<noteq> Inl GoPanic"
  using gif_walk_no_panic by (auto simp: validateSingleFrameGIF_def Let_def res_simps)

lemma webp_walk_no_panic: "webp_walk d i \<noteq> Inl GoPanic"
proof (induction d i rule: webp_walk.induct)
  case (1 d i)
  show ?case
    by (subst webp_walk.simps) (use "1.IH" in \<open>auto simp: Let_def res_simps\<close>)
qed

lemma validateStillWebP_no_panic: "validateStillWebP d \<noteq> Inl GoPanic"
  using webp_walk_no_panic by (auto simp: validateStillWebP_def res_simps)

section \<open>What acceptance means\<close>

text \<open>A JPEG is accepted only when its last two bytes are an End-of-Image marker.\<close>

lemma jpeg_walk_end:
  "jpeg_walk d i = Inr () \<Longrightarrow> i + 2 \<le> length d \<and> d ! (length d - 2) = 0xFF \<and> d ! (length d - 1) = 0xD9"
proof (induction d i rule: jpeg_walk.induct)
  case (1 d i)
  have c: "i < length d" using "1.prems" by (subst (asm) jpeg_walk.simps) (simp split: if_splits)
  have b: "d ! i = 0xFF" using "1.prems" c by (subst (asm) jpeg_walk.simps) (simp split: if_splits)
  let ?j = "ff_end d i"
  have j: "?j < length d"
    using "1.prems" c b by (subst (asm) jpeg_walk.simps) (simp add: Let_def split: if_splits)
  have ij: "i < ?j" using ff_end_gt[OF c b] .
  note IH = "1.IH"[OF c byte_at_in[OF c] _ skip_ff_eq _ byte_at_in[OF j] refl]
  show ?case
  proof (cases "d ! ?j = 0xD9")
    case True
    then have e: "Suc ?j = length d"
      using "1.prems" c b j by (subst (asm) jpeg_walk.simps) (simp add: Let_def split: if_splits)
    then have "length d - 2 = ?j - 1" and "length d - 1 = ?j" using ij by auto
    then show ?thesis using True ij e ff_end_before[OF ij] by auto
  next
    case nd9: False
    then have nm: "\<not> (d ! ?j = 0xD8 \<or> d ! ?j = 0)"
      using "1.prems" c b j by (subst (asm) jpeg_walk.simps) (auto simp: Let_def split: if_splits)
    show ?thesis
    proof (cases "d ! ?j = 1 \<or> restart_marker (d ! ?j)")
      case True
      then have "jpeg_walk d (Suc ?j) = Inr ()"
        using "1.prems" c b j nd9 nm by (subst (asm) jpeg_walk.simps) (simp add: Let_def)
      then show ?thesis using IH(1) b j nd9 nm True ij by auto
    next
      case False
      let ?k = "Suc ?j" and ?w = "take 2 (drop (Suc ?j) d)"
      have s: "\<not> length d < ?k + 2" and n: "\<not> (be_uint ?w < 2 \<or> length d - ?k < be_uint ?w)"
        using "1.prems" c b j nd9 nm False
        by (subst (asm) jpeg_walk.simps, simp add: Let_def split: if_splits)+
      have w: "slice d ?k (?k + 2) = Inr ?w" using s by simp
      show ?thesis
      proof (cases "d ! ?j = 0xDA")
        case da: False
        then have "jpeg_walk d (?k + be_uint ?w) = Inr ()"
          using "1.prems" c b j nd9 nm False s n
          by (subst (asm) jpeg_walk.simps) (simp add: Let_def)
        then show ?thesis using IH(2)[OF _ _ _ _ _ s w refl n da] b j nd9 nm False ij by auto
      next
        case da: True
        then obtain p where p: "jpeg_scan d (?k + be_uint ?w) = Inr (Some p)"
          and r: "jpeg_walk d p = Inr ()"
          using "1.prems" c b j nd9 nm False s n
          by (subst (asm) jpeg_walk.simps) (auto simp: Let_def res_simps split: option.splits)
        have "p + 2 \<le> length d \<and> d ! (length d - 2) = 0xFF \<and> d ! (length d - 1) = 0xD9"
          using IH(3)[OF _ _ _ _ _ s w refl n _ p refl r] b j nd9 nm False da by auto
        then show ?thesis using jpeg_scan_ge[OF p] ij by linarith
      qed
    qed
  qed
qed

lemma validateJPEGContainer_frame:
  assumes "validateJPEGContainer d = Inr ()"
  shows "take 2 d = [0xFF, 0xD8] \<and> drop (length d - 2) d = [0xFF, 0xD9]"
proof -
  have h: "4 \<le> length d" "d ! 0 = 0xFF" "d ! 1 = 0xD8" and w: "jpeg_walk d 2 = Inr ()"
    using assms by (auto simp: validateJPEGContainer_def res_simps split: if_splits)
  have t: "d ! (length d - 2) = 0xFF" "d ! (length d - 1) = 0xD9" using jpeg_walk_end[OF w] by auto
  have "take 2 d = [d ! 0, d ! 1]" using h(1) by (auto simp: Suc_le_length_iff numeral_eq_Suc)
  moreover have "drop (length d - 2) d = [d ! (length d - 2), d ! (length d - 1)]"
  proof -
    have "Suc (length d - 2) = length d - 1" "Suc (length d - 1) = length d" using h(1) by auto
    then show ?thesis
      using h(1) Cons_nth_drop_Suc[of "length d - 2" d] Cons_nth_drop_Suc[of "length d - 1" d]
      by simp
  qed
  ultimately show ?thesis using h t by simp
qed

text \<open>A PNG is accepted only when it ends with an empty \<open>IEND\<close> chunk.\<close>

lemma be_uint_0: "be_uint w = 0 \<Longrightarrow> w = replicate (length w) 0"
  by (induction w) (auto simp: unat_eq_zero)

lemma png_walk_end:
  "png_walk d i = Inr () \<Longrightarrow>
     12 \<le> length d \<and> take 8 (drop (length d - 12) d) = [0, 0, 0, 0] @ png_iend"
proof (induction d i rule: png_walk.induct)
  case (1 d i)
  have c: "i + 12 \<le> length d"
    using "1.prems" by (subst (asm) png_walk.simps) (simp split: if_splits)
  let ?w = "take 4 (drop i d)" and ?t = "take 4 (drop (i + 4) d)"
  let ?e = "i + 12 + be_uint ?w"
  have e: "\<not> length d < ?e"
    using "1.prems" c by (subst (asm) png_walk.simps) (simp add: Let_def split: if_splits)
  show ?case
  proof (cases "?t = png_iend")
    case True
    then have z: "be_uint ?w = 0" "?e = length d"
      using "1.prems" c e by (subst (asm) png_walk.simps, simp add: Let_def split: if_splits)+
    have "length ?w = 4" using c by simp
    then have "?w = [0, 0, 0, 0]" using be_uint_0[OF z(1)] by (simp add: numeral_eq_Suc)
    moreover have "take 8 (drop i d) = ?w @ ?t"
      using take_add[of 4 4 "drop i d"] by (simp add: add.commute)
    moreover have "length d - 12 = i" using z c by simp
    ultimately show ?thesis using True c by simp
  next
    case False
    then have "png_walk d ?e = Inr ()"
      using "1.prems" c e by (subst (asm) png_walk.simps) (simp add: Let_def)
    then show ?thesis using "1.IH"[OF c _ refl refl e _ False] c by auto
  qed
qed

lemma validatePNGContainer_frame:
  assumes "validatePNGContainer d = Inr ()"
  shows "take 8 d = png_signature \<and> take 8 (drop (length d - 12) d) = [0, 0, 0, 0] @ png_iend"
  using assms png_walk_end[of d 8]
  by (auto simp: validatePNGContainer_def res_simps slice_def split: if_splits)

text \<open>The length of a color table, from the bits of the packed byte: bit 7 announces it, the low three bits are the
  exponent of its number of colors less one, and a color has three bytes.\<close>

definition color_table_bytes :: "8 word \<Rightarrow> nat" where
  "color_table_bytes packed = (if bit packed 7 then 3 * 2 ^ Suc (unat (take_bit 3 packed)) else 0)"

lemma gif_table_eq: "gif_table packed = color_table_bytes packed"
proof -
  have "packed AND 0x80 \<noteq> 0 \<longleftrightarrow> bit packed 7" using and_exp_eq_0_iff_not_bit [of packed 7] by simp
  moreover have "packed AND 0x07 = take_bit 3 packed" by (simp add: take_bit_eq_mask mask_eq_exp_minus_1)
  ultimately show ?thesis by (simp add: gif_table_def color_table_bytes_def)
qed

text \<open>
  The grammar of a GIF body: from offset \<open>i\<close> it consists of well-formed extension and image blocks,
  exactly \<open>n\<close> of them image blocks, and ends with the trailer as the last byte of the data.
\<close>

inductive gif_stream :: "bytes \<Rightarrow> nat \<Rightarrow> nat \<Rightarrow> bool" for d where
  trailer: "i < length d \<Longrightarrow> d ! i = 0x3B \<Longrightarrow> Suc i = length d \<Longrightarrow> gif_stream d i 0"
| extension: "i < length d \<Longrightarrow> d ! i = 0x21 \<Longrightarrow> gif_sub_blocks d (i + 2) j \<Longrightarrow>
    gif_stream d j n \<Longrightarrow> gif_stream d i n"
| image: "i < length d \<Longrightarrow> d ! i = 0x2C \<Longrightarrow> i + 10 + color_table_bytes (d ! (i + 9)) < length d \<Longrightarrow>
    gif_sub_blocks d (Suc (i + 10 + color_table_bytes (d ! (i + 9)))) k \<Longrightarrow>
    gif_stream d k n \<Longrightarrow> gif_stream d i (Suc n)"

lemma gif_walk_sound: "gif_walk d i n = Inr () \<Longrightarrow> n \<le> 1 \<and> gif_stream d i (1 - n)"
proof (induction d i n rule: gif_walk.induct)
  case (1 d i n)
  have c: "i < length d" using "1.prems" by (subst (asm) gif_walk.simps) (simp split: if_splits)
  consider "d ! i = 0x3B" | "d ! i = 0x21" | "d ! i = 0x2C" | "d ! i \<notin> {0x3B, 0x21, 0x2C}"
    by auto
  then show ?case
  proof cases
    case 1
    then have "n = 1 \<and> Suc i = length d"
      using "1.prems" c by (subst (asm) gif_walk.simps) (auto split: if_splits)
    then show ?thesis using 1 c by (auto intro: gif_stream.trailer)
  next
    case 2
    then obtain j where j: "\<not> length d < i + 2" "skipGIFSubBlocks d (i + 2) = Inr (Some j)"
      and r: "gif_walk d j n = Inr ()"
      using "1.prems" c
      by (subst (asm) gif_walk.simps) (auto simp: res_simps split: if_splits option.splits)
    have "n \<le> 1 \<and> gif_stream d j (1 - n)" using "1.IH"(1)[OF c _ _ _ j refl r] 2 c by auto
    then show ?thesis using gif_stream.extension[OF c 2 skipGIFSubBlocks_sound[OF j(2)]] by blast
  next
    case 3
    let ?j = "i + 10 + gif_table (d ! (i + 9))"
    obtain k where k: "\<not> n + 1 > 1" "\<not> length d < i + 10" "\<not> length d \<le> ?j"
      "skipGIFSubBlocks d (Suc ?j) = Inr (Some k)" and r: "gif_walk d k (n + 1) = Inr ()"
      using "1.prems" c 3
      by (subst (asm) gif_walk.simps) (auto simp: Let_def res_simps split: if_splits option.splits)
    have "gif_stream d k 0"
      using "1.IH"(2)[OF c _ _ _ _ k(1,2) _ refl k(3,4) refl r] 3 c k by auto
    then have "gif_stream d i (Suc 0)"
      using gif_stream.image[OF c 3, of k 0] k by (simp add: gif_table_eq skipGIFSubBlocks_iff)
    then show ?thesis using k(1) by simp
  next
    case 4
    then show ?thesis using "1.prems" c by (subst (asm) gif_walk.simps) auto
  qed
qed

lemma gif_walk_complete: "gif_stream d i m \<Longrightarrow> n + m = 1 \<Longrightarrow> gif_walk d i n = Inr ()"
proof (induction arbitrary: n rule: gif_stream.induct)
  case (trailer i)
  then show ?case by (subst gif_walk.simps) simp
next
  case (extension i j m)
  have "i + 2 \<le> length d" using gif_sub_blocks_gt[OF extension.hyps(3)] by auto
  then show ?case using extension by (subst gif_walk.simps) (simp add: skipGIFSubBlocks_complete)
next
  case (image i k m)
  then have "n = 0" "m = 0" by auto
  then show ?case using image by (subst gif_walk.simps) (simp add: Let_def gif_table_eq skipGIFSubBlocks_complete)
qed

lemma validateSingleFrameGIF_iff:
  "validateSingleFrameGIF d = Inr () \<longleftrightarrow>
     14 \<le> length d \<and> (take 6 d = gif87a \<or> take 6 d = gif89a) \<and>
     gif_stream d (13 + color_table_bytes (d ! 10)) 1"
proof -
  have "gif_stream d (13 + color_table_bytes (d ! 10)) 1 \<Longrightarrow> 13 + color_table_bytes (d ! 10) \<le> length d"
    by (erule gif_stream.cases) auto
  then show ?thesis
    using gif_walk_sound[of d _ 0] gif_walk_complete[of d _ 1 0]
    by (auto simp: validateSingleFrameGIF_def Let_def res_simps slice_def not_less gif_table_eq)
qed

text \<open>The chunk grammar of a still WebP: no animation chunk and no animation flag in \<open>VP8X\<close>.\<close>

inductive webp_still :: "bytes \<Rightarrow> nat \<Rightarrow> bool" for d where
  finish: "i = length d \<Longrightarrow> webp_still d i"
| chunk: "n = le_uint (take 4 (drop (i + 4) d)) \<Longrightarrow> t = take 4 (drop i d) \<Longrightarrow>
    i + 8 + n \<le> length d \<Longrightarrow> t \<noteq> anim_chunk \<Longrightarrow> t \<noteq> anmf_chunk \<Longrightarrow>
    \<not> (t = vp8x_chunk \<and> 1 \<le> n \<and> d ! (i + 8) AND 0x02 \<noteq> 0) \<Longrightarrow>
    webp_still d (i + 8 + n + n mod 2) \<Longrightarrow> webp_still d i"

lemma webp_walk_unfold:
  assumes "i + 8 + n \<le> length d" and "n = le_uint (take 4 (drop (i + 4) d))"
    and "t = take 4 (drop i d)" and "t \<noteq> anim_chunk" and "t \<noteq> anmf_chunk"
    and "\<not> (t = vp8x_chunk \<and> 1 \<le> n \<and> d ! (i + 8) AND 0x02 \<noteq> 0)"
  shows "webp_walk d i = webp_walk d (i + 8 + n + n mod 2)"
proof -
  have "(if odd n then Suc (i + 8 + n) else i + 8 + n) = i + 8 + n + n mod 2"
    by (auto simp: odd_iff_mod_2_eq_one)
  moreover have "(if t = vp8x_chunk \<and> 1 \<le> n
      then bindE (byte_at d (i + 8)) (\<lambda>f. Inr (f AND 0x02 \<noteq> 0)) else Inr False) = Inr False"
    using assms(1,6) by auto
  moreover have "\<not> length d < i + 8 + n" "\<not> (t = anim_chunk \<or> t = anmf_chunk)" "i + 8 \<le> length d"
    using assms by auto
  moreover have "slice d i (i + 4) = Inr t" "slice d (i + 4) (i + 8) = Inr (take 4 (drop (i + 4) d))"
    using assms by simp_all
  ultimately show ?thesis
    by (subst webp_walk.simps) (simp only: bindE_Inr Let_def assms(2)[symmetric] if_True if_False)
qed

lemma webp_walk_sound: "webp_walk d i = Inr () \<Longrightarrow> webp_still d i"
proof (induction d i rule: webp_walk.induct)
  case (1 d i)
  let ?n = "le_uint (take 4 (drop (i + 4) d))" and ?t = "take 4 (drop i d)"
  show ?case
  proof (cases "i + 8 \<le> length d")
    case False
    then have "i = length d" using "1.prems" by (subst (asm) webp_walk.simps) (auto split: if_splits)
    then show ?thesis by (rule webp_still.finish)
  next
    case c: True
    have e: "\<not> length d < i + 8 + ?n" and a: "\<not> (?t = anim_chunk \<or> ?t = anmf_chunk)"
      and v: "\<not> (?t = vp8x_chunk \<and> 1 \<le> ?n \<and> d ! (i + 8) AND 0x02 \<noteq> 0)"
      using "1.prems" c
      by (subst (asm) webp_walk.simps, auto simp: Let_def res_simps split: if_splits)+
    have eq: "webp_walk d i = webp_walk d (i + 8 + ?n + ?n mod 2)"
      using webp_walk_unfold[of i ?n d ?t] e a v by auto
    have nx: "(if odd ?n then Suc (i + 8 + ?n) else i + 8 + ?n) = i + 8 + ?n + ?n mod 2"
      by (auto simp: odd_iff_mod_2_eq_one)
    have f: "(if ?t = vp8x_chunk \<and> 1 \<le> ?n
              then bindE (byte_at d (i + 8)) (\<lambda>f. Inr (f AND 0x02 \<noteq> 0)) else Inr False) = Inr False"
      using v e by auto
    have s: "slice d i (i + 4) = Inr ?t" "slice d (i + 4) (i + 8) = Inr (take 4 (drop (i + 4) d))"
      using c by simp_all
    have "webp_still d (if odd ?n then Suc (i + 8 + ?n) else i + 8 + ?n)"
      by (rule "1.IH"[OF c s refl refl refl e a f]) (use "1.prems" eq nx in simp_all)
    then have "webp_still d (i + 8 + ?n + ?n mod 2)" unfolding nx .
    moreover have "i + 8 + ?n \<le> length d" "?t \<noteq> anim_chunk" "?t \<noteq> anmf_chunk"
      using e a by auto
    ultimately show ?thesis using webp_still.chunk[OF refl refl _ _ _ v] by blast
  qed
qed

lemma webp_walk_complete: "webp_still d i \<Longrightarrow> webp_walk d i = Inr ()"
proof (induction rule: webp_still.induct)
  case (finish i)
  then show ?case by (subst webp_walk.simps) simp
next
  case (chunk n i t)
  then show ?case using webp_walk_unfold[of i n d t] by simp
qed

lemma validateStillWebP_iff:
  "validateStillWebP d = Inr () \<longleftrightarrow>
     20 \<le> length d \<and> take 4 d = riff \<and> take 4 (drop 8 d) = webp \<and>
     le_uint (take 4 (drop 4 d)) + 8 = length d \<and> webp_still d 12"
  using webp_walk_sound[of d 12] webp_walk_complete[of d 12]
  by (auto simp: validateStillWebP_def res_simps slice_def not_less)

lemma int_div_le_iff: "0 < (h :: int) \<Longrightarrow> w \<le> m div h \<longleftrightarrow> w * h \<le> m"
proof
  assume h: "0 < h" and "w \<le> m div h"
  then have "w * h \<le> m div h * h" by simp
  also have "\<dots> \<le> m" using h pos_mod_sign[of h m] div_mult_mod_eq[of m h] by linarith
  finally show "w * h \<le> m" .
next
  assume h: "0 < h" and "w * h \<le> m"
  then have "w * h div h \<le> m div h" by (intro zdiv_mono1)
  then show "w \<le> m div h" using h by simp
qed

lemma validateImageDimensions_iff:
  "validateImageDimensions w h = Inr () \<longleftrightarrow> 0 < w \<and> 0 < h \<and> w * h \<le> MaxImagePixels"
proof (cases "0 < h")
  case True
  then have "w \<le> MaxImagePixels div h \<longleftrightarrow> w * h \<le> MaxImagePixels"
    by (rule int_div_le_iff)
  then show ?thesis using True by (auto simp: validateImageDimensions_def)
qed (simp add: validateImageDimensions_def)

section \<open>Properties\<close>

text \<open>C39: no input makes a container check read outside the data.\<close>

theorem container_checks_never_panic: "validateImageContainer mime d \<noteq> Inl GoPanic"
  using validateJPEGContainer_no_panic[of d] validatePNGContainer_no_panic[of d]
    validateSingleFrameGIF_no_panic[of d] validateStillWebP_no_panic[of d]
  by (auto simp: validateImageContainer_def)

text \<open>The GIF check accepts exactly the files of the block grammar with one image block and with the
  trailer as their last byte.\<close>

theorem gif_single_frame:
  "validateSingleFrameGIF d = Inr () \<longleftrightarrow>
     14 \<le> length d \<and> (take 6 d = gif87a \<or> take 6 d = gif89a) \<and> gif_stream d (13 + color_table_bytes (d ! 10)) 1"
  by (rule validateSingleFrameGIF_iff)

text \<open>The WebP check accepts exactly the RIFF files of the declared size whose chunks fill the file and
  carry no animation.\<close>

theorem webp_still_only:
  "validateStillWebP d = Inr () \<longleftrightarrow>
     20 \<le> length d \<and> take 4 d = riff \<and> take 4 (drop 8 d) = webp \<and>
     le_uint (take 4 (drop 4 d)) + 8 = length d \<and> webp_still d 12"
  by (rule validateStillWebP_iff)

text \<open>An accepted JPEG or PNG starts with its signature and ends with its end marker, so no payload can
  follow the image.\<close>

theorem jpeg_png_no_trailer:
  "(validateJPEGContainer d = Inr () \<longrightarrow> take 2 d = [0xFF, 0xD8] \<and> drop (length d - 2) d = [0xFF, 0xD9]) \<and>
   (validatePNGContainer d = Inr () \<longrightarrow>
      take 8 d = png_signature \<and> take 8 (drop (length d - 12) d) = [0, 0, 0, 0] @ png_iend)"
  using validateJPEGContainer_frame[of d] validatePNGContainer_frame[of d] by blast

theorem jpeg_png_no_trailer_witness:
  "drop 9 [0xFF, 0xD8, 0xFF, 0xDA, 0, 3, 7, 1, 2, 0xFF, 0xD9 :: 8 word] = [0xFF, 0xD9]"
proof -
  let ?d = "[0xFF, 0xD8, 0xFF, 0xDA, 0, 3, 7, 1, 2, 0xFF, 0xD9] :: bytes"
  have "validateJPEGContainer ?d = Inr ()" by code_simp
  then have "take 2 ?d = [0xFF, 0xD8] \<and> drop (length ?d - 2) ?d = [0xFF, 0xD9]"
    using jpeg_png_no_trailer[of ?d] by blast
  then show ?thesis by simp
qed

text \<open>Accepted dimensions are positive and their exact product is within the pixel limit: the division
  used by the code does not lose a case.\<close>

theorem dimensions_bounded:
  "validateImageDimensions w h = Inr () \<longleftrightarrow> 0 < w \<and> 0 < h \<and> w * h \<le> MaxImagePixels"
  by (rule validateImageDimensions_iff)

end
