(* ===== verification/LedgerSchema.thy ===== *)
theory LedgerSchema
  imports Validation ImageContainer
begin

text \<open>
  The ledger database of \<open>backend/database/database.go\<close> and the statements \<open>backend/core\<close> runs on it.
  A table is the list of its rows in row-id order with the last AUTOINCREMENT value beside it; the
  declared constraints (CHECK, UNIQUE, partial unique index, foreign key with cascade, the quota and
  amount triggers) are part of the insert, update and delete statements, which answer
  \<open>ErrConstraint\<close> where SQLite aborts. The statements of one write run inside one SQL transaction:
  a failing write returns no new state. I/O failures of the SQLite driver are outside the model.
\<close>

section \<open>Rows\<close>

text \<open>A stored date: year, month, day, hour, minute, second. The timestamp text that the driver stores
  orders like this tuple.\<close>

type_synonym stamp = "nat \<times> nat \<times> nat \<times> nat \<times> nat \<times> nat"

record tx_row =
  tx_id :: int
  tx_account :: string
  tx_date :: stamp
  tx_item :: string
  tx_type :: string
  tx_amount :: int64
  tx_balance :: int64
  tx_memo :: string

record image_row =
  img_id :: int
  img_tx :: int
  img_filename :: string
  img_data :: bytes
  img_mime :: string

record tag_row =
  tag_id :: int
  tag_name :: string
  tag_parent :: "int option"
  tag_level :: int
  tag_legacy :: bool

record ledger =
  txs :: "tx_row list"
  tx_seq :: int
  links :: "(int \<times> int) list"
  images :: "image_row list"
  image_seq :: int
  image_archive :: "image_row list"
  archive_amounts :: "(int \<times> int64) list"
  tags :: "tag_row list"
  tag_seq :: int
  tx_tags :: "(int \<times> int) list"
  settings :: "string \<Rightarrow> string option"

definition empty_ledger :: ledger where
  "empty_ledger = \<lparr>txs = [], tx_seq = 0, links = [], images = [], image_seq = 0,
     image_archive = [], archive_amounts = [], tags = [], tag_seq = 0, tx_tags = [],
     settings = (\<lambda>_. None)\<rparr>"

datatype lerr =
    ErrServiceUnavailable
  | ErrValidation verr
  | ErrConstraint
  | ErrDateFormat
  | ErrTypeValue
  | ErrUpdateOnlyFields
  | ErrTransactionNotFound
  | ErrBalanceOverflow int
  | ErrTooManyTagPaths
  | ErrInvalidTagID int
  | ErrTagNotFound
  | ErrParentTagNotFound
  | ErrRootTagExists
  | ErrRootTagAmbiguous
  | ErrTagPathEmpty
  | ErrImageNotFound
  | ErrImageCount
  | ErrImageTransactionBytes
  | ErrImageAccountBytes
  | ErrImageDatabaseBytes
  | ErrImageMoveDelta
  | ErrImageMoveQuota
  | ErrImageContainer ierr
  | ErrImageFilename
  | ErrImageExtension
  | ErrImageMIME
  | ErrImageBase64
  | ErrImageTooLarge
  | ErrImageEmpty
  | ErrImageContent
  | ErrImageDecode
  | ErrImageStore
  | ErrLinkSelf
  | ErrLinkEndpoint
  | ErrLinkTarget
  | ErrLinkClassOverlap
  | ErrLinkNotCardBank
  | ErrLinkOtherBank
  | ErrLinkTooMany
  | ErrLinkMissing
  | ErrMultiBank
  | ErrSettingKey

section \<open>Look-ups\<close>

definition find_tx :: "ledger \<Rightarrow> int \<Rightarrow> tx_row option" where
  "find_tx L i = List.find (\<lambda>r. tx_id r = i) (txs L)"

definition tx_ids :: "ledger \<Rightarrow> int set" where
  "tx_ids L = tx_id ` set (txs L)"

definition tag_ids :: "ledger \<Rightarrow> int set" where
  "tag_ids L = tag_id ` set (tags L)"

definition find_tag :: "ledger \<Rightarrow> int \<Rightarrow> tag_row option" where
  "find_tag L i = List.find (\<lambda>t. tag_id t = i) (tags L)"

text \<open>\<open>COALESCE((SELECT amount FROM transaction_archive_amounts ...), amount)\<close>\<close>

definition eff_amount :: "ledger \<Rightarrow> tx_row \<Rightarrow> int64" where
  "eff_amount L r =
     (case map_of (archive_amounts L) (tx_id r) of Some a \<Rightarrow> a | None \<Rightarrow> tx_amount r)"

section \<open>Statements on transactions\<close>

definition tx_check :: "string \<Rightarrow> int64 \<Rightarrow> bool" where
  "tx_check ty amount \<longleftrightarrow>
     (ty = ''income'' \<or> ty = ''expense'') \<and> 1 \<le> sint amount \<and> sint amount \<le> sint MaxTransactionAmount"

definition insert_tx ::
  "string \<Rightarrow> stamp \<Rightarrow> string \<Rightarrow> string \<Rightarrow> int64 \<Rightarrow> string \<Rightarrow> ledger \<Rightarrow> (lerr, ledger \<times> int) result" where
  "insert_tx acc d item ty amount memo L =
     (if \<not> tx_check ty amount then Inl ErrConstraint
      else let i = tx_seq L + 1 in
        Inr (L\<lparr>txs := txs L @ [\<lparr>tx_id = i, tx_account = acc, tx_date = d, tx_item = item,
                 tx_type = ty, tx_amount = amount, tx_balance = 0, tx_memo = memo\<rparr>],
               tx_seq := i\<rparr>, i))"

definition update_tx ::
  "int \<Rightarrow> string \<Rightarrow> stamp \<Rightarrow> string \<Rightarrow> string \<Rightarrow> int64 \<Rightarrow> string \<Rightarrow> ledger \<Rightarrow> (lerr, ledger) result" where
  "update_tx i acc d item ty amount memo L =
     (if i \<in> tx_ids L \<and> \<not> tx_check ty amount then Inl ErrConstraint
      else Inr (L\<lparr>txs := upd_where (\<lambda>r. tx_id r = i)
                 (\<lambda>r. r\<lparr>tx_account := acc, tx_date := d, tx_item := item, tx_type := ty,
                        tx_amount := amount, tx_memo := memo\<rparr>) (txs L)\<rparr>))"

definition set_balance :: "int \<Rightarrow> int64 \<Rightarrow> ledger \<Rightarrow> ledger" where
  "set_balance i b L =
     L\<lparr>txs := upd_where (\<lambda>r. tx_id r = i) (\<lambda>r. r\<lparr>tx_balance := b\<rparr>) (txs L)\<rparr>"

text \<open>\<open>DELETE FROM transactions WHERE id = ?\<close> with its cascades.\<close>

definition delete_tx :: "int \<Rightarrow> ledger \<Rightarrow> ledger" where
  "delete_tx i L =
     L\<lparr>txs := del_where (\<lambda>r. tx_id r = i) (txs L),
       links := del_where (\<lambda>(p, c). p = i \<or> c = i) (links L),
       images := del_where (\<lambda>r. img_tx r = i) (images L),
       image_archive := del_where (\<lambda>r. img_tx r = i) (image_archive L),
       archive_amounts := del_where (\<lambda>(j, _). j = i) (archive_amounts L),
       tx_tags := del_where (\<lambda>(t, _). t = i) (tx_tags L)\<rparr>"

definition delete_archive_amount :: "int \<Rightarrow> ledger \<Rightarrow> ledger" where
  "delete_archive_amount i L =
     L\<lparr>archive_amounts := del_where (\<lambda>(j, _). j = i) (archive_amounts L)\<rparr>"

section \<open>Well-formed ledgers\<close>

definition wf_txs :: "ledger \<Rightarrow> bool" where
  "wf_txs L \<longleftrightarrow> distinct (map tx_id (txs L)) \<and>
     (\<forall>r\<in>set (txs L). 1 \<le> tx_id r \<and> tx_id r \<le> tx_seq L \<and> tx_check (tx_type r) (tx_amount r)) \<and>
     0 \<le> tx_seq L"

definition wf_links :: "ledger \<Rightarrow> bool" where
  "wf_links L \<longleftrightarrow> distinct (links L) \<and>
     (\<forall>(p, c)\<in>set (links L). p \<in> tx_ids L \<and> c \<in> tx_ids L \<and> p < c)"

definition wf_images :: "ledger \<Rightarrow> bool" where
  "wf_images L \<longleftrightarrow> distinct (map img_id (images L)) \<and>
     (\<forall>r\<in>set (images L). img_tx r \<in> tx_ids L \<and> 1 \<le> img_id r \<and> img_id r \<le> image_seq L) \<and>
     (\<forall>r\<in>set (image_archive L). img_tx r \<in> tx_ids L) \<and> 0 \<le> image_seq L"

definition wf_archive_amounts :: "ledger \<Rightarrow> bool" where
  "wf_archive_amounts L \<longleftrightarrow> distinct (map fst (archive_amounts L)) \<and>
     (\<forall>(i, a)\<in>set (archive_amounts L). i \<in> tx_ids L \<and> sint MaxTransactionAmount < sint a)"

definition wf_tags :: "ledger \<Rightarrow> bool" where
  "wf_tags L \<longleftrightarrow> distinct (map tag_id (tags L)) \<and> 0 \<le> tag_seq L \<and>
     (\<forall>t\<in>set (tags L). 1 \<le> tag_id t \<and> tag_id t \<le> tag_seq L \<and> 1 \<le> tag_level t \<and> tag_level t \<le> 3 \<and>
        (case tag_parent t of
           None \<Rightarrow> tag_level t = 1
         | Some p \<Rightarrow> \<exists>q\<in>set (tags L). tag_id q = p \<and> tag_level t = tag_level q + 1))"

definition wf_tag_names :: "ledger \<Rightarrow> bool" where
  "wf_tag_names L \<longleftrightarrow>
     (\<forall>s\<in>set (tags L). \<forall>t\<in>set (tags L).
        tag_name s = tag_name t \<and> tag_parent s = tag_parent t \<and>
        (tag_parent s \<noteq> None \<or> \<not> tag_legacy s \<and> \<not> tag_legacy t) \<longrightarrow> tag_id s = tag_id t)"

definition wf_tx_tags :: "ledger \<Rightarrow> bool" where
  "wf_tx_tags L \<longleftrightarrow> distinct (tx_tags L) \<and>
     (\<forall>(t, g)\<in>set (tx_tags L). t \<in> tx_ids L \<and> g \<in> tag_ids L)"

definition ledger_wf :: "ledger \<Rightarrow> bool" where
  "ledger_wf L \<longleftrightarrow> wf_txs L \<and> wf_links L \<and> wf_images L \<and> wf_archive_amounts L \<and>
     wf_tags L \<and> wf_tag_names L \<and> wf_tx_tags L"

lemmas wf_defs = wf_txs_def wf_links_def wf_images_def wf_archive_amounts_def wf_tags_def
  wf_tag_names_def wf_tx_tags_def

lemma ledger_wf_empty: "ledger_wf empty_ledger"
  by (simp add: ledger_wf_def wf_defs empty_ledger_def)

lemma find_tx_Some: "find_tx L i = Some r \<Longrightarrow> r \<in> set (txs L) \<and> tx_id r = i"
  by (auto simp: find_tx_def dest: find_SomeD)

lemma find_tx_iff: "wf_txs L \<Longrightarrow> find_tx L i = Some r \<longleftrightarrow> r \<in> set (txs L) \<and> tx_id r = i"
  by (simp add: find_tx_def wf_txs_def find_eq_Some_iff)

lemma find_tx_None: "find_tx L i = None \<longleftrightarrow> i \<notin> tx_ids L"
  by (auto simp: find_tx_def find_None_iff tx_ids_def)

lemma find_tx_ex: "i \<in> tx_ids L \<longleftrightarrow> (\<exists>r. find_tx L i = Some r)"
  using find_tx_None[of L i] by auto

lemma find_tag_Some: "find_tag L i = Some t \<Longrightarrow> t \<in> set (tags L) \<and> tag_id t = i"
  by (auto simp: find_tag_def dest: find_SomeD)

lemma find_tag_None: "find_tag L i = None \<longleftrightarrow> i \<notin> tag_ids L"
  by (auto simp: find_tag_def find_None_iff tag_ids_def)

section \<open>Statements keep the constraints\<close>

lemma keys_upd_where: "(\<And>r. p r \<Longrightarrow> k (f r) = k r) \<Longrightarrow> k ` set (upd_where p f rs) = k ` set rs"
  using map_key_upd_where[of p k f rs] by (metis set_map)

lemma keys_del_where: "k ` set (del_where (\<lambda>r. k r = i) rs) = k ` set rs - {i}"
  by (auto simp: table_simps)

lemma tx_ids_simps [simp]:
  "tx_ids (set_balance i b L) = tx_ids L"
  "tx_ids (delete_archive_amount i L) = tx_ids L"
  "tx_ids (delete_tx i L) = tx_ids L - {i}"
  by (simp_all add: tx_ids_def set_balance_def delete_archive_amount_def delete_tx_def
      keys_upd_where keys_del_where)

lemma wf_tags_cong: "tags L' = tags L \<Longrightarrow> tag_seq L' = tag_seq L \<Longrightarrow> wf_tags L' = wf_tags L"
  unfolding wf_tags_def by (simp cong: option.case_cong)

lemma wf_tag_names_cong: "tags L' = tags L \<Longrightarrow> wf_tag_names L' = wf_tag_names L"
  unfolding wf_tag_names_def by simp

lemma insert_tx_wf:
  assumes wf: "ledger_wf L" and ins: "insert_tx acc d item ty a memo L = Inr (L', i)"
  shows "ledger_wf L'" and "i = tx_seq L + 1" and "i \<notin> tx_ids L" and "tx_ids L' = insert i (tx_ids L)"
proof -
  have L': "L' = L\<lparr>txs := txs L @ [\<lparr>tx_id = i, tx_account = acc, tx_date = d, tx_item = item,
      tx_type = ty, tx_amount = a, tx_balance = 0, tx_memo = memo\<rparr>], tx_seq := i\<rparr>"
    and ok: "tx_check ty a" and i: "i = tx_seq L + 1"
    using ins by (auto simp: insert_tx_def Let_def split: if_splits)
  show "i = tx_seq L + 1" by (rule i)
  show fresh: "i \<notin> tx_ids L"
    using wf i by (fastforce simp: ledger_wf_def wf_txs_def tx_ids_def)
  show ids: "tx_ids L' = insert i (tx_ids L)"
    using L' by (auto simp: tx_ids_def)
  have "wf_txs L'"
    using wf fresh ok i
    by (fastforce simp: L' ledger_wf_def wf_txs_def tx_ids_def)
  moreover have "wf_links L'" "wf_images L'" "wf_archive_amounts L'" "wf_tx_tags L'"
    using wf by (fastforce simp: L' ledger_wf_def wf_defs tx_ids_def tag_ids_def)+
  moreover have "wf_tags L'" "wf_tag_names L'"
    using wf wf_tags_cong[of L' L] wf_tag_names_cong[of L' L] by (simp_all add: L' ledger_wf_def)
  ultimately show "ledger_wf L'" by (simp add: ledger_wf_def)
qed

lemma upd_txs_wf:
  assumes "ledger_wf L" and "\<And>r. tx_id (f r) = tx_id r"
    and "\<And>r. r \<in> set (txs L) \<Longrightarrow> p r \<Longrightarrow> tx_check (tx_type (f r)) (tx_amount (f r))"
  shows "ledger_wf (L\<lparr>txs := upd_where p f (txs L)\<rparr>)"
proof -
  let ?L = "L\<lparr>txs := upd_where p f (txs L)\<rparr>"
  have ids: "tx_ids ?L = tx_ids L"
    using assms(2) by (simp add: tx_ids_def keys_upd_where)
  have "map tx_id (txs ?L) = map tx_id (txs L)" using assms(2) by (simp add: table_simps)
  then have "wf_txs ?L"
    using assms by (auto simp: ledger_wf_def wf_txs_def set_upd_where)
  moreover have "wf_links ?L" "wf_images ?L" "wf_archive_amounts ?L" "wf_tx_tags ?L"
    using assms(1) by (simp_all add: ledger_wf_def wf_links_def wf_images_def
        wf_archive_amounts_def wf_tx_tags_def ids tag_ids_def)
  moreover have "wf_tags ?L" "wf_tag_names ?L"
    using assms(1) wf_tags_cong[of ?L L] wf_tag_names_cong[of ?L L] by (simp_all add: ledger_wf_def)
  ultimately show ?thesis by (simp add: ledger_wf_def)
qed

lemma update_tx_wf:
  "ledger_wf L \<Longrightarrow> update_tx i acc d item ty a memo L = Inr L' \<Longrightarrow> ledger_wf L'"
  by (auto simp: update_tx_def tx_ids_def split: if_splits intro!: upd_txs_wf)

lemma set_balance_wf: "ledger_wf L \<Longrightarrow> ledger_wf (set_balance i b L)"
  unfolding set_balance_def
  by (rule upd_txs_wf) (auto simp: ledger_wf_def wf_txs_def)

lemma delete_tx_wf:
  assumes "ledger_wf L"
  shows "ledger_wf (delete_tx i L)"
proof -
  have "wf_txs (delete_tx i L)"
    using assms by (auto simp: ledger_wf_def wf_txs_def delete_tx_def distinct_del_where table_simps)
  moreover have "wf_links (delete_tx i L)" "wf_images (delete_tx i L)"
    "wf_archive_amounts (delete_tx i L)" "wf_tx_tags (delete_tx i L)"
    using assms
    by (auto simp: ledger_wf_def wf_links_def wf_images_def wf_archive_amounts_def wf_tx_tags_def
        delete_tx_def tx_ids_def tag_ids_def table_simps distinct_del_where
        distinct_del_where[where k = id, simplified])
  moreover have "wf_tags (delete_tx i L)" "wf_tag_names (delete_tx i L)"
    using assms wf_tags_cong[of "delete_tx i L" L] wf_tag_names_cong[of "delete_tx i L" L]
    by (simp_all add: ledger_wf_def delete_tx_def)
  ultimately show ?thesis by (simp add: ledger_wf_def)
qed

lemma delete_archive_amount_wf: "ledger_wf L \<Longrightarrow> ledger_wf (delete_archive_amount i L)"
  using wf_tags_cong[of "delete_archive_amount i L" L] wf_tag_names_cong[of "delete_archive_amount i L" L]
  by (auto simp: ledger_wf_def wf_txs_def wf_links_def wf_images_def wf_archive_amounts_def
      wf_tx_tags_def delete_archive_amount_def tx_ids_def tag_ids_def table_simps distinct_del_where)

end
