(* ===== verification/Service.thy ===== *)
theory Service
  imports LedgerSchema
begin

text \<open>
  The \<open>Service\<close> of \<open>backend/core/service_instance.go\<close>: the handle it was bound to, the live instance it
  compares it with, and the write transactions of \<open>write_transaction.go\<close>. A handler computes its
  checks and its SQL transaction as one fallible function of the ledger; \<open>svc_write\<close> commits the
  result and starts the automatic snapshot, or leaves everything as it was: that SQLite's \<open>Commit\<close> and the deferred
  \<open>Rollback\<close> of each handler make its statements atomic is built into this definition and not a theorem. The worker
  that \<open>newService\<close> registers is the subject of the theory of the save worker.
\<close>

text \<open>Database handles are compared by identity, here by number. The ledger is the content behind
  the bound handle.\<close>

record service =
  svc_db :: "nat option"
  svc_instance :: "nat option option"
  svc_available :: "bool option"
  svc_legacy :: bool
  svc_snapshot :: bool
  svc_ledger :: ledger
  svc_snapshots :: nat

definition database :: "service \<Rightarrow> (lerr, ledger) result" where
  "database s =
     (if svc_db s = None then Inl ErrServiceUnavailable
      else if svc_available s = Some False then Inl ErrServiceUnavailable
      else if svc_instance s \<noteq> None \<and> svc_instance s \<noteq> Some (svc_db s) then Inl ErrServiceUnavailable
      else if svc_instance s = None \<and> \<not> svc_legacy s then Inl ErrServiceUnavailable
      else Inr (svc_ledger s))"

definition autoSnapshot :: "service \<Rightarrow> service" where
  "autoSnapshot s =
     (if \<not> okE (database s) \<or> \<not> svc_snapshot s then s else s\<lparr>svc_snapshots := Suc (svc_snapshots s)\<rparr>)"

definition newService :: "nat option option \<Rightarrow> bool option \<Rightarrow> ledger \<Rightarrow> (lerr, service) result" where
  "newService instance_db available L =
     (case instance_db of
        None \<Rightarrow> Inl ErrServiceUnavailable
      | Some None \<Rightarrow> Inl ErrServiceUnavailable
      | Some (Some h) \<Rightarrow> Inr \<lparr>svc_db = Some h, svc_instance = Some (Some h), svc_available = available,
          svc_legacy = False, svc_snapshot = True, svc_ledger = L, svc_snapshots = 0\<rparr>)"

definition NewGuardedService :: "nat option option \<Rightarrow> bool option \<Rightarrow> ledger \<Rightarrow> (lerr, service) result" where
  "NewGuardedService instance_db available L =
     (if available \<noteq> Some True then Inl ErrServiceUnavailable else newService instance_db available L)"

definition svc_write ::
  "(service \<Rightarrow> (lerr, ledger \<times> 'a) result) \<Rightarrow> service \<Rightarrow> (lerr, 'a) result \<times> service" where
  "svc_write h s =
     (case h s of
        Inl e \<Rightarrow> (Inl e, s)
      | Inr (L', x) \<Rightarrow> (Inr x, autoSnapshot (s\<lparr>svc_ledger := L'\<rparr>)))"

lemma database_Inr [res_simps]:
  "database s = Inr L \<longleftrightarrow> L = svc_ledger s \<and> svc_db s \<noteq> None \<and> svc_available s \<noteq> Some False \<and>
     (svc_instance s = Some (svc_db s) \<or> svc_instance s = None \<and> svc_legacy s)"
  by (auto simp: database_def)

lemma autoSnapshot_ledger [simp]: "svc_ledger (autoSnapshot s) = svc_ledger s"
  by (simp add: autoSnapshot_def)

lemma svc_write_cases:
  "svc_write h s = (r, s') \<longleftrightarrow>
     (\<exists>e. h s = Inl e \<and> r = Inl e \<and> s' = s) \<or>
     (\<exists>L' x. h s = Inr (L', x) \<and> r = Inr x \<and> s' = autoSnapshot (s\<lparr>svc_ledger := L'\<rparr>))"
  by (auto simp: svc_write_def split: sum.split)

text \<open>
  The contract of a handler: it fails without a live database and, when it succeeds, the ledger it
  commits satisfies the invariant it started from.
\<close>

locale ledger_handler =
  fixes handler :: "service \<Rightarrow> (lerr, ledger \<times> 'a) result"
    and inv :: "ledger \<Rightarrow> bool"
  assumes needs_database: "handler s = Inr y \<Longrightarrow> database s = Inr (svc_ledger s)"
    and keeps_inv: "inv (svc_ledger s) \<Longrightarrow> handler s = Inr (L', x) \<Longrightarrow> inv L'"
begin

lemma write_keeps: "svc_write handler s = (r, s') \<Longrightarrow> inv (svc_ledger s) \<Longrightarrow> inv (svc_ledger s')"
  by (auto simp: svc_write_cases dest: keeps_inv)

lemma write_error: "svc_write handler s = (Inl e, s') \<Longrightarrow> s' = s"
  by (auto simp: svc_write_cases)

lemma write_unavailable: "\<not> okE (database s) \<Longrightarrow> \<exists>e. svc_write handler s = (Inl e, s)"
  using needs_database[of s] by (cases "handler s") (auto simp: svc_write_def okE_iff)

lemma write_snapshots:
  "svc_write handler s = (Inr x, s') \<Longrightarrow> svc_snapshot s \<Longrightarrow> svc_snapshots s' = Suc (svc_snapshots s)"
  using needs_database[of s]
  by (fastforce simp: svc_write_cases autoSnapshot_def okE_iff res_simps)

end

section \<open>Properties\<close>

text \<open>A service on a live handle with an empty ledger.\<close>

definition sample_service :: service where
  "sample_service = \<lparr>svc_db = Some 1, svc_instance = Some (Some 1), svc_available = Some True, svc_legacy = False,
     svc_snapshot = True, svc_ledger = empty_ledger, svc_snapshots = 0\<rparr>"

text \<open>A service is usable exactly while its guard allows it and the instance it was made from still has
  the handle it was made with; a closed or replaced instance makes every access fail.\<close>

theorem guarded_service_bound_to_handle:
  assumes "NewGuardedService inst (Some True) L = Inr s"
  shows "okE (database (s\<lparr>svc_instance := Some h, svc_available := g\<rparr>)) \<longleftrightarrow>
    g \<noteq> Some False \<and> inst = Some h \<and> h \<noteq> None"
  using assms
  by (auto simp: NewGuardedService_def newService_def database_def split: option.splits if_splits)

theorem guarded_service_bound_to_handle_witness:
  "\<not> okE (database ((projr (NewGuardedService (Some (Some 1)) (Some True) empty_ledger))
      \<lparr>svc_instance := Some (Some 2), svc_available := Some True\<rparr>))"
proof -
  have "NewGuardedService (Some (Some 1)) (Some True) empty_ledger =
      Inr (projr (NewGuardedService (Some (Some 1)) (Some True) empty_ledger))"
    by (rule okE_projr) code_simp
  from guarded_service_bound_to_handle[OF this, where h = "Some 2" and g = "Some True"] show ?thesis by simp
qed

end
