(* ===== verification/Balance.thy ===== *)
theory Balance
  imports LedgerSchema "HOL-Library.Multiset" "HOL-Library.List_Lexorder" "HOL-Library.Char_ord"
begin

text \<open>
  Running balances: \<open>recalculateBalanceIn\<close> of \<open>backend/core/service.go\<close>, which every write on
  transactions ends with, against the specification that the stored balance of a row is the exact
  integer sum of the signed amounts of its account up to that row in the order (date, id).
\<close>

section \<open>The recalculation\<close>

text \<open>\<open>SELECT ... WHERE account = ? ORDER BY date, id\<close>\<close>

definition row_key :: "tx_row \<Rightarrow> stamp \<times> int" where
  "row_key r = (tx_date r, tx_id r)"

definition account_rows :: "string \<Rightarrow> ledger \<Rightarrow> tx_row list" where
  "account_rows a L = sort_key row_key (filter (\<lambda>r. tx_account r = a) (txs L))"

text \<open>The loop over the selected rows: \<open>runningBalance\<close> and the collected \<open>updates\<close>.\<close>

fun balance_updates :: "ledger \<Rightarrow> int64 \<Rightarrow> tx_row list \<Rightarrow> (lerr, (int \<times> int64) list) result" where
  "balance_updates L runningBalance [] = Inr []"
| "balance_updates L runningBalance (r # rs) =
     bindE (mapErr (\<lambda>_. ErrBalanceOverflow (tx_id r))
       (if tx_type r = ''income'' then CheckedAddInt64 runningBalance (eff_amount L r)
        else CheckedSubInt64 runningBalance (eff_amount L r))) (\<lambda>b.
     bindE (balance_updates L b rs) (\<lambda>us. Inr ((tx_id r, b) # us)))"

fun apply_balances :: "(int \<times> int64) list \<Rightarrow> ledger \<Rightarrow> ledger" where
  "apply_balances [] L = L"
| "apply_balances ((i, b) # us) L = apply_balances us (set_balance i b L)"

definition recalculateBalanceIn :: "string \<Rightarrow> ledger \<Rightarrow> (lerr, ledger) result" where
  "recalculateBalanceIn account L =
     bindE (balance_updates L 0 (account_rows account L)) (\<lambda>us. Inr (apply_balances us L))"

section \<open>The specification\<close>

definition signed_amount :: "ledger \<Rightarrow> tx_row \<Rightarrow> int" where
  "signed_amount L r = (if tx_type r = ''income'' then sint (eff_amount L r) else - sint (eff_amount L r))"

definition exact_balance :: "ledger \<Rightarrow> tx_row \<Rightarrow> int" where
  "exact_balance L r =
     sum_list (map (signed_amount L)
       (filter (\<lambda>s. tx_account s = tx_account r \<and> row_key s \<le> row_key r) (txs L)))"

definition balances_exact :: "string \<Rightarrow> ledger \<Rightarrow> bool" where
  "balances_exact a L \<longleftrightarrow>
     (\<forall>r\<in>set (txs L). tx_account r = a \<longrightarrow> sint (tx_balance r) = exact_balance L r)"

definition ledger_balanced :: "ledger \<Rightarrow> bool" where
  "ledger_balanced L \<longleftrightarrow> (\<forall>r\<in>set (txs L). sint (tx_balance r) = exact_balance L r)"

lemma ledger_balanced_iff: "ledger_balanced L \<longleftrightarrow> (\<forall>a. balances_exact a L)"
  by (auto simp: ledger_balanced_def balances_exact_def)

section \<open>The loop computes exact prefix sums\<close>

fun run_sums :: "ledger \<Rightarrow> int \<Rightarrow> tx_row list \<Rightarrow> (int \<times> int) list" where
  "run_sums L s [] = []"
| "run_sums L s (r # rs) = (tx_id r, s + signed_amount L r) # run_sums L (s + signed_amount L r) rs"

lemma run_sums_append:
  "run_sums L s (xs @ ys) = run_sums L s xs @ run_sums L (s + sum_list (map (signed_amount L) xs)) ys"
  by (induction xs arbitrary: s) (simp_all add: algebra_simps)

lemma map_fst_run_sums [simp]: "map fst (run_sums L s rs) = map tx_id rs"
  by (induction rs arbitrary: s) simp_all

lemma checked_step:
  "(if tx_type r = ''income'' then CheckedAddInt64 b (eff_amount L r)
    else CheckedSubInt64 b (eff_amount L r)) = Inr b' \<longleftrightarrow>
   sint b' = sint b + signed_amount L r"
  by (auto simp: signed_amount_def CheckedAddInt64_Inr CheckedSubInt64_Inr) (metis in_int64_sint)+

lemma checked_step_Inl:
  "(if tx_type r = ''income'' then CheckedAddInt64 b (eff_amount L r)
    else CheckedSubInt64 b (eff_amount L r)) = Inl e \<Longrightarrow> \<not> in_int64 (sint b + signed_amount L r)"
  by (auto simp: signed_amount_def CheckedAddInt64_eq CheckedSubInt64_eq split: if_splits)

lemma balance_updates_Inr:
  "balance_updates L b rs = Inr us \<longleftrightarrow>
     map (\<lambda>(i, v). (i, sint v)) us = run_sums L (sint b) rs"
proof (induction rs arbitrary: b us)
  case Nil
  then show ?case by auto
next
  case (Cons r rs)
  have "balance_updates L b (r # rs) = Inr us \<longleftrightarrow>
      (\<exists>b' vs. sint b' = sint b + signed_amount L r \<and> us = (tx_id r, b') # vs \<and>
        map (\<lambda>(i, v). (i, sint v)) vs = run_sums L (sint b') rs)"
    by (auto simp: res_simps checked_step Cons.IH)
  also have "\<dots> \<longleftrightarrow> map (\<lambda>(i, v). (i, sint v)) us = run_sums L (sint b) (r # rs)"
    by (cases us) auto
  finally show ?case .
qed

lemma balance_updates_Inl:
  "balance_updates L b rs = Inl e \<Longrightarrow>
   \<exists>i v. (i, v) \<in> set (run_sums L (sint b) rs) \<and> \<not> in_int64 v \<and> e = ErrBalanceOverflow i"
proof (induction rs arbitrary: b)
  case Nil
  then show ?case by simp
next
  case (Cons r rs)
  then show ?case
    by (fastforce simp: res_simps checked_step dest: checked_step_Inl)
qed

lemma balance_updates_ok:
  "okE (balance_updates L b rs) \<longleftrightarrow> (\<forall>(i, v)\<in>set (run_sums L (sint b) rs). in_int64 v)"
proof (cases "balance_updates L b rs")
  case (Inl e)
  then show ?thesis using balance_updates_Inl by fastforce
next
  case (Inr us)
  then have "run_sums L (sint b) rs = map (\<lambda>(i, v). (i, sint v)) us"
    by (simp add: balance_updates_Inr)
  then show ?thesis using Inr by auto
qed

section \<open>Prefix sums of the sorted account are the exact balances\<close>

lemma sum_list_filter_sort_key:
  fixes g :: "'a \<Rightarrow> 'b::comm_monoid_add"
  shows "sum_list (map g (filter P (sort_key k xs))) = sum_list (map g (filter P xs))"
proof -
  have "mset (map g (filter P (sort_key k xs))) = mset (map g (filter P xs))"
    by simp
  then show ?thesis by (metis sum_mset_sum_list)
qed

lemma account_rows_props:
  assumes "wf_txs L"
  shows "set (account_rows a L) = {r \<in> set (txs L). tx_account r = a}"
    and "distinct (map tx_id (account_rows a L))"
    and "sorted (map row_key (account_rows a L))"
proof -
  have "mset (map tx_id (account_rows a L)) = mset (map tx_id (filter (\<lambda>r. tx_account r = a) (txs L)))"
    by (simp add: account_rows_def)
  then show "distinct (map tx_id (account_rows a L))"
    using assms by (metis wf_txs_def mset_eq_imp_distinct_iff distinct_map_filter)
qed (auto simp: account_rows_def)

lemma sorted_prefix_filter:
  assumes "sorted (map k (ys @ r # zs))" and "distinct (map k (ys @ r # zs))"
  shows "filter (\<lambda>s. k s \<le> k r) (ys @ r # zs) = ys @ [r]"
proof -
  have "\<forall>s\<in>set ys. k s \<le> k r" "\<forall>s\<in>set zs. \<not> k s \<le> k r"
    using assms by (auto simp: sorted_append image_iff dest: order.antisym)
  then show ?thesis by (simp add: filter_empty_conv)
qed

lemma exact_balance_prefix:
  assumes wf: "wf_txs L" and split: "account_rows a L = ys @ r # zs"
  shows "exact_balance L r = sum_list (map (signed_amount L) (ys @ [r]))"
proof -
  have a: "tx_account r = a" using account_rows_props(1)[OF wf, of a] split by auto
  have "distinct (map row_key (account_rows a L))"
    using account_rows_props(2)[OF wf, of a]
    by (auto simp: row_key_def distinct_map inj_on_def)
  then have f: "filter (\<lambda>s. row_key s \<le> row_key r) (account_rows a L) = ys @ [r]"
    using sorted_prefix_filter[of row_key ys r zs] account_rows_props(3)[OF wf, of a] split by simp
  have "exact_balance L r =
      sum_list (map (signed_amount L) (filter (\<lambda>s. row_key s \<le> row_key r) (account_rows a L)))"
    unfolding exact_balance_def account_rows_def sum_list_filter_sort_key
    by (simp add: a conj_commute)
  then show ?thesis by (simp only: f)
qed

lemma run_sums_exact:
  assumes "wf_txs L"
  shows "set (run_sums L 0 (account_rows a L)) =
    {(tx_id r, exact_balance L r) | r. r \<in> set (txs L) \<and> tx_account r = a}"
proof -
  have pre: "run_sums L 0 (ys @ zs) = map (\<lambda>r. (tx_id r, exact_balance L r)) ys @
      run_sums L (sum_list (map (signed_amount L) ys)) zs"
    if "account_rows a L = ys @ zs" for ys zs
    using that
  proof (induction ys arbitrary: zs rule: rev_induct)
    case Nil
    then show ?case by simp
  next
    case (snoc r ys)
    have "exact_balance L r = sum_list (map (signed_amount L) ys) + signed_amount L r"
      using exact_balance_prefix[OF assms, of a ys r zs] snoc.prems by simp
    then show ?case using snoc.IH[of "r # zs"] snoc.prems by simp
  qed
  show ?thesis using pre[of "account_rows a L" "[]"] account_rows_props(1)[OF assms, of a] by auto
qed

section \<open>Writing the balances back\<close>

lemma apply_balances_eq:
  assumes "distinct (map fst us)"
  shows "apply_balances us L = L\<lparr>txs := map (\<lambda>r. case map_of us (tx_id r) of
      Some b \<Rightarrow> r\<lparr>tx_balance := b\<rparr> | None \<Rightarrow> r) (txs L)\<rparr>"
  using assms
proof (induction us L rule: apply_balances.induct)
  case (1 L)
  then show ?case by simp
next
  case (2 i b us L)
  have "map_of us i = None" using 2(2) by (simp add: map_of_eq_None_iff)
  then show ?case using 2
    by (auto simp: set_balance_def upd_where_def comp_def split: option.split intro!: ledger.equality)
qed

lemma apply_balances_wf: "ledger_wf L \<Longrightarrow> ledger_wf (apply_balances us L)"
  by (induction us L rule: apply_balances.induct) (simp_all add: set_balance_wf)

definition with_balance :: "tx_row \<Rightarrow> int64 \<Rightarrow> tx_row" where
  "with_balance r b = r\<lparr>tx_balance := b\<rparr>"

text \<open>The reference result: the rows of account \<open>a\<close> carry their exact balances, nothing else changes.\<close>

definition exact_account :: "string \<Rightarrow> ledger \<Rightarrow> ledger" where
  "exact_account a L = L\<lparr>txs := upd_where (\<lambda>r. tx_account r = a)
     (\<lambda>r. with_balance r (word_of_int (exact_balance L r))) (txs L)\<rparr>"

definition account_in_range :: "string \<Rightarrow> ledger \<Rightarrow> bool" where
  "account_in_range a L \<longleftrightarrow> (\<forall>r\<in>set (txs L). tx_account r = a \<longrightarrow> in_int64 (exact_balance L r))"

lemma sint_word_of_int: "in_int64 v \<Longrightarrow> sint (word_of_int v :: int64) = v"
  using signed_take_bit_63[of v] by (simp add: sint_uint uint_word_of_int_eq signed_take_bit_take_bit)

lemma updates_lookup:
  assumes wf: "wf_txs L" and us: "balance_updates L 0 (account_rows a L) = Inr us"
    and r: "r \<in> set (txs L)"
  shows "map_of us (tx_id r) =
    (if tx_account r = a then Some (word_of_int (exact_balance L r)) else None)"
proof -
  have eq: "map (\<lambda>(i, v). (i, sint v)) us = run_sums L 0 (account_rows a L)"
    using us by (simp add: balance_updates_Inr)
  have keys: "map fst us = map tx_id (account_rows a L)"
    using arg_cong[OF eq, of "map fst"] by (simp add: comp_def case_prod_beta)
  show ?thesis
  proof (cases "tx_account r = a")
    case True
    then have "(tx_id r, exact_balance L r) \<in> set (map (\<lambda>(i, v). (i, sint v)) us)"
      using r run_sums_exact[OF wf, of a] eq by auto
    then obtain v where v: "(tx_id r, v) \<in> set us" "exact_balance L r = sint v" by auto
    have "distinct (map fst us)" using keys account_rows_props(2)[OF wf] by simp
    then show ?thesis using v True by simp
  next
    case False
    have "tx_id r \<notin> set (map fst us)"
      unfolding keys using False r wf account_rows_props(1)[OF wf, of a]
      by (auto simp: wf_txs_def dest: distinct_map_inj)
    then show ?thesis using False by (simp add: map_of_eq_None_iff)
  qed
qed

lemma recalculateBalanceIn_Inr:
  assumes wf: "wf_txs L"
  shows "recalculateBalanceIn a L = Inr L' \<longleftrightarrow> account_in_range a L \<and> L' = exact_account a L"
proof -
  have "okE (balance_updates L 0 (account_rows a L)) \<longleftrightarrow> account_in_range a L"
    unfolding balance_updates_ok using run_sums_exact[OF wf, of a]
    by (auto simp: account_in_range_def)
  moreover have "apply_balances us L = exact_account a L"
    if us: "balance_updates L 0 (account_rows a L) = Inr us" for us
  proof -
    have eq: "map (\<lambda>(i, v). (i, sint v)) us = run_sums L 0 (account_rows a L)"
      using us by (simp add: balance_updates_Inr)
    have "map fst us = map tx_id (account_rows a L)"
      using arg_cong[OF eq, of "map fst"] by (simp add: comp_def case_prod_beta)
    then have "distinct (map fst us)" using account_rows_props(2)[OF wf] by simp
    then show ?thesis
      by (simp add: apply_balances_eq exact_account_def upd_where_def with_balance_def
          updates_lookup[OF wf us])
  qed
  ultimately show ?thesis
    by (auto simp: recalculateBalanceIn_def res_simps okE_iff)
qed

lemma recalculateBalanceIn_Inl:
  assumes "wf_txs L" and "recalculateBalanceIn a L = Inl e"
  shows "\<exists>r\<in>set (txs L). tx_account r = a \<and> \<not> in_int64 (exact_balance L r) \<and>
    e = ErrBalanceOverflow (tx_id r)"
  using assms(2) balance_updates_Inl[of L 0 "account_rows a L" e] run_sums_exact[OF assms(1), of a]
  by (auto simp: recalculateBalanceIn_def res_simps)

lemma exact_balance_rebalance:
  assumes "\<And>r. \<exists>b. g r = with_balance r b"
  shows "exact_balance (L\<lparr>txs := map g (txs L)\<rparr>) (g r) = exact_balance L r"
proof -
  have [simp]: "tx_account (g s) = tx_account s" "row_key (g s) = row_key s"
    "signed_amount (L\<lparr>txs := map g (txs L)\<rparr>) (g s) = signed_amount L s" for s
    using assms[of s]
    by (auto simp: with_balance_def row_key_def signed_amount_def eff_amount_def cong: option.case_cong)
  show ?thesis by (simp add: exact_balance_def filter_map comp_def)
qed

lemma exact_balance_exact_account:
  assumes "r \<in> set (txs (exact_account a L))"
  shows "\<exists>s\<in>set (txs L). exact_balance (exact_account a L) r = exact_balance L s \<and>
    r = (if tx_account s = a then with_balance s (word_of_int (exact_balance L s)) else s)"
proof -
  let ?g = "\<lambda>s. if tx_account s = a then with_balance s (word_of_int (exact_balance L s)) else s"
  have g: "\<exists>b. ?g s = with_balance s b" for s
    by (cases "tx_account s = a") (auto simp: with_balance_def intro: exI[of _ "tx_balance s"])
  have eq: "exact_account a L = L\<lparr>txs := map ?g (txs L)\<rparr>"
    by (simp add: exact_account_def upd_where_def)
  from assms obtain s where s: "s \<in> set (txs L)" "r = ?g s" by (auto simp: eq)
  then show ?thesis using exact_balance_rebalance[of ?g L s, OF g] by (auto simp: eq)
qed

lemma exact_account_balanced:
  assumes "account_in_range a L" and "b \<noteq> a \<Longrightarrow> balances_exact b L"
  shows "balances_exact b (exact_account a L)"
  unfolding balances_exact_def
proof (intro ballI impI)
  fix r assume "r \<in> set (txs (exact_account a L))" and b: "tx_account r = b"
  then obtain s where s: "s \<in> set (txs L)" "exact_balance (exact_account a L) r = exact_balance L s"
    "r = (if tx_account s = a then with_balance s (word_of_int (exact_balance L s)) else s)"
    using exact_balance_exact_account by blast
  show "sint (tx_balance r) = exact_balance (exact_account a L) r"
  proof (cases "tx_account s = a")
    case True
    then show ?thesis using s assms(1)
      by (simp add: account_in_range_def sint_word_of_int with_balance_def)
  next
    case False
    then show ?thesis using s b assms(2) by (auto simp: balances_exact_def)
  qed
qed

lemma recalculateBalanceIn_wf:
  "ledger_wf L \<Longrightarrow> recalculateBalanceIn a L = Inr L' \<Longrightarrow> ledger_wf L'"
  by (auto simp: recalculateBalanceIn_def res_simps apply_balances_wf)

section \<open>What balances depend on\<close>

lemma exact_balance_cong:
  assumes "txs L' = txs L" and "archive_amounts L' = archive_amounts L"
  shows "exact_balance L' = exact_balance L"
proof -
  have "signed_amount L' = signed_amount L"
    using assms by (simp add: signed_amount_def eff_amount_def fun_eq_iff cong: option.case_cong)
  then show ?thesis using assms by (intro ext) (simp add: exact_balance_def)
qed

lemma ledger_balanced_cong:
  "txs L' = txs L \<Longrightarrow> archive_amounts L' = archive_amounts L \<Longrightarrow> ledger_balanced L' = ledger_balanced L"
  using exact_balance_cong[of L' L] by (simp add: ledger_balanced_def)

section \<open>Balance history\<close>

text \<open>
  \<open>buildBalanceHistory\<close> groups the rows it is given by account and by day and carries the last balance
  forward over days without rows. A day key, formatted \<open>2006-01-02\<close>, is kept as (year, month, day),
  whose order is the order of the formatted texts; \<open>balancesExact\<close> is the decimal text of \<open>balances\<close>
  and is not repeated.
\<close>

type_synonym day = "nat \<times> nat \<times> nat"

fun day_of :: "stamp \<Rightarrow> day" where
  "day_of (y, m, d, _) = (y, m, d)"

record BalanceHistoryResponse =
  hAccounts :: "string list"
  hDates :: "day list"
  hBalances :: "(string \<times> int64 list) list"

definition account_balances :: "(string \<times> stamp \<times> int64) list \<Rightarrow> string \<times> day \<Rightarrow> int64 option" where
  "account_balances rows = foldl (\<lambda>m (a, d, b). m((a, day_of d) \<mapsto> b)) Map.empty rows"

fun carry_balances :: "(day \<Rightarrow> int64 option) \<Rightarrow> int64 \<Rightarrow> day list \<Rightarrow> int64 list" where
  "carry_balances m lastBalance [] = []"
| "carry_balances m lastBalance (d # ds) =
     (let b = (case m d of Some b \<Rightarrow> b | None \<Rightarrow> lastBalance) in b # carry_balances m b ds)"

definition buildBalanceHistory :: "(string \<times> stamp \<times> int64) list \<Rightarrow> BalanceHistoryResponse" where
  "buildBalanceHistory rows =
     (let dates = sort (remdups (map (\<lambda>(a, d, b). day_of d) rows));
          accounts = sort (remdups (map fst rows)) in
      \<lparr>hAccounts = accounts, hDates = dates,
       hBalances = map (\<lambda>a. (a, carry_balances (\<lambda>d. account_balances rows (a, d)) 0 dates)) accounts\<rparr>)"

definition history_rows :: "(string \<Rightarrow> bool) \<Rightarrow> ledger \<Rightarrow> (string \<times> stamp \<times> int64) list" where
  "history_rows p L = map (\<lambda>r. (tx_account r, tx_date r, tx_balance r))
     (sort_key row_key (filter (\<lambda>r. p (tx_account r)) (txs L)))"

definition GetBalanceHistory :: "ledger \<Rightarrow> BalanceHistoryResponse" where
  "GetBalanceHistory L = buildBalanceHistory (history_rows (\<lambda>_. True) L)"

definition balance_at :: "ledger \<Rightarrow> string \<Rightarrow> day \<Rightarrow> int" where
  "balance_at L a d = sum_list (map (signed_amount L)
     (filter (\<lambda>r. tx_account r = a \<and> day_of (tx_date r) \<le> d) (txs L)))"

lemma account_balances_last:
  assumes "account_balances (map (\<lambda>r. (tx_account r, tx_date r, tx_balance r)) rs) (a, d) = Some b"
  shows "\<exists>xs r ys. rs = xs @ r # ys \<and> tx_account r = a \<and> day_of (tx_date r) = d \<and> tx_balance r = b \<and>
    (\<forall>s\<in>set ys. tx_account s = a \<longrightarrow> day_of (tx_date s) \<noteq> d)"
  using assms
proof (induction rs rule: rev_induct)
  case Nil
  then show ?case by (simp add: account_balances_def)
next
  case (snoc s rs)
  show ?case
  proof (cases "tx_account s = a \<and> day_of (tx_date s) = d")
    case True
    then have "tx_balance s = b" using snoc.prems by (simp add: account_balances_def)
    then show ?thesis using True by (intro exI[of _ rs] exI[of _ s] exI[of _ "[]"]) simp
  next
    case False
    then have "account_balances (map (\<lambda>r. (tx_account r, tx_date r, tx_balance r)) rs) (a, d) = Some b"
      using snoc.prems by (auto simp: account_balances_def split: if_splits)
    from snoc.IH[OF this] obtain xs r ys where "rs = xs @ r # ys" "tx_account r = a"
      "day_of (tx_date r) = d" "tx_balance r = b"
      "\<forall>s\<in>set ys. tx_account s = a \<longrightarrow> day_of (tx_date s) \<noteq> d" by blast
    then show ?thesis using False
      by (intro exI[of _ xs] exI[of _ r] exI[of _ "ys @ [s]"]) auto
  qed
qed

lemma account_balances_None:
  "account_balances (map (\<lambda>r. (tx_account r, tx_date r, tx_balance r)) rs) (a, d) = None \<Longrightarrow>
   r \<in> set rs \<Longrightarrow> tx_account r = a \<Longrightarrow> day_of (tx_date r) \<noteq> d"
  by (induction rs rule: rev_induct) (auto simp: account_balances_def split: if_splits)

lemma day_of_mono: "s \<le> t \<Longrightarrow> day_of s \<le> day_of t"
  by (cases s; cases t) auto

lemma row_key_le_day:
  assumes "row_key s \<le> row_key r"
  shows "day_of (tx_date s) \<le> day_of (tx_date r)"
proof (rule day_of_mono)
  show "tx_date s \<le> tx_date r"
    using assms unfolding row_key_def by (cases "tx_date s = tx_date r") auto
qed

text \<open>The balance recorded for a day is that of the last row of the day, hence the sum up to the day.\<close>

lemma account_balances_exact:
  assumes bal: "ledger_balanced L" and p: "p a"
    and m: "account_balances (history_rows p L) (a, d) = Some b"
  shows "sint b = balance_at L a d"
proof -
  let ?rs = "sort_key row_key (filter (\<lambda>r. p (tx_account r)) (txs L))"
  obtain xs r ys where rs: "?rs = xs @ r # ys" and r: "tx_account r = a" "day_of (tx_date r) = d"
    "tx_balance r = b" and ys: "\<forall>s\<in>set ys. tx_account s = a \<longrightarrow> day_of (tx_date s) \<noteq> d"
    using account_balances_last[OF m[unfolded history_rows_def]] by blast
  have "set ?rs = set (xs @ r # ys)" using rs by simp
  then have set: "set (xs @ r # ys) = {s \<in> set (txs L). p (tx_account s)}" by simp
  have sorted: "sorted (map row_key (xs @ r # ys))" unfolding rs[symmetric] by simp
  have "(tx_account s = a \<and> row_key s \<le> row_key r) = (tx_account s = a \<and> day_of (tx_date s) \<le> d)"
    if "s \<in> set (txs L)" for s
  proof (cases "tx_account s = a")
    case True
    then have "s \<in> set (xs @ r # ys)" using set p that by auto
    then consider "row_key s \<le> row_key r" | "s \<in> set ys" "row_key r \<le> row_key s"
      using sorted by (auto simp: sorted_append)
    then show ?thesis
    proof cases
      case 1
      then show ?thesis using row_key_le_day[OF 1] r(2) by simp
    next
      case 2
      have "d \<le> day_of (tx_date s)" using row_key_le_day[OF 2(2)] r(2) by simp
      moreover have "day_of (tx_date s) \<noteq> d" using ys 2 True by blast
      ultimately show ?thesis using r(2) row_key_le_day[of s r] by (meson order.antisym)
    qed
  qed simp
  then have "exact_balance L r = balance_at L a d"
    unfolding exact_balance_def balance_at_def r(1) by (intro arg_cong[where f = sum_list] map_cong filter_cong) simp_all
  moreover have "r \<in> set (txs L)" using set by auto
  ultimately show ?thesis using bal r(3) by (auto simp: ledger_balanced_def)
qed

text \<open>Carrying forward over a sorted list of days that contains every day of the account.\<close>

lemma carry_balances_exact:
  assumes hit: "\<And>d b. m d = Some b \<Longrightarrow> sint b = balance_at L a d"
    and miss: "\<And>d r. m d = None \<Longrightarrow> r \<in> set (txs L) \<Longrightarrow> tx_account r = a \<Longrightarrow> day_of (tx_date r) \<noteq> d"
    and "sorted (ds1 @ ds)" and "distinct (ds1 @ ds)"
    and cover: "\<And>r. r \<in> set (txs L) \<Longrightarrow> tx_account r = a \<Longrightarrow> day_of (tx_date r) \<in> set (ds1 @ ds)"
    and "sint v = sum_list (map (signed_amount L)
          (filter (\<lambda>r. tx_account r = a \<and> day_of (tx_date r) \<in> set ds1) (txs L)))"
  shows "map sint (carry_balances m v ds) = map (balance_at L a) ds"
  using assms(3-)
proof (induction ds arbitrary: ds1 v)
  case Nil
  then show ?case by simp
next
  case (Cons d ds)
  let ?b = "case m d of Some b \<Rightarrow> b | None \<Rightarrow> v"
  have upto: "(tx_account r = a \<and> day_of (tx_date r) \<in> set (ds1 @ [d])) =
      (tx_account r = a \<and> day_of (tx_date r) \<le> d)" if "r \<in> set (txs L)" for r
    using Cons.prems(1,2) Cons.prems(3)[OF that] by (auto simp: sorted_append intro: order.antisym)
  have at: "balance_at L a d = sum_list (map (signed_amount L)
      (filter (\<lambda>r. tx_account r = a \<and> day_of (tx_date r) \<in> set (ds1 @ [d])) (txs L)))"
    unfolding balance_at_def
    by (intro arg_cong[where f = sum_list] map_cong filter_cong refl) (simp only: upto)
  have b: "sint ?b = balance_at L a d"
  proof (cases "m d")
    case None
    then have "filter (\<lambda>r. tx_account r = a \<and> day_of (tx_date r) \<in> set (ds1 @ [d])) (txs L) =
        filter (\<lambda>r. tx_account r = a \<and> day_of (tx_date r) \<in> set ds1) (txs L)"
      using miss[OF None] by (intro filter_cong) auto
    then show ?thesis using None Cons.prems(4) at by simp
  next
    case (Some b)
    then show ?thesis using hit by simp
  qed
  have "map sint (carry_balances m ?b ds) = map (balance_at L a) ds"
  proof (rule Cons.IH[of "ds1 @ [d]"])
    show "sint ?b = sum_list (map (signed_amount L)
      (filter (\<lambda>r. tx_account r = a \<and> day_of (tx_date r) \<in> set (ds1 @ [d])) (txs L)))"
      using b at by simp
  qed (use Cons.prems in auto)
  then show ?case using b by (simp add: Let_def)
qed

lemma history_exact:
  assumes bal: "ledger_balanced L" and mem: "(a, bs) \<in> set (hBalances (buildBalanceHistory (history_rows p L)))"
  shows "map sint bs = map (balance_at L a) (hDates (buildBalanceHistory (history_rows p L)))"
proof -
  let ?rows = "history_rows p L"
  let ?ds = "sort (remdups (map (\<lambda>(a, d, b). day_of d) ?rows))"
  have pa: "p a" and bs: "bs = carry_balances (\<lambda>d. account_balances ?rows (a, d)) 0 ?ds"
    using mem by (auto simp: buildBalanceHistory_def Let_def history_rows_def)
  have "map sint (carry_balances (\<lambda>d. account_balances ?rows (a, d)) 0 ?ds) = map (balance_at L a) ?ds"
  proof (rule carry_balances_exact[where ?ds1.0 = "[]"])
    show "day_of (tx_date r) \<noteq> d"
      if "account_balances ?rows (a, d) = None" "r \<in> set (txs L)" "tx_account r = a" for d r
      using that pa account_balances_None[OF that(1)[unfolded history_rows_def], of r] by simp
    show "day_of (tx_date r) \<in> set ([] @ ?ds)" if "r \<in> set (txs L)" "tx_account r = a" for r
      using that pa by (force simp: history_rows_def image_iff)
  qed (use account_balances_exact[where p = p and L = L and a = a] bal pa in auto)
  then show ?thesis by (simp add: bs buildBalanceHistory_def Let_def)
qed

section \<open>Properties\<close>

text \<open>C13: recalculating an account writes the exact balance to each of its rows and changes nothing else;
  it fails only when some exact balance of the account leaves the 64-bit range, naming such a row.\<close>

theorem recalculate_exact:
  assumes "wf_txs L"
  shows "case recalculateBalanceIn a L of
      Inr L' \<Rightarrow> L' = exact_account a L \<and> balances_exact a L'
    | Inl e \<Rightarrow> \<exists>r\<in>set (txs L). tx_account r = a \<and> \<not> in_int64 (exact_balance L r) \<and> e = ErrBalanceOverflow (tx_id r)"
proof (cases "recalculateBalanceIn a L")
  case (Inl e)
  then show ?thesis using recalculateBalanceIn_Inl[OF assms] by simp
next
  case (Inr L')
  then have "account_in_range a L" "L' = exact_account a L"
    using assms by (simp_all add: recalculateBalanceIn_Inr)
  then show ?thesis using Inr exact_account_balanced[of a L a] by simp
qed

definition sample_rows :: ledger where
  "sample_rows = empty_ledger\<lparr>txs :=
     [\<lparr>tx_id = 1, tx_account = ''Bank'', tx_date = (2024, 2, 1, 0, 0, 0), tx_item = ''rent'', tx_type = ''expense'',
       tx_amount = 300, tx_balance = 0, tx_memo = []\<rparr>,
      \<lparr>tx_id = 2, tx_account = ''Bank'', tx_date = (2024, 1, 1, 0, 0, 0), tx_item = ''pay'', tx_type = ''income'',
       tx_amount = 500, tx_balance = 0, tx_memo = []\<rparr>], tx_seq := 2\<rparr>"

theorem recalculate_exact_witness:
  "map tx_balance (txs (projr (recalculateBalanceIn ''Bank'' sample_rows))) = [200, 500] \<and>
   balances_exact ''Bank'' (projr (recalculateBalanceIn ''Bank'' sample_rows))"
proof -
  have wf: "wf_txs sample_rows" by code_simp
  have run: "isl (recalculateBalanceIn ''Bank'' sample_rows) = False"
    "map tx_balance (txs (projr (recalculateBalanceIn ''Bank'' sample_rows))) = [200, 500]" by code_simp+
  then show ?thesis using recalculate_exact[OF wf, of "''Bank''"] by (cases "recalculateBalanceIn ''Bank'' sample_rows") auto
qed

text \<open>C37: in a balanced ledger the balance history reports, for every account and every listed day, the
  exact sum of the account's signed amounts up to the end of that day.\<close>

theorem balance_history_exact:
  assumes "ledger_balanced L" and "(a, bs) \<in> set (hBalances (GetBalanceHistory L))"
  shows "map sint bs = map (balance_at L a) (hDates (GetBalanceHistory L)) \<and> a \<in> tx_account ` set (txs L)"
  using history_exact[of L a bs "\<lambda>_. True"] assms
  by (auto simp: GetBalanceHistory_def buildBalanceHistory_def history_rows_def Let_def)

theorem balance_history_exact_witness:
  "map (balance_at (exact_account ''Bank'' sample_rows) ''Bank'') [(2024, 1, 1), (2024, 2, 1)] = [500, 200]"
proof -
  let ?L = "exact_account ''Bank'' sample_rows"
  have b: "ledger_balanced ?L" by code_simp
  have h: "hBalances (GetBalanceHistory ?L) = [(''Bank'', [500, 200])]"
    "hDates (GetBalanceHistory ?L) = [(2024, 1, 1), (2024, 2, 1)]" by code_simp+
  then show ?thesis using balance_history_exact[OF b, of "''Bank''" "[500, 200]"] by (simp only: h) simp
qed

end
