(* ===== verification/Images.thy ===== *)
theory Images
  imports Service Balance
begin

text \<open>
  Transaction images: the preparation pipeline of \<open>backend/core/image_security.go\<close> (metadata, strict
  Base64, sniffed content type, container, decoded dimensions) and the storage quotas of
  \<open>backend/core/service.go\<close> with the insert trigger of \<open>backend/database/database.go\<close>. The pixel
  decoders behind \<open>image.DecodeConfig\<close> and \<open>image.Decode\<close> are parameters; waiting for a decode slot is
  not modelled. Byte counts are sums of lengths of stored blobs and are kept as natural numbers.
\<close>

section \<open>Limits\<close>

definition MaxImageBytes :: nat where "MaxImageBytes = 5 * 1024 * 1024"
definition MaxImagesPerTransaction :: nat where "MaxImagesPerTransaction = 10"
definition MaxImageBytesPerTransaction :: nat where "MaxImageBytesPerTransaction = 20 * 1024 * 1024"
definition MaxImageBytesPerAccount :: nat where "MaxImageBytesPerAccount = 128 * 1024 * 1024"
definition MaxImageBytesDatabase :: nat where "MaxImageBytesDatabase = 256 * 1024 * 1024"
definition maxImageFilenameBytes :: nat where "maxImageFilenameBytes = 255"

section \<open>Metadata\<close>

record TransactionImageRequest =
  req_filename :: string
  req_data :: string
  req_mime :: string

record preparedTransactionImage =
  pi_filename :: string
  pi_mime :: string
  pi_data :: bytes

text \<open>What \<open>image.DecodeConfig\<close> and \<open>image.Decode\<close> report: format, width, height.\<close>

record image_codec =
  DecodeConfig :: "bytes \<Rightarrow> (string \<times> int \<times> int) option"
  Decode :: "bytes \<Rightarrow> (string \<times> int \<times> int) option"

text \<open>\<open>strings.ToLower\<close> as far as it can yield ASCII letters; other letters stay non-ASCII either way
  and never equal an accepted extension or MIME type.\<close>

definition lower_chunk :: "nat \<times> string \<Rightarrow> string" where
  "lower_chunk c = (case c of (r, bs) \<Rightarrow>
     if 65 \<le> r \<and> r \<le> 90 then [char_of (r + 32)] else if r = 304 then ''i'' else if r = 8490 then ''k'' else bs)"

definition ToLower :: "string \<Rightarrow> string" where
  "ToLower s = concat (map lower_chunk (chunks s))"

text \<open>\<open>filepath.Ext\<close>: the suffix from the last dot of the last path element.\<close>

definition Ext :: "string \<Rightarrow> string" where
  "Ext s = (let t = takeWhile (\<lambda>c. c \<noteq> CHR ''.'' \<and> c \<noteq> CHR ''/'') (rev s);
                r = drop (length t) (rev s) in
            case r of c # _ \<Rightarrow> if c = CHR ''.'' then CHR ''.'' # rev t else [] | [] \<Rightarrow> [])"

definition imageMIMEByExtension :: "string \<Rightarrow> string option" where
  "imageMIMEByExtension ext = map_of
     [(''.jpg'', ''image/jpeg''), (''.jpeg'', ''image/jpeg''), (''.png'', ''image/png''),
      (''.gif'', ''image/gif''), (''.webp'', ''image/webp'')] ext"

definition imageFormatByMIME :: "string \<Rightarrow> string option" where
  "imageFormatByMIME mime = map_of
     [(''image/jpeg'', ''jpeg''), (''image/png'', ''png''), (''image/gif'', ''gif''),
      (''image/webp'', ''webp'')] mime"

text \<open>The test on \<open>filepath.Base\<close> is implied: the base of a non-empty name without slash is the name.\<close>

definition validateImageFilename :: "string \<Rightarrow> (lerr, unit) result" where
  "validateImageFilename filename =
     (if filename = [] \<or> filename = ''.'' \<or> filename = ''..'' then Inl ErrImageFilename
      else if \<not> ValidString filename \<or> length filename > maxImageFilenameBytes then Inl ErrImageFilename
      else if CHR ''/'' \<in> set filename \<or> char_of (92 :: nat) \<in> set filename then Inl ErrImageFilename
      else if \<exists>r\<in>set (runes filename). IsControl r then Inl ErrImageFilename
      else Inr ())"

definition normalizeImageMetadata :: "string \<Rightarrow> string \<Rightarrow> (lerr, string \<times> string) result" where
  "normalizeImageMetadata rawFilename rawMIME =
     (let filename = TrimSpace rawFilename in
      bindE (validateImageFilename filename) (\<lambda>_.
      bindE (ofOption ErrImageExtension (imageMIMEByExtension (ToLower (Ext filename)))) (\<lambda>expected.
      let m = ToLower (TrimSpace rawMIME); mime = (if m = [] then expected else m) in
      if mime \<noteq> expected then Inl ErrImageMIME else Inr (filename, mime))))"

section \<open>Content\<close>

text \<open>\<open>base64.StdEncoding.Strict()\<close> on input without line breaks.\<close>

definition b64_value :: "char \<Rightarrow> nat option" where
  "b64_value c = (let n = byte c in
     if 65 \<le> n \<and> n \<le> 90 then Some (n - 65)
     else if 97 \<le> n \<and> n \<le> 122 then Some (n - 71)
     else if 48 \<le> n \<and> n \<le> 57 then Some (n + 4)
     else if n = 43 then Some 62
     else if n = 47 then Some 63
     else None)"

definition b64_quad :: "nat \<Rightarrow> nat \<Rightarrow> nat \<Rightarrow> nat \<Rightarrow> bytes" where
  "b64_quad a b c d = [of_nat (a * 4 + b div 16), of_nat (b mod 16 * 16 + c div 4), of_nat (c mod 4 * 64 + d)]"

fun b64_decode :: "string \<Rightarrow> bytes option" where
  "b64_decode [] = Some []"
| "b64_decode (a # b # c # d # rest) =
     (case (b64_value a, b64_value b) of
        (Some va, Some vb) \<Rightarrow>
          if rest = [] \<and> d = CHR ''='' then
            (if c = CHR ''='' then (if vb mod 16 = 0 then Some (take 1 (b64_quad va vb 0 0)) else None)
             else (case b64_value c of
                 Some vc \<Rightarrow> if vc mod 4 = 0 then Some (take 2 (b64_quad va vb vc 0)) else None
               | None \<Rightarrow> None))
          else (case (b64_value c, b64_value d, b64_decode rest) of
              (Some vc, Some vd, Some ds) \<Rightarrow> Some (b64_quad va vb vc vd @ ds)
            | _ \<Rightarrow> None)
      | _ \<Rightarrow> None)"
| "b64_decode _ = None"

definition EncodedLen :: "nat \<Rightarrow> nat" where
  "EncodedLen n = (n + 2) div 3 * 4"

text \<open>\<open>http.DetectContentType\<close> for the four accepted types; any other answer is \<open>None\<close>. The signatures are
  those of its table and exclude each other and all earlier entries by their first bytes.\<close>

definition bytes_of :: "string \<Rightarrow> bytes" where
  "bytes_of s = map (\<lambda>c. of_nat (byte c)) s"

definition DetectContentType :: "bytes \<Rightarrow> string option" where
  "DetectContentType d =
     (if take 6 d = bytes_of ''GIF87a'' \<or> take 6 d = bytes_of ''GIF89a'' then Some ''image/gif''
      else if take 4 d = bytes_of ''RIFF'' \<and> take 6 (drop 8 d) = bytes_of ''WEBPVP'' then Some ''image/webp''
      else if take 8 d = [0x89, 0x50, 0x4E, 0x47, 0x0D, 0x0A, 0x1A, 0x0A] then Some ''image/png''
      else if take 3 d = [0xFF, 0xD8, 0xFF] then Some ''image/jpeg''
      else None)"

definition validateDecodedTransactionImage ::
  "image_codec \<Rightarrow> string \<Rightarrow> string \<Rightarrow> bytes \<Rightarrow> (lerr, preparedTransactionImage) result" where
  "validateDecodedTransactionImage codec filename mime d =
     (if d = [] then Inl ErrImageEmpty
      else if length d > MaxImageBytes then Inl ErrImageTooLarge
      else if DetectContentType d \<noteq> Some mime then Inl ErrImageContent
      else
        bindE (mapErr ErrImageContainer (validateImageContainer mime d)) (\<lambda>_.
        bindE (ofOption ErrImageDecode (DecodeConfig codec d)) (\<lambda>(format, w, h).
        bindE (guardE (Some format = imageFormatByMIME mime) ErrImageDecode) (\<lambda>_.
        bindE (mapErr ErrImageContainer (validateImageDimensions w h)) (\<lambda>_.
        bindE (ofOption ErrImageDecode (Decode codec d)) (\<lambda>(format', w', h').
        bindE (guardE (Some format' = imageFormatByMIME mime) ErrImageDecode) (\<lambda>_.
        bindE (mapErr ErrImageContainer (validateImageDimensions w' h')) (\<lambda>_.
        Inr \<lparr>pi_filename = filename, pi_mime = mime, pi_data = d\<rparr>))))))))"

definition prepareTransactionImage ::
  "image_codec \<Rightarrow> TransactionImageRequest \<Rightarrow> (lerr, preparedTransactionImage) result" where
  "prepareTransactionImage codec request =
     bindE (normalizeImageMetadata (req_filename request) (req_mime request)) (\<lambda>(filename, mime).
     let encoded = TrimSpace (req_data request) in
     if encoded = [] \<or> (\<exists>r\<in>set (runes encoded). IsSpace r) then Inl ErrImageBase64
     else if length encoded > EncodedLen MaxImageBytes then Inl ErrImageTooLarge
     else bindE (ofOption ErrImageBase64 (b64_decode encoded)) (\<lambda>d.
       if d = [] then Inl ErrImageBase64
       else if length d > MaxImageBytes then Inl ErrImageTooLarge
       else validateDecodedTransactionImage codec filename mime d))"

definition prepareDecodedTransactionImage ::
  "image_codec \<Rightarrow> string \<Rightarrow> string \<Rightarrow> bytes \<Rightarrow> (lerr, preparedTransactionImage) result" where
  "prepareDecodedTransactionImage codec rawFilename rawMIME d =
     bindE (normalizeImageMetadata rawFilename rawMIME) (\<lambda>(filename, mime).
     validateDecodedTransactionImage codec filename mime d)"

fun prepare_images_loop ::
  "image_codec \<Rightarrow> nat \<Rightarrow> TransactionImageRequest list \<Rightarrow> (lerr, preparedTransactionImage list) result" where
  "prepare_images_loop codec totalBytes [] = Inr []"
| "prepare_images_loop codec totalBytes (r # rs) =
     bindE (prepareTransactionImage codec r) (\<lambda>p.
     let total = totalBytes + length (pi_data p) in
     if total > MaxImageBytesPerTransaction then Inl ErrImageTransactionBytes
     else bindE (prepare_images_loop codec total rs) (\<lambda>ps. Inr (p # ps)))"

definition prepareTransactionImages ::
  "image_codec \<Rightarrow> TransactionImageRequest list \<Rightarrow> (lerr, preparedTransactionImage list) result" where
  "prepareTransactionImages codec reqs =
     (if reqs = [] then Inr []
      else if length reqs > MaxImagesPerTransaction then Inl ErrImageCount
      else prepare_images_loop codec 0 reqs)"

section \<open>Storage\<close>

definition blob_bytes :: "(image_row \<Rightarrow> bool) \<Rightarrow> ledger \<Rightarrow> nat" where
  "blob_bytes p L = sum_list (map (\<lambda>r. length (img_data r)) (filter p (images L @ image_archive L)))"

definition tx_image_count :: "int \<Rightarrow> ledger \<Rightarrow> nat" where
  "tx_image_count i L = length (filter (\<lambda>r. img_tx r = i) (images L @ image_archive L))"

definition tx_image_bytes :: "int \<Rightarrow> ledger \<Rightarrow> nat" where
  "tx_image_bytes i L = blob_bytes (\<lambda>r. img_tx r = i) L"

definition in_account :: "ledger \<Rightarrow> string \<Rightarrow> int \<Rightarrow> bool" where
  "in_account L a i \<longleftrightarrow> (\<exists>t\<in>set (txs L). tx_id t = i \<and> tx_account t = a)"

definition account_image_bytes :: "string \<Rightarrow> ledger \<Rightarrow> nat" where
  "account_image_bytes a L = blob_bytes (\<lambda>r. in_account L a (img_tx r)) L"

definition db_image_bytes :: "ledger \<Rightarrow> nat" where
  "db_image_bytes L = blob_bytes (\<lambda>_. True) L"

text \<open>\<open>INSERT INTO transaction_images\<close> with \<open>trg_transaction_images_quota_insert\<close> and the foreign key.\<close>

definition insertPreparedTransactionImage ::
  "int \<Rightarrow> preparedTransactionImage \<Rightarrow> ledger \<Rightarrow> (lerr, ledger \<times> int) result" where
  "insertPreparedTransactionImage i p L =
     (let n = length (pi_data p); k = image_seq L + 1 in
      case find_tx L i of
        None \<Rightarrow> Inl ErrConstraint
      | Some t \<Rightarrow>
          if n = 0 \<or> n > MaxImageBytes
             \<or> tx_image_count i L \<ge> MaxImagesPerTransaction
             \<or> tx_image_bytes i L + n > MaxImageBytesPerTransaction
             \<or> account_image_bytes (tx_account t) L + n > MaxImageBytesPerAccount
             \<or> db_image_bytes L + n > MaxImageBytesDatabase
          then Inl ErrConstraint
          else Inr (L\<lparr>images := images L @ [\<lparr>img_id = k, img_tx = i, img_filename = pi_filename p,
                 img_data = pi_data p, img_mime = pi_mime p\<rparr>], image_seq := k\<rparr>, k))"

definition checkImageStorageQuota :: "int \<Rightarrow> preparedTransactionImage list \<Rightarrow> ledger \<Rightarrow> (lerr, unit) result" where
  "checkImageStorageQuota i ps L =
     bindE (ofOption ErrTransactionNotFound (find_tx L i)) (\<lambda>t.
     let additional = sum_list (map (\<lambda>p. length (pi_data p)) ps) in
     bindE (if ps = [] then Inr ()
            else bindE (guardE (tx_image_count i L + length ps \<le> MaxImagesPerTransaction) ErrImageCount) (\<lambda>_.
                 guardE (tx_image_bytes i L + additional \<le> MaxImageBytesPerTransaction) ErrImageTransactionBytes)) (\<lambda>_.
     bindE (guardE (account_image_bytes (tx_account t) L + additional \<le> MaxImageBytesPerAccount)
        ErrImageAccountBytes) (\<lambda>_.
     guardE (db_image_bytes L + additional \<le> MaxImageBytesDatabase) ErrImageDatabaseBytes)))"

definition insertPreparedTransactionImages ::
  "int \<Rightarrow> preparedTransactionImage list \<Rightarrow> ledger \<Rightarrow> (lerr, ledger) result" where
  "insertPreparedTransactionImages i ps L =
     (if ps = [] then Inr L
      else bindE (checkImageStorageQuota i ps L) (\<lambda>_.
        foldE (\<lambda>p L. bindE (mapErr (\<lambda>_. ErrImageStore) (insertPreparedTransactionImage i p L)) (\<lambda>(L', _). Inr L'))
          ps L))"

definition overage :: "int \<Rightarrow> int" where
  "overage n = (if n \<le> int MaxImageBytesPerAccount then 0 else n - int MaxImageBytesPerAccount)"

definition checkImageAccountMoveQuota :: "int \<Rightarrow> string \<Rightarrow> string \<Rightarrow> ledger \<Rightarrow> (lerr, unit) result" where
  "checkImageAccountMoveQuota i oldAccount newAccount L =
     (if oldAccount = newAccount then Inr ()
      else let transactionBytes = int (tx_image_bytes i L);
               oldAfter = int (account_image_bytes oldAccount L);
               newAfter = int (account_image_bytes newAccount L) in
        if transactionBytes < 0 \<or> oldAfter > sint MaxInt64 - transactionBytes \<or> newAfter < transactionBytes
        then Inl ErrImageMoveDelta
        else let oldBefore = oldAfter + transactionBytes; newBefore = newAfter - transactionBytes;
                 beforeOld = overage oldBefore; beforeNew = overage newBefore;
                 afterOld = overage oldAfter; afterNew = overage newAfter in
          if beforeOld > sint MaxInt64 - beforeNew \<or> afterOld > sint MaxInt64 - afterNew
          then Inl ErrImageMoveDelta
          else if afterOld + afterNew > beforeOld + beforeNew then Inl ErrImageMoveQuota
          else Inr ())"

text \<open>\<open>DELETE ... WHERE transaction_id = ? AND id = ?\<close> on the table a response id names: the archive for
  negative ids. Exactly one row has to go.\<close>

definition delete_image_where :: "(image_row \<Rightarrow> bool) \<Rightarrow> bool \<Rightarrow> ledger \<Rightarrow> (lerr, ledger) result" where
  "delete_image_where p archive L =
     (if archive
      then bindE (guardE (count_where p (image_archive L) = 1) ErrImageNotFound) (\<lambda>_.
        Inr (L\<lparr>image_archive := del_where p (image_archive L)\<rparr>))
      else bindE (guardE (count_where p (images L) = 1) ErrImageNotFound) (\<lambda>_.
        Inr (L\<lparr>images := del_where p (images L)\<rparr>)))"

definition delete_one_image :: "int \<Rightarrow> int \<Rightarrow> ledger \<Rightarrow> (lerr, ledger) result" where
  "delete_one_image i responseID L =
     (if responseID = 0 \<or> responseID = sint MinInt64 then Inl ErrImageNotFound
      else if responseID < 0 then delete_image_where (\<lambda>r. img_tx r = i \<and> img_id r = - responseID) True L
      else delete_image_where (\<lambda>r. img_tx r = i \<and> img_id r = responseID) False L)"

definition deleteTransactionImagesIn :: "int \<Rightarrow> int list \<Rightarrow> ledger \<Rightarrow> (lerr, ledger) result" where
  "deleteTransactionImagesIn i ids L = foldE (delete_one_image i) ids L"

section \<open>Handlers\<close>

definition AddTransactionImage ::
  "image_codec \<Rightarrow> int \<Rightarrow> TransactionImageRequest \<Rightarrow> service \<Rightarrow> (lerr, ledger \<times> int) result" where
  "AddTransactionImage codec i img s =
     bindE (database s) (\<lambda>L.
     bindE (prepareTransactionImages codec [img]) (\<lambda>prepared.
     bindE (checkImageStorageQuota i prepared L) (\<lambda>_.
     mapErr (\<lambda>_. ErrImageStore) (insertPreparedTransactionImage i (hd prepared) L))))"

definition DeleteTransactionImage :: "int \<Rightarrow> service \<Rightarrow> (lerr, ledger \<times> unit) result" where
  "DeleteTransactionImage imageID s =
     bindE (database s) (\<lambda>L.
     bindE (if imageID < 0
            then if imageID = sint MinInt64 then Inl ErrImageNotFound
                 else delete_image_where (\<lambda>r. img_id r = - imageID) True L
            else delete_image_where (\<lambda>r. img_id r = imageID) False L) (\<lambda>L'. Inr (L', ())))"

definition DeleteTransactionImageForTransaction ::
  "int \<Rightarrow> int \<Rightarrow> service \<Rightarrow> (lerr, ledger \<times> unit) result" where
  "DeleteTransactionImageForTransaction i imageID s =
     bindE (database s) (\<lambda>L.
     bindE (if imageID < 0
            then if imageID = sint MinInt64 then Inl ErrImageNotFound
                 else delete_image_where (\<lambda>r. img_tx r = i \<and> img_id r = - imageID) True L
            else delete_image_where (\<lambda>r. img_tx r = i \<and> img_id r = imageID) False L) (\<lambda>L'. Inr (L', ())))"

section \<open>Quotas as an invariant\<close>

definition quota_except :: "string \<Rightarrow> ledger \<Rightarrow> bool" where
  "quota_except a L \<longleftrightarrow>
     (\<forall>r\<in>set (images L). 0 < length (img_data r) \<and> length (img_data r) \<le> MaxImageBytes) \<and>
     (\<forall>i\<in>tx_ids L. tx_image_count i L \<le> MaxImagesPerTransaction \<and>
        tx_image_bytes i L \<le> MaxImageBytesPerTransaction) \<and>
     (\<forall>t\<in>set (txs L). tx_account t \<noteq> a \<longrightarrow>
        account_image_bytes (tx_account t) L \<le> MaxImageBytesPerAccount) \<and>
     db_image_bytes L \<le> MaxImageBytesDatabase"

definition quota_ok :: "ledger \<Rightarrow> bool" where
  "quota_ok L \<longleftrightarrow>
     (\<forall>r\<in>set (images L). 0 < length (img_data r) \<and> length (img_data r) \<le> MaxImageBytes) \<and>
     (\<forall>i\<in>tx_ids L. tx_image_count i L \<le> MaxImagesPerTransaction \<and>
        tx_image_bytes i L \<le> MaxImageBytesPerTransaction) \<and>
     (\<forall>t\<in>set (txs L). account_image_bytes (tx_account t) L \<le> MaxImageBytesPerAccount) \<and>
     db_image_bytes L \<le> MaxImageBytesDatabase"

lemma in_account_iff: "wf_txs L \<Longrightarrow> find_tx L i = Some t \<Longrightarrow> in_account L a i \<longleftrightarrow> tx_account t = a"
  unfolding in_account_def wf_txs_def find_tx_def
  by (auto dest!: find_SomeD dest: distinct_map_inj)

lemma account_image_bytes_none:
  "\<forall>t\<in>set (txs L). tx_account t \<noteq> a \<Longrightarrow> account_image_bytes a L = 0"
  by (auto simp: account_image_bytes_def blob_bytes_def in_account_def filter_empty_conv)

lemma quota_ok_iff:
  "quota_ok L \<longleftrightarrow> quota_except a L \<and> account_image_bytes a L \<le> MaxImageBytesPerAccount"
  using account_image_bytes_none[of L a]
  by (cases "\<exists>t\<in>set (txs L). tx_account t = a") (auto simp: quota_ok_def quota_except_def)

lemma quota_ok_account: "quota_ok L \<Longrightarrow> account_image_bytes a L \<le> MaxImageBytesPerAccount"
  by (simp add: quota_ok_iff[of L a])

text \<open>Fewer blobs under a weaker selection never weigh more.\<close>

definition blobs :: "ledger \<Rightarrow> image_row multiset" where
  "blobs L = mset (images L) + mset (image_archive L)"

lemma blob_bytes_mset:
  "blob_bytes p L = sum_mset (image_mset (\<lambda>r. length (img_data r)) (filter_mset p (blobs L)))"
  by (simp add: blob_bytes_def blobs_def sum_mset_sum_list[symmetric] del: sum_list.append)

lemma tx_image_count_mset: "tx_image_count i L = size (filter_mset (\<lambda>r. img_tx r = i) (blobs L))"
  by (simp add: tx_image_count_def blobs_def size_mset[symmetric] del: size_mset)

lemma filter_mset_le:
  assumes "M \<subseteq># N" and "\<And>r. r \<in># M \<Longrightarrow> p r \<Longrightarrow> q r"
  shows "filter_mset p M \<subseteq># filter_mset q N"
proof -
  have "filter_mset p M = filter_mset p (filter_mset q M)"
    using assms(2) by (simp add: filter_filter_mset) (rule filter_mset_cong0, auto)
  then have "filter_mset p M \<subseteq># filter_mset q M" by (metis multiset_filter_subset)
  then show ?thesis using multiset_filter_mono[OF assms(1), of q] subset_mset.order_trans by blast
qed

lemma sum_mset_le:
  fixes f :: "'a \<Rightarrow> nat"
  assumes "M \<subseteq># N"
  shows "sum_mset (image_mset f M) \<le> sum_mset (image_mset f N)"
proof -
  obtain K where "N = M + K" using assms by (auto simp: subset_mset.le_iff_add)
  then show ?thesis by simp
qed

lemma blob_bytes_mono:
  assumes "blobs L' \<subseteq># blobs L" and "\<And>r. r \<in># blobs L' \<Longrightarrow> p r \<Longrightarrow> q r"
  shows "blob_bytes p L' \<le> blob_bytes q L"
  unfolding blob_bytes_mset by (intro sum_mset_le filter_mset_le assms)

lemma tx_image_count_mono: "blobs L' \<subseteq># blobs L \<Longrightarrow> tx_image_count i L' \<le> tx_image_count i L"
  unfolding tx_image_count_mset by (intro size_mset_mono filter_mset_le) auto

text \<open>A change that only removes blobs and moves transactions only to account \<open>a\<close>.\<close>

lemma quota_except_shrink:
  assumes q: "quota_except a L" and blobs: "blobs L' \<subseteq># blobs L" and imgs: "set (images L') \<subseteq> set (images L)"
    and ids: "tx_ids L' \<subseteq> tx_ids L"
    and acc: "\<And>b i. b \<noteq> a \<Longrightarrow> in_account L' b i \<Longrightarrow> in_account L b i"
  shows "quota_except a L'"
proof -
  have le: "account_image_bytes b L' \<le> account_image_bytes b L" if "b \<noteq> a" for b
    unfolding account_image_bytes_def using blobs acc[OF that] by (rule blob_bytes_mono)
  have tx: "tx_image_bytes i L' \<le> tx_image_bytes i L" "db_image_bytes L' \<le> db_image_bytes L" for i
    unfolding tx_image_bytes_def db_image_bytes_def using blobs by (auto intro: blob_bytes_mono)
  show ?thesis
    unfolding quota_except_def
  proof (intro conjI ballI impI)
    fix t assume t: "t \<in> set (txs L')" "tx_account t \<noteq> a"
    then obtain s where "s \<in> set (txs L)" "tx_account s = tx_account t"
      using acc[OF t(2), of "tx_id t"] by (auto simp: in_account_def)
    then show "account_image_bytes (tx_account t) L' \<le> MaxImageBytesPerAccount"
      using q le[OF t(2)] t(2) unfolding quota_except_def by (metis le_trans)
  next
    fix i assume "i \<in> tx_ids L'"
    then have "i \<in> tx_ids L" using ids by blast
    then have "tx_image_count i L \<le> MaxImagesPerTransaction" "tx_image_bytes i L \<le> MaxImageBytesPerTransaction"
      using q by (auto simp: quota_except_def)
    then show "tx_image_count i L' \<le> MaxImagesPerTransaction" "tx_image_bytes i L' \<le> MaxImageBytesPerTransaction"
      using tx(1)[of i] tx_image_count_mono[OF blobs, of i] by (auto intro: le_trans)
  qed (use q imgs ids tx tx_image_count_mono[OF blobs] in \<open>auto simp: quota_except_def intro: le_trans\<close>)
qed

lemma quota_ok_shrink:
  assumes "quota_ok L" and "blobs L' \<subseteq># blobs L" and "set (images L') \<subseteq> set (images L)"
    and "tx_ids L' \<subseteq> tx_ids L" and acc: "\<And>b i. in_account L' b i \<Longrightarrow> in_account L b i"
  shows "quota_ok L'"
proof -
  obtain a :: string where True by simp
  have "account_image_bytes a L' \<le> account_image_bytes a L"
    unfolding account_image_bytes_def using assms(2) acc by (rule blob_bytes_mono)
  then show ?thesis
    using assms quota_except_shrink[of a L L'] by (auto simp: quota_ok_iff[of _ a])
qed

text \<open>Only the live images and the archive rows may differ.\<close>

definition image_only :: "ledger \<Rightarrow> ledger \<Rightarrow> bool" where
  "image_only L L' \<longleftrightarrow> L' = L\<lparr>images := images L', image_seq := image_seq L', image_archive := image_archive L'\<rparr>"

lemma image_only_iff:
  "image_only L L' \<longleftrightarrow> txs L' = txs L \<and> tx_seq L' = tx_seq L \<and> links L' = links L \<and> tags L' = tags L \<and>
     tag_seq L' = tag_seq L \<and> tx_tags L' = tx_tags L \<and>
     archive_amounts L' = archive_amounts L \<and> settings L' = settings L"
  unfolding image_only_def by (cases L; cases L') auto

lemma image_only_trans: "image_only L L1 \<Longrightarrow> image_only L1 L2 \<Longrightarrow> image_only L L2"
  by (simp add: image_only_iff)

lemma image_only_wf:
  assumes "image_only L L'" and "ledger_wf L" and "wf_images L'"
  shows "ledger_wf L'"
proof -
  have eq: "L' = L\<lparr>images := images L', image_seq := image_seq L', image_archive := image_archive L'\<rparr>"
    using assms(1) by (simp add: image_only_def)
  have "wf_txs L'" "wf_links L'" "wf_archive_amounts L'" "wf_tx_tags L'" "wf_tags L'" "wf_tag_names L'"
    using assms(2) wf_tags_cong[of L' L] wf_tag_names_cong[of L' L] assms(1)
    by (auto simp: ledger_wf_def wf_txs_def wf_links_def wf_archive_amounts_def wf_tx_tags_def
        tx_ids_def tag_ids_def image_only_iff)
  then show ?thesis using assms(3) by (simp add: ledger_wf_def)
qed

lemma delete_image_where_frame:
  assumes "delete_image_where p ar L = Inr L'"
  shows "blobs L' \<subseteq># blobs L" and "set (images L') \<subseteq> set (images L)"
    and "set (image_archive L') \<subseteq> set (image_archive L)"
    and "image_only L L'" and "image_seq L' = image_seq L"
    and "distinct (map img_id (images L)) \<Longrightarrow> distinct (map img_id (images L'))"
  using assms
  by (auto simp: delete_image_where_def res_simps blobs_def del_where_def distinct_map_filter image_only_iff
      split: if_splits)

lemma image_only_ids: "image_only L L' \<Longrightarrow> tx_ids L' = tx_ids L" "image_only L L' \<Longrightarrow> in_account L' = in_account L"
  by (simp_all add: image_only_iff tx_ids_def in_account_def fun_eq_iff)

lemma delete_image_where_ok:
  assumes "delete_image_where p ar L = Inr L'" and "ledger_wf L"
  shows "ledger_wf L'"
proof -
  note f = delete_image_where_frame[OF assms(1)]
  have "wf_images L" using assms(2) by (simp add: ledger_wf_def)
  then have "wf_images L'"
    unfolding wf_images_def using f(2,3,5,6) image_only_ids(1)[OF f(4)] by auto
  then show ?thesis using image_only_wf[OF f(4) assms(2)] by blast
qed

lemma deleteTransactionImagesIn_ok:
  assumes "deleteTransactionImagesIn i ids L = Inr L'" and wf: "ledger_wf L"
  shows "ledger_wf L' \<and> image_only L L' \<and> blobs L' \<subseteq># blobs L \<and> set (images L') \<subseteq> set (images L)"
  using assms(1) unfolding deleteTransactionImagesIn_def
proof (rule foldE_invariant)
  show "ledger_wf L \<and> image_only L L \<and> blobs L \<subseteq># blobs L \<and> set (images L) \<subseteq> set (images L)"
    using wf by (simp add: image_only_iff)
next
  fix x s s'
  assume s: "ledger_wf s \<and> image_only L s \<and> blobs s \<subseteq># blobs L \<and> set (images s) \<subseteq> set (images L)"
    and "delete_one_image i x s = Inr s'"
  then obtain p ar where d: "delete_image_where p ar s = Inr s'"
    by (auto simp: delete_one_image_def split: if_splits)
  show "ledger_wf s' \<and> image_only L s' \<and> blobs s' \<subseteq># blobs L \<and> set (images s') \<subseteq> set (images L)"
    using s delete_image_where_frame[OF d] delete_image_where_ok[OF d] image_only_trans[of L s s']
    by (auto intro: subset_mset.order_trans)
qed

lemma insertPreparedTransactionImage_ok:
  assumes wf: "ledger_wf L" and run: "insertPreparedTransactionImage i p L = Inr (L', k)"
  shows "ledger_wf L' \<and> image_only L L'"
proof -
  have L': "L' = L\<lparr>images := images L @ [\<lparr>img_id = image_seq L + 1, img_tx = i, img_filename = pi_filename p,
       img_data = pi_data p, img_mime = pi_mime p\<rparr>], image_seq := image_seq L + 1\<rparr>"
    and i: "i \<in> tx_ids L"
    using run by (auto simp: insertPreparedTransactionImage_def Let_def find_tx_ex split: option.splits if_splits)
  have o: "image_only L L'" by (simp add: image_only_iff L')
  have "wf_images L" using wf by (simp add: ledger_wf_def)
  then have "wf_images L'"
    unfolding wf_images_def image_only_ids(1)[OF o] using i by (auto simp: L')
  then show ?thesis using image_only_wf[OF o wf] o by blast
qed

lemma insertPreparedTransactionImage_quota:
  assumes wf: "wf_txs L" and run: "insertPreparedTransactionImage i p L = Inr (L', k)"
    and t: "find_tx L i = Some t" and q: "quota_except (tx_account t) L"
  shows "quota_ok L'"
proof -
  let ?r = "\<lparr>img_id = image_seq L + 1, img_tx = i, img_filename = pi_filename p,
       img_data = pi_data p, img_mime = pi_mime p\<rparr>"
  let ?n = "length (pi_data p)" and ?a = "tx_account t"
  have L': "L' = L\<lparr>images := images L @ [?r], image_seq := image_seq L + 1\<rparr>"
    and trg: "0 < ?n" "?n \<le> MaxImageBytes" "tx_image_count i L < MaxImagesPerTransaction"
      "tx_image_bytes i L + ?n \<le> MaxImageBytesPerTransaction"
      "account_image_bytes ?a L + ?n \<le> MaxImageBytesPerAccount" "db_image_bytes L + ?n \<le> MaxImageBytesDatabase"
    using run t by (auto simp: insertPreparedTransactionImage_def Let_def split: if_splits)
  have o: "image_only L L'" by (simp add: image_only_iff L')
  have b: "blob_bytes pr L' = blob_bytes pr L + (if pr ?r then ?n else 0)" for pr
    by (simp add: L' blob_bytes_def)
  have c: "tx_image_count j L' = tx_image_count j L + (if i = j then 1 else 0)" for j
    by (simp add: L' tx_image_count_def)
  have acc: "account_image_bytes a L' = account_image_bytes a L + (if a = ?a then ?n else 0)" for a
    using in_account_iff[OF wf t, of a] by (simp add: account_image_bytes_def image_only_ids(2)[OF o] b)
  have txb: "tx_image_bytes j L' = tx_image_bytes j L + (if i = j then ?n else 0)" for j
    by (simp add: tx_image_bytes_def b)
  have db: "db_image_bytes L' = db_image_bytes L + ?n" by (simp add: db_image_bytes_def b)
  have "quota_except ?a L'"
    using q trg unfolding quota_except_def acc txb db c image_only_ids(1)[OF o] by (simp add: L')
  then show ?thesis using trg(5) acc[of ?a] by (simp add: quota_ok_iff[of L' ?a])
qed

end
