(* ===== verification/Links.thy ===== *)
theory Links
  imports Service Balance
begin

text \<open>
  Links between card transactions and bank withdrawals: \<open>backend/core/card_reconciliation.go\<close> and the
  link and setting operations of \<open>backend/core/service.go\<close>. The two settings
  \<open>credit_card_items\<close> and \<open>bank_account_items\<close> classify accounts; a stored link joins a card transaction
  with a bank transaction, and no operation gives a card transaction a second bank transaction.
\<close>

section \<open>Settings\<close>

definition maxCSVSettingValueBytes :: int where
  "maxCSVSettingValueBytes = 2 * 1024 * 1024"

definition stringSet :: "string list \<Rightarrow> string set" where
  "stringSet items = set (filter (\<lambda>c. c \<noteq> []) (map TrimSpace items))"

definition stringSetFromSetting :: "string \<Rightarrow> string set" where
  "stringSetFromSetting value =
     (case ParseLedgerSettingItemsWithMode value LedgerSettingArchive maxCSVSettingValueBytes MaxSettingItems of
        Inl _ \<Rightarrow> {} | Inr (items, _) \<Rightarrow> stringSet items)"

text \<open>\<open>loadLedgerSettingsIn\<close> and the look-up \<open>settings[key]\<close>, the empty string when absent.\<close>

definition loadLedgerSettingsIn :: "ledger \<Rightarrow> string \<Rightarrow> string" where
  "loadLedgerSettingsIn L key =
     (if key = ''credit_card_items'' \<or> key = ''bank_account_items''
      then (case settings L key of None \<Rightarrow> [] | Some v \<Rightarrow> v) else [])"

definition card_set :: "ledger \<Rightarrow> string set" where
  "card_set L = stringSetFromSetting (loadLedgerSettingsIn L ''credit_card_items'')"

definition bank_set :: "ledger \<Rightarrow> string set" where
  "bank_set L = stringSetFromSetting (loadLedgerSettingsIn L ''bank_account_items'')"

definition getStringSliceSetting :: "string \<Rightarrow> ledger \<Rightarrow> string list" where
  "getStringSliceSetting key L =
     (case settings L key of
        None \<Rightarrow> []
      | Some v \<Rightarrow>
          (case ParseLedgerSettingItemsWithMode v LedgerSettingArchive maxCSVSettingValueBytes MaxSettingItems of
             Inl _ \<Rightarrow> [] | Inr (items, _) \<Rightarrow> items))"

section \<open>Pairs\<close>

definition cardBankPair ::
  "int \<Rightarrow> string \<Rightarrow> int \<Rightarrow> string \<Rightarrow> string set \<Rightarrow> string set \<Rightarrow> (lerr, int \<times> int) result" where
  "cardBankPair idA accountA0 idB accountB0 cards banks =
     (let accountA = TrimSpace accountA0; accountB = TrimSpace accountB0 in
      if accountA \<in> cards \<and> accountA \<in> banks \<or> accountB \<in> cards \<and> accountB \<in> banks then Inl ErrLinkClassOverlap
      else if accountA \<in> cards \<and> accountB \<in> banks then Inr (idA, idB)
      else if accountA \<in> banks \<and> accountB \<in> cards then Inr (idB, idA)
      else Inl ErrLinkNotCardBank)"

definition isCardWithdrawalLinkAccountsWithSettings ::
  "string \<Rightarrow> string \<Rightarrow> string set \<Rightarrow> string set \<Rightarrow> bool" where
  "isCardWithdrawalLinkAccountsWithSettings accountA0 accountB0 cards banks =
     (let accountA = TrimSpace accountA0; accountB = TrimSpace accountB0 in
      accountA \<in> cards \<and> accountB \<in> banks \<or> accountA \<in> banks \<and> accountB \<in> cards)"

text \<open>The join of the links with both endpoints.\<close>

definition link_row :: "ledger \<Rightarrow> int \<times> int \<Rightarrow> (int \<times> string \<times> int \<times> string) option" where
  "link_row L l = (case (find_tx L (fst l), find_tx L (snd l)) of
       (Some p, Some c) \<Rightarrow> Some (fst l, tx_account p, snd l, tx_account c)
     | _ \<Rightarrow> None)"

definition link_rows :: "ledger \<Rightarrow> (int \<times> string \<times> int \<times> string) list" where
  "link_rows L = List.map_filter (link_row L) (links L)"

definition pair_of_row ::
  "string set \<Rightarrow> string set \<Rightarrow> int \<times> string \<times> int \<times> string \<Rightarrow> (int \<times> int) option" where
  "pair_of_row cards banks row = (case row of (a, accA, b, accB) \<Rightarrow>
     (case cardBankPair a accA b accB cards banks of Inl _ \<Rightarrow> None | Inr cb \<Rightarrow> Some cb))"

text \<open>The assignments as (card, bank) pairs. With a bank id only the links of its cards are read.\<close>

definition linked_to :: "int \<Rightarrow> ledger \<Rightarrow> int set" where
  "linked_to i L = snd ` {l \<in> set (links L). fst l = i} \<union> fst ` {l \<in> set (links L). snd l = i}"

definition readCardBankAssignments :: "int \<Rightarrow> ledger \<Rightarrow> (int \<times> int) list" where
  "readCardBankAssignments bankID L =
     (let rows = (if bankID > 0
            then filter (\<lambda>(a, _, b, _). a \<in> linked_to bankID L \<or> b \<in> linked_to bankID L) (link_rows L)
            else link_rows L) in
      List.map_filter (pair_of_row (card_set L) (bank_set L)) rows)"

definition validateCardBankAssignmentChanges :: "(int \<times> int) list \<Rightarrow> ledger \<Rightarrow> (lerr, unit) result" where
  "validateCardBankAssignmentChanges before L =
     (let after = readCardBankAssignments 0 L in
      guardE (\<forall>x\<in>set after. (\<exists>y\<in>set after. fst y = fst x \<and> snd y \<noteq> snd x) \<longrightarrow> x \<in> set before) ErrMultiBank)"

section \<open>Operations\<close>

definition ordered :: "int \<Rightarrow> int \<Rightarrow> int \<times> int" where
  "ordered a b = (if a > b then (b, a) else (a, b))"

definition addCardBankLinkIn :: "int \<Rightarrow> int \<Rightarrow> string set \<Rightarrow> string set \<Rightarrow> ledger \<Rightarrow> (lerr, ledger) result" where
  "addCardBankLinkIn idA idB cards banks L =
     (if idA \<le> 0 \<or> idB \<le> 0 \<or> idA = idB then Inl ErrLinkEndpoint
      else
        bindE (ofOption ErrLinkTarget (find_tx L idA)) (\<lambda>a.
        bindE (ofOption ErrLinkTarget (find_tx L idB)) (\<lambda>b.
        bindE (cardBankPair idA (tx_account a) idB (tx_account b) cards banks) (\<lambda>(cardID, bankID).
        let l = ordered idA idB in
        if l \<in> set (links L) then Inr L
        else if \<exists>t\<in>set (txs L). tx_id t \<in> linked_to cardID L \<and> tx_id t \<noteq> bankID \<and> TrimSpace (tx_account t) \<in> banks
        then Inl ErrLinkOtherBank
        else Inr (L\<lparr>links := links L @ [l]\<rparr>)))))"

definition AddTransactionLink :: "int \<Rightarrow> int \<Rightarrow> service \<Rightarrow> (lerr, ledger \<times> unit) result" where
  "AddTransactionLink parentID childID s =
     (if parentID = childID then Inl ErrLinkSelf
      else bindE (database s) (\<lambda>L.
        bindE (addCardBankLinkIn parentID childID (card_set L) (bank_set L) L) (\<lambda>L'. Inr (L', ()))))"

definition pruneInvalidTransactionLinksIn :: "ledger \<Rightarrow> ledger" where
  "pruneInvalidTransactionLinksIn L =
     (let invalid = map (\<lambda>(p, _, c, _). (p, c)) (filter (\<lambda>(_, accP, _, accC).
            \<not> isCardWithdrawalLinkAccountsWithSettings accP accC (card_set L) (bank_set L)) (link_rows L)) in
      L\<lparr>links := del_where (\<lambda>l. l \<in> set invalid) (links L)\<rparr>)"

definition remove_link :: "int \<Rightarrow> int \<Rightarrow> ledger \<Rightarrow> (lerr, ledger) result" where
  "remove_link transactionID linkedID L =
     (if linkedID \<le> 0 \<or> linkedID = transactionID then Inl ErrLinkTarget
      else let l = ordered transactionID linkedID in
        if l \<in> set (links L) then Inr (L\<lparr>links := del_where (\<lambda>x. x = l) (links L)\<rparr>) else Inl ErrLinkMissing)"

definition applyTransactionLinkChangesIn :: "int \<Rightarrow> int list \<Rightarrow> int list \<Rightarrow> ledger \<Rightarrow> (lerr, ledger) result" where
  "applyTransactionLinkChangesIn transactionID addIDs removeIDs L =
     (if length addIDs + length removeIDs > 100 then Inl ErrLinkTooMany
      else bindE (foldE (remove_link transactionID) removeIDs L) (\<lambda>L1.
        foldE (\<lambda>linkedID. addCardBankLinkIn transactionID linkedID (card_set L) (bank_set L)) addIDs L1))"

definition RemoveTransactionLink :: "int \<Rightarrow> int \<Rightarrow> service \<Rightarrow> (lerr, ledger \<times> unit) result" where
  "RemoveTransactionLink transactionID linkedID s =
     bindE (database s) (\<lambda>L.
     let p = (\<lambda>l. l = (transactionID, linkedID) \<or> l = (linkedID, transactionID)) in
     bindE (guardE (\<exists>l\<in>set (links L). p l) ErrLinkMissing) (\<lambda>_.
     Inr (L\<lparr>links := del_where p (links L)\<rparr>, ())))"

definition saveStringSliceSetting :: "string \<Rightarrow> string list \<Rightarrow> service \<Rightarrow> (lerr, ledger \<times> unit) result" where
  "saveStringSliceSetting key items s =
     (if key \<noteq> ''credit_card_items'' \<and> key \<noteq> ''bank_account_items'' then Inl ErrSettingKey
      else
        bindE (mapErr ErrValidation (ValidateLedgerSettingItems items)) (\<lambda>_.
        bindE (database s) (\<lambda>L.
        bindE (mapErr ErrValidation (MarshalLedgerSettingItems items)) (\<lambda>value.
        let previousAssignments = readCardBankAssignments 0 L;
            L1 = pruneInvalidTransactionLinksIn (L\<lparr>settings := (settings L)(key \<mapsto> value)\<rparr>) in
        bindE (validateCardBankAssignmentChanges previousAssignments L1) (\<lambda>_. Inr (L1, ()))))))"

definition SaveCreditCardSettings :: "string list \<Rightarrow> service \<Rightarrow> (lerr, ledger \<times> unit) result" where
  "SaveCreditCardSettings items = saveStringSliceSetting ''credit_card_items'' items"

definition SaveBankAccountSettings :: "string list \<Rightarrow> service \<Rightarrow> (lerr, ledger \<times> unit) result" where
  "SaveBankAccountSettings items = saveStringSliceSetting ''bank_account_items'' items"

text \<open>The balance history restricted to the requested accounts: card accounts are left out unless only
  card accounts are asked for.\<close>

definition GetBalanceHistoryFiltered :: "string list \<Rightarrow> ledger \<Rightarrow> BalanceHistoryResponse" where
  "GetBalanceHistoryFiltered fundItems L =
     (if fundItems = [] then \<lparr>hAccounts = [], hDates = [], hBalances = []\<rparr>
      else let credit = set (getStringSliceSetting ''credit_card_items'' L);
               q = (if \<forall>x\<in>set fundItems. x \<in> credit then fundItems
                    else filter (\<lambda>x. x \<notin> credit) fundItems);
               queryItems = (if q = [] then fundItems else q) in
        buildBalanceHistory (history_rows (\<lambda>a. a \<in> set queryItems) L))"

section \<open>Reconciliation\<close>

record CardReconciliation =
  rec_applicable :: bool
  rec_cards :: "(int \<times> int list) list"
  rec_card_total :: int
  rec_bank_amount :: int
  rec_difference :: int
  rec_matched :: bool
  rec_conflicts :: bool

text \<open>Expense minus refund, on unbounded integers as \<open>big.Int\<close>.\<close>

definition withdrawal :: "ledger \<Rightarrow> tx_row \<Rightarrow> int" where
  "withdrawal L r = (if tx_type r = ''income'' then - sint (eff_amount L r) else sint (eff_amount L r))"

definition GetCardReconciliation :: "int \<Rightarrow> ledger \<Rightarrow> (lerr, CardReconciliation) result" where
  "GetCardReconciliation bankID L =
     bindE (ofOption ErrTransactionNotFound (find_tx L bankID)) (\<lambda>bank.
     let cards = card_set L; banks = bank_set L; bankAccount = TrimSpace (tx_account bank) in
     if bankAccount \<notin> banks \<or> bankAccount \<in> cards
     then Inr \<lparr>rec_applicable = False, rec_cards = [], rec_card_total = 0, rec_bank_amount = 0,
               rec_difference = 0, rec_matched = False, rec_conflicts = False\<rparr>
     else
       let linked = sort_key row_key (filter (\<lambda>r. tx_id r \<in> linked_to bankID L) (txs L));
           ok = filter (\<lambda>r. okE (cardBankPair (tx_id r) (tx_account r) bankID (tx_account bank) cards banks)) linked;
           total = sum_list (map (withdrawal L) ok);
           assignments = readCardBankAssignments bankID L;
           owners = (\<lambda>c. sort (remdups (map snd (filter (\<lambda>(c', _). c' = c) assignments))));
           amount = withdrawal L bank in
       Inr \<lparr>rec_applicable = True,
            rec_cards = map (\<lambda>r. (tx_id r, owners (tx_id r))) ok,
            rec_card_total = total, rec_bank_amount = amount, rec_difference = total - amount,
            rec_matched = (total = amount),
            rec_conflicts = (length ok \<noteq> length linked \<or> (\<exists>r\<in>set ok. length (owners (tx_id r)) > 1))\<rparr>)"

section \<open>The policy\<close>

text \<open>Every stored link joins a card account with a bank account, in the order of ids.\<close>

definition links_ok :: "ledger \<Rightarrow> bool" where
  "links_ok L \<longleftrightarrow> (\<forall>(_, accP, _, accC)\<in>set (link_rows L).
     isCardWithdrawalLinkAccountsWithSettings accP accC (card_set L) (bank_set L))"

text \<open>No card transaction is assigned to two bank transactions.\<close>

definition single_bank :: "ledger \<Rightarrow> bool" where
  "single_bank L \<longleftrightarrow> (\<forall>x\<in>set (readCardBankAssignments 0 L).
     \<forall>y\<in>set (readCardBankAssignments 0 L). fst x = fst y \<longrightarrow> snd x = snd y)"

definition link_policy :: "ledger \<Rightarrow> bool" where
  "link_policy L \<longleftrightarrow> links_ok L \<and> single_bank L"

section \<open>Assignments\<close>

definition link_pair :: "ledger \<Rightarrow> int \<times> int \<Rightarrow> (int \<times> int) option" where
  "link_pair L l = Option.bind (link_row L l) (pair_of_row (card_set L) (bank_set L))"

lemma set_map_filter: "y \<in> set (List.map_filter f xs) \<longleftrightarrow> (\<exists>x\<in>set xs. f x = Some y)"
  by (induction xs) (auto simp: List.map_filter_def)

lemma link_rows_iff: "row \<in> set (link_rows L) \<longleftrightarrow> (\<exists>l\<in>set (links L). link_row L l = Some row)"
  by (simp add: link_rows_def set_map_filter)

lemma assignments_iff:
  "cb \<in> set (readCardBankAssignments 0 L) \<longleftrightarrow> (\<exists>l\<in>set (links L). link_pair L l = Some cb)"
  unfolding readCardBankAssignments_def link_pair_def bind_eq_Some_conv Let_def
  using link_rows_iff[of _ L] by (simp add: set_map_filter del: split_paired_Ex) blast

lemma pair_of_row_Some:
  "pair_of_row cards banks (p, accP, q, accQ) = Some ck \<longleftrightarrow> cardBankPair p accP q accQ cards banks = Inr ck"
  by (simp add: pair_of_row_def split: sum.split)

lemma link_row_iff:
  "link_row L l = Some (p, accP, c, accC) \<longleftrightarrow> l = (p, c) \<and>
     (\<exists>tp tc. find_tx L p = Some tp \<and> tx_account tp = accP \<and> find_tx L c = Some tc \<and> tx_account tc = accC)"
  by (cases l) (auto simp: link_row_def split: option.splits)

lemma cardBankPair_Inr:
  assumes "cardBankPair a accA b accB cards banks = Inr (c, k)"
  shows "isCardWithdrawalLinkAccountsWithSettings accA accB cards banks"
    and "(c = a \<and> k = b \<and> TrimSpace accB \<in> banks) \<or> (c = b \<and> k = a \<and> TrimSpace accA \<in> banks)"
  using assms by (auto simp: cardBankPair_def isCardWithdrawalLinkAccountsWithSettings_def Let_def split: if_splits)

lemma cardBankPair_swap:
  assumes "cardBankPair a accA b accB cards banks = Inr ck"
  shows "cardBankPair b accB a accA cards banks = Inr ck"
  using assms by (auto simp: cardBankPair_def Let_def split: if_splits)

lemma link_policy_mono:
  assumes pol: "link_policy L" and set: "settings L' = settings L"
    and sub: "\<And>l. l \<in> set (links L') \<Longrightarrow> l \<in> set (links L) \<and> link_row L' l = link_row L l"
  shows "link_policy L'"
proof -
  have cs [simp]: "card_set L' = card_set L" "bank_set L' = bank_set L"
    by (simp_all add: card_set_def bank_set_def loadLedgerSettingsIn_def set)
  have "set (link_rows L') \<subseteq> set (link_rows L)"
    using sub unfolding subset_iff link_rows_iff by metis
  moreover have "set (readCardBankAssignments 0 L') \<subseteq> set (readCardBankAssignments 0 L)"
  proof
    fix x assume "x \<in> set (readCardBankAssignments 0 L')"
    then obtain l where "l \<in> set (links L')" "link_pair L' l = Some x" unfolding assignments_iff by blast
    then show "x \<in> set (readCardBankAssignments 0 L)"
      using sub[of l] unfolding assignments_iff by (auto simp: link_pair_def)
  qed
  ultimately show ?thesis
    using pol unfolding link_policy_def links_ok_def single_bank_def cs by blast
qed

lemma link_row_cong: "txs L' = txs L \<Longrightarrow> link_row L' = link_row L"
  by (simp add: link_row_def find_tx_def fun_eq_iff)

lemma link_policy_same:
  "txs L' = txs L \<Longrightarrow> links L' = links L \<Longrightarrow> settings L' = settings L \<Longrightarrow> link_policy L \<Longrightarrow> link_policy L'"
  by (rule link_policy_mono[of L]) (simp_all only: link_row_cong[of L' L] simp_thms)

lemma addCardBankLinkIn_Inr:
  assumes "addCardBankLinkIn idA idB cards banks L = Inr L'"
  shows "L' = L \<or> (\<exists>a b cardID bankID. L' = L\<lparr>links := links L @ [ordered idA idB]\<rparr> \<and>
    ordered idA idB \<notin> set (links L) \<and> idA \<noteq> idB \<and>
    find_tx L idA = Some a \<and> find_tx L idB = Some b \<and>
    cardBankPair idA (tx_account a) idB (tx_account b) cards banks = Inr (cardID, bankID) \<and>
    (\<forall>t\<in>set (txs L). tx_id t \<in> linked_to cardID L \<and> tx_id t \<noteq> bankID \<longrightarrow> TrimSpace (tx_account t) \<notin> banks))"
  using assms by (auto simp: addCardBankLinkIn_def res_simps Let_def split: if_splits)

lemma link_pair_linked:
  assumes "l \<in> set (links L)" and "link_pair L l = Some (c, k)"
  shows "\<exists>t\<in>set (txs L). tx_id t = k \<and> k \<in> linked_to c L \<and> TrimSpace (tx_account t) \<in> bank_set L"
proof -
  obtain p q accP accQ where row: "link_row L l = Some (p, accP, q, accQ)"
    and pair: "cardBankPair p accP q accQ (card_set L) (bank_set L) = Inr (c, k)"
    using assms(2) by (auto simp: link_pair_def bind_eq_Some_conv pair_of_row_Some)
  have l: "l = (p, q)" using row by (simp add: link_row_iff)
  obtain tp tq where t: "find_tx L p = Some tp" "tx_account tp = accP" "find_tx L q = Some tq" "tx_account tq = accQ"
    using row by (auto simp: link_row_iff)
  have "tp \<in> set (txs L)" "tx_id tp = p" "tq \<in> set (txs L)" "tx_id tq = q"
    using t find_tx_Some by blast+
  moreover have "q \<in> linked_to p L" "p \<in> linked_to q L"
    using assms(1) unfolding l linked_to_def by force+
  ultimately show ?thesis using cardBankPair_Inr(2)[OF pair] t by auto
qed

lemma addCardBankLinkIn_policy:
  assumes pol: "link_policy L" and run: "addCardBankLinkIn idA idB (card_set L) (bank_set L) L = Inr L'"
  shows "link_policy L'"
proof (cases "L' = L")
  case False
  then obtain a b cardID bankID where L': "L' = L\<lparr>links := links L @ [ordered idA idB]\<rparr>"
    and a: "find_tx L idA = Some a" and b: "find_tx L idB = Some b"
    and pair: "cardBankPair idA (tx_account a) idB (tx_account b) (card_set L) (bank_set L) = Inr (cardID, bankID)"
    and free: "\<forall>t\<in>set (txs L). tx_id t \<in> linked_to cardID L \<and> tx_id t \<noteq> bankID \<longrightarrow>
      TrimSpace (tx_account t) \<notin> bank_set L"
    using addCardBankLinkIn_Inr[OF run] by blast
  have [simp]: "card_set L' = card_set L" "bank_set L' = bank_set L" "link_row L' = link_row L"
    by (simp_all add: L' card_set_def bank_set_def loadLedgerSettingsIn_def link_row_def find_tx_def fun_eq_iff)
  have new: "link_row L (ordered idA idB) = Some (if idA > idB then (idB, tx_account b, idA, tx_account a)
      else (idA, tx_account a, idB, tx_account b))"
    using a b by (simp add: ordered_def link_row_def)
  have newpair: "link_pair L (ordered idA idB) = Some (cardID, bankID)"
    using pair cardBankPair_swap[OF pair] by (simp add: link_pair_def new pair_of_row_def)
  have asg: "set (readCardBankAssignments 0 L') = insert (cardID, bankID) (set (readCardBankAssignments 0 L))"
  proof -
    have "link_pair L' = link_pair L" by (simp add: link_pair_def fun_eq_iff)
    moreover have "set (links L') = insert (ordered idA idB) (set (links L))" by (simp add: L')
    ultimately have "x \<in> set (readCardBankAssignments 0 L') \<longleftrightarrow>
        x = (cardID, bankID) \<or> x \<in> set (readCardBankAssignments 0 L)" for x
      using newpair unfolding assignments_iff by (metis insert_iff option.inject)
    then show ?thesis unfolding set_eq_iff by simp
  qed
  have "set (link_rows L') = insert (if idA > idB then (idB, tx_account b, idA, tx_account a)
      else (idA, tx_account a, idB, tx_account b)) (set (link_rows L))"
  proof -
    let ?new = "if idA > idB then (idB, tx_account b, idA, tx_account a)
      else (idA, tx_account a, idB, tx_account b)"
    have "set (links L') = insert (ordered idA idB) (set (links L))" by (simp add: L')
    moreover have "link_row L (ordered idA idB) = Some x \<longleftrightarrow> x = ?new" for x unfolding new by auto
    ultimately have "x \<in> set (link_rows L') \<longleftrightarrow> x = ?new \<or> x \<in> set (link_rows L)" for x
      unfolding link_rows_iff \<open>link_row L' = link_row L\<close> by (simp del: split_paired_Ex)
    then show ?thesis unfolding set_eq_iff insert_iff by blast
  qed
  then have "links_ok L'"
    using pol cardBankPair_Inr(1)[OF pair] cardBankPair_Inr(1)[OF cardBankPair_swap[OF pair]]
    by (simp add: link_policy_def links_ok_def)
  moreover have "k = bankID" if k: "(cardID, k) \<in> set (readCardBankAssignments 0 L)" for k
  proof -
    obtain l where "l \<in> set (links L)" "link_pair L l = Some (cardID, k)"
      using k unfolding assignments_iff by blast
    then show ?thesis using link_pair_linked[of l L cardID k] free by blast
  qed
  then have "\<forall>x\<in>set (readCardBankAssignments 0 L). fst x = cardID \<longrightarrow> snd x = bankID"
    by (metis prod.collapse)
  then have "single_bank L'"
    using pol unfolding link_policy_def single_bank_def asg by (metis fst_conv insert_iff snd_conv)
  ultimately show ?thesis by (simp add: link_policy_def)
qed (use pol in simp)

lemma addCardBankLinkIn_wf:
  assumes wf: "wf_links L" and run: "addCardBankLinkIn idA idB cards banks L = Inr L'"
  shows "wf_links L'"
proof (cases "L' = L")
  case False
  then have L': "L' = L\<lparr>links := links L @ [ordered idA idB]\<rparr>" "ordered idA idB \<notin> set (links L)"
    and "idA \<noteq> idB" "idA \<in> tx_ids L" "idB \<in> tx_ids L"
    using addCardBankLinkIn_Inr[OF run] unfolding find_tx_ex by blast+
  then have "case ordered idA idB of (p, c) \<Rightarrow> p \<in> tx_ids L \<and> c \<in> tx_ids L \<and> p < c"
    by (auto simp: ordered_def)
  then show ?thesis using wf L' by (simp add: wf_links_def tx_ids_def)
qed (use wf in simp)

text \<open>Only links and settings differ.\<close>

definition link_only :: "ledger \<Rightarrow> ledger \<Rightarrow> bool" where
  "link_only L L' \<longleftrightarrow> L' = L\<lparr>links := links L', settings := settings L'\<rparr>"

lemma link_only_iff:
  "link_only L L' \<longleftrightarrow> txs L' = txs L \<and> tx_seq L' = tx_seq L \<and> images L' = images L \<and>
     image_seq L' = image_seq L \<and> image_archive L' = image_archive L \<and>
     archive_amounts L' = archive_amounts L \<and> tags L' = tags L \<and> tag_seq L' = tag_seq L \<and> tx_tags L' = tx_tags L"
  unfolding link_only_def by (cases L; cases L') auto

lemma link_only_trans: "link_only L L1 \<Longrightarrow> link_only L1 L2 \<Longrightarrow> link_only L L2"
  by (simp add: link_only_iff)

lemma link_only_wf:
  assumes "link_only L L'" and "ledger_wf L" and "wf_links L'"
  shows "ledger_wf L'"
  using assms(2,3) wf_tags_cong[of L' L] wf_tag_names_cong[of L' L] assms(1)
  by (auto simp: ledger_wf_def wf_txs_def wf_images_def wf_archive_amounts_def wf_tx_tags_def
      tx_ids_def tag_ids_def link_only_iff)

lemma addCardBankLinkIn_only:
  "addCardBankLinkIn idA idB cards banks L = Inr L' \<Longrightarrow> link_only L L' \<and> settings L' = settings L"
  by (auto simp: link_only_iff dest!: addCardBankLinkIn_Inr)

lemma wf_links_shrink:
  assumes "wf_links L" shows "wf_links (L\<lparr>links := del_where p (links L)\<rparr>)"
  using assms distinct_del_where[of id "links L" p] by (auto simp: wf_links_def tx_ids_def table_simps)

lemma policy_shrink:
  assumes "link_policy L" shows "link_policy (L\<lparr>links := del_where p (links L)\<rparr>)"
  using link_row_cong[of "L\<lparr>links := del_where p (links L)\<rparr>" L]
  by (intro link_policy_mono[OF assms]) (simp_all add: table_simps)

lemma applyTransactionLinkChangesIn_ok:
  assumes run: "applyTransactionLinkChangesIn i addIDs removeIDs L = Inr L'" and wf: "wf_links L"
  shows "wf_links L' \<and> link_only L L' \<and> settings L' = settings L \<and> (link_policy L \<longrightarrow> link_policy L')"
proof -
  let ?P = "\<lambda>L'. wf_links L' \<and> link_only L L' \<and> settings L' = settings L \<and> (link_policy L \<longrightarrow> link_policy L')"
  obtain L1 where rem: "foldE (remove_link i) removeIDs L = Inr L1"
    and add: "foldE (\<lambda>linkedID. addCardBankLinkIn i linkedID (card_set L) (bank_set L)) addIDs L1 = Inr L'"
    using run by (auto simp: applyTransactionLinkChangesIn_def res_simps split: if_splits)
  have "?P L1"
    by (rule foldE_invariant[OF rem])
      (use wf in \<open>auto simp: remove_link_def Let_def link_only_iff wf_links_shrink policy_shrink split: if_splits\<close>)
  with add show ?thesis
  proof (rule foldE_invariant)
    fix x s s' assume s: "?P s" and "addCardBankLinkIn i x (card_set L) (bank_set L) s = Inr s'"
    moreover have "card_set s = card_set L" "bank_set s = bank_set L"
      using s by (simp_all add: card_set_def bank_set_def loadLedgerSettingsIn_def)
    ultimately show "?P s'"
      using addCardBankLinkIn_policy[of s i x s'] addCardBankLinkIn_wf[of s i x _ _ s']
        addCardBankLinkIn_only[of i x _ _ s s'] link_only_trans[of L s s'] by auto
  qed
qed

section \<open>Pruning and revalidation\<close>

lemma prune_links:
  "set (links (pruneInvalidTransactionLinksIn L)) \<subseteq> set (links L)"
  "link_only L (pruneInvalidTransactionLinksIn L)" "settings (pruneInvalidTransactionLinksIn L) = settings L"
  by (auto simp: pruneInvalidTransactionLinksIn_def Let_def table_simps link_only_iff)

lemma prune_wf: "wf_links L \<Longrightarrow> wf_links (pruneInvalidTransactionLinksIn L)"
  by (simp add: pruneInvalidTransactionLinksIn_def Let_def wf_links_shrink)

lemma prune_links_ok: "links_ok (pruneInvalidTransactionLinksIn L)"
proof -
  let ?L = "pruneInvalidTransactionLinksIn L"
  have [simp]: "card_set ?L = card_set L" "bank_set ?L = bank_set L" "link_row ?L = link_row L"
    using link_row_cong[of ?L L]
    by (simp_all add: pruneInvalidTransactionLinksIn_def Let_def card_set_def bank_set_def
        loadLedgerSettingsIn_def)
  have "isCardWithdrawalLinkAccountsWithSettings accP accC (card_set L) (bank_set L)"
    if l: "l \<in> set (links ?L)" and row: "link_row L l = Some (p, accP, c, accC)" for l p accP c accC
  proof (rule ccontr)
    assume bad: "\<not> ?thesis"
    have "(p, accP, c, accC) \<in> set (link_rows L)" using l row prune_links(1)[of L] unfolding link_rows_iff by blast
    then have "(p, c) \<notin> set (links ?L)"
      using bad by (force simp: pruneInvalidTransactionLinksIn_def Let_def table_simps)
    then show False using l row by (simp add: link_row_iff)
  qed
  then show ?thesis unfolding links_ok_def by (fastforce simp: link_rows_iff)
qed

lemma prune_policy: "link_policy L \<Longrightarrow> link_policy (pruneInvalidTransactionLinksIn L)"
  by (simp add: pruneInvalidTransactionLinksIn_def Let_def policy_shrink)

lemma validated_single_bank:
  assumes "validateCardBankAssignmentChanges before L = Inr ()"
    and "\<forall>x\<in>set before. \<forall>y\<in>set before. fst x = fst y \<longrightarrow> snd x = snd y"
  shows "single_bank L"
  using assms unfolding single_bank_def validateCardBankAssignmentChanges_def Let_def guardE_eq_Inr
  by metis

lemma saveStringSliceSetting_ok:
  assumes wf: "ledger_wf (svc_ledger s)" and pol: "link_policy (svc_ledger s)"
    and run: "saveStringSliceSetting key items s = Inr (L', u)"
  shows "ledger_wf L' \<and> link_policy L' \<and> link_only (svc_ledger s) L'"
proof -
  let ?L = "svc_ledger s"
  obtain v where L': "L' = pruneInvalidTransactionLinksIn (?L\<lparr>settings := (settings ?L)(key \<mapsto> v)\<rparr>)"
    and val: "validateCardBankAssignmentChanges (readCardBankAssignments 0 ?L) L' = Inr ()"
    using run by (auto simp: saveStringSliceSetting_def res_simps Let_def split: if_splits)
  have o: "link_only ?L L'"
    using prune_links(2) unfolding L' by (rule link_only_trans[rotated]) (simp add: link_only_iff)
  have "wf_links ?L" using wf by (simp add: ledger_wf_def)
  then have "wf_links L'" unfolding L' by (intro prune_wf) (simp add: wf_links_def tx_ids_def)
  moreover have "links_ok L'" unfolding L' by (rule prune_links_ok)
  moreover have "single_bank L'"
    using validated_single_bank[OF val] pol unfolding link_policy_def single_bank_def by blast
  ultimately show ?thesis using o link_only_wf[OF o wf] by (simp add: link_policy_def)
qed

section \<open>Properties\<close>

text \<open>Saved card settings are read back exactly, and saving them leaves only links between a card and a
  bank account, with no card transaction assigned to two bank transactions.\<close>

theorem card_settings_roundtrip:
  assumes "SaveCreditCardSettings items s = Inr (L', u)"
    and "ledger_wf (svc_ledger s)" and "link_policy (svc_ledger s)"
  shows "getStringSliceSetting ''credit_card_items'' L' = items \<and> link_policy L' \<and>
    set (links L') \<subseteq> set (links (svc_ledger s))"
proof -
  have run: "saveStringSliceSetting ''credit_card_items'' items s = Inr (L', u)"
    using assms(1) by (simp add: SaveCreditCardSettings_def)
  obtain v where v: "MarshalLedgerSettingItems items = Inr v" and val: "ValidateLedgerSettingItems items = Inr ()"
    and L': "L' = pruneInvalidTransactionLinksIn
      (svc_ledger s\<lparr>settings := (settings (svc_ledger s))(''credit_card_items'' \<mapsto> v)\<rparr>)"
    using run by (auto simp: saveStringSliceSetting_def res_simps Let_def)
  have set: "settings L' ''credit_card_items'' = Some v" unfolding L' prune_links(3) by simp
  have sub: "set (links L') \<subseteq> set (links (svc_ledger s))"
    using prune_links(1) unfolding L' by (rule subset_trans) simp
  have "v = json_marshal_strings items" using v val by (simp add: MarshalLedgerSettingItems_def)
  moreover have "ValidateArchivedLedgerText LSettingItem i maxCSVSettingValueBytes False = Inr ()" if "i \<in> set items" for i
    using that val archived_of_ledger[of LSettingItem i MaxSettingItemBytes "()" maxCSVSettingValueBytes]
    by (simp add: ValidateLedgerSettingItems_iff MaxSettingItemBytes_def maxCSVSettingValueBytes_def)
  then have "foldE (\<lambda>i _. ValidateArchivedLedgerText LSettingItem i maxCSVSettingValueBytes False) items () = Inr ()"
    by (simp add: foldE_unit_ok)
  ultimately have "getStringSliceSetting ''credit_card_items'' L' = items"
    using setting_items_json[OF val] val set
    by (simp add: getStringSliceSetting_def ParseLedgerSettingItemsWithMode_def ParseArchivedLedgerSettingItems_def
        ValidateLedgerSettingItems_iff maxCSVSettingValueBytes_def MaxSettingItems_def)
  then show ?thesis using sub saveStringSliceSetting_ok[OF assms(2,3) run] by blast
qed

theorem card_settings_roundtrip_witness:
  "getStringSliceSetting ''credit_card_items''
     (fst (projr (SaveCreditCardSettings [''Visa''] sample_service))) = [''Visa'']"
proof -
  have run: "SaveCreditCardSettings [''Visa''] sample_service =
      Inr (fst (projr (SaveCreditCardSettings [''Visa''] sample_service)), ())"
    by (rule trans[OF okE_pair], code_simp, simp)
  have wf: "ledger_wf (svc_ledger sample_service)" "link_policy (svc_ledger sample_service)"
    by code_simp+
  show ?thesis using card_settings_roundtrip[OF run wf] by blast
qed

lemma linked_to_iff: "j \<in> linked_to i L \<longleftrightarrow> (i, j) \<in> set (links L) \<or> (j, i) \<in> set (links L)"
  unfolding linked_to_def by force

lemma linked_pair:
  assumes wf: "wf_txs L" and ok: "links_ok L" and disj: "card_set L \<inter> bank_set L = {}"
    and bank: "find_tx L k = Some b" "TrimSpace (tx_account b) \<in> bank_set L"
    and t: "t \<in> set (txs L)" "tx_id t \<in> linked_to k L"
  shows "cardBankPair (tx_id t) (tx_account t) k (tx_account b) (card_set L) (bank_set L) = Inr (tx_id t, k)"
    and "(tx_id t, k) \<in> set (readCardBankAssignments k L)"
proof -
  have ft: "find_tx L (tx_id t) = Some t" using wf t(1) by (simp add: find_tx_def wf_txs_def find_eq_Some_iff)
  have k: "0 < k" using wf find_tx_Some[OF bank(1)] by (auto simp: wf_txs_def)
  obtain l where l: "l \<in> set (links L)" "l = (k, tx_id t) \<or> l = (tx_id t, k)" using t(2) linked_to_iff by blast
  let ?row = "if l = (k, tx_id t) then (k, tx_account b, tx_id t, tx_account t) else (tx_id t, tx_account t, k, tx_account b)"
  have lr: "link_row L l = Some ?row" using l(2) ft bank(1) by (auto simp: link_row_def)
  then have row: "?row \<in> set (link_rows L)" using l(1) link_rows_iff by blast
  then have "isCardWithdrawalLinkAccountsWithSettings (tx_account t) (tx_account b) (card_set L) (bank_set L)"
    using ok by (auto simp: links_ok_def isCardWithdrawalLinkAccountsWithSettings_def Let_def split: if_splits)
  then show pair: "cardBankPair (tx_id t) (tx_account t) k (tx_account b) (card_set L) (bank_set L) = Inr (tx_id t, k)"
    using disj bank(2) by (auto simp: isCardWithdrawalLinkAccountsWithSettings_def cardBankPair_def Let_def)
  have "pair_of_row (card_set L) (bank_set L) ?row = Some (tx_id t, k)"
    using pair cardBankPair_swap[OF pair] by (simp add: pair_of_row_def)
  moreover have "case ?row of (a, _, b, _) \<Rightarrow> a \<in> linked_to k L \<or> b \<in> linked_to k L" using t(2) by simp
  ultimately show "(tx_id t, k) \<in> set (readCardBankAssignments k L)"
    using row k unfolding readCardBankAssignments_def Let_def set_map_filter
    by (intro bexI[of _ ?row]) (simp_all only: set_filter mem_Collect_eq if_True simp_thms)
qed

lemma assignments_sub: "set (readCardBankAssignments k L) \<subseteq> set (readCardBankAssignments 0 L)"
  by (auto simp: readCardBankAssignments_def Let_def set_map_filter)

lemma sole_owner:
  assumes "single_bank L" and "(c, k) \<in> set (readCardBankAssignments k L)"
  shows "sort (remdups (map snd (filter (\<lambda>(c', _). c' = c) (readCardBankAssignments k L)))) = [k]"
proof -
  let ?xs = "map snd (filter (\<lambda>(c', _). c' = c) (readCardBankAssignments k L))"
  have "x = k" if "x \<in> set ?xs" for x
  proof -
    have "(c, x) \<in> set (readCardBankAssignments 0 L)" "(c, k) \<in> set (readCardBankAssignments 0 L)"
      using that assms(2) assignments_sub[of k L] by auto
    then show ?thesis using assms(1) unfolding single_bank_def by (metis fst_conv snd_conv)
  qed
  moreover have "k \<in> set ?xs" using assms(2) by force
  ultimately have "set ?xs = {k}" by blast
  then have "sort (remdups ?xs) = sorted_list_of_set {k}" by (metis sorted_list_of_set_sort_remdups)
  then show ?thesis by simp
qed

text \<open>C36: the reconciliation of a bank withdrawal is exact. In a ledger that satisfies the link policy, with no
  account both card and bank, it covers every linked transaction, reports this withdrawal as the only
  owner of each and no conflict; the card total is the exact integer sum of the net card amounts, and the
  withdrawal is matched exactly when total and withdrawal agree.\<close>

theorem reconciliation_exact:
  assumes "wf_txs L" and "link_policy L" and "card_set L \<inter> bank_set L = {}"
    and "find_tx L k = Some b" and "TrimSpace (tx_account b) \<in> bank_set L"
  shows "\<exists>r. GetCardReconciliation k L = Inr r \<and> rec_applicable r \<and> \<not> rec_conflicts r \<and>
    rec_card_total r = (\<Sum>t \<in> {t \<in> set (txs L). tx_id t \<in> linked_to k L}. withdrawal L t) \<and>
    rec_bank_amount r = withdrawal L b \<and> rec_difference r = rec_card_total r - withdrawal L b \<and>
    (rec_matched r \<longleftrightarrow> rec_card_total r = withdrawal L b) \<and>
    set (rec_cards r) = {(tx_id t, [k]) | t. t \<in> set (txs L) \<and> tx_id t \<in> linked_to k L}"
proof -
  have pol: "links_ok L" "single_bank L" using assms(2) by (simp_all add: link_policy_def)
  let ?owners = "\<lambda>c. sort (remdups (map snd (filter (\<lambda>(c', _). c' = c) (readCardBankAssignments k L))))"
  let ?linked = "sort_key row_key (filter (\<lambda>r. tx_id r \<in> linked_to k L) (txs L))"
  note pair = linked_pair[OF assms(1) pol(1) assms(3-5)]
  have ok: "filter (\<lambda>r. okE (cardBankPair (tx_id r) (tx_account r) k (tx_account b) (card_set L) (bank_set L))) ?linked = ?linked"
    using pair(1) by (intro filter_True) (auto simp: okE_iff)
  have own: "?owners (tx_id t) = [k]" if "t \<in> set ?linked" for t
    using that pair(2)[of t] sole_owner[OF pol(2)] by auto
  have cards: "map (\<lambda>t. (tx_id t, ?owners (tx_id t))) ?linked = map (\<lambda>t. (tx_id t, [k])) ?linked"
    using own by (intro map_cong) simp_all
  have single: "\<not> (\<exists>t\<in>set ?linked. length (?owners (tx_id t)) > 1)" using own by simp
  have "distinct (txs L)" using assms(1) by (auto simp: wf_txs_def distinct_map)
  then have sum: "sum_list (map (withdrawal L) ?linked) =
      (\<Sum>t \<in> {t \<in> set (txs L). tx_id t \<in> linked_to k L}. withdrawal L t)"
    by (subst sum_list_distinct_conv_sum_set) simp_all
  have "TrimSpace (tx_account b) \<notin> card_set L" using assms(3,5) by blast
  then show ?thesis
    unfolding GetCardReconciliation_def Let_def assms(4) ofOption_simps bindE_Inr ok cards sum
    using assms(5) single by auto
qed

definition sample_linked :: ledger where
  "sample_linked = empty_ledger\<lparr>txs :=
     [\<lparr>tx_id = 1, tx_account = ''Visa'', tx_date = (2024, 1, 5, 0, 0, 0), tx_item = ''food'', tx_type = ''expense'',
       tx_amount = 300, tx_balance = - 300, tx_memo = []\<rparr>,
      \<lparr>tx_id = 2, tx_account = ''Bank'', tx_date = (2024, 2, 1, 0, 0, 0), tx_item = ''card'', tx_type = ''expense'',
       tx_amount = 300, tx_balance = - 300, tx_memo = []\<rparr>], tx_seq := 2, links := [(1, 2)],
     settings := [''credit_card_items'' \<mapsto> json_marshal_strings [''Visa''],
                  ''bank_account_items'' \<mapsto> json_marshal_strings [''Bank'']]\<rparr>"

theorem reconciliation_exact_witness:
  "\<exists>r. GetCardReconciliation 2 sample_linked = Inr r \<and> rec_applicable r \<and> rec_card_total r = 300 \<and> rec_matched r"
proof -
  have h: "wf_txs sample_linked" "link_policy sample_linked" "card_set sample_linked \<inter> bank_set sample_linked = {}"
    "TrimSpace (tx_account (the (find_tx sample_linked 2))) \<in> bank_set sample_linked"
    "find_tx sample_linked 2 = Some (the (find_tx sample_linked 2))"
    "{t \<in> set (txs sample_linked). tx_id t \<in> linked_to 2 sample_linked} = set (take 1 (txs sample_linked))"
    "withdrawal sample_linked (hd (txs sample_linked)) = 300"
    "withdrawal sample_linked (the (find_tx sample_linked 2)) = 300"
    "take 1 (txs sample_linked) = [hd (txs sample_linked)]" by code_simp+
  show ?thesis using reconciliation_exact[OF h(1-3) h(5) h(4)]
    unfolding h(6,8) h(9) by (auto simp: h(7))
qed

end
