(* ===== verification/LedgerInvariant.thy ===== *)
theory LedgerInvariant
  imports Images Links
begin

text \<open>
  The invariant that every ledger write keeps: the declared constraints of the schema, exact running
  balances, image quotas, and the policy for links between card and bank transactions. The image and
  link handlers, which touch only their own tables, are shown to keep it here.
\<close>

definition ledger_ok :: "ledger \<Rightarrow> bool" where
  "ledger_ok L \<longleftrightarrow> ledger_wf L \<and> ledger_balanced L \<and> quota_ok L \<and> link_policy L"

lemma ledger_okD:
  assumes "ledger_ok L"
  shows "ledger_wf L" "wf_txs L" "ledger_balanced L" "quota_ok L" "link_policy L"
  using assms by (simp_all add: ledger_ok_def ledger_wf_def)

lemma ledger_ok_empty: "ledger_ok empty_ledger"
  using ledger_wf_empty
  by (auto simp: ledger_ok_def ledger_balanced_def empty_ledger_def quota_ok_def db_image_bytes_def
      blob_bytes_def tx_ids_def link_policy_def links_ok_def single_bank_def link_rows_def
      readCardBankAssignments_def List.map_filter_def)

lemma quota_ok_cong:
  assumes "txs L' = txs L" "images L' = images L" "image_archive L' = image_archive L"
  shows "quota_ok L' = quota_ok L"
proof -
  have "blobs L' = blobs L" "tx_ids L' = tx_ids L" "in_account L' = in_account L"
    using assms by (simp_all add: blobs_def tx_ids_def in_account_def fun_eq_iff)
  then have "quota_ok L \<Longrightarrow> quota_ok L'" "quota_ok L' \<Longrightarrow> quota_ok L"
    using assms by (auto intro: quota_ok_shrink)
  then show ?thesis by blast
qed

section \<open>Handlers on images\<close>

lemma image_only_ok:
  assumes "ledger_ok L" "image_only L L'" "ledger_wf L'" "quota_ok L'"
  shows "ledger_ok L'"
  using assms ledger_balanced_cong[of L' L] link_policy_same[of L' L]
  by (simp add: ledger_ok_def image_only_iff)

lemma delete_image_where_inv:
  assumes ok: "ledger_ok L" and run: "delete_image_where p ar L = Inr L'"
  shows "ledger_ok L'"
proof -
  note f = delete_image_where_frame[OF run] and d = ledger_okD[OF ok]
  have "quota_ok L'"
    using d(4) f(1,2) by (rule quota_ok_shrink) (simp_all add: image_only_ids[OF f(4)])
  then show ?thesis using image_only_ok[OF ok f(4)] delete_image_where_ok[OF run d(1)] by blast
qed

lemma insert_image_inv:
  assumes ok: "ledger_ok L" and run: "insertPreparedTransactionImage i p L = Inr (L', k)"
  shows "ledger_ok L'"
proof -
  note d = ledger_okD[OF ok]
  obtain t where t: "find_tx L i = Some t"
    using run by (auto simp: insertPreparedTransactionImage_def Let_def split: option.splits)
  have "quota_ok L'"
    using insertPreparedTransactionImage_quota[OF d(2) run t] d(4) by (simp add: quota_ok_iff[of L "tx_account t"])
  then show ?thesis using insertPreparedTransactionImage_ok[OF d(1) run] image_only_ok[OF ok] by blast
qed

interpretation add_image: ledger_handler "AddTransactionImage codec i img" ledger_ok
  by unfold_locales (auto simp: AddTransactionImage_def res_simps intro: insert_image_inv)

interpretation delete_image: ledger_handler "DeleteTransactionImage imageID" ledger_ok
  by unfold_locales
    (auto simp: DeleteTransactionImage_def res_simps split: if_splits intro: delete_image_where_inv)

interpretation delete_tx_image: ledger_handler "DeleteTransactionImageForTransaction i imageID" ledger_ok
  by unfold_locales
    (auto simp: DeleteTransactionImageForTransaction_def res_simps split: if_splits intro: delete_image_where_inv)

section \<open>Handlers on links and settings\<close>

lemma link_only_ok:
  assumes "ledger_ok L" "link_only L L'" "wf_links L'" "link_policy L'"
  shows "ledger_ok L'"
  using assms ledger_balanced_cong[of L' L] quota_ok_cong[of L' L] link_only_wf[of L L']
  by (simp add: ledger_ok_def link_only_iff)

lemma add_link_inv:
  assumes ok: "ledger_ok L" and run: "addCardBankLinkIn a b (card_set L) (bank_set L) L = Inr L'"
  shows "ledger_ok L'"
proof -
  note d = ledger_okD[OF ok]
  have "wf_links L" using d(1) by (simp add: ledger_wf_def)
  then show ?thesis
    using addCardBankLinkIn_wf[OF _ run] addCardBankLinkIn_policy[OF d(5) run]
      addCardBankLinkIn_only[OF run] link_only_ok[OF ok] by blast
qed

lemma remove_links_inv:
  assumes ok: "ledger_ok L"
  shows "ledger_ok (L\<lparr>links := del_where p (links L)\<rparr>)"
proof -
  note d = ledger_okD[OF ok]
  have "wf_links L" using d(1) by (simp add: ledger_wf_def)
  then show ?thesis
    by (intro link_only_ok[OF ok] wf_links_shrink policy_shrink d(5)) (simp_all add: link_only_iff)
qed

lemma save_setting_inv:
  assumes ok: "ledger_ok (svc_ledger s)" and run: "saveStringSliceSetting key items s = Inr (L', u)"
  shows "ledger_ok L'"
proof -
  note d = ledger_okD[OF ok]
  show ?thesis
    using saveStringSliceSetting_ok[OF d(1) d(5) run] link_only_ok[OF ok, of L'] by (simp add: ledger_wf_def)
qed

interpretation add_link: ledger_handler "AddTransactionLink a b" ledger_ok
  by unfold_locales (auto simp: AddTransactionLink_def res_simps split: if_splits intro: add_link_inv)

interpretation remove_link: ledger_handler "RemoveTransactionLink a b" ledger_ok
  by unfold_locales (auto simp: RemoveTransactionLink_def res_simps Let_def intro: remove_links_inv)

interpretation save_cards: ledger_handler "SaveCreditCardSettings items" ledger_ok
  by unfold_locales
    (auto simp: SaveCreditCardSettings_def intro: save_setting_inv,
     auto simp: saveStringSliceSetting_def res_simps Let_def split: if_splits)

interpretation save_banks: ledger_handler "SaveBankAccountSettings items" ledger_ok
  by unfold_locales
    (auto simp: SaveBankAccountSettings_def intro: save_setting_inv,
     auto simp: saveStringSliceSetting_def res_simps Let_def split: if_splits)

end
