(* ===== verification/Tags.thy ===== *)
theory Tags
  imports LedgerInvariant
begin

text \<open>
  The tag tree of \<open>backend/core/service.go\<close>: creating a tag or a path of tags, renaming, deleting with
  its cascade, the preview of a deletion, and attaching tags to transactions. Statements on the
  tables \<open>tags\<close> and \<open>transaction_tags\<close> check the declared constraints of \<open>database.go\<close>.
\<close>

section \<open>Statements on tags\<close>

definition tag_unique_ok :: "string \<Rightarrow> int option \<Rightarrow> bool \<Rightarrow> tag_row list \<Rightarrow> bool" where
  "tag_unique_ok name parent legacy others \<longleftrightarrow>
     (\<forall>t\<in>set others. \<not> (tag_name t = name \<and> tag_parent t = parent \<and>
        (parent \<noteq> None \<or> \<not> legacy \<and> \<not> tag_legacy t)))"

definition tag_fk_ok :: "int option \<Rightarrow> ledger \<Rightarrow> bool" where
  "tag_fk_ok parent L \<longleftrightarrow> (case parent of None \<Rightarrow> True | Some p \<Rightarrow> p \<in> tag_ids L)"

definition add_tag_row :: "string \<Rightarrow> int option \<Rightarrow> int \<Rightarrow> ledger \<Rightarrow> ledger" where
  "add_tag_row name parent level L =
     (let i = tag_seq L + 1 in
      L\<lparr>tags := tags L @ [\<lparr>tag_id = i, tag_name = name, tag_parent = parent, tag_level = level,
                            tag_legacy = False\<rparr>], tag_seq := i\<rparr>)"

text \<open>\<open>INSERT INTO tags (name, parent_id, level)\<close> and its \<open>OR IGNORE\<close> form, which skips rows that
  violate a CHECK or UNIQUE constraint but still fails on a missing parent.\<close>

definition insert_tag :: "string \<Rightarrow> int option \<Rightarrow> int \<Rightarrow> ledger \<Rightarrow> (lerr, ledger \<times> int) result" where
  "insert_tag name parent level L =
     (if level \<in> {1, 2, 3} \<and> tag_unique_ok name parent False (tags L) \<and> tag_fk_ok parent L
      then Inr (add_tag_row name parent level L, tag_seq L + 1) else Inl ErrConstraint)"

definition insert_or_ignore_tag :: "string \<Rightarrow> int option \<Rightarrow> int \<Rightarrow> ledger \<Rightarrow> (lerr, ledger) result" where
  "insert_or_ignore_tag name parent level L =
     (if level \<notin> {1, 2, 3} \<or> \<not> tag_unique_ok name parent False (tags L) then Inr L
      else if \<not> tag_fk_ok parent L then Inl ErrConstraint
      else Inr (add_tag_row name parent level L))"

definition set_tag_name :: "int \<Rightarrow> string \<Rightarrow> ledger \<Rightarrow> (lerr, ledger) result" where
  "set_tag_name i name L =
     (case find_tag L i of
        None \<Rightarrow> Inr L
      | Some t \<Rightarrow>
          if tag_unique_ok name (tag_parent t) (tag_legacy t) (filter (\<lambda>u. tag_id u \<noteq> i) (tags L))
          then Inr (L\<lparr>tags := upd_where (\<lambda>u. tag_id u = i) (\<lambda>u. u\<lparr>tag_name := name\<rparr>) (tags L)\<rparr>)
          else Inl ErrConstraint)"

definition mark_legacy_roots :: "string \<Rightarrow> ledger \<Rightarrow> ledger" where
  "mark_legacy_roots name L =
     L\<lparr>tags := upd_where (\<lambda>t. tag_parent t = None \<and> tag_name t = name)
         (\<lambda>t. t\<lparr>tag_legacy := True\<rparr>) (tags L)\<rparr>"

definition clear_legacy :: "int \<Rightarrow> ledger \<Rightarrow> (lerr, ledger) result" where
  "clear_legacy i L =
     (case find_tag L i of
        None \<Rightarrow> Inr L
      | Some t \<Rightarrow>
          if tag_unique_ok (tag_name t) (tag_parent t) False (filter (\<lambda>u. tag_id u \<noteq> i) (tags L))
          then Inr (L\<lparr>tags := upd_where (\<lambda>u. tag_id u = i) (\<lambda>u. u\<lparr>tag_legacy := False\<rparr>) (tags L)\<rparr>)
          else Inl ErrConstraint)"

text \<open>The rows \<open>ON DELETE CASCADE\<close> removes: the closure of \<open>parent_id\<close>, reached after as many rounds as
  there are rows.\<close>

definition child_ids :: "tag_row list \<Rightarrow> int set \<Rightarrow> int set" where
  "child_ids ts S = tag_id ` {t \<in> set ts. case tag_parent t of None \<Rightarrow> False | Some p \<Rightarrow> p \<in> S}"

fun tag_cascade :: "nat \<Rightarrow> tag_row list \<Rightarrow> int set \<Rightarrow> int set" where
  "tag_cascade 0 ts S = S"
| "tag_cascade (Suc n) ts S = tag_cascade n ts (S \<union> child_ids ts S)"

definition cascade_set :: "int \<Rightarrow> ledger \<Rightarrow> int set" where
  "cascade_set i L = tag_cascade (length (tags L)) (tags L) {i}"

definition delete_tag :: "int \<Rightarrow> ledger \<Rightarrow> ledger" where
  "delete_tag i L =
     (let D = cascade_set i L in
      L\<lparr>tags := del_where (\<lambda>t. tag_id t \<in> D) (tags L),
        tx_tags := del_where (\<lambda>(_, g). g \<in> D) (tx_tags L)\<rparr>)"

definition insert_tx_tag :: "int \<Rightarrow> int \<Rightarrow> ledger \<Rightarrow> (lerr, ledger) result" where
  "insert_tx_tag i g L =
     (if (i, g) \<in> set (tx_tags L) then Inr L
      else if i \<in> tx_ids L \<and> g \<in> tag_ids L then Inr (L\<lparr>tx_tags := tx_tags L @ [(i, g)]\<rparr>)
      else Inl ErrConstraint)"

section \<open>Operations\<close>

definition root_tags :: "string \<Rightarrow> ledger \<Rightarrow> tag_row list" where
  "root_tags name L = filter (\<lambda>t. tag_name t = name \<and> tag_parent t = None) (tags L)"

definition find_child :: "string \<Rightarrow> int \<Rightarrow> ledger \<Rightarrow> tag_row option" where
  "find_child name p L = List.find (\<lambda>t. tag_name t = name \<and> tag_parent t = Some p) (tags L)"

definition normalizeLegacyRootTagMarkers :: "string \<Rightarrow> ledger \<Rightarrow> (lerr, ledger) result" where
  "normalizeLegacyRootTagMarkers name L =
     (if name = [] then Inr L
      else let L1 = mark_legacy_roots name L in
        case sort_key tag_id (root_tags name L1) of
          [] \<Rightarrow> Inr L1
        | t # _ \<Rightarrow> clear_legacy (tag_id t) L1)"

definition createTagTx :: "string \<Rightarrow> int option \<Rightarrow> ledger \<Rightarrow> (lerr, ledger \<times> tag_row) result" where
  "createTagTx name parent L =
     bindE (case parent of
        Some p \<Rightarrow>
          bindE (ofOption ErrParentTagNotFound (find_tag L p)) (\<lambda>q.
          bindE (mapErr ErrValidation (ValidateTagHierarchy (tag_level q + 1) (Some (tag_level q)))) (\<lambda>_.
          Inr (tag_level q + 1)))
      | None \<Rightarrow>
          bindE (mapErr ErrValidation (ValidateTagHierarchy 1 None)) (\<lambda>_.
          bindE (guardE (root_tags name L = []) ErrRootTagExists) (\<lambda>_. Inr 1))) (\<lambda>level.
     bindE (insert_tag name parent level L) (\<lambda>(L', i).
     Inr (L', \<lparr>tag_id = i, tag_name = name, tag_parent = parent, tag_level = level, tag_legacy = False\<rparr>)))"

definition updateTagTx :: "int \<Rightarrow> string \<Rightarrow> ledger \<Rightarrow> (lerr, ledger \<times> unit) result" where
  "updateTagTx i name L =
     bindE (ofOption ErrTagNotFound (find_tag L i)) (\<lambda>t.
     bindE (guardE (tag_parent t \<noteq> None \<or> filter (\<lambda>u. tag_id u \<noteq> i) (root_tags name L) = [])
        ErrRootTagExists) (\<lambda>_.
     bindE (set_tag_name i name L) (\<lambda>L1.
     if tag_parent t \<noteq> None then Inr (L1, ())
     else bindE (normalizeLegacyRootTagMarkers (tag_name t) L1) (\<lambda>L2.
          bindE (normalizeLegacyRootTagMarkers name L2) (\<lambda>L3. Inr (L3, ()))))))"

definition deleteTagTx :: "int \<Rightarrow> ledger \<Rightarrow> (lerr, ledger \<times> unit) result" where
  "deleteTagTx i L =
     bindE (ofOption ErrTagNotFound (find_tag L i)) (\<lambda>t.
     let L1 = delete_tag i L in
     if tag_parent t \<noteq> None then Inr (L1, ())
     else bindE (normalizeLegacyRootTagMarkers (tag_name t) L1) (\<lambda>L2. Inr (L2, ())))"

definition parseTagPathSegments :: "string \<Rightarrow> (lerr, string list) result" where
  "parseTagPathSegments path =
     bindE (foldE (\<lambda>p acc. bindE (mapErr ErrValidation (ValidateTagName p)) (\<lambda>c. Inr (acc @ [c])))
        (split_on (CHR ''/'') path) []) (\<lambda>segments.
     bindE (guardE (segments \<noteq> []) ErrTagPathEmpty) (\<lambda>_.
     bindE (mapErr ErrValidation (ValidateTagLevel (int (length segments)))) (\<lambda>_. Inr segments)))"

text \<open>One round of the loop of \<open>createTagPathWithinTx\<close>: the id of the segment below \<open>parent\<close>, found or
  created.\<close>

definition tag_path_step ::
  "int \<Rightarrow> int option \<Rightarrow> string \<Rightarrow> ledger \<Rightarrow> (lerr, ledger \<times> int) result" where
  "tag_path_step level parent name L =
     bindE (mapErr ErrValidation
        (ValidateTagHierarchy level (if level = 1 then None else Some (level - 1)))) (\<lambda>_.
     case parent of
       None \<Rightarrow>
         bindE (guardE (length (root_tags name L) \<le> 1) ErrRootTagAmbiguous) (\<lambda>_.
         case sort_key tag_id (root_tags name L) of
           t # _ \<Rightarrow>
             bindE (if tag_legacy t then clear_legacy (tag_id t) L else Inr L) (\<lambda>L'. Inr (L', tag_id t))
         | [] \<Rightarrow>
             bindE (insert_or_ignore_tag name None level L) (\<lambda>L'.
             bindE (ofOption ErrTagNotFound (List.find (\<lambda>t. \<not> tag_legacy t) (root_tags name L'))) (\<lambda>t.
             Inr (L', tag_id t))))
     | Some p \<Rightarrow>
         (case find_child name p L of
            Some t \<Rightarrow> Inr (L, tag_id t)
          | None \<Rightarrow>
              bindE (insert_or_ignore_tag name (Some p) level L) (\<lambda>L'.
              bindE (ofOption ErrTagNotFound (find_child name p L')) (\<lambda>t. Inr (L', tag_id t)))))"

fun tag_path_loop ::
  "int \<Rightarrow> int option \<Rightarrow> string list \<Rightarrow> ledger \<Rightarrow> (lerr, ledger \<times> int option) result" where
  "tag_path_loop level parent [] L = Inr (L, parent)"
| "tag_path_loop level parent (name # names) L =
     bindE (tag_path_step level parent name L) (\<lambda>(L', i). tag_path_loop (level + 1) (Some i) names L')"

definition createTagPathWithinTx :: "string list \<Rightarrow> ledger \<Rightarrow> (lerr, ledger \<times> int option) result" where
  "createTagPathWithinTx segments L = tag_path_loop 1 None segments L"

text \<open>\<open>validateTagIDsIn\<close>; \<open>seen\<close> is its Go map used as a set. \<open>AddTransactionTags\<close> repeats the loop.\<close>

fun validateTagIDsIn :: "int set \<Rightarrow> int list \<Rightarrow> ledger \<Rightarrow> (lerr, unit) result" where
  "validateTagIDsIn seen [] L = Inr ()"
| "validateTagIDsIn seen (g # gs) L =
     (if g \<le> 0 then Inl (ErrInvalidTagID g)
      else if g \<in> seen then validateTagIDsIn seen gs L
      else if g \<notin> tag_ids L then Inl ErrTagNotFound
      else validateTagIDsIn (insert g seen) gs L)"

definition insert_tx_tags :: "int \<Rightarrow> int list \<Rightarrow> ledger \<Rightarrow> (lerr, ledger) result" where
  "insert_tx_tags i gs L = foldE (insert_tx_tag i) gs L"

definition resolveTransactionTagIDsIn ::
  "int list \<Rightarrow> string list \<Rightarrow> ledger \<Rightarrow> (lerr, ledger \<times> int list) result" where
  "resolveTransactionTagIDsIn existingIDs newPaths L =
     bindE (guardE (length newPaths \<le> 10) ErrTooManyTagPaths) (\<lambda>_.
     bindE (validateTagIDsIn {} existingIDs L) (\<lambda>_.
     foldE (\<lambda>path (L, ids).
        bindE (parseTagPathSegments path) (\<lambda>segments.
        bindE (createTagPathWithinTx segments L) (\<lambda>(L', tag).
        bindE (ofOption ErrTagPathEmpty tag) (\<lambda>t. Inr (L', ids @ [t]))))) newPaths (L, existingIDs)))"

definition addTransactionTagsTx :: "int \<Rightarrow> int list \<Rightarrow> ledger \<Rightarrow> (lerr, ledger \<times> unit) result" where
  "addTransactionTagsTx i gs L =
     bindE (guardE (i \<in> tx_ids L) ErrTransactionNotFound) (\<lambda>_.
     bindE (validateTagIDsIn {} gs L) (\<lambda>_.
     bindE (insert_tx_tags i (remdups gs) L) (\<lambda>L'. Inr (L', ()))))"

definition CreateTag :: "string \<Rightarrow> int option \<Rightarrow> service \<Rightarrow> (lerr, ledger \<times> tag_row) result" where
  "CreateTag name parent s =
     bindE (mapErr ErrValidation (ValidateTagName name)) (\<lambda>n.
     bindE (database s) (createTagTx n parent))"

definition UpdateTag :: "int \<Rightarrow> string \<Rightarrow> service \<Rightarrow> (lerr, ledger \<times> unit) result" where
  "UpdateTag i name s =
     bindE (mapErr ErrValidation (ValidateTagName name)) (\<lambda>n.
     bindE (database s) (updateTagTx i n))"

definition CreateTagByPath :: "string \<Rightarrow> service \<Rightarrow> (lerr, ledger \<times> int option) result" where
  "CreateTagByPath path s =
     bindE (database s) (\<lambda>L.
     bindE (parseTagPathSegments path) (\<lambda>segments. createTagPathWithinTx segments L))"

definition DeleteTag :: "int \<Rightarrow> service \<Rightarrow> (lerr, ledger \<times> unit) result" where
  "DeleteTag i s = bindE (database s) (deleteTagTx i)"

definition AddTransactionTags :: "int \<Rightarrow> int list \<Rightarrow> service \<Rightarrow> (lerr, ledger \<times> unit) result" where
  "AddTransactionTags i gs s = bindE (database s) (addTransactionTagsTx i gs)"

definition RemoveTransactionTag :: "int \<Rightarrow> int \<Rightarrow> service \<Rightarrow> (lerr, ledger \<times> unit) result" where
  "RemoveTransactionTag i g s =
     bindE (database s) (\<lambda>L. Inr (L\<lparr>tx_tags := del_where (\<lambda>x. x = (i, g)) (tx_tags L)\<rparr>, ()))"

text \<open>The recursive query of \<open>GetTagDeleteImpact\<close> lists the selected row and then, round by round, the
  children of the rows of the last round.\<close>

fun tag_descendants :: "nat \<Rightarrow> tag_row list \<Rightarrow> tag_row list \<Rightarrow> tag_row list" where
  "tag_descendants 0 ts front = []"
| "tag_descendants (Suc n) ts front =
     front @ tag_descendants n ts
       (concat (map (\<lambda>q. filter (\<lambda>t. tag_parent t = Some (tag_id q)) ts) front))"

record TagDeleteImpact =
  impact_name :: string
  impact_descendants :: int
  impact_transactions :: nat

definition GetTagDeleteImpact :: "int \<Rightarrow> ledger \<Rightarrow> (lerr, TagDeleteImpact) result" where
  "GetTagDeleteImpact i L =
     (case find_tag L i of
        None \<Rightarrow> Inl ErrTagNotFound
      | Some root \<Rightarrow>
          let ds = tag_descendants (length (tags L) + 3) (tags L) (filter (\<lambda>t. tag_id t = i) (tags L)) in
          Inr \<lparr>impact_name = tag_name root,
               impact_descendants = int (length ds) - 1,
               impact_transactions = length (remdups (map fst
                  (filter (\<lambda>(_, g). g \<in> tag_id ` set ds) (tx_tags L))))\<rparr>)"

section \<open>Frames\<close>

lemma tag_frame [simp]:
  "wf_txs (tags_update f L) = wf_txs L" "wf_txs (tag_seq_update g L) = wf_txs L"
  "wf_txs (tx_tags_update h L) = wf_txs L"
  "wf_links (tags_update f L) = wf_links L" "wf_links (tag_seq_update g L) = wf_links L"
  "wf_links (tx_tags_update h L) = wf_links L"
  "wf_images (tags_update f L) = wf_images L" "wf_images (tag_seq_update g L) = wf_images L"
  "wf_images (tx_tags_update h L) = wf_images L"
  "wf_archive_amounts (tags_update f L) = wf_archive_amounts L"
  "wf_archive_amounts (tag_seq_update g L) = wf_archive_amounts L"
  "wf_archive_amounts (tx_tags_update h L) = wf_archive_amounts L"
  "tx_ids (tags_update f L) = tx_ids L" "tx_ids (tag_seq_update g L) = tx_ids L"
  "tx_ids (tx_tags_update h L) = tx_ids L"
  by (simp_all add: wf_txs_def wf_links_def wf_images_def wf_archive_amounts_def tx_ids_def)

lemma wf_tx_tags_mono:
  "wf_tx_tags L \<Longrightarrow> tx_tags L' = tx_tags L \<Longrightarrow> tx_ids L' = tx_ids L \<Longrightarrow> tag_ids L \<subseteq> tag_ids L' \<Longrightarrow> wf_tx_tags L'"
  by (fastforce simp: wf_tx_tags_def)

lemma tag_key_inj:
  "wf_tags L \<Longrightarrow> s \<in> set (tags L) \<Longrightarrow> t \<in> set (tags L) \<Longrightarrow> tag_id s = tag_id t \<Longrightarrow> s = t"
  unfolding wf_tags_def by (auto dest: distinct_map_inj)

lemma find_tag_iff: "wf_tags L \<Longrightarrow> find_tag L i = Some t \<longleftrightarrow> t \<in> set (tags L) \<and> tag_id t = i"
  by (simp add: find_tag_def wf_tags_def find_eq_Some_iff)

section \<open>Statements keep the constraints\<close>

definition tag_clash :: "tag_row \<Rightarrow> tag_row \<Rightarrow> bool" where
  "tag_clash s t \<longleftrightarrow> tag_name s = tag_name t \<and> tag_parent s = tag_parent t \<and>
     (tag_parent s \<noteq> None \<or> \<not> tag_legacy s \<and> \<not> tag_legacy t)"

lemma tag_clash_sym: "tag_clash s t \<longleftrightarrow> tag_clash t s"
  by (auto simp: tag_clash_def)

lemma wf_tag_names_iff:
  "wf_tag_names L \<longleftrightarrow> (\<forall>s\<in>set (tags L). \<forall>t\<in>set (tags L). tag_clash s t \<longrightarrow> tag_id s = tag_id t)"
  by (simp add: wf_tag_names_def tag_clash_def)

lemma tag_unique_ok_iff:
  "tag_unique_ok name parent legacy ts \<longleftrightarrow>
     (\<forall>t\<in>set ts. \<not> tag_clash \<lparr>tag_id = i, tag_name = name, tag_parent = parent, tag_level = l,
        tag_legacy = legacy\<rparr> t)"
  by (auto simp: tag_unique_ok_def tag_clash_def)

text \<open>The place of one row in the tree.\<close>

definition tag_placed :: "tag_row list \<Rightarrow> tag_row \<Rightarrow> bool" where
  "tag_placed ts t \<longleftrightarrow> (case tag_parent t of
       None \<Rightarrow> tag_level t = 1
     | Some p \<Rightarrow> \<exists>q\<in>set ts. tag_id q = p \<and> tag_level t = tag_level q + 1)"

lemma wf_tags_iff:
  "wf_tags L \<longleftrightarrow> distinct (map tag_id (tags L)) \<and> 0 \<le> tag_seq L \<and>
     (\<forall>t\<in>set (tags L). 1 \<le> tag_id t \<and> tag_id t \<le> tag_seq L \<and> 1 \<le> tag_level t \<and> tag_level t \<le> 3 \<and>
        tag_placed (tags L) t)"
  by (simp add: wf_tags_def tag_placed_def)

lemma tag_placed_mono:
  assumes "tag_placed ts t" and "\<And>q. q \<in> set ts \<Longrightarrow> \<exists>q'\<in>set ts'. tag_id q' = tag_id q \<and> tag_level q' = tag_level q"
    and "tag_parent t' = tag_parent t" and "tag_level t' = tag_level t"
  shows "tag_placed ts' t'"
proof (cases "tag_parent t")
  case None
  then show ?thesis using assms by (simp add: tag_placed_def)
next
  case (Some p)
  then obtain q where "q \<in> set ts" "tag_id q = p" "tag_level t = tag_level q + 1"
    using assms(1) by (auto simp: tag_placed_def)
  moreover obtain q' where "q' \<in> set ts'" "tag_id q' = tag_id q" "tag_level q' = tag_level q"
    using assms(2)[OF \<open>q \<in> set ts\<close>] by blast
  ultimately show ?thesis using assms(3,4) Some by (auto simp: tag_placed_def)
qed

lemma add_tag_row_wf:
  assumes wf: "ledger_wf L" and lev: "level \<in> {1, 2, 3}" and uni: "tag_unique_ok name parent False (tags L)"
    and par: "case parent of None \<Rightarrow> level = 1 | Some p \<Rightarrow> \<exists>q\<in>set (tags L). tag_id q = p \<and> level = tag_level q + 1"
  shows "ledger_wf (add_tag_row name parent level L)"
proof -
  let ?L = "add_tag_row name parent level L"
  let ?t = "\<lparr>tag_id = tag_seq L + 1, tag_name = name, tag_parent = parent, tag_level = level,
    tag_legacy = False\<rparr>"
  have eq: "?L = L\<lparr>tags := tags L @ [?t], tag_seq := tag_seq L + 1\<rparr>"
    by (simp add: add_tag_row_def Let_def)
  have old: "wf_tags L" "wf_tag_names L" using wf by (simp_all add: ledger_wf_def)
  have placed: "tag_placed (tags L @ [?t]) t" if "t \<in> set (tags L)" for t
    by (rule tag_placed_mono[of "tags L" t]) (use that old in \<open>auto simp: wf_tags_iff\<close>)
  have new: "tag_placed (tags L @ [?t]) ?t"
    using par by (auto simp: tag_placed_def split: option.splits)
  have "wf_tags ?L"
    using old(1) lev placed new unfolding wf_tags_iff eq by (auto simp: image_iff)
  moreover have "wf_tag_names ?L"
  proof -
    have "\<not> tag_clash ?t u" "\<not> tag_clash u ?t" if "u \<in> set (tags L)" for u
      using that uni tag_clash_sym[of u ?t]
      unfolding tag_unique_ok_iff[where i = "tag_seq L + 1" and l = level] by blast+
    then show ?thesis using old(2) unfolding wf_tag_names_iff eq by simp
  qed
  moreover have "wf_tx_tags ?L"
    by (rule wf_tx_tags_mono[of L]) (use wf in \<open>auto simp: ledger_wf_def eq tag_ids_def\<close>)
  ultimately show ?thesis using wf by (simp add: ledger_wf_def eq)
qed

text \<open>Updates that keep id, parent and level of every row.\<close>

lemma upd_tags_wf:
  assumes wf: "ledger_wf L"
    and keep: "\<And>t. tag_id (f t) = tag_id t \<and> tag_parent (f t) = tag_parent t \<and> tag_level (f t) = tag_level t"
    and names: "wf_tag_names (L\<lparr>tags := upd_where p f (tags L)\<rparr>)"
  shows "ledger_wf (L\<lparr>tags := upd_where p f (tags L)\<rparr>)"
proof -
  let ?g = "\<lambda>t. if p t then f t else t"
  let ?L = "L\<lparr>tags := upd_where p f (tags L)\<rparr>"
  have g: "tag_id (?g t) = tag_id t" "tag_parent (?g t) = tag_parent t" "tag_level (?g t) = tag_level t" for t
    using keep by simp_all
  have old: "wf_tags L" using wf by (simp add: ledger_wf_def)
  have img: "\<exists>q'\<in>set (upd_where p f (tags L)). tag_id q' = tag_id q \<and> tag_level q' = tag_level q"
    if "q \<in> set (tags L)" for q
    unfolding set_upd_where using that g by blast
  have "tag_placed (upd_where p f (tags L)) (?g t)" if "t \<in> set (tags L)" for t
    by (rule tag_placed_mono[of "tags L" t]) (use that old img g in \<open>auto simp: wf_tags_iff\<close>)
  moreover have "map tag_id (upd_where p f (tags L)) = map tag_id (tags L)"
    using keep by (simp add: table_simps)
  ultimately have "wf_tags ?L"
    using old unfolding wf_tags_iff by (simp add: set_upd_where g del: if_image_distrib)
  moreover have "tag_ids ?L = tag_ids L"
    using keep by (simp add: tag_ids_def keys_upd_where)
  then have "wf_tx_tags ?L"
    using wf by (auto simp: ledger_wf_def intro: wf_tx_tags_mono)
  ultimately show ?thesis using wf names by (simp add: ledger_wf_def)
qed

lemma upd_one_names:
  assumes wf: "ledger_wf L" and t: "t \<in> set (tags L)" "tag_id t = i"
    and keep: "\<And>u. tag_id (f u) = tag_id u \<and> tag_parent (f u) = tag_parent u"
    and uni: "tag_unique_ok (tag_name (f t)) (tag_parent t) (tag_legacy (f t)) (filter (\<lambda>u. tag_id u \<noteq> i) (tags L))"
  shows "wf_tag_names (L\<lparr>tags := upd_where (\<lambda>u. tag_id u = i) f (tags L)\<rparr>)"
proof -
  have only: "u \<in> set (tags L) \<Longrightarrow> tag_id u = i \<Longrightarrow> u = t" for u
    using t wf tag_key_inj[of L u t] by (simp add: ledger_wf_def)
  have names: "wf_tag_names L" using wf by (simp add: ledger_wf_def)
  show ?thesis
    unfolding wf_tag_names_iff
  proof (intro ballI impI)
    fix u v
    assume "u \<in> set (tags (L\<lparr>tags := upd_where (\<lambda>u. tag_id u = i) f (tags L)\<rparr>))"
      "v \<in> set (tags (L\<lparr>tags := upd_where (\<lambda>u. tag_id u = i) f (tags L)\<rparr>))"
    then have "u = f t \<or> (u \<in> set (tags L) \<and> tag_id u \<noteq> i)" "v = f t \<or> (v \<in> set (tags L) \<and> tag_id v \<noteq> i)"
      using only by (auto simp: set_upd_where)
    moreover assume "tag_clash u v"
    moreover have "tag_clash v u" using \<open>tag_clash u v\<close> by (simp add: tag_clash_sym)
    ultimately consider "u = f t" "v = f t" | "u = f t" "v \<in> set (filter (\<lambda>u. tag_id u \<noteq> i) (tags L))" "tag_clash u v"
      | "v = f t" "u \<in> set (filter (\<lambda>u. tag_id u \<noteq> i) (tags L))" "tag_clash v u"
      | "u \<in> set (tags L)" "v \<in> set (tags L)" "tag_clash u v"
      by auto
    then show "tag_id u = tag_id v"
    proof cases
      case 4
      then show ?thesis using names by (simp add: wf_tag_names_iff)
    qed (use uni keep in \<open>auto simp: tag_unique_ok_def tag_clash_def\<close>)
  qed
qed

lemma set_tag_name_wf: "ledger_wf L \<Longrightarrow> set_tag_name i name L = Inr L' \<Longrightarrow> ledger_wf L'"
  by (auto simp: set_tag_name_def find_tag_def split: option.splits if_splits dest!: find_SomeD
      intro!: upd_tags_wf upd_one_names)

lemma clear_legacy_wf: "ledger_wf L \<Longrightarrow> clear_legacy i L = Inr L' \<Longrightarrow> ledger_wf L'"
  by (auto simp: clear_legacy_def find_tag_def split: option.splits if_splits dest!: find_SomeD
      intro!: upd_tags_wf upd_one_names)

lemma mark_legacy_roots_wf:
  assumes "ledger_wf L"
  shows "ledger_wf (mark_legacy_roots name L)"
  unfolding mark_legacy_roots_def
proof (rule upd_tags_wf[OF assms])
  show "wf_tag_names (L\<lparr>tags := upd_where (\<lambda>t. tag_parent t = None \<and> tag_name t = name)
      (\<lambda>t. t\<lparr>tag_legacy := True\<rparr>) (tags L)\<rparr>)"
    unfolding wf_tag_names_iff
  proof (intro ballI impI)
    fix u v
    assume u: "u \<in> set (tags (L\<lparr>tags := upd_where (\<lambda>t. tag_parent t = None \<and> tag_name t = name)
        (\<lambda>t. t\<lparr>tag_legacy := True\<rparr>) (tags L)\<rparr>))"
      and v: "v \<in> set (tags (L\<lparr>tags := upd_where (\<lambda>t. tag_parent t = None \<and> tag_name t = name)
        (\<lambda>t. t\<lparr>tag_legacy := True\<rparr>) (tags L)\<rparr>))" and c: "tag_clash u v"
    have "w \<in> set (tags L)" if "w \<in> set (upd_where (\<lambda>t. tag_parent t = None \<and> tag_name t = name)
        (\<lambda>t. t\<lparr>tag_legacy := True\<rparr>) (tags L))" "tag_parent w \<noteq> None \<or> \<not> tag_legacy w" for w
      using that by (auto simp: set_upd_where)
    moreover have "tag_parent u \<noteq> None \<or> \<not> tag_legacy u" "tag_parent v \<noteq> None \<or> \<not> tag_legacy v"
      using c unfolding tag_clash_def by metis+
    ultimately have "u \<in> set (tags L)" "v \<in> set (tags L)" using u v by simp_all
    then show "tag_id u = tag_id v" using assms c by (simp add: ledger_wf_def wf_tag_names_iff)
  qed
qed simp

lemma normalize_wf: "ledger_wf L \<Longrightarrow> normalizeLegacyRootTagMarkers name L = Inr L' \<Longrightarrow> ledger_wf L'"
  by (auto simp: normalizeLegacyRootTagMarkers_def Let_def split: if_splits list.splits
      intro: mark_legacy_roots_wf clear_legacy_wf)

lemma insert_tag_wf:
  assumes "ledger_wf L" and "insert_tag name parent level L = Inr (L', i)"
    and "case parent of None \<Rightarrow> level = 1 | Some p \<Rightarrow> \<exists>q\<in>set (tags L). tag_id q = p \<and> level = tag_level q + 1"
  shows "ledger_wf L'"
  using assms(2) add_tag_row_wf[OF assms(1) _ _ assms(3)] by (auto simp: insert_tag_def split: if_splits)

lemma createTagTx_wf:
  assumes wf: "ledger_wf L" and run: "createTagTx name parent L = Inr (L', t)"
  shows "ledger_wf L'"
proof (cases parent)
  case None
  then show ?thesis using run wf
    by (auto simp: createTagTx_def res_simps intro: insert_tag_wf)
next
  case (Some p)
  then show ?thesis using run wf
    by (auto simp: createTagTx_def res_simps dest!: find_tag_Some intro!: insert_tag_wf[of L name parent])
qed

lemma updateTagTx_wf: "ledger_wf L \<Longrightarrow> updateTagTx i name L = Inr (L', u) \<Longrightarrow> ledger_wf L'"
  by (auto simp: updateTagTx_def res_simps split: if_splits intro: set_tag_name_wf)
    (metis set_tag_name_wf normalize_wf)

section \<open>The cascade of a deletion\<close>

lemma tag_cascade_Suc: "tag_cascade (Suc n) ts S = tag_cascade n ts S \<union> child_ids ts (tag_cascade n ts S)"
  by (induction n arbitrary: S) simp_all

lemma tag_cascade_subset: "S \<subseteq> tag_cascade n ts S"
  by (induction n) (auto simp del: tag_cascade.simps(2) simp: tag_cascade_Suc)

lemma tag_cascade_range: "tag_cascade n ts S \<subseteq> S \<union> tag_id ` set ts"
  by (induction n) (auto simp del: tag_cascade.simps(2) simp: tag_cascade_Suc child_ids_def)

lemma tag_cascade_grows:
  "child_ids ts (tag_cascade n ts S) \<subseteq> tag_cascade n ts S \<or> n \<le> card (tag_cascade n ts S - S)"
proof (induction n)
  case 0
  then show ?case by simp
next
  case (Suc n)
  let ?C = "tag_cascade n ts S"
  have fin: "finite (tag_cascade (Suc n) ts S - S)"
    using tag_cascade_range[of "Suc n" ts S] by (auto intro: finite_subset[of _ "tag_id ` set ts"])
  show ?case
  proof (cases "child_ids ts ?C \<subseteq> ?C")
    case True
    then have "tag_cascade (Suc n) ts S = ?C" unfolding tag_cascade_Suc by blast
    then show ?thesis using True by simp
  next
    case False
    then obtain x where x: "x \<in> child_ids ts ?C" "x \<notin> ?C" by blast
    have "insert x (?C - S) \<subseteq> tag_cascade (Suc n) ts S - S"
      using x tag_cascade_subset[of S n ts] unfolding tag_cascade_Suc by blast
    then have "card (insert x (?C - S)) \<le> card (tag_cascade (Suc n) ts S - S)"
      using fin by (rule card_mono[rotated])
    moreover have "finite (?C - S)" using fin unfolding tag_cascade_Suc by (rule finite_subset[rotated]) blast
    ultimately show ?thesis using Suc False x(2) by simp
  qed
qed

lemma cascade_closed: "child_ids (tags L) (cascade_set i L) \<subseteq> cascade_set i L"
proof -
  let ?ts = "tags L" let ?C = "cascade_set i L"
  have sub: "?C - {i} \<subseteq> tag_id ` set ?ts"
    using tag_cascade_range[of "length ?ts" ?ts "{i}"] by (auto simp: cascade_set_def)
  consider "child_ids ?ts ?C \<subseteq> ?C" | "length ?ts \<le> card (?C - {i})"
    using tag_cascade_grows[of ?ts "length ?ts" "{i}"] by (auto simp: cascade_set_def)
  then show ?thesis
  proof cases
    case 2
    then have "card (tag_id ` set ?ts) \<le> card (?C - {i})"
      by (meson card_image_le card_length le_trans List.finite_set)
    then have "?C - {i} = tag_id ` set ?ts" using sub by (simp add: card_seteq)
    then show ?thesis by (auto simp: child_ids_def)
  qed
qed

lemma cascade_least:
  assumes "i \<in> S" and "child_ids (tags L) S \<subseteq> S"
  shows "cascade_set i L \<subseteq> S"
proof -
  have "tag_cascade n (tags L) {i} \<subseteq> S" for n
  proof (induction n)
    case (Suc n)
    then have "child_ids (tags L) (tag_cascade n (tags L) {i}) \<subseteq> child_ids (tags L) S"
      by (auto simp: child_ids_def split: option.splits)
    then show ?case using Suc assms(2) unfolding tag_cascade_Suc by blast
  qed (use assms in simp)
  then show ?thesis by (simp add: cascade_set_def)
qed

lemma delete_tag_wf:
  assumes wf: "ledger_wf L"
  shows "ledger_wf (delete_tag i L)"
proof -
  let ?D = "cascade_set i L" and ?L = "delete_tag i L"
  have eq: "?L = L\<lparr>tags := del_where (\<lambda>t. tag_id t \<in> ?D) (tags L), tx_tags := del_where (\<lambda>(_, g). g \<in> ?D) (tx_tags L)\<rparr>"
    by (simp add: delete_tag_def Let_def)
  have old: "wf_tags L" "wf_tag_names L" "wf_tx_tags L" using wf by (simp_all add: ledger_wf_def)
  have "tag_placed (tags ?L) t" if t: "t \<in> set (tags L)" "tag_id t \<notin> ?D" for t
  proof -
    have "tag_placed (tags L) t" using old t by (simp add: wf_tags_iff)
    moreover have "tag_id q \<notin> ?D" if "tag_parent t = Some (tag_id q)" for q
      using that t cascade_closed[of L i] by (force simp: child_ids_def)
    ultimately show ?thesis
      by (fastforce simp: eq tag_placed_def table_simps split: option.splits)
  qed
  then have "wf_tags ?L"
    using old(1) by (auto simp: wf_tags_iff eq table_simps distinct_del_where)
  moreover have "wf_tag_names ?L"
    using old(2) by (simp add: wf_tag_names_iff eq table_simps)
  moreover have "wf_tx_tags ?L"
    using old(3) distinct_del_where[of id "tx_tags L"]
    by (force simp: wf_tx_tags_def eq table_simps tag_ids_def)
  ultimately show ?thesis using wf by (simp add: ledger_wf_def eq)
qed

lemma deleteTagTx_wf: "ledger_wf L \<Longrightarrow> deleteTagTx i L = Inr (L', u) \<Longrightarrow> ledger_wf L'"
  by (auto simp: deleteTagTx_def res_simps Let_def split: if_splits intro: delete_tag_wf normalize_wf)

section \<open>The preview of a deletion\<close>

lemma tag_descendants_within:
  assumes "child_ids ts S \<subseteq> S" and "tag_id ` set front \<subseteq> S"
  shows "tag_id ` set (tag_descendants n ts front) \<subseteq> S"
  using assms(2)
proof (induction n arbitrary: front)
  case (Suc n)
  let ?next = "concat (map (\<lambda>q. filter (\<lambda>t. tag_parent t = Some (tag_id q)) ts) front)"
  have "tag_id ` set ?next \<subseteq> child_ids ts S"
    using Suc.prems by (force simp: child_ids_def)
  then show ?case using Suc.IH[of ?next] Suc.prems assms(1) by (simp add: image_Un)
qed simp

definition next_front :: "tag_row list \<Rightarrow> tag_row list \<Rightarrow> tag_row list" where
  "next_front ts front = concat (map (\<lambda>q. filter (\<lambda>t. tag_parent t = Some (tag_id q)) ts) front)"

lemma tag_descendants_Suc: "tag_descendants (Suc n) ts front = front @ tag_descendants n ts (next_front ts front)"
  by (simp add: next_front_def)

lemma next_front_iff:
  "t \<in> set (next_front ts front) \<longleftrightarrow> t \<in> set ts \<and> (\<exists>q\<in>set front. tag_parent t = Some (tag_id q))"
  by (auto simp: next_front_def)

lemma next_front_distinct:
  assumes "distinct (map tag_id ts)" and "distinct (map tag_id front)"
  shows "distinct (map tag_id (next_front ts front))"
  using assms(2)
proof (induction front)
  case (Cons q front)
  have "t \<noteq> t'" if "tag_parent t = Some (tag_id q)" "t' \<in> set (next_front ts front)" for t t'
    using that Cons.prems by (force simp: next_front_iff)
  then have "tag_id t \<noteq> tag_id t'"
    if "t \<in> set ts" "tag_parent t = Some (tag_id q)" "t' \<in> set (next_front ts front)" for t t'
    using that distinct_map_inj[OF assms(1), of t t'] by (auto simp: next_front_iff)
  then show ?case using Cons assms(1)
    by (fastforce simp: next_front_def distinct_map_filter)
qed (simp add: next_front_def)

text \<open>A front lists distinct rows of one level.\<close>

definition front_ok :: "ledger \<Rightarrow> int \<Rightarrow> tag_row list \<Rightarrow> bool" where
  "front_ok L l front \<longleftrightarrow> set front \<subseteq> set (tags L) \<and> (\<forall>t\<in>set front. tag_level t = l) \<and>
     distinct (map tag_id front)"

lemma front_ok_next:
  assumes wf: "wf_tags L" and ok: "front_ok L l front"
  shows "front_ok L (l + 1) (next_front (tags L) front)"
proof -
  have "tag_level t = l + 1" if t: "t \<in> set (tags L)" "q \<in> set front" "tag_parent t = Some (tag_id q)" for t q
  proof -
    obtain q' where "q' \<in> set (tags L)" "tag_id q' = tag_id q" "tag_level t = tag_level q' + 1"
      using wf t by (force simp: wf_tags_iff tag_placed_def)
    moreover have "q \<in> set (tags L)" "tag_level q = l" using ok t by (auto simp: front_ok_def)
    ultimately show ?thesis using tag_key_inj[OF wf, of q' q] by simp
  qed
  then show ?thesis
    using ok wf next_front_distinct[of "tags L" front] by (auto simp: front_ok_def next_front_iff wf_tags_iff)
qed

lemma tag_descendants_props:
  assumes wf: "wf_tags L" and "front_ok L l front"
  shows "set (tag_descendants n (tags L) front) \<subseteq> set (tags L) \<and>
    (\<forall>t\<in>set (tag_descendants n (tags L) front). l \<le> tag_level t) \<and>
    distinct (map tag_id (tag_descendants n (tags L) front))"
  using assms(2)
proof (induction n arbitrary: front l)
  case (Suc n)
  let ?next = "next_front (tags L) front"
  have IH: "set (tag_descendants n (tags L) ?next) \<subseteq> set (tags L)"
    "\<forall>t\<in>set (tag_descendants n (tags L) ?next). l + 1 \<le> tag_level t"
    "distinct (map tag_id (tag_descendants n (tags L) ?next))"
    using Suc.IH[OF front_ok_next[OF wf Suc.prems]] by auto
  have "tag_id s \<noteq> tag_id t" if "s \<in> set front" "t \<in> set (tag_descendants n (tags L) ?next)" for s t
  proof
    assume "tag_id s = tag_id t"
    then have "s = t" using that IH(1) Suc.prems tag_key_inj[OF wf, of s t] by (auto simp: front_ok_def)
    then show False using that IH(2) Suc.prems by (fastforce simp: front_ok_def)
  qed
  then show ?case using Suc.prems IH unfolding tag_descendants_Suc
    by (fastforce simp: front_ok_def)
qed simp

lemma tag_descendants_closed:
  assumes wf: "wf_tags L" and "front_ok L l front" and "l + int n > 3"
  shows "child_ids (tags L) (tag_id ` set (tag_descendants n (tags L) front))
    \<subseteq> tag_id ` set (tag_descendants n (tags L) front)"
  using assms(2,3)
proof (induction n arbitrary: front l)
  case 0
  then show ?case by (auto simp: child_ids_def split: option.splits)
next
  case (Suc n)
  let ?next = "next_front (tags L) front"
  have ok: "front_ok L (l + 1) ?next" by (rule front_ok_next[OF wf Suc.prems(1)])
  have "set ?next \<subseteq> set (tag_descendants n (tags L) ?next)"
  proof (cases n)
    case 0
    then have "?next = []" using ok Suc.prems(2) wf
      by (cases ?next) (force simp: front_ok_def wf_tags_iff)+
    then show ?thesis by simp
  qed simp
  moreover have "child_ids (tags L) (tag_id ` set front) \<subseteq> tag_id ` set ?next"
    by (force simp: child_ids_def next_front_iff split: option.splits)
  moreover have "child_ids (tags L) (A \<union> B) = child_ids (tags L) A \<union> child_ids (tags L) B" for A B
    by (auto simp: child_ids_def split: option.splits)
  moreover note Suc.IH[OF ok]
  ultimately show ?case using Suc.prems(2) unfolding tag_descendants_Suc by (simp add: image_Un) blast
qed

text \<open>The query of the preview lists exactly the rows the cascade removes, each once.\<close>

lemma preview_rows:
  assumes wf: "wf_tags L" and i: "find_tag L i = Some root"
  defines "ds \<equiv> tag_descendants (length (tags L) + 3) (tags L) (filter (\<lambda>t. tag_id t = i) (tags L))"
  shows "tag_id ` set ds = cascade_set i L" and "distinct (map tag_id ds)" and "set ds \<subseteq> set (tags L)"
proof -
  let ?f = "filter (\<lambda>t. tag_id t = i) (tags L)"
  have root: "root \<in> set (tags L)" "tag_id root = i" using i by (auto dest: find_tag_Some)
  have lev: "1 \<le> tag_level root" using wf root by (auto simp: wf_tags_iff)
  have ok: "front_ok L (tag_level root) ?f"
    using wf root tag_key_inj[OF wf] by (auto simp: front_ok_def wf_tags_iff distinct_map_filter)
  show "distinct (map tag_id ds)" "set ds \<subseteq> set (tags L)"
    unfolding ds_def using tag_descendants_props[OF wf ok] by blast+
  have "set ?f \<subseteq> set ds" by (simp add: ds_def numeral_3_eq_3)
  then have "i \<in> tag_id ` set ds" using root by force
  then have "cascade_set i L \<subseteq> tag_id ` set ds"
    unfolding ds_def by (intro cascade_least tag_descendants_closed[OF wf ok]) (use lev in auto)
  moreover have "i \<in> cascade_set i L" using tag_cascade_subset[of "{i}"] by (auto simp: cascade_set_def)
  then have "tag_id ` set ds \<subseteq> cascade_set i L"
    unfolding ds_def using cascade_closed[of L i] by (intro tag_descendants_within) auto
  ultimately show "tag_id ` set ds = cascade_set i L" by blast
qed

lemma length_del_where: "length (del_where p xs) + length (filter p xs) = length xs"
  by (induction xs) (auto simp: del_where_def)

lemma preview_counts:
  assumes wf: "ledger_wf L" and im: "GetTagDeleteImpact i L = Inr im"
  shows "impact_descendants im + 1 = int (length (tags L)) - int (length (tags (delete_tag i L)))"
    and "impact_transactions im = card (fst ` (set (tx_tags L) - set (tx_tags (delete_tag i L))))"
proof -
  have wt: "wf_tags L" using wf by (simp add: ledger_wf_def)
  obtain root where root: "find_tag L i = Some root"
    using im by (auto simp: GetTagDeleteImpact_def split: option.splits)
  let ?ds = "tag_descendants (length (tags L) + 3) (tags L) (filter (\<lambda>t. tag_id t = i) (tags L))"
  let ?D = "cascade_set i L"
  note ds = preview_rows[OF wt root]
  have "set (filter (\<lambda>t. tag_id t \<in> ?D) (tags L)) = set ?ds"
    using ds tag_key_inj[OF wt] by (auto simp flip: ds(1))
  moreover have "distinct (filter (\<lambda>t. tag_id t \<in> ?D) (tags L))" "distinct ?ds"
    using wt ds(2) by (auto simp: wf_tags_iff distinct_map)
  ultimately have "length (filter (\<lambda>t. tag_id t \<in> ?D) (tags L)) = length ?ds"
    by (metis distinct_card)
  then show "impact_descendants im + 1 = int (length (tags L)) - int (length (tags (delete_tag i L)))"
    using im root length_del_where[of "\<lambda>t. tag_id t \<in> ?D" "tags L"]
    by (auto simp: GetTagDeleteImpact_def Let_def delete_tag_def)
  have "impact_transactions im = length (remdups (map fst (filter (\<lambda>(_, g). g \<in> ?D) (tx_tags L))))"
    using im root ds(1) by (auto simp: GetTagDeleteImpact_def Let_def)
  also have "\<dots> = card (fst ` {x \<in> set (tx_tags L). snd x \<in> ?D})"
    by (simp add: length_remdups_card_conv case_prod_beta)
  also have "{x \<in> set (tx_tags L). snd x \<in> ?D} = set (tx_tags L) - set (tx_tags (delete_tag i L))"
    by (auto simp: delete_tag_def Let_def table_simps)
  finally show "impact_transactions im = card (fst ` (set (tx_tags L) - set (tx_tags (delete_tag i L))))" .
qed

section \<open>Creating a path\<close>

text \<open>What an already existing path denotes.\<close>

definition tag_at :: "ledger \<Rightarrow> int option \<Rightarrow> string \<Rightarrow> int option" where
  "tag_at L parent name =
     (case parent of
        None \<Rightarrow> (case root_tags name L of [t] \<Rightarrow> if tag_legacy t then None else Some (tag_id t) | _ \<Rightarrow> None)
      | Some p \<Rightarrow> map_option tag_id (find_child name p L))"

fun path_at :: "ledger \<Rightarrow> int option \<Rightarrow> string list \<Rightarrow> int option option" where
  "path_at L parent [] = Some parent"
| "path_at L parent (name # names) =
     (case tag_at L parent name of None \<Rightarrow> None | Some i \<Rightarrow> path_at L (Some i) names)"

lemma ValidateTagHierarchy_iff:
  "ValidateTagHierarchy level parent = Inr () \<longleftrightarrow>
     1 \<le> level \<and> level \<le> 3 \<and> (case parent of None \<Rightarrow> level = 1 | Some p \<Rightarrow> 1 \<le> p \<and> p + 1 = level)"
  by (auto simp: ValidateTagHierarchy_def ValidateTagLevel_def MaxTagLevel_def res_simps split: option.splits)

lemma path_level_check:
  "ValidateTagHierarchy level (if level = 1 then None else Some (level - 1)) = Inr () \<longleftrightarrow> 1 \<le> level \<and> level \<le> 3"
  by (auto simp: ValidateTagHierarchy_iff)

lemma tag_path_step_found:
  assumes "tag_at L parent name = Some i" and "1 \<le> level" and "level \<le> 3"
  shows "tag_path_step level parent name L = Inr (L, i)"
  using assms path_level_check[of level]
  by (auto simp: tag_path_step_def tag_at_def split: option.splits list.splits if_splits)

lemma tag_path_loop_found:
  assumes "path_at L parent names = Some r" and "1 \<le> level" and "level + int (length names) \<le> 4"
  shows "tag_path_loop level parent names L = Inr (L, r)"
  using assms
proof (induction names arbitrary: level parent)
  case (Cons name names)
  then obtain i where i: "tag_at L parent name = Some i" "path_at L (Some i) names = Some r"
    by (auto split: option.splits)
  then show ?case using Cons tag_path_step_found[OF i(1)] by simp
qed simp

text \<open>A successful round: either nothing but the legacy marker of the root changes, or one row is added.\<close>

definition parent_ok :: "int \<Rightarrow> int option \<Rightarrow> ledger \<Rightarrow> bool" where
  "parent_ok level parent L \<longleftrightarrow>
     (case parent of None \<Rightarrow> level = 1 | Some p \<Rightarrow> \<exists>q\<in>set (tags L). tag_id q = p \<and> level = tag_level q + 1)"

lemma insert_or_ignore_tag_cases:
  assumes "insert_or_ignore_tag name parent level L = Inr L'"
  shows "L' = L \<or> L' = add_tag_row name parent level L \<and> level \<in> {1, 2, 3} \<and> tag_unique_ok name parent False (tags L)"
  using assms by (auto simp: insert_or_ignore_tag_def split: if_splits)

lemma root_tags_mem: "t \<in> set (root_tags name L) \<longleftrightarrow> t \<in> set (tags L) \<and> tag_name t = name \<and> tag_parent t = None"
  by (auto simp: root_tags_def)

lemma find_child_mem:
  "find_child name p L = Some t \<Longrightarrow> t \<in> set (tags L) \<and> tag_name t = name \<and> tag_parent t = Some p"
  by (auto simp: find_child_def dest!: find_SomeD)

text \<open>Only the tag tables differ.\<close>

definition tag_only :: "ledger \<Rightarrow> ledger \<Rightarrow> bool" where
  "tag_only L L' \<longleftrightarrow> L' = L\<lparr>tags := tags L', tag_seq := tag_seq L', tx_tags := tx_tags L'\<rparr>"

lemma tag_only_iff:
  "tag_only L L' \<longleftrightarrow> txs L' = txs L \<and> tx_seq L' = tx_seq L \<and> links L' = links L \<and> images L' = images L \<and>
     image_seq L' = image_seq L \<and> image_archive L' = image_archive L \<and>
     archive_amounts L' = archive_amounts L \<and> settings L' = settings L"
  unfolding tag_only_def by (cases L; cases L') auto

lemma tag_only_refl [simp]: "tag_only L L"
  by (simp add: tag_only_iff)

lemma tag_only_trans [trans]: "tag_only L L1 \<Longrightarrow> tag_only L1 L2 \<Longrightarrow> tag_only L L2"
  by (simp add: tag_only_iff)

lemma statement_tag_only:
  "tag_only L (add_tag_row name parent level L)"
  "tag_only L (delete_tag i L)"
  "tag_only L (mark_legacy_roots name L)"
  "clear_legacy i L = Inr L' \<Longrightarrow> tag_only L L'"
  "set_tag_name i name L = Inr L' \<Longrightarrow> tag_only L L'"
  "insert_tx_tag j g L = Inr L' \<Longrightarrow> tag_only L L'"
  by (auto simp: tag_only_iff add_tag_row_def delete_tag_def mark_legacy_roots_def clear_legacy_def
      set_tag_name_def insert_tx_tag_def Let_def split: option.splits if_splits)

lemma normalize_tag_only: "normalizeLegacyRootTagMarkers name L = Inr L' \<Longrightarrow> tag_only L L'"
  by (auto simp: normalizeLegacyRootTagMarkers_def Let_def split: if_splits list.splits
      intro: statement_tag_only tag_only_trans[OF statement_tag_only(3)])

lemma insert_tag_only: "insert_tag name parent level L = Inr (L', i) \<Longrightarrow> tag_only L L'"
  by (auto simp: insert_tag_def statement_tag_only split: if_splits)

lemma root_tags_add:
  "root_tags name (add_tag_row n parent level L) =
     root_tags name L @ (if n = name \<and> parent = None then [\<lparr>tag_id = tag_seq L + 1, tag_name = n,
        tag_parent = parent, tag_level = level, tag_legacy = False\<rparr>] else [])"
  by (auto simp: root_tags_def add_tag_row_def Let_def)

lemma find_append: "List.find p (xs @ ys) = (case List.find p xs of Some x \<Rightarrow> Some x | None \<Rightarrow> List.find p ys)"
  by (induction xs) auto

lemma find_child_add:
  "find_child name p (add_tag_row n parent level L) =
     (case find_child name p L of Some t \<Rightarrow> Some t
      | None \<Rightarrow> if n = name \<and> parent = Some p then Some \<lparr>tag_id = tag_seq L + 1, tag_name = n,
          tag_parent = parent, tag_level = level, tag_legacy = False\<rparr> else None)"
  by (auto simp: find_child_def add_tag_row_def Let_def find_append split: option.splits)

lemma tag_at_add_child:
  "tag_at L par nm = Some j \<Longrightarrow> tag_at (add_tag_row name (Some p) level L) par nm = Some j"
  by (auto simp: tag_at_def root_tags_add find_child_add split: option.splits list.splits if_splits)

lemma parent_ok_new: "parent_ok (level + 1) (Some (tag_seq L + 1)) (add_tag_row name parent level L)"
  by (force simp: parent_ok_def add_tag_row_def Let_def)

lemma tag_path_step_root:
  assumes wf: "ledger_wf L" and run: "tag_path_step 1 None name L = Inr (L', i)"
  shows "ledger_wf L' \<and> tag_only L L' \<and> tag_at L' None name = Some i \<and> parent_ok 2 (Some i) L'"
proof (cases "root_tags name L")
  case Nil
  then obtain t where new: "insert_or_ignore_tag name None 1 L = Inr L'"
    "List.find (\<lambda>t. \<not> tag_legacy t) (root_tags name L') = Some t" "i = tag_id t"
    using run by (auto simp: tag_path_step_def res_simps)
  have eq: "L' = add_tag_row name None 1 L" and uni: "tag_unique_ok name None False (tags L)"
    using insert_or_ignore_tag_cases[OF new(1)] new(2) Nil by auto
  then have "i = tag_seq L + 1" using new(2,3) Nil by (auto simp: root_tags_add)
  then show ?thesis
    using add_tag_row_wf[OF wf, of 1 name None] uni parent_ok_new[of 1 L name None] Nil
    by (auto simp: eq statement_tag_only tag_at_def root_tags_add)
next
  case (Cons t ts)
  then have one: "root_tags name L = [t]"
    using run by (auto simp: tag_path_step_def res_simps)
  then have i: "i = tag_id t" and
    L': "(if tag_legacy t then clear_legacy (tag_id t) L else Inr L) = Inr L'"
    using run by (auto simp: tag_path_step_def res_simps)
  have t: "t \<in> set (tags L)" "tag_parent t = None"
    using one root_tags_mem[of t name L] by simp_all
  have lev: "tag_level t = 1" using wf t by (force simp: ledger_wf_def wf_tags_iff tag_placed_def)
  have wfL': "ledger_wf L'" using L' wf clear_legacy_wf by (auto split: if_splits)
  have same: "find_tag L (tag_id t) = Some t" using wf t by (simp add: ledger_wf_def find_tag_iff)
  have at: "root_tags name L' = [t\<lparr>tag_legacy := False\<rparr>]"
    using L' one same
    by (cases t) (auto simp: clear_legacy_def root_tags_def filter_upd_where table_simps split: if_splits)
  then have "t\<lparr>tag_legacy := False\<rparr> \<in> set (tags L')"
    using root_tags_mem[of "t\<lparr>tag_legacy := False\<rparr>" name L'] by simp
  then have "parent_ok 2 (Some i) L'" using lev i unfolding parent_ok_def
    by (auto intro!: bexI[of _ "t\<lparr>tag_legacy := False\<rparr>"])
  moreover have "tag_only L L'" using L' by (auto simp: statement_tag_only split: if_splits)
  ultimately show ?thesis using wfL' at i by (simp add: tag_at_def)
qed

lemma tag_path_step_child:
  assumes wf: "ledger_wf L" and par: "parent_ok level (Some p) L"
    and run: "tag_path_step level (Some p) name L = Inr (L', i)"
  shows "ledger_wf L' \<and> tag_only L L' \<and> tag_at L' (Some p) name = Some i \<and> parent_ok (level + 1) (Some i) L' \<and>
    (\<forall>q nm j. tag_at L q nm = Some j \<longrightarrow> tag_at L' q nm = Some j)"
proof (cases "find_child name p L")
  case None
  then obtain t where new: "insert_or_ignore_tag name (Some p) level L = Inr L'"
    "find_child name p L' = Some t" "i = tag_id t"
    using run by (auto simp: tag_path_step_def res_simps)
  have eq: "L' = add_tag_row name (Some p) level L" and ok: "level \<in> {1, 2, 3}"
    "tag_unique_ok name (Some p) False (tags L)"
    using insert_or_ignore_tag_cases[OF new(1)] new(2) None by auto
  moreover have "i = tag_seq L + 1" using new(2,3) None by (auto simp: eq find_child_add)
  ultimately show ?thesis
    using add_tag_row_wf[OF wf ok] par parent_ok_new[of level L name "Some p"] new(2,3)
    by (simp add: parent_ok_def statement_tag_only tag_at_add_child) (simp add: tag_at_def)
next
  case (Some t)
  then have res: "L' = L" "i = tag_id t" using run by (auto simp: tag_path_step_def res_simps)
  have t: "t \<in> set (tags L)" "tag_parent t = Some p" using find_child_mem[OF Some] by simp_all
  have wt: "wf_tags L" using wf by (simp add: ledger_wf_def)
  obtain q where q: "q \<in> set (tags L)" "tag_id q = p" "level = tag_level q + 1"
    using par by (auto simp: parent_ok_def)
  obtain q' where "q' \<in> set (tags L)" "tag_id q' = p" "tag_level t = tag_level q' + 1"
    using wt t by (force simp: wf_tags_iff tag_placed_def)
  then have "tag_level t = level" using q tag_key_inj[OF wt, of q' q] by simp
  then have "parent_ok (level + 1) (Some i) L'" using t res by (auto simp: parent_ok_def)
  then show ?thesis using wf res Some by (simp add: tag_at_def)
qed

lemma tag_path_loop_child:
  assumes "ledger_wf L" and "parent_ok level (Some p) L"
    and "tag_path_loop level (Some p) names L = Inr (L', r)"
  shows "ledger_wf L' \<and> tag_only L L' \<and> path_at L' (Some p) names = Some r \<and> r \<noteq> None \<and>
    (\<forall>q nm j. tag_at L q nm = Some j \<longrightarrow> tag_at L' q nm = Some j)"
  using assms
proof (induction names arbitrary: L level p)
  case (Cons name names)
  then obtain L1 i where step: "tag_path_step level (Some p) name L = Inr (L1, i)"
    and rest: "tag_path_loop (level + 1) (Some i) names L1 = Inr (L', r)"
    by (auto simp: res_simps)
  note s = tag_path_step_child[OF Cons.prems(1,2) step]
  have "ledger_wf L1" "parent_ok (level + 1) (Some i) L1" using s by simp_all
  note ih = Cons.IH[OF this rest]
  have "tag_at L' (Some p) name = Some i" using s ih by blast
  then show ?case using s ih by (auto intro: tag_only_trans)
qed auto

lemma createTagPathWithinTx_ok:
  assumes wf: "ledger_wf L" and ne: "segments \<noteq> []"
    and run: "createTagPathWithinTx segments L = Inr (L', r)"
  shows "ledger_wf L' \<and> tag_only L L' \<and> path_at L' None segments = Some r \<and> r \<noteq> None"
proof -
  obtain name names where seg: "segments = name # names" using ne by (cases segments) auto
  then obtain L1 i where step: "tag_path_step 1 None name L = Inr (L1, i)"
    and rest: "tag_path_loop 2 (Some i) names L1 = Inr (L', r)"
    using run by (auto simp: createTagPathWithinTx_def res_simps)
  note s = tag_path_step_root[OF wf step]
  have "ledger_wf L1" "parent_ok 2 (Some i) L1" using s by simp_all
  note ih = tag_path_loop_child[OF this rest]
  have "tag_at L' None name = Some i" using s ih by blast
  then show ?thesis using s ih seg by (auto intro: tag_only_trans)
qed

section \<open>Every operation keeps the ledger invariant\<close>

lemma insert_tx_tag_wf: "ledger_wf L \<Longrightarrow> insert_tx_tag i g L = Inr L' \<Longrightarrow> ledger_wf L'"
  using wf_tags_cong[of L' L] wf_tag_names_cong[of L' L]
  by (auto simp: insert_tx_tag_def ledger_wf_def wf_tx_tags_def tag_ids_def split: if_splits)

lemma insert_tx_tags_ok:
  assumes "ledger_wf L" and "insert_tx_tags i gs L = Inr L'"
  shows "ledger_wf L' \<and> tag_only L L'"
  using assms(2) unfolding insert_tx_tags_def
  by (rule foldE_invariant) (use assms(1) in \<open>auto intro: insert_tx_tag_wf statement_tag_only tag_only_trans\<close>)

lemma parseTagPathSegments_ne: "parseTagPathSegments path = Inr segments \<Longrightarrow> segments \<noteq> []"
  by (auto simp: parseTagPathSegments_def res_simps)

lemma resolveTransactionTagIDsIn_ok:
  assumes wf: "ledger_wf L" and run: "resolveTransactionTagIDsIn ids paths L = Inr (L', ids')"
  shows "ledger_wf L' \<and> tag_only L L'"
proof -
  let ?P = "\<lambda>(L1, _ :: int list). ledger_wf L1 \<and> tag_only L L1"
  have "?P (L', ids')"
  proof (rule foldE_invariant[where P = ?P])
    show "foldE (\<lambda>path (L, ids).
        bindE (parseTagPathSegments path) (\<lambda>segments.
        bindE (createTagPathWithinTx segments L) (\<lambda>(L', tag).
        bindE (ofOption ErrTagPathEmpty tag) (\<lambda>t. Inr (L', ids @ [t]))))) paths (L, ids) = Inr (L', ids')"
      using run by (simp add: resolveTransactionTagIDsIn_def res_simps)
  next
    fix x s s'
    assume "?P s" "(case s of (L, ids) \<Rightarrow> bindE (parseTagPathSegments x) (\<lambda>segments.
        bindE (createTagPathWithinTx segments L) (\<lambda>(L', tag).
        bindE (ofOption ErrTagPathEmpty tag) (\<lambda>t. Inr (L', ids @ [t]))))) = Inr s'"
    then show "?P s'"
      by (auto simp: res_simps dest!: parseTagPathSegments_ne)
        (metis createTagPathWithinTx_ok tag_only_trans)+
  qed (use wf in simp)
  then show ?thesis by simp
qed

lemma tag_only_balanced: "tag_only L L' \<Longrightarrow> ledger_balanced L' = ledger_balanced L"
  by (rule ledger_balanced_cong) (simp_all add: tag_only_iff)

lemma tag_tx_only:
  "createTagTx name parent L = Inr (L', t) \<Longrightarrow> tag_only L L'"
  "updateTagTx i name L = Inr (L', u) \<Longrightarrow> tag_only L L'"
  "deleteTagTx i L = Inr (L', u) \<Longrightarrow> tag_only L L'"
  by (auto simp: createTagTx_def updateTagTx_def deleteTagTx_def res_simps Let_def split: if_splits
      intro: insert_tag_only statement_tag_only tag_only_trans[OF statement_tag_only(2) normalize_tag_only])
    (metis statement_tag_only(5) normalize_tag_only tag_only_trans)

lemma addTransactionTagsTx_ok:
  "ledger_wf L \<Longrightarrow> addTransactionTagsTx i gs L = Inr (L', u) \<Longrightarrow> ledger_wf L' \<and> tag_only L L'"
  by (auto simp: addTransactionTagsTx_def res_simps dest: insert_tx_tags_ok)

lemma remove_tx_tag_wf: "ledger_wf L \<Longrightarrow> ledger_wf (L\<lparr>tx_tags := del_where p (tx_tags L)\<rparr>)"
  using wf_tags_cong[of "L\<lparr>tx_tags := del_where p (tx_tags L)\<rparr>" L]
    wf_tag_names_cong[of "L\<lparr>tx_tags := del_where p (tx_tags L)\<rparr>" L]
  by (auto simp: ledger_wf_def wf_tx_tags_def tag_ids_def table_simps distinct_del_where[of id, simplified])

lemma tag_only_ok: "ledger_ok L \<Longrightarrow> ledger_wf L' \<Longrightarrow> tag_only L L' \<Longrightarrow> ledger_ok L'"
  using quota_ok_cong[of L' L] link_policy_same[of L' L] tag_only_balanced[of L L']
  by (simp add: ledger_ok_def tag_only_iff)

lemma createTagTx_ok: "ledger_ok L \<Longrightarrow> createTagTx name parent L = Inr (L', t) \<Longrightarrow> ledger_ok L'"
  by (metis tag_only_ok ledger_ok_def createTagTx_wf tag_tx_only(1))

lemma updateTagTx_ok: "ledger_ok L \<Longrightarrow> updateTagTx i name L = Inr (L', u) \<Longrightarrow> ledger_ok L'"
  by (metis tag_only_ok ledger_ok_def updateTagTx_wf tag_tx_only(2))

lemma deleteTagTx_ok: "ledger_ok L \<Longrightarrow> deleteTagTx i L = Inr (L', u) \<Longrightarrow> ledger_ok L'"
  by (metis tag_only_ok ledger_ok_def deleteTagTx_wf tag_tx_only(3))

lemma addTransactionTags_ok: "ledger_ok L \<Longrightarrow> addTransactionTagsTx i gs L = Inr (L', u) \<Longrightarrow> ledger_ok L'"
  by (metis tag_only_ok ledger_ok_def addTransactionTagsTx_ok)

lemma createTagPath_ok:
  "ledger_ok L \<Longrightarrow> segments \<noteq> [] \<Longrightarrow> createTagPathWithinTx segments L = Inr (L', r) \<Longrightarrow> ledger_ok L'"
  by (metis tag_only_ok ledger_ok_def createTagPathWithinTx_ok)

lemma remove_tx_tag_ok: "ledger_ok L \<Longrightarrow> ledger_ok (L\<lparr>tx_tags := del_where p (tx_tags L)\<rparr>)"
  by (rule tag_only_ok[of L]) (simp_all add: ledger_ok_def remove_tx_tag_wf tag_only_iff)

lemmas tag_tx_ok = createTagTx_ok updateTagTx_ok deleteTagTx_ok addTransactionTags_ok createTagPath_ok
  remove_tx_tag_ok

interpretation create_tag: ledger_handler "CreateTag name parent" ledger_ok
  by unfold_locales (auto simp: CreateTag_def res_simps intro: tag_tx_ok)

interpretation update_tag: ledger_handler "UpdateTag i name" ledger_ok
  by unfold_locales (auto simp: UpdateTag_def res_simps intro: tag_tx_ok)

interpretation delete_tag: ledger_handler "DeleteTag i" ledger_ok
  by unfold_locales (auto simp: DeleteTag_def res_simps intro: tag_tx_ok)

interpretation tag_path: ledger_handler "CreateTagByPath path" ledger_ok
  by unfold_locales
    (auto simp: CreateTagByPath_def res_simps intro: tag_tx_ok dest: parseTagPathSegments_ne)

interpretation add_tags: ledger_handler "AddTransactionTags i gs" ledger_ok
  by unfold_locales (auto simp: AddTransactionTags_def res_simps intro: tag_tx_ok)

interpretation remove_tag: ledger_handler "RemoveTransactionTag i g" ledger_ok
  by unfold_locales (auto simp: RemoveTransactionTag_def res_simps intro: tag_tx_ok)

section \<open>Properties\<close>

text \<open>Creating a tag path is idempotent: after a successful call the path exists, and calling it again
  returns the same tag and leaves the ledger as it is.\<close>

theorem tag_path_idempotent:
  assumes "CreateTagByPath path s = Inr (L', r)" and "ledger_wf (svc_ledger s)"
  shows "r \<noteq> None \<and> CreateTagByPath path (s\<lparr>svc_ledger := L'\<rparr>) = Inr (L', r)"
proof -
  obtain segments where seg: "parseTagPathSegments path = Inr segments" and db: "database s = Inr (svc_ledger s)"
    and run: "createTagPathWithinTx segments (svc_ledger s) = Inr (L', r)"
    using assms(1) by (auto simp: CreateTagByPath_def res_simps)
  have len: "int (length segments) \<le> 3"
    using seg by (auto simp: parseTagPathSegments_def res_simps ValidateTagLevel_def MaxTagLevel_def split: if_splits)
  note ok = createTagPathWithinTx_ok[OF assms(2) parseTagPathSegments_ne[OF seg] run]
  have "createTagPathWithinTx segments L' = Inr (L', r)"
    unfolding createTagPathWithinTx_def using ok len by (intro tag_path_loop_found) simp_all
  moreover have "database (s\<lparr>svc_ledger := L'\<rparr>) = Inr L'" using db by (auto simp: database_def split: if_splits)
  ultimately show ?thesis using ok seg by (simp add: CreateTagByPath_def)
qed

theorem tag_path_idempotent_witness:
  "CreateTagByPath ''home/food''
     (sample_service\<lparr>svc_ledger := fst (projr (CreateTagByPath ''home/food'' sample_service))\<rparr>) =
   Inr (fst (projr (CreateTagByPath ''home/food'' sample_service)), Some 2)"
proof -
  let ?m = "CreateTagByPath ''home/food'' sample_service"
  have run: "?m = Inr (fst (projr ?m), snd (projr ?m))" by (rule okE_pair) code_simp
  have two: "snd (projr ?m) = Some 2" by code_simp
  have wf: "ledger_wf (svc_ledger sample_service)" by code_simp
  show ?thesis using tag_path_idempotent[OF run wf] unfolding two by blast
qed

lemma normalize_counts:
  "normalizeLegacyRootTagMarkers name L = Inr L' \<Longrightarrow> length (tags L') = length (tags L) \<and> tx_tags L' = tx_tags L"
  by (auto simp: normalizeLegacyRootTagMarkers_def mark_legacy_roots_def clear_legacy_def Let_def
      split: if_splits list.splits option.splits)

text \<open>C38: the preview of a tag deletion is what the deletion does: the number of tags that go besides the
  selected one, and the number of transactions that lose a tag.\<close>

theorem delete_preview_exact:
  assumes "GetTagDeleteImpact i (svc_ledger s) = Inr im" and "DeleteTag i s = Inr (L', u)"
    and "ledger_wf (svc_ledger s)"
  shows "int (length (tags L')) = int (length (tags (svc_ledger s))) - impact_descendants im - 1 \<and>
    impact_transactions im = card (fst ` (set (tx_tags (svc_ledger s)) - set (tx_tags L')))"
proof -
  have "length (tags L') = length (tags (delete_tag i (svc_ledger s))) \<and>
      tx_tags L' = tx_tags (delete_tag i (svc_ledger s))"
    using assms(2) by (auto simp: DeleteTag_def deleteTagTx_def res_simps Let_def split: if_splits dest!: normalize_counts)
  then show ?thesis using preview_counts[OF assms(3,1)] by simp
qed

theorem delete_preview_exact_witness:
  "length (tags (fst (projr (DeleteTag 1 (sample_service\<lparr>svc_ledger :=
     fst (projr (CreateTagByPath ''home/food'' sample_service))\<rparr>))))) = 0"
proof -
  let ?s = "sample_service\<lparr>svc_ledger := fst (projr (CreateTagByPath ''home/food'' sample_service))\<rparr>"
  have run: "DeleteTag 1 ?s = Inr (fst (projr (DeleteTag 1 ?s)), snd (projr (DeleteTag 1 ?s)))"
    by (rule okE_pair) code_simp
  have im: "GetTagDeleteImpact 1 (svc_ledger ?s) = Inr (projr (GetTagDeleteImpact 1 (svc_ledger ?s)))"
    "impact_descendants (projr (GetTagDeleteImpact 1 (svc_ledger ?s))) = 1" "length (tags (svc_ledger ?s)) = 2"
    "ledger_wf (svc_ledger ?s)" by code_simp+
  show ?thesis using delete_preview_exact[OF im(1) run im(4)] im(2,3) by simp
qed

end
