(* ===== verification/GoTime.thy ===== *)
theory GoTime
  imports GoText
begin

text \<open>
  \<open>time.Parse\<close> for the layouts \<open>2006-01-02\<close> and \<open>2006-01-02 15:04\<close>: a four-digit year, two-digit month, day
  and minute, an hour of one or two digits, a space of the layout matching any number of spaces, no
  trailing text, and the ranges of a calendar date.
\<close>

definition digit_value :: "char \<Rightarrow> nat option" where
  "digit_value c = (let n = byte c in if 48 \<le> n \<and> n \<le> 57 then Some (n - 48) else None)"

text \<open>\<open>getnum\<close>: two digits, or one when not \<open>fixed\<close>.\<close>

fun getnum :: "bool \<Rightarrow> string \<Rightarrow> (nat \<times> string) option" where
  "getnum fixed [] = None"
| "getnum fixed (c # cs) =
     (case digit_value c of
        None \<Rightarrow> None
      | Some a \<Rightarrow>
          (case cs of
             [] \<Rightarrow> if fixed then None else Some (a, [])
           | d # ds \<Rightarrow>
               (case digit_value d of
                  Some b \<Rightarrow> Some (a * 10 + b, ds)
                | None \<Rightarrow> if fixed then None else Some (a, cs))))"

definition get_year :: "string \<Rightarrow> (nat \<times> string) option" where
  "get_year s =
     (case getnum True s of
        None \<Rightarrow> None
      | Some (hi, r) \<Rightarrow> (case getnum True r of None \<Rightarrow> None | Some (lo, r') \<Rightarrow> Some (hi * 100 + lo, r')))"

definition literal :: "char \<Rightarrow> string \<Rightarrow> string option" where
  "literal c s = (case s of d # ds \<Rightarrow> if d = c then Some ds else None | [] \<Rightarrow> None)"

definition skip_spaces :: "string \<Rightarrow> string option" where
  "skip_spaces s = (case s of d # ds \<Rightarrow> if d = CHR '' '' then Some (dropWhile (\<lambda>c. c = CHR '' '') s) else None
                    | [] \<Rightarrow> Some [])"

definition is_leap :: "nat \<Rightarrow> bool" where
  "is_leap y \<longleftrightarrow> y mod 4 = 0 \<and> (y mod 100 \<noteq> 0 \<or> y mod 400 = 0)"

definition daysIn :: "nat \<Rightarrow> nat \<Rightarrow> nat" where
  "daysIn month year =
     (if month = 2 then if is_leap year then 29 else 28
      else if month = 4 \<or> month = 6 \<or> month = 9 \<or> month = 11 then 30 else 31)"

definition valid_day :: "nat \<Rightarrow> nat \<Rightarrow> nat \<Rightarrow> bool" where
  "valid_day y m d \<longleftrightarrow> 1 \<le> m \<and> m \<le> 12 \<and> 1 \<le> d \<and> d \<le> daysIn m y"

definition parse_day :: "string \<Rightarrow> ((nat \<times> nat \<times> nat) \<times> string) option" where
  "parse_day s =
     Option.bind (get_year s) (\<lambda>(y, s1).
     Option.bind (literal (CHR ''-'') s1) (\<lambda>s2.
     Option.bind (getnum True s2) (\<lambda>(m, s3).
     Option.bind (literal (CHR ''-'') s3) (\<lambda>s4.
     Option.bind (getnum True s4) (\<lambda>(d, s5).
     if valid_day y m d then Some ((y, m, d), s5) else None)))))"

definition ParseDate :: "string \<Rightarrow> (nat \<times> nat \<times> nat) option" where
  "ParseDate s = Option.bind (parse_day s) (\<lambda>(d, rest). if rest = [] then Some d else None)"

definition ParseDateMinute :: "string \<Rightarrow> ((nat \<times> nat \<times> nat) \<times> nat \<times> nat) option" where
  "ParseDateMinute s =
     Option.bind (parse_day s) (\<lambda>(d, s1).
     Option.bind (skip_spaces s1) (\<lambda>s2.
     Option.bind (getnum False s2) (\<lambda>(h, s3).
     Option.bind (literal (CHR '':'') s3) (\<lambda>s4.
     Option.bind (getnum True s4) (\<lambda>(mi, s5).
     if h < 24 \<and> mi < 60 \<and> s5 = [] then Some (d, h, mi) else None)))))"

lemma digit_value_le: "digit_value c = Some n \<Longrightarrow> n \<le> 9"
  by (auto simp: digit_value_def Let_def split: if_splits)

lemma getnum_le: "getnum f s = Some (n, r) \<Longrightarrow> n \<le> 99"
  by (cases s) (auto split: option.splits list.splits if_splits dest!: digit_value_le)

lemma parse_day_range: "parse_day s = Some ((y, m, d), r) \<Longrightarrow> y \<le> 9999 \<and> valid_day y m d"
  by (fastforce simp: parse_day_def get_year_def bind_eq_Some_conv split: option.splits if_splits
      dest!: getnum_le)

lemma daysIn_le: "daysIn m y \<le> 31"
  by (simp add: daysIn_def)

section \<open>Printing and parsing\<close>

definition digit_char :: "nat \<Rightarrow> char" where
  "digit_char n = char_of (48 + n)"

definition two :: "nat \<Rightarrow> string" where
  "two n = [digit_char (n div 10), digit_char (n mod 10)]"

definition format_day :: "nat \<times> nat \<times> nat \<Rightarrow> string" where
  "format_day = (\<lambda>(y, m, d). two (y div 100) @ two (y mod 100) @ ''-'' @ two m @ ''-'' @ two d)"

lemma digit_value_char: "n \<le> 9 \<Longrightarrow> digit_value (digit_char n) = Some n"
  by (simp add: digit_value_def digit_char_def of_char_of)

lemma getnum_two: "n \<le> 99 \<Longrightarrow> getnum f (two n @ r) = Some (n, r)"
  by (simp add: two_def digit_value_char)

lemma parse_day_format:
  assumes "y \<le> 9999" and "valid_day y m d"
  shows "parse_day (format_day (y, m, d) @ r) = Some ((y, m, d), r)"
proof -
  have "m \<le> 99" "d \<le> 99" using assms(2) daysIn_le[of m y] by (auto simp: valid_day_def)
  moreover have "y div 100 \<le> 99" "y mod 100 \<le> 99" using assms(1) by (auto simp: less_Suc_eq_le[symmetric])
  ultimately show ?thesis using assms(2)
    by (simp add: parse_day_def format_day_def get_year_def getnum_two literal_def bind_eq_Some_conv)
qed

lemma ParseDate_format: "y \<le> 9999 \<Longrightarrow> valid_day y m d \<Longrightarrow> ParseDate (format_day (y, m, d)) = Some (y, m, d)"
  using parse_day_format[of y m d "[]"] by (simp add: ParseDate_def)

lemma ParseDate_range: "ParseDate s = Some (y, m, d) \<Longrightarrow> y \<le> 9999 \<and> valid_day y m d"
  by (auto simp: ParseDate_def bind_eq_Some_conv split: if_splits dest!: parse_day_range)

end
