(* ===== verification/Transactions.thy ===== *)
theory Transactions
  imports Tags GoTime
begin

text \<open>
  The three writes on transactions of \<open>backend/core/service.go\<close>: adding, updating and deleting a
  transaction with its images, tags, links and the running balances of the accounts involved. Each
  write keeps the whole ledger invariant.
\<close>

section \<open>Requests\<close>

record TransactionRequest =
  rq_account :: string
  rq_date :: string
  rq_time :: string
  rq_item :: string
  rq_type :: string
  rq_amount :: int64
  rq_memo :: string
  rq_images :: "TransactionImageRequest list"
  rq_delete_image_ids :: "int list"
  rq_new_tag_paths :: "string list"
  rq_link_add_ids :: "int list"
  rq_link_remove_ids :: "int list"
  rq_tags :: "int list"

definition parseTransactionDate :: "string \<Rightarrow> string \<Rightarrow> (lerr, stamp) result" where
  "parseTransactionDate dateStr timeStr =
     (if timeStr \<noteq> [] then
        bindE (ofOption ErrDateFormat (ParseDateMinute (dateStr @ '' '' @ timeStr))) (\<lambda>((y, m, d), h, mi).
        Inr (y, m, d, h, mi, 0))
      else bindE (ofOption ErrDateFormat (ParseDate dateStr)) (\<lambda>(y, m, d). Inr (y, m, d, 0, 0, 0)))"

definition validateTransactionData :: "TransactionRequest \<Rightarrow> (lerr, unit) result" where
  "validateTransactionData req =
     bindE (mapErr ErrValidation (ValidateLedgerText LAccount (rq_account req) MaxAccountBytes True)) (\<lambda>_.
     bindE (mapErr ErrValidation (ValidateLedgerText LItem (rq_item req) MaxItemBytes True)) (\<lambda>_.
     bindE (mapErr ErrValidation (ValidateLedgerText LMemo (rq_memo req) MaxMemoBytes False)) (\<lambda>_.
     bindE (mapErr ErrValidation (ValidateLedgerText LType (rq_type req) 32 True)) (\<lambda>_.
     bindE (guardE (rq_type req = ''income'' \<or> rq_type req = ''expense'') ErrTypeValue) (\<lambda>_.
     mapErr ErrValidation (ValidateTransactionAmount (rq_amount req)))))))"

type_synonym prepared_insert = "TransactionRequest \<times> stamp \<times> preparedTransactionImage list"

definition prepareTransactionInsert ::
  "image_codec \<Rightarrow> TransactionRequest \<Rightarrow> (lerr, prepared_insert) result" where
  "prepareTransactionInsert codec req =
     bindE (parseTransactionDate (rq_date req) (rq_time req)) (\<lambda>date.
     bindE (validateTransactionData req) (\<lambda>_.
     bindE (prepareTransactionImages codec (rq_images req)) (\<lambda>imgs. Inr (req, date, imgs))))"

section \<open>The writes\<close>

text \<open>The row as \<open>ToResponse\<close> receives it: the archived amount wins.\<close>

definition read_back :: "int \<Rightarrow> ledger \<Rightarrow> (lerr, tx_row) result" where
  "read_back i L =
     bindE (ofOption ErrTransactionNotFound (find_tx L i)) (\<lambda>r. Inr (r\<lparr>tx_amount := eff_amount L r\<rparr>))"

definition addPreparedTransactionIn :: "prepared_insert \<Rightarrow> ledger \<Rightarrow> (lerr, ledger \<times> tx_row) result" where
  "addPreparedTransactionIn prepared L =
     (case prepared of (req, date, imgs) \<Rightarrow>
      bindE (resolveTransactionTagIDsIn (rq_tags req) (rq_new_tag_paths req) L) (\<lambda>(L1, tagIDs).
      bindE (insert_tx (rq_account req) date (rq_item req) (rq_type req) (rq_amount req) (rq_memo req) L1) (\<lambda>(L2, i).
      bindE (insertPreparedTransactionImages i imgs L2) (\<lambda>L3.
      bindE (insert_tx_tags i tagIDs L3) (\<lambda>L4.
      bindE (recalculateBalanceIn (rq_account req) L4) (\<lambda>L5.
      bindE (read_back i L5) (\<lambda>r. Inr (L5, r))))))))"

definition updatePreparedTransactionIn ::
  "int \<Rightarrow> TransactionRequest \<Rightarrow> stamp \<Rightarrow> preparedTransactionImage list \<Rightarrow> ledger \<Rightarrow> (lerr, ledger \<times> tx_row) result" where
  "updatePreparedTransactionIn i req date imgs L =
     bindE (resolveTransactionTagIDsIn (rq_tags req) (rq_new_tag_paths req) L) (\<lambda>(L1, tagIDs).
     bindE (ofOption ErrTransactionNotFound (find_tx L1 i)) (\<lambda>old.
     let oldAccount = tx_account old; newAccount = rq_account req;
         moved = (oldAccount \<noteq> newAccount);
         previousAssignments = readCardBankAssignments 0 L1 in
     bindE (update_tx i newAccount date (rq_item req) (rq_type req) (rq_amount req) (rq_memo req) L1) (\<lambda>L2.
     bindE (deleteTransactionImagesIn i (rq_delete_image_ids req) (delete_archive_amount i L2)) (\<lambda>L3.
     bindE (insertPreparedTransactionImages i imgs L3) (\<lambda>L4.
     bindE (if moved \<and> imgs = [] then checkImageAccountMoveQuota i oldAccount newAccount L4 else Inr ()) (\<lambda>_.
     bindE (insert_tx_tags i tagIDs (L4\<lparr>tx_tags := del_where (\<lambda>(t, _). t = i) (tx_tags L4)\<rparr>)) (\<lambda>L5.
     bindE (recalculateBalanceIn newAccount L5) (\<lambda>L6.
     bindE (if moved then recalculateBalanceIn oldAccount L6 else Inr L6) (\<lambda>L7.
     bindE (read_back i L7) (\<lambda>r.
     bindE (applyTransactionLinkChangesIn i (rq_link_add_ids req) (rq_link_remove_ids req) L7) (\<lambda>L8.
     let L9 = pruneInvalidTransactionLinksIn L8 in
     bindE (if moved then validateCardBankAssignmentChanges previousAssignments L9 else Inr ()) (\<lambda>_.
     Inr (L9, r)))))))))))))"

definition deleteTransactionTx :: "int \<Rightarrow> ledger \<Rightarrow> (lerr, ledger \<times> unit) result" where
  "deleteTransactionTx i L =
     bindE (ofOption ErrTransactionNotFound (find_tx L i)) (\<lambda>t.
     bindE (recalculateBalanceIn (tx_account t) (delete_tx i L)) (\<lambda>L'. Inr (L', ())))"

definition AddTransaction ::
  "image_codec \<Rightarrow> TransactionRequest \<Rightarrow> service \<Rightarrow> (lerr, ledger \<times> tx_row) result" where
  "AddTransaction codec req s =
     (if rq_delete_image_ids req \<noteq> [] \<or> rq_link_add_ids req \<noteq> [] \<or> rq_link_remove_ids req \<noteq> []
      then Inl ErrUpdateOnlyFields
      else bindE (database s) (\<lambda>L.
        bindE (prepareTransactionInsert codec req) (\<lambda>prepared. addPreparedTransactionIn prepared L)))"

definition UpdateTransaction ::
  "image_codec \<Rightarrow> int \<Rightarrow> TransactionRequest \<Rightarrow> service \<Rightarrow> (lerr, ledger \<times> tx_row) result" where
  "UpdateTransaction codec i req s =
     bindE (database s) (\<lambda>L.
     bindE (parseTransactionDate (rq_date req) (rq_time req)) (\<lambda>date.
     bindE (validateTransactionData req) (\<lambda>_.
     bindE (prepareTransactionImages codec (rq_images req)) (\<lambda>imgs.
     updatePreparedTransactionIn i req date imgs L))))"

definition DeleteTransaction :: "int \<Rightarrow> service \<Rightarrow> (lerr, ledger \<times> unit) result" where
  "DeleteTransaction i s = bindE (database s) (deleteTransactionTx i)"

section \<open>Balances away from the accounts being changed\<close>

definition balanced_except :: "string set \<Rightarrow> ledger \<Rightarrow> bool" where
  "balanced_except A L \<longleftrightarrow> (\<forall>b. b \<notin> A \<longrightarrow> balances_exact b L)"

lemma balanced_except_empty: "balanced_except {} L \<longleftrightarrow> ledger_balanced L"
  by (simp add: balanced_except_def ledger_balanced_iff)

lemma balances_exact_frame:
  assumes rows: "filter (\<lambda>r. tx_account r = b) (txs L') = filter (\<lambda>r. tx_account r = b) (txs L)"
    and arch: "\<And>r. r \<in> set (txs L) \<Longrightarrow> tx_account r = b \<Longrightarrow>
      map_of (archive_amounts L') (tx_id r) = map_of (archive_amounts L) (tx_id r)"
  shows "balances_exact b L' = balances_exact b L"
proof -
  have mem: "r \<in> set (txs L') \<and> tx_account r = b \<longleftrightarrow> r \<in> set (txs L) \<and> tx_account r = b" for r
    using arg_cong[OF rows, of set] by (auto simp: set_eq_iff)
  have signed: "signed_amount L' r = signed_amount L r" if "r \<in> set (txs L)" "tx_account r = b" for r
    using arch[OF that] by (simp add: signed_amount_def eff_amount_def)
  have "exact_balance L' r = exact_balance L r" if "tx_account r = b" for r
  proof -
    have split: "filter (\<lambda>s. tx_account s = tx_account r \<and> row_key s \<le> row_key r) xs =
        filter (\<lambda>s. row_key s \<le> row_key r) (filter (\<lambda>s. tx_account s = b) xs)" for xs
      using that by (simp add: conj_commute)
    show ?thesis
      unfolding exact_balance_def split rows using signed
      by (intro arg_cong[where f = sum_list] map_cong) auto
  qed
  then show ?thesis using mem unfolding balances_exact_def by metis
qed

lemma balanced_except_frame:
  assumes "balanced_except A L" and "A \<subseteq> B"
    and "\<And>b. b \<notin> B \<Longrightarrow> filter (\<lambda>r. tx_account r = b) (txs L') = filter (\<lambda>r. tx_account r = b) (txs L)"
    and "\<And>r. r \<in> set (txs L) \<Longrightarrow> tx_account r \<notin> B \<Longrightarrow>
      map_of (archive_amounts L') (tx_id r) = map_of (archive_amounts L) (tx_id r)"
  shows "balanced_except B L'"
  using assms balances_exact_frame[of _ L' L] unfolding balanced_except_def by blast

lemma balanced_except_same:
  "txs L' = txs L \<Longrightarrow> archive_amounts L' = archive_amounts L \<Longrightarrow> balanced_except A L \<Longrightarrow> balanced_except A L'"
  by (rule balanced_except_frame[of A L]) simp_all

lemma balanced_except_recalc:
  assumes "wf_txs L" and "recalculateBalanceIn a L = Inr L'" and "balanced_except (insert a A) L"
  shows "balanced_except A L'"
  using assms exact_account_balanced[of a L] unfolding balanced_except_def
  by (auto simp: recalculateBalanceIn_Inr)

lemma balanced_except_insert:
  "balanced_except A L \<Longrightarrow> insert_tx acc d item ty am memo L = Inr (L', i) \<Longrightarrow> balanced_except (insert acc A) L'"
  by (rule balanced_except_frame[of A L]) (auto simp: insert_tx_def Let_def split: if_splits)

lemma filter_upd_where_other:
  "(\<And>r. r \<in> set rs \<Longrightarrow> p r \<Longrightarrow> \<not> q r \<and> \<not> q (f r)) \<Longrightarrow> filter q (upd_where p f rs) = filter q rs"
  by (induction rs) (auto simp: table_simps)

lemma find_tx_only: "wf_txs L \<Longrightarrow> find_tx L i = Some t \<Longrightarrow> r \<in> set (txs L) \<Longrightarrow> tx_id r = i \<Longrightarrow> r = t"
  by (auto simp: wf_txs_def find_tx_def dest!: find_SomeD dest: distinct_map_inj)

lemma map_of_del_where: "k \<noteq> i \<Longrightarrow> map_of (del_where (\<lambda>(j, _). j = i) xs) k = map_of xs k"
  by (induction xs) (auto simp: del_where_def)

lemma balanced_except_update:
  assumes "wf_txs L" and t: "find_tx L i = Some t" and "balanced_except A L"
    and run: "update_tx i acc d item ty am memo L = Inr L'"
  shows "balanced_except (insert acc (insert (tx_account t) A)) (delete_archive_amount i L')"
proof (rule balanced_except_frame[OF assms(3)])
  have L': "txs L' = upd_where (\<lambda>r. tx_id r = i) (\<lambda>r. r\<lparr>tx_account := acc, tx_date := d, tx_item := item,
      tx_type := ty, tx_amount := am, tx_memo := memo\<rparr>) (txs L)" "archive_amounts L' = archive_amounts L"
    using run by (auto simp: update_tx_def split: if_splits)
  show "filter (\<lambda>r. tx_account r = b) (txs (delete_archive_amount i L')) = filter (\<lambda>r. tx_account r = b) (txs L)"
    if "b \<notin> insert acc (insert (tx_account t) A)" for b
    using that find_tx_only[OF assms(1) t]
    by (auto simp: delete_archive_amount_def L' intro!: filter_upd_where_other)
  show "map_of (archive_amounts (delete_archive_amount i L')) (tx_id r) = map_of (archive_amounts L) (tx_id r)"
    if "r \<in> set (txs L)" "tx_account r \<notin> insert acc (insert (tx_account t) A)" for r
  proof -
    have "tx_id r \<noteq> i" using that find_tx_only[OF assms(1) t] by blast
    then show ?thesis by (simp add: delete_archive_amount_def L' map_of_del_where)
  qed
qed auto

lemma balanced_except_delete:
  assumes "wf_txs L" and t: "find_tx L i = Some t" and "balanced_except A L"
  shows "balanced_except (insert (tx_account t) A) (delete_tx i L)"
proof (rule balanced_except_frame[OF assms(3)])
  show "filter (\<lambda>r. tx_account r = b) (txs (delete_tx i L)) = filter (\<lambda>r. tx_account r = b) (txs L)"
    if "b \<notin> insert (tx_account t) A" for b
    using that find_tx_only[OF assms(1) t] by (auto simp: delete_tx_def del_where_def intro!: filter_cong)
  show "map_of (archive_amounts (delete_tx i L)) (tx_id r) = map_of (archive_amounts L) (tx_id r)"
    if "r \<in> set (txs L)" "tx_account r \<notin> insert (tx_account t) A" for r
  proof -
    have "tx_id r \<noteq> i" using that find_tx_only[OF assms(1) t] by blast
    then show ?thesis by (simp add: delete_tx_def map_of_del_where)
  qed
qed auto

section \<open>Quotas and link policy of the statements\<close>

definition account_of :: "ledger \<Rightarrow> int \<Rightarrow> string option" where
  "account_of L i = map_option tx_account (find_tx L i)"

lemma link_row_account_of:
  "link_row L l = (case (account_of L (fst l), account_of L (snd l)) of
     (Some p, Some c) \<Rightarrow> Some (fst l, p, snd l, c) | _ \<Rightarrow> None)"
  by (auto simp: link_row_def account_of_def split: option.splits)

lemma link_policy_accounts:
  assumes pol: "link_policy L" and wf: "wf_links L'" and "settings L' = settings L"
    and sub: "set (links L') \<subseteq> set (links L)" and acc: "\<And>i. i \<in> tx_ids L' \<Longrightarrow> account_of L' i = account_of L i"
  shows "link_policy L'"
proof (rule link_policy_mono[OF pol assms(3)])
  fix l assume l: "l \<in> set (links L')"
  then have "fst l \<in> tx_ids L'" "snd l \<in> tx_ids L'" using wf by (auto simp: wf_links_def)
  then show "l \<in> set (links L) \<and> link_row L' l = link_row L l"
    using l sub acc by (auto simp: link_row_account_of)
qed

lemma in_account_account_of: "wf_txs L \<Longrightarrow> in_account L a i \<longleftrightarrow> account_of L i = Some a"
proof (cases "find_tx L i")
  case None
  then show ?thesis using find_tx_None[of L i] by (auto simp: in_account_def account_of_def tx_ids_def)
qed (simp add: in_account_iff account_of_def)

lemma tx_ids_account_of: "i \<in> tx_ids L \<longleftrightarrow> account_of L i \<noteq> None"
  by (auto simp: account_of_def find_tx_ex)

text \<open>Statements that keep every account assignment of the surviving rows and add no blobs.\<close>

lemma quota_ok_accounts:
  assumes "quota_ok L" and "wf_txs L" "wf_txs L'" and "blobs L' \<subseteq># blobs L" and "set (images L') \<subseteq> set (images L)"
    and acc: "\<And>i. i \<in> tx_ids L' \<Longrightarrow> account_of L' i = account_of L i"
  shows "quota_ok L'"
proof (rule quota_ok_shrink[OF assms(1,4,5)])
  show "tx_ids L' \<subseteq> tx_ids L" using acc by (auto simp: tx_ids_account_of)
  show "in_account L b i" if "in_account L' b i" for b i
    using that acc[of i] assms(2,3) by (auto simp: in_account_account_of tx_ids_account_of)
qed

lemma account_of_map_of: "account_of L i = map_of (map (\<lambda>r. (tx_id r, tx_account r)) (txs L)) i"
proof -
  have "map_option tx_account (List.find (\<lambda>r. tx_id r = i) rs) = map_of (map (\<lambda>r. (tx_id r, tx_account r)) rs) i" for rs
    by (induction rs) auto
  then show ?thesis by (simp add: account_of_def find_tx_def)
qed

lemma recalc_frame:
  assumes wf: "ledger_wf L" and run: "recalculateBalanceIn a L = Inr L'"
  shows "images L' = images L" "image_archive L' = image_archive L" "links L' = links L"
    "settings L' = settings L" "archive_amounts L' = archive_amounts L"
    and "account_of L' = account_of L" and "tx_ids L' = tx_ids L"
proof -
  have L': "L' = exact_account a L" using run wf by (simp add: recalculateBalanceIn_Inr ledger_wf_def)
  show "images L' = images L" "image_archive L' = image_archive L" "links L' = links L"
    "settings L' = settings L" "archive_amounts L' = archive_amounts L"
    by (simp_all add: L' exact_account_def)
  have "map (\<lambda>r. (tx_id r, tx_account r)) (txs L') = map (\<lambda>r. (tx_id r, tx_account r)) (txs L)"
    unfolding L' exact_account_def by (simp add: table_simps with_balance_def)
  then show "account_of L' = account_of L" by (simp add: account_of_map_of fun_eq_iff)
  then show "tx_ids L' = tx_ids L" by (auto simp: tx_ids_account_of)
qed

lemma recalc_quota:
  assumes "ledger_wf L" and "recalculateBalanceIn a L = Inr L'" and "quota_ok L"
  shows "quota_ok L'"
proof -
  note f = recalc_frame[OF assms(1,2)]
  have "wf_txs L'" "wf_txs L"
    using recalculateBalanceIn_wf[OF assms(1,2)] assms(1) by (simp_all add: ledger_wf_def)
  then show ?thesis
    using assms(3) f by (intro quota_ok_accounts[of L L']) (simp_all add: blobs_def)
qed

lemma recalc_policy:
  assumes "ledger_wf L" and "recalculateBalanceIn a L = Inr L'" and "link_policy L"
  shows "link_policy L'"
proof (rule link_policy_accounts[OF assms(3)])
  show "wf_links L'" using recalculateBalanceIn_wf[OF assms(1,2)] by (simp add: ledger_wf_def)
qed (simp_all add: recalc_frame[OF assms(1,2)])

lemma insert_tx_quota:
  assumes wf: "ledger_wf L" and q: "quota_ok L" and run: "insert_tx acc d item ty am memo L = Inr (L', i)"
  shows "quota_ok L'"
proof -
  note w = insert_tx_wf[OF wf run]
  have L': "txs L' = txs L @ [\<lparr>tx_id = i, tx_account = acc, tx_date = d, tx_item = item,
      tx_type = ty, tx_amount = am, tx_balance = 0, tx_memo = memo\<rparr>]"
    "images L' = images L" "image_archive L' = image_archive L"
    using run by (auto simp: insert_tx_def Let_def split: if_splits)
  have free: "img_tx r \<noteq> i" if "r \<in># blobs L" for r
    using that wf w(3) by (auto simp: blobs_def ledger_wf_def wf_images_def)
  have b: "blobs L' = blobs L" by (simp add: blobs_def L')
  have "in_account L' a j \<longleftrightarrow> in_account L a j \<or> (j = i \<and> a = acc)" for a j
    by (auto simp: in_account_def L')
  then have "filter_mset (\<lambda>r. in_account L' a (img_tx r)) (blobs L) =
      filter_mset (\<lambda>r. in_account L a (img_tx r)) (blobs L)" for a
    using free by (intro filter_mset_cong) auto
  then have acc: "account_image_bytes a L' = account_image_bytes a L" for a
    by (simp add: account_image_bytes_def blob_bytes_mset b)
  have "filter_mset (\<lambda>r. img_tx r = i) (blobs L) = filter_mset (\<lambda>_. False) (blobs L)"
    using free by (intro filter_mset_cong) auto
  then have zero: "tx_image_count i L' = 0" "tx_image_bytes i L' = 0"
    by (auto simp: tx_image_count_mset tx_image_bytes_def blob_bytes_mset b)
  have same: "tx_image_count j L' = tx_image_count j L" "tx_image_bytes j L' = tx_image_bytes j L"
    "db_image_bytes L' = db_image_bytes L" for j
    by (simp_all add: tx_image_count_mset tx_image_bytes_def db_image_bytes_def blob_bytes_mset b)
  have "account_image_bytes acc L \<le> MaxImageBytesPerAccount" using q by (rule quota_ok_account)
  then show ?thesis
    using q zero unfolding quota_ok_def acc w(4) same(3) L'(2) by (auto simp: L'(1) same(1,2))
qed

lemma insert_tx_policy:
  assumes wf: "ledger_wf L" and pol: "link_policy L" and run: "insert_tx acc d item ty am memo L = Inr (L', i)"
  shows "link_policy L'"
proof (rule link_policy_mono[OF pol])
  note w = insert_tx_wf[OF wf run]
  have L': "txs L' = txs L @ [\<lparr>tx_id = i, tx_account = acc, tx_date = d, tx_item = item,
      tx_type = ty, tx_amount = am, tx_balance = 0, tx_memo = memo\<rparr>]" "links L' = links L"
    using run by (auto simp: insert_tx_def Let_def split: if_splits)
  show "settings L' = settings L" using run by (auto simp: insert_tx_def Let_def split: if_splits)
  fix l assume l: "l \<in> set (links L')"
  have "account_of L' j = account_of L j" if "j \<noteq> i" for j
    using that by (simp add: account_of_map_of L' map_add_def split: option.split)
  moreover have "fst l \<noteq> i" "snd l \<noteq> i"
    using l w(3) wf by (auto simp: L' ledger_wf_def wf_links_def)
  ultimately show "l \<in> set (links L) \<and> link_row L' l = link_row L l"
    using l by (simp add: L'(2) link_row_account_of)
qed

lemma insert_images_ok:
  assumes wf: "ledger_wf L" and run: "insertPreparedTransactionImages i ps L = Inr L'"
  shows "ledger_wf L' \<and> image_only L L'"
proof (cases "ps = []")
  case True
  then show ?thesis using assms by (simp add: insertPreparedTransactionImages_def image_only_iff)
next
  case False
  then have f: "foldE (\<lambda>p L. bindE (mapErr (\<lambda>_. ErrImageStore) (insertPreparedTransactionImage i p L)) (\<lambda>(L', _). Inr L')) ps L = Inr L'"
    using run by (auto simp: insertPreparedTransactionImages_def res_simps)
  show ?thesis
  proof (rule foldE_invariant[OF f])
    show "ledger_wf L \<and> image_only L L" using wf by (simp add: image_only_iff)
    fix p M M'
    assume M: "ledger_wf M \<and> image_only L M"
      and "bindE (mapErr (\<lambda>_. ErrImageStore) (insertPreparedTransactionImage i p M)) (\<lambda>(L', _). Inr L') = Inr M'"
    then obtain k where "insertPreparedTransactionImage i p M = Inr (M', k)" by (auto simp: res_simps)
    then show "ledger_wf M' \<and> image_only L M'"
      using M insertPreparedTransactionImage_ok image_only_trans by blast
  qed
qed

lemma insert_images_quota:
  assumes wf: "ledger_wf L" and run: "insertPreparedTransactionImages i ps L = Inr L'"
    and t: "find_tx L i = Some t" and q: "quota_except (tx_account t) L" and ne: "ps \<noteq> []"
  shows "quota_ok L'"
proof -
  let ?f = "\<lambda>p L. bindE (mapErr (\<lambda>_. ErrImageStore) (insertPreparedTransactionImage i p L)) (\<lambda>(L', _). Inr L')"
  obtain p rest where ps: "ps = p # rest" using ne by (cases ps) auto
  then obtain L1 k where first: "insertPreparedTransactionImage i p L = Inr (L1, k)"
    and rest: "foldE ?f rest L1 = Inr L'"
    using run by (auto simp: insertPreparedTransactionImages_def res_simps)
  let ?P = "\<lambda>L. wf_txs L \<and> find_tx L i = Some t \<and> quota_ok L"
  have step: "?P M'" if m: "wf_txs M" "find_tx M i = Some t" "quota_except (tx_account t) M"
    and r: "insertPreparedTransactionImage i q M = Inr (M', k)" for M M' q k
  proof -
    have "txs M' = txs M" "tx_seq M' = tx_seq M"
      using r by (auto simp: insertPreparedTransactionImage_def Let_def split: option.splits if_splits)
    then show ?thesis
      using m insertPreparedTransactionImage_quota[OF m(1) r m(2,3)] by (simp add: wf_txs_def find_tx_def)
  qed
  have "?P L1" using step[OF _ t q first] wf by (simp add: ledger_wf_def)
  with rest have "?P L'"
    by (rule foldE_invariant) (use step quota_ok_iff[of _ "tx_account t"] in \<open>auto simp: res_simps\<close>)
  then show ?thesis by blast
qed

section \<open>Adding and deleting keep the invariant\<close>

lemma addPreparedTransactionIn_ok:
  assumes ok: "ledger_ok L" and run: "addPreparedTransactionIn prep L = Inr (L', r)"
  shows "ledger_ok L'"
proof -
  obtain req date imgs where prep: "prep = (req, date, imgs)" by (cases prep)
  obtain L1 ids L2 i L3 L4 where
    r1: "resolveTransactionTagIDsIn (rq_tags req) (rq_new_tag_paths req) L = Inr (L1, ids)" and
    r2: "insert_tx (rq_account req) date (rq_item req) (rq_type req) (rq_amount req) (rq_memo req) L1 = Inr (L2, i)" and
    r3: "insertPreparedTransactionImages i imgs L2 = Inr L3" and
    r4: "insert_tx_tags i ids L3 = Inr L4" and r5: "recalculateBalanceIn (rq_account req) L4 = Inr L'"
    using run by (auto simp: addPreparedTransactionIn_def prep res_simps)
  note d = ledger_okD[OF ok]
  note s1 = resolveTransactionTagIDsIn_ok[OF d(1) r1]
  have ok1: "ledger_ok L1" using s1 tag_only_ok[OF ok] by blast
  note d1 = ledger_okD[OF ok1]
  note w2 = insert_tx_wf(1)[OF d1(1) r2]
  note q2 = insert_tx_quota[OF d1(1) d1(4) r2] and p2 = insert_tx_policy[OF d1(1) d1(5) r2]
  have b2: "balanced_except {rq_account req} L2"
    using balanced_except_insert[OF _ r2, of "{}"] d1(3) by (simp add: balanced_except_empty)
  note s3 = insert_images_ok[OF w2 r3]
  have q3: "quota_ok L3"
  proof (cases "imgs = []")
    case True
    then show ?thesis using r3 q2 by (simp add: insertPreparedTransactionImages_def)
  next
    case False
    obtain t where "find_tx L2 i = Some t"
      using insert_tx_wf(4)[OF d1(1) r2] find_tx_ex[of i L2] by auto
    then show ?thesis using insert_images_quota[OF w2 r3 _ _ False] q2 quota_ok_iff[of L2] by blast
  qed
  note s4 = insert_tx_tags_ok[OF conjunct1[OF s3] r4]
  have eq: "txs L4 = txs L2" "archive_amounts L4 = archive_amounts L2" "links L4 = links L2" "settings L4 = settings L2"
    "images L4 = images L3" "image_archive L4 = image_archive L3" "txs L4 = txs L3"
    using s3 s4 by (simp_all add: image_only_iff tag_only_iff)
  have w4: "ledger_wf L4" using s4 by blast
  have b4: "balanced_except {rq_account req} L4" by (rule balanced_except_same[OF eq(1,2) b2])
  have q4: "quota_ok L4" using q3 quota_ok_cong[OF eq(7,5,6)] by blast
  have p4: "link_policy L4" by (rule link_policy_same[OF eq(1,3,4) p2])
  have "ledger_balanced L'"
    using balanced_except_recalc[OF _ r5 b4] w4 by (simp add: balanced_except_empty ledger_wf_def)
  then show ?thesis
    using recalculateBalanceIn_wf[OF w4 r5] recalc_quota[OF w4 r5 q4] recalc_policy[OF w4 r5 p4]
    by (simp add: ledger_ok_def)
qed

lemma delete_tx_accounts:
  "j \<noteq> i \<Longrightarrow> account_of (delete_tx i L) j = account_of L j"
proof -
  assume "j \<noteq> i"
  then have "map_of (map (\<lambda>r. (tx_id r, tx_account r)) (filter (\<lambda>r. tx_id r \<noteq> i) rs)) j =
      map_of (map (\<lambda>r. (tx_id r, tx_account r)) rs) j" for rs
    by (induction rs) auto
  then show ?thesis by (simp add: account_of_map_of delete_tx_def del_where_def)
qed

lemma deleteTransactionTx_ok:
  assumes ok: "ledger_ok L" and run: "deleteTransactionTx i L = Inr (L', u)"
  shows "ledger_ok L'"
proof -
  obtain t where t: "find_tx L i = Some t" and r: "recalculateBalanceIn (tx_account t) (delete_tx i L) = Inr L'"
    using run by (auto simp: deleteTransactionTx_def res_simps)
  let ?L = "delete_tx i L"
  note d = ledger_okD[OF ok]
  note w = delete_tx_wf[OF d(1), of i]
  have acc: "account_of ?L j = account_of L j" if "j \<in> tx_ids ?L" for j
    using that by (intro delete_tx_accounts) auto
  have b: "blobs ?L \<subseteq># blobs L"
    by (auto simp: blobs_def delete_tx_def del_where_def intro!: subset_mset.add_mono)
  have im: "set (images ?L) \<subseteq> set (images L)" by (auto simp: delete_tx_def table_simps)
  have wp: "wf_txs ?L" "wf_links ?L" using w by (simp_all add: ledger_wf_def)
  have q: "quota_ok ?L" by (rule quota_ok_accounts[OF d(4) d(2) wp(1) b im acc])
  have "settings ?L = settings L" "set (links ?L) \<subseteq> set (links L)"
    by (auto simp: delete_tx_def table_simps)
  then have p: "link_policy ?L" using acc by (rule link_policy_accounts[OF d(5) wp(2)])
  have "balanced_except {tx_account t} ?L"
    using balanced_except_delete[OF d(2) t, of "{}"] d(3) by (simp add: balanced_except_empty)
  then have "ledger_balanced L'"
    using balanced_except_recalc[OF _ r, of "{}"] w by (simp add: balanced_except_empty ledger_wf_def)
  then show ?thesis
    using recalculateBalanceIn_wf[OF w r] recalc_quota[OF w r q] recalc_policy[OF w r p]
    by (simp add: ledger_ok_def)
qed

section \<open>Updating keeps the invariant\<close>

lemma update_tx_accounts:
  assumes "find_tx L i = Some t" and "update_tx i acc d item ty am memo L = Inr L'"
  shows "account_of (delete_archive_amount i L') j = (if j = i then Some acc else account_of L j)"
    and "tx_ids (delete_archive_amount i L') = tx_ids L"
proof -
  let ?f = "\<lambda>r. r\<lparr>tx_account := acc, tx_date := d, tx_item := item, tx_type := ty, tx_amount := am, tx_memo := memo\<rparr>"
  have txs: "txs (delete_archive_amount i L') = upd_where (\<lambda>r. tx_id r = i) ?f (txs L)"
    using assms(2) by (auto simp: update_tx_def delete_archive_amount_def split: if_splits)
  have eq: "map_of (map (\<lambda>r. (tx_id r, tx_account r)) (upd_where (\<lambda>r. tx_id r = i) ?f rs)) j =
      (if j = i \<and> i \<in> tx_id ` set rs then Some acc else map_of (map (\<lambda>r. (tx_id r, tx_account r)) rs) j)" for rs
    by (induction rs) (auto simp: table_simps)
  have "i \<in> tx_id ` set (txs L)" using assms(1) find_tx_Some by blast
  then show "account_of (delete_archive_amount i L') j = (if j = i then Some acc else account_of L j)"
    unfolding account_of_map_of txs eq by simp
  show "tx_ids (delete_archive_amount i L') = tx_ids L"
    by (simp add: tx_ids_def txs keys_upd_where)
qed

text \<open>The quota after moving transaction \<open>i\<close> from \<open>old\<close> to \<open>new\<close> and removing some of its images.\<close>

lemma moved_quota:
  assumes q: "quota_ok L" and wf: "wf_txs L" "wf_txs M"
    and acc: "\<And>j. account_of M j = (if j = i then Some new else account_of L j)"
    and old: "account_of L i = Some old"
    and blobs: "blobs M \<subseteq># blobs L" and imgs: "set (images M) \<subseteq> set (images L)"
  shows "quota_except new M"
    and "old = new \<Longrightarrow> quota_ok M"
    and "checkImageAccountMoveQuota i old new M = Inr () \<Longrightarrow> quota_ok M"
proof -
  have ia: "in_account M a j \<longleftrightarrow> (if j = i then a = new else in_account L a j)" for a j
    using acc[of j] wf by (auto simp: in_account_account_of)
  have iold: "in_account L a i \<longleftrightarrow> a = old" for a using old wf by (auto simp: in_account_account_of)
  have ids: "tx_ids M = tx_ids L" using acc old by (auto simp: tx_ids_account_of split: if_splits)
  have ex: "quota_except new L" using q by (simp add: quota_ok_iff[of L new])
  show exM: "quota_except new M"
    by (rule quota_except_shrink[OF ex blobs imgs]) (use ids ia in \<open>auto split: if_splits\<close>)
  show "quota_ok M" if "old = new"
    by (rule quota_ok_shrink[OF q blobs imgs]) (use ids ia iold that in \<open>auto split: if_splits\<close>)
  assume move: "checkImageAccountMoveQuota i old new M = Inr ()"
  show "quota_ok M"
  proof (cases "old = new")
    case False
    let ?n = "tx_image_bytes i M"
    have split: "blob_bytes p M + blob_bytes p' M = blob_bytes (\<lambda>r. p r \<or> p' r) M"
      if "\<And>r. \<not> (p r \<and> p' r)" for p p'
    proof -
      have "sum_list (map f (filter p xs)) + sum_list (map f (filter p' xs)) =
          sum_list (map f (filter (\<lambda>r. p r \<or> p' r) xs))" for f :: "image_row \<Rightarrow> nat" and xs
        using that by (induction xs) auto
      then show ?thesis unfolding blob_bytes_def .
    qed
    have "account_image_bytes old M + ?n = blob_bytes (\<lambda>r. in_account M old (img_tx r) \<or> img_tx r = i) M"
      unfolding account_image_bytes_def tx_image_bytes_def by (rule split) (use ia False in auto)
    also have "\<dots> \<le> account_image_bytes old L"
      unfolding account_image_bytes_def by (rule blob_bytes_mono[OF blobs]) (use ia iold in \<open>auto split: if_splits\<close>)
    finally have o: "account_image_bytes old M + ?n \<le> MaxImageBytesPerAccount"
      using quota_ok_account[OF q, of old] by linarith
    have "account_image_bytes new M =
        blob_bytes (\<lambda>r. (in_account M new (img_tx r) \<and> img_tx r \<noteq> i) \<or> img_tx r = i) M"
      unfolding account_image_bytes_def blob_bytes_def using ia
      by (intro arg_cong[where f = sum_list] map_cong filter_cong) auto
    also have "\<dots> = blob_bytes (\<lambda>r. in_account M new (img_tx r) \<and> img_tx r \<noteq> i) M + ?n"
      unfolding tx_image_bytes_def by (rule split[symmetric]) auto
    finally have eqn: "account_image_bytes new M =
      blob_bytes (\<lambda>r. in_account M new (img_tx r) \<and> img_tx r \<noteq> i) M + ?n" .
    have "blob_bytes (\<lambda>r. in_account M new (img_tx r) \<and> img_tx r \<noteq> i) M \<le> account_image_bytes new L"
      unfolding account_image_bytes_def by (rule blob_bytes_mono[OF blobs]) (use ia in \<open>auto split: if_splits\<close>)
    then have n: "account_image_bytes new M - ?n \<le> MaxImageBytesPerAccount" "?n \<le> account_image_bytes new M"
      using quota_ok_account[OF q, of new] eqn by linarith+
    have "account_image_bytes new M \<le> MaxImageBytesPerAccount"
    proof -
      have "overage (int (account_image_bytes old M) + int ?n) = 0" using o by (simp add: overage_def)
      moreover have "overage (int (account_image_bytes new M) - int ?n) = 0" using n by (simp add: overage_def)
      moreover have "0 \<le> overage (int (account_image_bytes old M))" by (simp add: overage_def)
      ultimately have "overage (int (account_image_bytes new M)) \<le> 0"
        using move False by (auto simp: checkImageAccountMoveQuota_def Let_def split: if_splits)
      then show ?thesis by (auto simp: overage_def split: if_splits)
    qed
    then show ?thesis using exM by (simp add: quota_ok_iff[of M new])
  qed (use \<open>old = new \<Longrightarrow> quota_ok M\<close> in blast)
qed

lemma updated_rows:
  assumes ok: "ledger_ok L" and old: "find_tx L i = Some old"
    and r2: "update_tx i new date item ty am memo L = Inr L2"
    and r3: "deleteTransactionImagesIn i dels (delete_archive_amount i L2) = Inr L3"
    and r4: "insertPreparedTransactionImages i imgs L3 = Inr L4"
    and mv: "(if tx_account old \<noteq> new \<and> imgs = []
      then checkImageAccountMoveQuota i (tx_account old) new L4 else Inr ()) = Inr ()"
  shows "ledger_wf L4 \<and> quota_ok L4 \<and> balanced_except {new, tx_account old} L4 \<and> links L4 = links L \<and>
    settings L4 = settings L \<and> (\<forall>j. account_of L4 j = (if j = i then Some new else account_of L j))"
proof -
  let ?M = "delete_archive_amount i L2"
  note d = ledger_okD[OF ok]
  have w2: "ledger_wf ?M" by (rule delete_archive_amount_wf[OF update_tx_wf[OF d(1) r2]])
  have keep: "images ?M = images L" "image_archive ?M = image_archive L" "links ?M = links L" "settings ?M = settings L"
    using r2 by (auto simp: update_tx_def delete_archive_amount_def split: if_splits)
  have b2: "balanced_except {new, tx_account old} ?M"
    using balanced_except_update[OF d(2) old _ r2, of "{}"] d(3) by (simp add: balanced_except_empty)
  note s3 = deleteTransactionImagesIn_ok[OF r3 w2]
  have w3: "ledger_wf L3" using s3 by blast
  note s4 = insert_images_ok[OF w3 r4]
  have rows: "txs L3 = txs ?M" "txs L4 = txs ?M" "archive_amounts L4 = archive_amounts ?M" "links L4 = links ?M"
    "settings L4 = settings ?M"
    using s3 s4 by (simp_all add: image_only_iff)
  have acc3: "account_of L3 j = (if j = i then Some new else account_of L j)" for j
    using update_tx_accounts(1)[OF old r2, of j] by (simp add: account_of_def find_tx_def rows)
  have acc4: "account_of L4 j = account_of L3 j" for j by (simp add: account_of_def find_tx_def rows)
  have oldacc: "account_of L i = Some (tx_account old)" using old by (simp add: account_of_def)
  have wt: "wf_txs L3" using w3 by (simp add: ledger_wf_def)
  have sub: "blobs L3 \<subseteq># blobs L" "set (images L3) \<subseteq> set (images L)"
    using s3 keep by (simp_all add: blobs_def)
  note mq = moved_quota[OF d(4) d(2) wt acc3 oldacc sub]
  have q4: "quota_ok L4"
  proof (cases "imgs = []")
    case True
    then have "L4 = L3" using r4 by (simp add: insertPreparedTransactionImages_def)
    then show ?thesis using mq(2,3) mv True by (cases "tx_account old = new") auto
  next
    case False
    obtain t where t: "find_tx L3 i = Some t" "tx_account t = new"
      using acc3[of i] by (auto simp: account_of_def)
    then show ?thesis using insert_images_quota[OF w3 r4 t(1) _ False] mq(1) by simp
  qed
  have "balanced_except {new, tx_account old} L4" by (rule balanced_except_same[OF rows(2,3) b2])
  then show ?thesis using s4 q4 acc3 acc4 rows(4,5) keep(3,4) by simp
qed

lemma relinked:
  assumes w: "ledger_wf L" and b: "ledger_balanced L" and q: "quota_ok L"
    and r8: "applyTransactionLinkChangesIn i adds rems L = Inr L8"
    and pol: "link_policy L \<or> validateCardBankAssignmentChanges before (pruneInvalidTransactionLinksIn L8) = Inr () \<and>
      (\<forall>x\<in>set before. \<forall>y\<in>set before. fst x = fst y \<longrightarrow> snd x = snd y)"
  shows "ledger_ok (pruneInvalidTransactionLinksIn L8)"
proof -
  let ?L = "pruneInvalidTransactionLinksIn L8"
  have "wf_links L" using w by (simp add: ledger_wf_def)
  note s8 = applyTransactionLinkChangesIn_ok[OF r8 this]
  have o: "link_only L ?L" using s8 prune_links(2)[of L8] link_only_trans by blast
  have "wf_links ?L" using s8 prune_wf by blast
  then have "ledger_wf ?L" by (rule link_only_wf[OF o w])
  moreover have t: "txs ?L = txs L" "archive_amounts ?L = archive_amounts L" "images ?L = images L"
    "image_archive ?L = image_archive L"
    using o by (simp_all add: link_only_iff)
  have "ledger_balanced ?L" "quota_ok ?L"
    using b q ledger_balanced_cong[OF t(1,2)] quota_ok_cong[OF t(1,3,4)] by blast+
  moreover have "link_policy ?L"
    using pol
  proof
    assume "link_policy L"
    then show ?thesis using s8 prune_policy by blast
  next
    assume "validateCardBankAssignmentChanges before ?L = Inr () \<and>
      (\<forall>x\<in>set before. \<forall>y\<in>set before. fst x = fst y \<longrightarrow> snd x = snd y)"
    then have "single_bank ?L" using validated_single_bank by blast
    then show ?thesis unfolding link_policy_def using prune_links_ok by blast
  qed
  ultimately show ?thesis using \<open>ledger_balanced ?L\<close> \<open>quota_ok ?L\<close> by (simp add: ledger_ok_def)
qed

lemma retagged:
  assumes w: "ledger_wf L" and q: "quota_ok L" and b: "balanced_except A L"
    and run: "insert_tx_tags i ids (L\<lparr>tx_tags := del_where p (tx_tags L)\<rparr>) = Inr L'"
  shows "ledger_wf L' \<and> quota_ok L' \<and> balanced_except A L' \<and> links L' = links L \<and> settings L' = settings L \<and>
    account_of L' = account_of L"
proof -
  note s = insert_tx_tags_ok[OF remove_tx_tag_wf[OF w] run]
  have eq: "txs L' = txs L" "archive_amounts L' = archive_amounts L" "links L' = links L" "settings L' = settings L"
    "images L' = images L" "image_archive L' = image_archive L"
    using s by (simp_all add: tag_only_iff)
  then show ?thesis
    using s q quota_ok_cong[OF eq(1,5,6)] balanced_except_same[OF eq(1,2) b]
    by (simp add: account_of_def find_tx_def fun_eq_iff)
qed

lemma rebalanced:
  assumes "ledger_wf L" and "quota_ok L" and "balanced_except {new, old} L"
    and r6: "recalculateBalanceIn new L = Inr L6"
    and r7: "(if old \<noteq> new then recalculateBalanceIn old L6 else Inr L6) = Inr L7"
  shows "ledger_wf L7 \<and> quota_ok L7 \<and> ledger_balanced L7 \<and> links L7 = links L \<and> settings L7 = settings L \<and>
    account_of L7 = account_of L"
proof -
  have wt: "wf_txs L" using assms(1) by (simp add: ledger_wf_def)
  note w6 = recalculateBalanceIn_wf[OF assms(1) r6] and q6 = recalc_quota[OF assms(1) r6 assms(2)]
  note f6 = recalc_frame[OF assms(1) r6]
  show ?thesis
  proof (cases "old = new")
    case True
    then have "balanced_except {} L6"
      using balanced_except_recalc[OF wt r6, of "{}"] assms(3) by simp
    then show ?thesis using True r7 w6 q6 f6 by (simp add: balanced_except_empty)
  next
    case False
    then have r7': "recalculateBalanceIn old L6 = Inr L7" using r7 by simp
    have "balanced_except {old} L6" using balanced_except_recalc[OF wt r6, of "{old}"] assms(3) by simp
    then have "balanced_except {} L7"
      using balanced_except_recalc[OF _ r7', of "{}"] w6 by (simp add: ledger_wf_def)
    then show ?thesis
      using recalculateBalanceIn_wf[OF w6 r7'] recalc_quota[OF w6 r7' q6] recalc_frame[OF w6 r7'] f6
      by (simp add: balanced_except_empty)
  qed
qed

lemma updatePreparedTransactionIn_ok:
  assumes ok: "ledger_ok L" and run: "updatePreparedTransactionIn i req date imgs L = Inr (L', r)"
  shows "ledger_ok L'"
proof -
  let ?new = "rq_account req"
  obtain L1 ids old L2 L3 L4 L5 L6 L7 L8 where
    r1: "resolveTransactionTagIDsIn (rq_tags req) (rq_new_tag_paths req) L = Inr (L1, ids)" and
    old: "find_tx L1 i = Some old" and
    r2: "update_tx i ?new date (rq_item req) (rq_type req) (rq_amount req) (rq_memo req) L1 = Inr L2" and
    r3: "deleteTransactionImagesIn i (rq_delete_image_ids req) (delete_archive_amount i L2) = Inr L3" and
    r4: "insertPreparedTransactionImages i imgs L3 = Inr L4" and
    mv: "(if tx_account old \<noteq> ?new \<and> imgs = []
      then checkImageAccountMoveQuota i (tx_account old) ?new L4 else Inr ()) = Inr ()" and
    r5: "insert_tx_tags i ids (L4\<lparr>tx_tags := del_where (\<lambda>(t, _). t = i) (tx_tags L4)\<rparr>) = Inr L5" and
    r6: "recalculateBalanceIn ?new L5 = Inr L6" and
    r7: "(if tx_account old \<noteq> ?new then recalculateBalanceIn (tx_account old) L6 else Inr L6) = Inr L7" and
    r8: "applyTransactionLinkChangesIn i (rq_link_add_ids req) (rq_link_remove_ids req) L7 = Inr L8" and
    L': "L' = pruneInvalidTransactionLinksIn L8" and
    va: "(if tx_account old \<noteq> ?new then validateCardBankAssignmentChanges (readCardBankAssignments 0 L1)
      (pruneInvalidTransactionLinksIn L8) else Inr ()) = Inr ()"
    using run unfolding updatePreparedTransactionIn_def bindE_eq_Inr Let_def case_prod_beta ofOption_eq_Inr
  proof (elim exE conjE, goal_cases)
    case (1 x xa xb xc xd xe xf xg xh xi xj xk)
    show ?case
      by (rule 1(1)[of "fst x" "snd x" xa xb xc xd xf xg xh xj]) (use 1(2-) in simp_all)
  qed
  have ok1: "ledger_ok L1"
    using resolveTransactionTagIDsIn_ok[OF ledger_okD(1)[OF ok] r1] tag_only_ok[OF ok] by blast
  note s4 = updated_rows[OF ok1 old r2 r3 r4 mv]
  have s5: "ledger_wf L5" "quota_ok L5" "balanced_except {?new, tx_account old} L5" "links L5 = links L4"
    "settings L5 = settings L4" "account_of L5 = account_of L4"
    using retagged[OF _ _ _ r5] s4 by blast+
  note s7 = rebalanced[OF s5(1-3) r6 r7]
  have pol: "link_policy L7 \<or> validateCardBankAssignmentChanges (readCardBankAssignments 0 L1)
      (pruneInvalidTransactionLinksIn L8) = Inr () \<and> single_bank L1"
  proof (cases "tx_account old = ?new")
    case True
    have "account_of L7 j = account_of L1 j" for j
      using s4 s5(6) s7 True old by (simp add: account_of_def)
    then have "link_policy L7"
      using s4 s5 s7 by (intro link_policy_accounts[OF ledger_okD(5)[OF ok1]]) (simp_all add: ledger_wf_def)
    then show ?thesis ..
  next
    case False
    then show ?thesis using va ledger_okD(5)[OF ok1] by (simp add: link_policy_def)
  qed
  show ?thesis
    unfolding L' using s7 pol by (intro relinked[OF _ _ _ r8]) (auto simp: single_bank_def)
qed

interpretation add_transaction: ledger_handler "AddTransaction codec req" ledger_ok
  by unfold_locales
    (auto simp: AddTransaction_def res_simps split: if_splits intro: addPreparedTransactionIn_ok)

interpretation update_transaction: ledger_handler "UpdateTransaction codec i req" ledger_ok
  by unfold_locales
    (auto simp: UpdateTransaction_def res_simps intro: updatePreparedTransactionIn_ok)

interpretation delete_transaction: ledger_handler "DeleteTransaction i" ledger_ok
  by unfold_locales (auto simp: DeleteTransaction_def res_simps intro: deleteTransactionTx_ok)

section \<open>Properties\<close>

lemma exact_account_rows:
  "map (\<lambda>q. with_balance q 0) (txs (exact_account a L)) = map (\<lambda>q. with_balance q 0) (txs L)"
  by (simp add: exact_account_def upd_where_def with_balance_def)

lemma exact_account_seq: "tx_seq (exact_account a L) = tx_seq L"
  by (simp add: exact_account_def)

lemma find_tx_set: "find_tx L i = Some r \<Longrightarrow> r \<in> set (txs L) \<and> tx_id r = i"
  by (auto simp: find_tx_def dest!: find_SomeD)

text \<open>The rows after an add: the old ones and the inserted one, up to balances.\<close>

definition inserted_row :: "int \<Rightarrow> TransactionRequest \<Rightarrow> stamp \<Rightarrow> tx_row" where
  "inserted_row i req date = \<lparr>tx_id = i, tx_account = rq_account req, tx_date = date, tx_item = rq_item req,
     tx_type = rq_type req, tx_amount = rq_amount req, tx_balance = 0, tx_memo = rq_memo req\<rparr>"

lemma added_rows:
  assumes wf: "ledger_wf L" and run: "addPreparedTransactionIn (req, date, imgs) L = Inr (L', r)"
  shows "read_back (tx_seq L + 1) L' = Inr r" and "map_of (archive_amounts L') (tx_seq L + 1) = None"
    and "map (\<lambda>q. with_balance q 0) (txs L') =
      map (\<lambda>q. with_balance q 0) (txs L) @ [inserted_row (tx_seq L + 1) req date]"
    and "tx_seq L + 1 \<notin> tx_ids L"
proof -
  obtain L1 ids L2 i L3 L4 where
    r1: "resolveTransactionTagIDsIn (rq_tags req) (rq_new_tag_paths req) L = Inr (L1, ids)" and
    r2: "insert_tx (rq_account req) date (rq_item req) (rq_type req) (rq_amount req) (rq_memo req) L1 = Inr (L2, i)" and
    r3: "insertPreparedTransactionImages i imgs L2 = Inr L3" and
    r4: "insert_tx_tags i ids L3 = Inr L4" and r5: "recalculateBalanceIn (rq_account req) L4 = Inr L'" and
    r6: "read_back i L' = Inr r"
    using run by (auto simp: addPreparedTransactionIn_def res_simps)
  have s1: "ledger_wf L1" "txs L1 = txs L" "tx_seq L1 = tx_seq L"
    using resolveTransactionTagIDsIn_ok[OF wf r1] by (simp_all add: tag_only_iff)
  note w2 = insert_tx_wf[OF s1(1) r2]
  have t2: "txs L2 = txs L1 @ [inserted_row i req date]" "archive_amounts L2 = archive_amounts L1"
    using r2 by (auto simp: insert_tx_def inserted_row_def Let_def split: if_splits)
  have s3: "ledger_wf L3" "txs L3 = txs L2" "archive_amounts L3 = archive_amounts L2"
    using insert_images_ok[OF w2(1) r3] by (simp_all add: image_only_iff)
  have s4: "ledger_wf L4" "txs L4 = txs L2" "archive_amounts L4 = archive_amounts L2"
    using insert_tx_tags_ok[OF s3(1) r4] s3 by (simp_all add: tag_only_iff)
  have L': "L' = exact_account (rq_account req) L4"
    using r5 s4(1) by (simp add: recalculateBalanceIn_Inr ledger_wf_def)
  show "map (\<lambda>q. with_balance q 0) (txs L') =
      map (\<lambda>q. with_balance q 0) (txs L) @ [inserted_row (tx_seq L + 1) req date]"
    unfolding L' exact_account_rows by (simp add: s4(2) t2(1) s1(2)) (simp add: with_balance_def inserted_row_def w2(2) s1(3))
  show "map_of (archive_amounts L') (tx_seq L + 1) = None"
    using s1 w2(2,3) by (auto simp: L' exact_account_def s4(3) t2(2) map_of_eq_None_iff ledger_wf_def wf_archive_amounts_def)
  show "read_back (tx_seq L + 1) L' = Inr r" "tx_seq L + 1 \<notin> tx_ids L"
    using r6 w2(2,3) s1 by (simp_all add: tx_ids_def)
qed

lemma with_balance_id: "tx_id (with_balance q b) = tx_id q"
  by (simp add: with_balance_def)

lemma added_row:
  assumes wf: "ledger_wf L" and run: "addPreparedTransactionIn (req, date, imgs) L = Inr (L', r)"
  shows "r \<in> set (txs L') \<and> with_balance r 0 = inserted_row (tx_seq L + 1) req date"
proof -
  note a = added_rows[OF wf run]
  obtain q where q: "find_tx L' (tx_seq L + 1) = Some q" and r: "r = q\<lparr>tx_amount := eff_amount L' q\<rparr>"
    using a(1) by (auto simp: read_back_def res_simps)
  have qm: "q \<in> set (txs L')" "tx_id q = tx_seq L + 1" using find_tx_set[OF q] by simp_all
  have "with_balance q 0 \<in> set (map (\<lambda>q. with_balance q 0) (txs L'))" using qm(1) by simp
  then have "with_balance q 0 \<in> (\<lambda>q. with_balance q 0) ` set (txs L) \<or>
      with_balance q 0 = inserted_row (tx_seq L + 1) req date" unfolding a(3) by auto
  moreover have "with_balance q 0 \<notin> (\<lambda>q. with_balance q 0) ` set (txs L)"
    using a(4) qm(2) with_balance_id by (auto simp: tx_ids_def dest!: arg_cong[of _ _ tx_id])
  moreover have "r = q" using r a(2) qm(2) by (simp add: eff_amount_def)
  ultimately show ?thesis using qm(1) by blast
qed

text \<open>C26: a successful add stores exactly one new row, under the next id and with the requested fields, and
  returns it; every other row keeps everything but its balance; and the returned balance is the exact sum
  of the account up to that row.\<close>

theorem add_transaction_effect:
  assumes "ledger_ok (svc_ledger s)" and "AddTransaction codec req s = Inr (L', r)"
  shows "r \<in> set (txs L') \<and> tx_id r = tx_seq (svc_ledger s) + 1 \<and> tx_account r = rq_account req \<and>
    tx_item r = rq_item req \<and> tx_type r = rq_type req \<and> tx_amount r = rq_amount req \<and> tx_memo r = rq_memo req \<and>
    parseTransactionDate (rq_date req) (rq_time req) = Inr (tx_date r) \<and>
    map (\<lambda>q. with_balance q 0) (txs L') = map (\<lambda>q. with_balance q 0) (txs (svc_ledger s) @ [r]) \<and>
    sint (tx_balance r) = exact_balance L' r"
proof -
  obtain date imgs where date: "parseTransactionDate (rq_date req) (rq_time req) = Inr date"
    and run: "addPreparedTransactionIn (req, date, imgs) (svc_ledger s) = Inr (L', r)"
    using assms(2) by (auto simp: AddTransaction_def prepareTransactionInsert_def res_simps split: if_splits)
  note row = added_row[OF ledger_okD(1)[OF assms(1)] run] and rows = added_rows(3)[OF ledger_okD(1)[OF assms(1)] run]
  have "ledger_balanced L'" using addPreparedTransactionIn_ok[OF assms(1) run] by (simp add: ledger_ok_def)
  then have "sint (tx_balance r) = exact_balance L' r" using row by (simp add: ledger_balanced_def)
  moreover have "tx_id r = tx_seq (svc_ledger s) + 1 \<and> tx_account r = rq_account req \<and> tx_item r = rq_item req \<and>
      tx_type r = rq_type req \<and> tx_amount r = rq_amount req \<and> tx_memo r = rq_memo req \<and> tx_date r = date"
    using row by (cases r) (simp add: with_balance_def inserted_row_def)
  ultimately show ?thesis using row rows date by simp
qed

definition sample_codec :: image_codec where
  "sample_codec = \<lparr>DecodeConfig = (\<lambda>_. None), Decode = (\<lambda>_. None)\<rparr>"

definition sample_request :: TransactionRequest where
  "sample_request = \<lparr>rq_account = ''Bank'', rq_date = ''2024-02-01'', rq_time = ''9:30'', rq_item = ''rent'',
     rq_type = ''expense'', rq_amount = 300, rq_memo = [], rq_images = [], rq_delete_image_ids = [],
     rq_new_tag_paths = [''home/rent''], rq_link_add_ids = [], rq_link_remove_ids = [], rq_tags = []\<rparr>"

theorem add_transaction_effect_witness:
  "tx_id (snd (projr (AddTransaction sample_codec sample_request sample_service))) = 1 \<and>
   tx_amount (snd (projr (AddTransaction sample_codec sample_request sample_service))) = 300"
proof -
  let ?m = "AddTransaction sample_codec sample_request sample_service"
  have run: "?m = Inr (fst (projr ?m), snd (projr ?m))" by (rule okE_pair) code_simp
  have ok: "ledger_ok (svc_ledger sample_service)" by (simp add: sample_service_def ledger_ok_empty)
  have seq: "tx_seq (svc_ledger sample_service) = 0" "rq_amount sample_request = 300" by code_simp+
  show ?thesis using add_transaction_effect[OF ok run] by (simp add: seq)
qed

text \<open>C35: a successful delete removes the row and everything that refers to it: links, images, archived images, the archived
  amount and tag assignments; it keeps every other row of every table, with the balances exact again, and changes neither
  tags nor settings.\<close>

theorem delete_transaction_effect:
  assumes ok: "ledger_ok (svc_ledger s)" and run: "DeleteTransaction i s = Inr (L', u)"
  shows "i \<in> tx_ids (svc_ledger s) \<and> tx_ids L' = tx_ids (svc_ledger s) - {i} \<and>
    map (\<lambda>q. with_balance q 0) (txs L') =
      map (\<lambda>q. with_balance q 0) (filter (\<lambda>q. tx_id q \<noteq> i) (txs (svc_ledger s))) \<and>
    links L' = filter (\<lambda>(p, c). p \<noteq> i \<and> c \<noteq> i) (links (svc_ledger s)) \<and>
    images L' = filter (\<lambda>m. img_tx m \<noteq> i) (images (svc_ledger s)) \<and>
    tx_tags L' = filter (\<lambda>(t, _). t \<noteq> i) (tx_tags (svc_ledger s)) \<and>
    image_archive L' = filter (\<lambda>m. img_tx m \<noteq> i) (image_archive (svc_ledger s)) \<and>
    archive_amounts L' = filter (\<lambda>(t, _). t \<noteq> i) (archive_amounts (svc_ledger s)) \<and>
    tags L' = tags (svc_ledger s) \<and> settings L' = settings (svc_ledger s) \<and> ledger_balanced L'"
proof -
  let ?L = "svc_ledger s"
  obtain t where t: "find_tx ?L i = Some t" and r: "recalculateBalanceIn (tx_account t) (delete_tx i ?L) = Inr L'"
    and del: "deleteTransactionTx i ?L = Inr (L', u)"
    using run by (auto simp: DeleteTransaction_def deleteTransactionTx_def res_simps)
  have w: "ledger_wf (delete_tx i ?L)" using ledger_okD(1)[OF ok] by (rule delete_tx_wf)
  have L': "L' = exact_account (tx_account t) (delete_tx i ?L)"
    using r w by (simp add: recalculateBalanceIn_Inr ledger_wf_def)
  have "tx_ids L' = tx_ids (delete_tx i ?L)" by (rule recalc_frame(7)[OF w r])
  then have ids: "tx_ids L' = tx_ids ?L - {i}" by (auto simp: tx_ids_def delete_tx_def table_simps)
  have neg: "(\<lambda>x. \<not> (case x of (p, c) \<Rightarrow> p = i \<or> c = i)) = (\<lambda>(p, c). p \<noteq> i \<and> c \<noteq> i)"
    "(\<lambda>x :: int \<times> int. \<not> (case x of (t, _) \<Rightarrow> t = i)) = (\<lambda>(t, _). t \<noteq> i)"
    "(\<lambda>x :: int \<times> int64. \<not> (case x of (t, _) \<Rightarrow> t = i)) = (\<lambda>(t, _). t \<noteq> i)" by auto
  have "ledger_balanced L'" using deleteTransactionTx_ok[OF ok del] by (simp add: ledger_ok_def)
  moreover have "i \<in> tx_ids ?L" using find_tx_set[OF t] by (auto simp: tx_ids_def)
  moreover have "txs (delete_tx i ?L) = filter (\<lambda>q. tx_id q \<noteq> i) (txs ?L)"
    by (simp add: delete_tx_def del_where_def)
  moreover have "links L' = filter (\<lambda>(p, c). p \<noteq> i \<and> c \<noteq> i) (links ?L)"
    "images L' = filter (\<lambda>m. img_tx m \<noteq> i) (images ?L)" "tx_tags L' = filter (\<lambda>(t, _). t \<noteq> i) (tx_tags ?L)"
    "image_archive L' = filter (\<lambda>m. img_tx m \<noteq> i) (image_archive ?L)" "archive_amounts L' = filter (\<lambda>(t, _). t \<noteq> i) (archive_amounts ?L)"
    "tags L' = tags ?L" "settings L' = settings ?L"
    by (simp_all add: L' exact_account_def delete_tx_def del_where_def neg)
  ultimately show ?thesis using ids by (simp add: L' exact_account_rows)
qed

theorem delete_transaction_effect_witness:
  "tx_ids (fst (projr (DeleteTransaction 1 (snd (svc_write (AddTransaction sample_codec sample_request) sample_service))))) = {}"
proof -
  let ?s = "snd (svc_write (AddTransaction sample_codec sample_request) sample_service)"
  let ?m = "DeleteTransaction 1 ?s"
  have run: "?m = Inr (fst (projr ?m), snd (projr ?m))" by (rule okE_pair) code_simp
  have "ledger_ok (svc_ledger sample_service)" by (simp add: sample_service_def ledger_ok_empty)
  then have ok: "ledger_ok (svc_ledger ?s)"
    using add_transaction.write_keeps[of sample_codec sample_request sample_service] by (metis prod.collapse)
  have ids: "tx_ids (svc_ledger ?s) - {1} = {}" by code_simp
  show ?thesis using delete_transaction_effect[OF ok run] ids by simp
qed

text \<open>Dates of requests round-trip: every calendar day up to year 9999, printed, is parsed as midnight of
  that day, and every accepted date without a time is midnight of a calendar day.\<close>

theorem request_date_roundtrip:
  "(y \<le> 9999 \<and> valid_day y m d \<longrightarrow> parseTransactionDate (format_day (y, m, d)) [] = Inr (y, m, d, 0, 0, 0)) \<and>
   (parseTransactionDate s [] = Inr (y, m, d, h, mi, sec) \<longrightarrow>
      y \<le> 9999 \<and> valid_day y m d \<and> h = 0 \<and> mi = 0 \<and> sec = 0)"
  using ParseDate_format[of y m d] ParseDate_range[of s y m d]
  by (auto simp: parseTransactionDate_def res_simps)

theorem request_date_roundtrip_witness: "parseTransactionDate ''2024-02-29'' [] = Inr (2024, 2, 29, 0, 0, 0)"
proof -
  have "valid_day 2024 2 29" by code_simp
  then have "parseTransactionDate (format_day (2024, 2, 29)) [] = Inr (2024, 2, 29, 0, 0, 0)"
    using request_date_roundtrip[of 2024 2 29] by simp
  moreover have "format_day (2024, 2, 29) = ''2024-02-29''" by code_simp
  ultimately show ?thesis by simp
qed

end
