(* ===== verification/LedgerHistory.thy ===== *)
theory LedgerHistory
  imports Transactions
begin

text \<open>
  Histories of a ledger service: any sequence of the sixteen write handlers for transactions, images, links,
  card settings and tags, successful or not, from an empty ledger. The contract of each handler
  (\<open>ledger_handler\<close>) makes the ledger invariant hold in every reachable state. CSV import is a further way to write
  the ledger and not one of these steps: a restore may bring up to 1000 archived images per transaction, and
  appending keeps links that the settings no longer allow, so the quotas and the link policy are promises of
  the handlers only.
\<close>

inductive ledger_step :: "image_codec \<Rightarrow> service \<Rightarrow> service \<Rightarrow> bool" for codec where
  step_add: "svc_write (AddTransaction codec req) s = (r, s') \<Longrightarrow> ledger_step codec s s'"
| step_update: "svc_write (UpdateTransaction codec i req) s = (r, s') \<Longrightarrow> ledger_step codec s s'"
| step_delete: "svc_write (DeleteTransaction i) s = (r', s') \<Longrightarrow> ledger_step codec s s'"
| step_add_image: "svc_write (AddTransactionImage codec i img) s = (k, s') \<Longrightarrow> ledger_step codec s s'"
| step_delete_image: "svc_write (DeleteTransactionImage j) s = (r', s') \<Longrightarrow> ledger_step codec s s'"
| step_delete_tx_image:
    "svc_write (DeleteTransactionImageForTransaction i j) s = (r', s') \<Longrightarrow> ledger_step codec s s'"
| step_add_link: "svc_write (AddTransactionLink i j) s = (r', s') \<Longrightarrow> ledger_step codec s s'"
| step_remove_link: "svc_write (RemoveTransactionLink i j) s = (r', s') \<Longrightarrow> ledger_step codec s s'"
| step_save_cards: "svc_write (SaveCreditCardSettings items) s = (r', s') \<Longrightarrow> ledger_step codec s s'"
| step_save_banks: "svc_write (SaveBankAccountSettings items) s = (r', s') \<Longrightarrow> ledger_step codec s s'"
| step_create_tag: "svc_write (CreateTag name parent) s = (t, s') \<Longrightarrow> ledger_step codec s s'"
| step_update_tag: "svc_write (UpdateTag g name) s = (r', s') \<Longrightarrow> ledger_step codec s s'"
| step_delete_tag: "svc_write (DeleteTag g) s = (r', s') \<Longrightarrow> ledger_step codec s s'"
| step_tag_path: "svc_write (CreateTagByPath path) s = (p, s') \<Longrightarrow> ledger_step codec s s'"
| step_add_tags: "svc_write (AddTransactionTags i gs) s = (r', s') \<Longrightarrow> ledger_step codec s s'"
| step_remove_tag: "svc_write (RemoveTransactionTag i g) s = (r', s') \<Longrightarrow> ledger_step codec s s'"

inductive_cases ledger_stepE: "ledger_step codec s s'"

definition fresh_service :: "service \<Rightarrow> bool" where
  "fresh_service s \<longleftrightarrow> svc_ledger s = empty_ledger"

lemma ledger_step_ok:
  assumes "ledger_step codec s s'" and "ledger_ok (svc_ledger s)"
  shows "ledger_ok (svc_ledger s')"
  using assms(1)
  by (cases rule: ledger_step.cases)
    (use assms(2) in \<open>blast intro: add_transaction.write_keeps update_transaction.write_keeps
      delete_transaction.write_keeps add_image.write_keeps delete_image.write_keeps
      delete_tx_image.write_keeps add_link.write_keeps remove_link.write_keeps save_cards.write_keeps
      save_banks.write_keeps create_tag.write_keeps update_tag.write_keeps delete_tag.write_keeps
      tag_path.write_keeps add_tags.write_keeps remove_tag.write_keeps\<close>)+

interpretation history: step_machine fresh_service "ledger_step codec" "\<lambda>s. ledger_ok (svc_ledger s)"
  by unfold_locales (simp_all add: fresh_service_def ledger_ok_empty ledger_step_ok)

section \<open>Properties\<close>

text \<open>C1: every sequence of calls of the sixteen write handlers of the service, successful or not, from an empty ledger
  keeps the ledger consistent as long as no CSV file is imported: keys unique and references resolved, every
  stored balance the exact running sum of its account, image quotas respected, links only between card and bank
  and at most one bank transaction per card transaction.\<close>

theorem reachable_ledger_consistent:
  assumes "fresh_service s" and "(ledger_step codec)\<^sup>*\<^sup>* s t"
  shows "ledger_wf (svc_ledger t) \<and> ledger_balanced (svc_ledger t) \<and> quota_ok (svc_ledger t) \<and>
    links_ok (svc_ledger t) \<and> single_bank (svc_ledger t)"
  using history.inv_reachable[OF assms] by (simp add: ledger_ok_def link_policy_def)

theorem reachable_ledger_consistent_witness:
  "ledger_balanced (svc_ledger (snd (svc_write (AddTransaction sample_codec sample_request) sample_service)))"
proof -
  let ?t = "snd (svc_write (AddTransaction sample_codec sample_request) sample_service)"
  have "ledger_step sample_codec sample_service ?t"
    by (rule step_add[of _ sample_request _ "fst (svc_write (AddTransaction sample_codec sample_request) sample_service)"]) simp
  moreover have "fresh_service sample_service" by (simp add: fresh_service_def sample_service_def)
  ultimately show ?thesis using reachable_ledger_consistent[of sample_service sample_codec ?t] by blast
qed

end
