(* ===== verification/Saves.thy ===== *)
theory Saves
  imports LedgerHistory
begin

text \<open>
  Durable transaction saves: \<open>backend/core/transaction_saves.go\<close> on the table
  \<open>transaction_save_requests\<close> of \<open>backend/database/transaction_save_schema.go\<close>. A request is accepted
  under a client-chosen id, processed in receipt order by one worker, and ends as completed or failed.
  JSON encoding of requests and responses and SHA-256 are parameters; what a statement relies on is
  written as a hypothesis.
\<close>

section \<open>Rows and parameters\<close>

datatype save_state = SavePending | SaveCompleted | SaveFailed

datatype save_message = SaveMessageGeneral | SaveMessageImage

record save_row =
  sv_id :: string
  sv_target :: int
  sv_hash :: bytes
  sv_payload :: "bytes option"
  sv_state :: save_state
  sv_result :: "bytes option"
  sv_error :: "save_message option"

record save_codec =
  MarshalPayload :: "int \<times> TransactionRequest \<Rightarrow> bytes"
  UnmarshalPayload :: "bytes \<Rightarrow> (int \<times> TransactionRequest) option"
  MarshalResponse :: "tx_row \<times> tag_row list \<Rightarrow> bytes"
  Sum256 :: "bytes \<Rightarrow> bytes"

text \<open>The service with the rows of its queue in row-id order and the number of wake-ups it sent.\<close>

record save_service =
  ss_service :: service
  ss_rows :: "save_row list"
  ss_wakes :: nat

datatype save_error =
    ErrSaveRequestInvalid
  | ErrSaveTooManyImages
  | ErrSavePayloadSize
  | ErrSaveRequestConflict
  | ErrSaveQueueFull
  | ErrSaveStorageUnavailable
  | ErrSaveNoRows
  | ErrSaveLedger lerr

definition maxSavePayloadBytes :: nat where "maxSavePayloadBytes = 32 * 1024 * 1024"
definition maxPendingSaveBytes :: nat where "maxPendingSaveBytes = 128 * 1024 * 1024"
definition maxPendingSaves :: nat where "maxPendingSaves = 32"

text \<open>The row CHECK of the table.\<close>

definition save_row_check :: "save_row \<Rightarrow> bool" where
  "save_row_check r \<longleftrightarrow>
     length (sv_id r) = 36 \<and> 0 \<le> sv_target r \<and>
     (case sv_payload r of None \<Rightarrow> True | Some p \<Rightarrow> 2 \<le> length p \<and> length p \<le> 33554432) \<and>
     (case sv_state r of
        SavePending \<Rightarrow> sv_payload r \<noteq> None \<and> sv_result r = None \<and> sv_error r = None
      | SaveCompleted \<Rightarrow> sv_payload r = None \<and> sv_result r \<noteq> None \<and> sv_error r = None
      | SaveFailed \<Rightarrow> sv_result r = None \<and> sv_error r \<noteq> None)"

section \<open>Operations\<close>

text \<open>Outside the four dashes every byte is a lower-case hexadecimal digit; a multi-byte rune never is.\<close>

definition ValidSaveRequestID :: "string \<Rightarrow> bool" where
  "ValidSaveRequestID i \<longleftrightarrow>
     length i = 36 \<and> i ! 8 = CHR ''-'' \<and> i ! 13 = CHR ''-'' \<and> i ! 18 = CHR ''-'' \<and> i ! 23 = CHR ''-'' \<and>
     (\<forall>k\<in>set [0..<36]. k = 8 \<or> k = 13 \<or> k = 18 \<or> k = 23 \<or>
        (48 \<le> byte (i ! k) \<and> byte (i ! k) \<le> 57 \<or> 97 \<le> byte (i ! k) \<and> byte (i ! k) \<le> 102))"

definition find_save :: "string \<Rightarrow> save_row list \<Rightarrow> save_row option" where
  "find_save i rows = List.find (\<lambda>r. sv_id r = i) rows"

definition pending_bytes :: "save_row list \<Rightarrow> nat" where
  "pending_bytes rows = sum_list (map (\<lambda>r. case sv_payload r of None \<Rightarrow> 0 | Some p \<Rightarrow> length p) rows)"

definition payload_count :: "save_row list \<Rightarrow> nat" where
  "payload_count rows = count_where (\<lambda>r. sv_payload r \<noteq> None) rows"

definition WakeWorker :: "save_service \<Rightarrow> save_service" where
  "WakeWorker S = S\<lparr>ss_wakes := Suc (ss_wakes S)\<rparr>"

text \<open>The status of a request: state, stored result, failure message.\<close>

definition TransactionSaveStatus ::
  "string \<Rightarrow> save_service \<Rightarrow> (save_error, save_row) result \<times> save_service" where
  "TransactionSaveStatus i S =
     (if \<not> ValidSaveRequestID i then (Inl ErrSaveNoRows, S)
      else case database (ss_service S) of
        Inl e \<Rightarrow> (Inl (ErrSaveLedger e), S)
      | Inr _ \<Rightarrow>
          (case find_save i (ss_rows S) of
             None \<Rightarrow> (Inl ErrSaveNoRows, S)
           | Some r \<Rightarrow> (Inr r, if sv_state r = SavePending then WakeWorker S else S)))"

text \<open>The checks of \<open>AcceptTransactionSave\<close> before the database is touched; the result is the payload.\<close>

definition accept_checks ::
  "save_codec \<Rightarrow> string \<Rightarrow> int \<Rightarrow> TransactionRequest \<Rightarrow> (save_error, bytes) result" where
  "accept_checks sc i target req =
     bindE (guardE (ValidSaveRequestID i \<and> 0 \<le> target) ErrSaveRequestInvalid) (\<lambda>_.
     bindE (mapErr ErrSaveLedger (parseTransactionDate (rq_date req) (rq_time req))) (\<lambda>_.
     bindE (mapErr ErrSaveLedger (validateTransactionData req)) (\<lambda>_.
     bindE (guardE (\<not> (target = 0 \<and> (rq_delete_image_ids req \<noteq> [] \<or> rq_link_add_ids req \<noteq> [] \<or>
              rq_link_remove_ids req \<noteq> []))) (ErrSaveLedger ErrUpdateOnlyFields)) (\<lambda>_.
     bindE (guardE (length (rq_images req) \<le> MaxImagesPerTransaction) ErrSaveTooManyImages) (\<lambda>_.
     let payload = MarshalPayload sc (target, req) in
     bindE (guardE (length payload \<le> maxSavePayloadBytes) ErrSavePayloadSize) (\<lambda>_. Inr payload))))))"

text \<open>The SQL transaction: a known id has to carry the same hash, a new one needs room in the queue.\<close>

definition accept_tx ::
  "save_codec \<Rightarrow> string \<Rightarrow> int \<Rightarrow> bytes \<Rightarrow> save_row list \<Rightarrow> (save_error, save_row list) result" where
  "accept_tx sc i target payload rows =
     (case find_save i rows of
        Some r \<Rightarrow> if sv_hash r = Sum256 sc payload then Inr rows else Inl ErrSaveRequestConflict
      | None \<Rightarrow>
          let new = \<lparr>sv_id = i, sv_target = target, sv_hash = Sum256 sc payload, sv_payload = Some payload,
                     sv_state = SavePending, sv_result = None, sv_error = None\<rparr> in
          if payload_count rows \<ge> maxPendingSaves \<or> pending_bytes rows + length payload > maxPendingSaveBytes
          then Inl ErrSaveQueueFull
          else if \<not> save_row_check new \<or> length (sv_hash new) \<noteq> 32 then Inl ErrSaveStorageUnavailable
          else Inr (rows @ [new]))"

definition AcceptTransactionSave ::
  "save_codec \<Rightarrow> string \<Rightarrow> int \<Rightarrow> TransactionRequest \<Rightarrow> save_service \<Rightarrow>
     (save_error, save_row) result \<times> save_service" where
  "AcceptTransactionSave sc i target req S =
     (case bindE (accept_checks sc i target req) (\<lambda>payload.
           bindE (mapErr ErrSaveLedger (database (ss_service S))) (\<lambda>_.
           accept_tx sc i target payload (ss_rows S))) of
        Inl e \<Rightarrow> (Inl e, S)
      | Inr rows \<Rightarrow>
          (case TransactionSaveStatus i (S\<lparr>ss_rows := rows\<rparr>) of
             (Inl _, S') \<Rightarrow> (Inl ErrSaveStorageUnavailable, S')
           | (Inr r, S') \<Rightarrow> (Inr r, WakeWorker S')))"

text \<open>\<open>strings.Contains(err.Error(), ...)\<close>: the errors whose text names images.\<close>

definition image_message :: "lerr \<Rightarrow> bool" where
  "image_message e \<longleftrightarrow> (case e of
       ErrImageNotFound \<Rightarrow> True | ErrImageCount \<Rightarrow> True | ErrImageTransactionBytes \<Rightarrow> True
     | ErrImageAccountBytes \<Rightarrow> True | ErrImageDatabaseBytes \<Rightarrow> True | ErrImageMoveDelta \<Rightarrow> True
     | ErrImageMoveQuota \<Rightarrow> True | ErrImageContainer _ \<Rightarrow> True | ErrImageFilename \<Rightarrow> True
     | ErrImageExtension \<Rightarrow> True | ErrImageMIME \<Rightarrow> True | ErrImageBase64 \<Rightarrow> True | ErrImageTooLarge \<Rightarrow> True
     | ErrImageEmpty \<Rightarrow> True | ErrImageContent \<Rightarrow> True | ErrImageDecode \<Rightarrow> True | ErrImageStore \<Rightarrow> True
     | _ \<Rightarrow> False)"

definition failTransactionSave :: "string \<Rightarrow> bool \<Rightarrow> save_service \<Rightarrow> save_service" where
  "failTransactionSave i img S =
     S\<lparr>ss_rows := upd_where (\<lambda>r. sv_id r = i \<and> sv_state r = SavePending)
         (\<lambda>r. r\<lparr>sv_state := SaveFailed,
                sv_error := Some (if img then SaveMessageImage else SaveMessageGeneral)\<rparr>) (ss_rows S)\<rparr>"

definition transactionSaveTagsIn :: "int \<Rightarrow> ledger \<Rightarrow> tag_row list" where
  "transactionSaveTagsIn i L =
     sort_key (\<lambda>t. (tag_level t, tag_name t)) (filter (\<lambda>t. (i, tag_id t) \<in> set (tx_tags L)) (tags L))"

definition complete_save :: "string \<Rightarrow> bytes \<Rightarrow> save_row list \<Rightarrow> save_row list" where
  "complete_save i encoded rows =
     upd_where (\<lambda>r. sv_id r = i \<and> sv_state r = SavePending)
       (\<lambda>r. r\<lparr>sv_state := SaveCompleted, sv_payload := None, sv_result := Some encoded\<rparr>) rows"

text \<open>The checks and decoding before the write transaction of \<open>processTransactionSave\<close>, and the write itself:
  target 0 adds a transaction, any other target updates it.\<close>

definition save_prepare ::
  "image_codec \<Rightarrow> TransactionRequest \<Rightarrow> (lerr, stamp \<times> preparedTransactionImage list) result" where
  "save_prepare codec req =
     bindE (validateTransactionData req) (\<lambda>_.
     bindE (parseTransactionDate (rq_date req) (rq_time req)) (\<lambda>date.
     bindE (prepareTransactionImages codec (rq_images req)) (\<lambda>imgs. Inr (date, imgs))))"

definition save_apply ::
  "int \<Rightarrow> TransactionRequest \<Rightarrow> stamp \<Rightarrow> preparedTransactionImage list \<Rightarrow> ledger \<Rightarrow> (lerr, ledger \<times> tx_row) result" where
  "save_apply target req date imgs L =
     (if target = 0 then addPreparedTransactionIn (req, date, imgs) L
      else updatePreparedTransactionIn target req date imgs L)"

text \<open>\<open>processTransactionSave\<close>. It runs on the handle of the worker, without the availability check of a
  request. A missing row is its only error that is not turned into a failed request.\<close>

definition processTransactionSave ::
  "image_codec \<Rightarrow> save_codec \<Rightarrow> string \<Rightarrow> bytes \<Rightarrow> save_service \<Rightarrow> (save_error, save_service) result" where
  "processTransactionSave codec sc i raw S =
     (case UnmarshalPayload sc raw of
        None \<Rightarrow> Inr (failTransactionSave i False S)
      | Some (target, req) \<Rightarrow>
          (case save_prepare codec req of
             Inl e \<Rightarrow> Inr (failTransactionSave i (image_message e) S)
           | Inr (date, imgs) \<Rightarrow>
               (case find_save i (ss_rows S) of
                  None \<Rightarrow> Inl ErrSaveNoRows
                | Some r \<Rightarrow>
                    if sv_state r \<noteq> SavePending then Inr S
                    else
                      (case save_apply target req date imgs (svc_ledger (ss_service S)) of
                         Inl e \<Rightarrow> Inr (failTransactionSave i (image_message e) S)
                       | Inr (L', response) \<Rightarrow>
                           let encoded = MarshalResponse sc (response, transactionSaveTagsIn (tx_id response) L') in
                           if length encoded > maxSavePayloadBytes then Inr (failTransactionSave i False S)
                           else Inr (S\<lparr>ss_service := autoSnapshot ((ss_service S)\<lparr>svc_ledger := L'\<rparr>),
                                       ss_rows := complete_save i encoded (ss_rows S)\<rparr>)))))"

definition next_pending :: "save_row list \<Rightarrow> save_row option" where
  "next_pending rows = List.find (\<lambda>r. sv_state r = SavePending) rows"

definition pending_count :: "save_row list \<Rightarrow> nat" where
  "pending_count rows = count_where (\<lambda>r. sv_state r = SavePending) rows"

text \<open>The worker's loop. Not ending would be \<open>None\<close>; a queue row always has a payload while pending.\<close>

partial_function (option) processTransactionSaves ::
  "image_codec \<Rightarrow> save_codec \<Rightarrow> save_service \<Rightarrow> save_service option" where
  "processTransactionSaves codec sc S =
     (case next_pending (ss_rows S) of
        None \<Rightarrow> Some S
      | Some r \<Rightarrow>
          (case processTransactionSave codec sc (sv_id r) (case sv_payload r of Some p \<Rightarrow> p | None \<Rightarrow> []) S of
             Inl _ \<Rightarrow> Some S
           | Inr S' \<Rightarrow> processTransactionSaves codec sc S'))"

definition DismissFailedTransactionSave :: "string \<Rightarrow> save_service \<Rightarrow> (save_error, save_service) result" where
  "DismissFailedTransactionSave i S =
     (if \<not> ValidSaveRequestID i then Inl ErrSaveNoRows
      else bindE (mapErr ErrSaveLedger (database (ss_service S))) (\<lambda>_.
        bindE (guardE (count_where (\<lambda>r. sv_id r = i \<and> sv_state r = SaveFailed) (ss_rows S) = 1) ErrSaveNoRows) (\<lambda>_.
        Inr (S\<lparr>ss_rows := upd_where (\<lambda>r. sv_id r = i \<and> sv_state r = SaveFailed)
                (\<lambda>r. r\<lparr>sv_payload := None\<rparr>) (ss_rows S)\<rparr>))))"

text \<open>The notices: the kept requests without their images.\<close>

definition TransactionSaveNotices ::
  "save_codec \<Rightarrow> save_service \<Rightarrow>
     (save_error, (string \<times> save_state \<times> save_message option \<times> TransactionRequest) list) result \<times> save_service" where
  "TransactionSaveNotices sc S =
     (case database (ss_service S) of
        Inl e \<Rightarrow> (Inl (ErrSaveLedger e), S)
      | Inr _ \<Rightarrow>
          (let rows = take 32 (filter (\<lambda>r. sv_payload r \<noteq> None) (ss_rows S)) in
           case foldE (\<lambda>r acc.
                  bindE (ofOption ErrSaveStorageUnavailable (UnmarshalPayload sc (the (sv_payload r)))) (\<lambda>(_, req).
                  Inr (acc @ [(sv_id r, sv_state r, sv_error r, req\<lparr>rq_images := []\<rparr>)]))) rows [] of
             Inl e \<Rightarrow> (Inl e, S)
           | Inr notices \<Rightarrow>
               (Inr notices, if \<exists>r\<in>set rows. sv_state r = SavePending then WakeWorker S else S)))"

section \<open>Rows of the queue\<close>

definition saves_wf :: "save_row list \<Rightarrow> bool" where
  "saves_wf rows \<longleftrightarrow> distinct (map sv_id rows) \<and> (\<forall>r\<in>set rows. save_row_check r) \<and>
     payload_count rows \<le> maxPendingSaves \<and> pending_bytes rows \<le> maxPendingSaveBytes"

text \<open>A later row continues an earlier one: same request, and a finished state is kept with its result.\<close>

definition save_continues :: "save_row \<Rightarrow> save_row \<Rightarrow> bool" where
  "save_continues r r' \<longleftrightarrow> sv_id r' = sv_id r \<and> sv_target r' = sv_target r \<and> sv_hash r' = sv_hash r \<and>
     (sv_state r \<noteq> SavePending \<longrightarrow>
        sv_state r' = sv_state r \<and> sv_result r' = sv_result r \<and> sv_error r' = sv_error r)"

definition rows_continue :: "save_row list \<Rightarrow> save_row list \<Rightarrow> bool" where
  "rows_continue rows rows' \<longleftrightarrow> (\<forall>r\<in>set rows. \<exists>r'\<in>set rows'. save_continues r r')"

lemma save_continues_refl [simp]: "save_continues r r"
  by (simp add: save_continues_def)

lemma save_continues_trans: "save_continues r s \<Longrightarrow> save_continues s t \<Longrightarrow> save_continues r t"
  by (auto simp: save_continues_def)

lemma rows_continue_refl [simp]: "rows_continue rows rows"
  by (auto simp: rows_continue_def intro: save_continues_refl)

lemma rows_continue_trans: "rows_continue a b \<Longrightarrow> rows_continue b c \<Longrightarrow> rows_continue a c"
  unfolding rows_continue_def by (meson save_continues_trans)

text \<open>Row updates that drop payloads or keep them, and keep the row CHECK.\<close>

lemma saves_wf_upd:
  assumes wf: "saves_wf rows"
    and upd: "\<And>r. r \<in> set rows \<Longrightarrow> p r \<Longrightarrow> sv_id (f r) = sv_id r \<and> save_row_check (f r) \<and>
      (sv_payload (f r) = None \<or> sv_payload (f r) = sv_payload r)"
  shows "saves_wf (upd_where p f rows)"
proof -
  have ids: "map sv_id (upd_where p f rs) = map sv_id rs" if "set rs \<subseteq> set rows" for rs
    using that upd by (auto simp: upd_where_def)
  have cnt: "payload_count (upd_where p f rs) \<le> payload_count rs \<and> pending_bytes (upd_where p f rs) \<le> pending_bytes rs"
    if "set rs \<subseteq> set rows" for rs
    using that
  proof (induction rs)
    case (Cons r rs)
    then show ?case using upd[of r]
      by (auto simp: payload_count_def pending_bytes_def count_where_def table_simps split: option.splits)
  qed (simp add: table_simps)
  have "save_row_check r" if "r \<in> set (upd_where p f rows)" for r
    using that wf upd by (auto simp: saves_wf_def set_upd_where)
  then show ?thesis
    using wf ids[of rows] cnt[of rows] unfolding saves_wf_def by (simp del: map_map)
qed

lemma rows_continue_upd:
  "(\<And>r. r \<in> set rows \<Longrightarrow> p r \<Longrightarrow> save_continues r (f r)) \<Longrightarrow> rows_continue rows (upd_where p f rows)"
  unfolding rows_continue_def set_upd_where
  by (rule ballI, rule bexI[rotated], erule imageI) simp

section \<open>Each operation keeps the queue and never reopens a finished request\<close>

lemma find_save_Some: "find_save i rows = Some r \<Longrightarrow> r \<in> set rows \<and> sv_id r = i"
  by (auto simp: find_save_def dest!: find_SomeD)

lemma find_save_iff: "saves_wf rows \<Longrightarrow> find_save i rows = Some r \<longleftrightarrow> r \<in> set rows \<and> sv_id r = i"
  by (simp add: saves_wf_def find_save_def find_eq_Some_iff)

lemma accept_tx_ok:
  assumes wf: "saves_wf rows" and run: "accept_tx sc i target payload rows = Inr rows'"
  shows "saves_wf rows' \<and> rows_continue rows rows'"
proof (cases "find_save i rows")
  case None
  then have "i \<notin> sv_id ` set rows" by (auto simp: find_save_def find_None_iff)
  then show ?thesis
    using None run wf
    by (auto simp: accept_tx_def Let_def saves_wf_def rows_continue_def payload_count_def count_where_def
        pending_bytes_def split: if_splits intro: save_continues_refl)
next
  case (Some r)
  then show ?thesis using run wf by (auto simp: accept_tx_def split: if_splits)
qed

lemma status_rows: "TransactionSaveStatus i S = (r, S') \<Longrightarrow> ss_rows S' = ss_rows S \<and> ss_service S' = ss_service S"
  by (auto simp: TransactionSaveStatus_def WakeWorker_def split: if_splits sum.splits option.splits)

lemma AcceptTransactionSave_ok:
  assumes wf: "saves_wf (ss_rows S)" and run: "AcceptTransactionSave sc i target req S = (r, S')"
  shows "saves_wf (ss_rows S') \<and> rows_continue (ss_rows S) (ss_rows S') \<and> ss_service S' = ss_service S"
proof (cases "bindE (accept_checks sc i target req) (\<lambda>payload.
    bindE (mapErr ErrSaveLedger (database (ss_service S))) (\<lambda>_. accept_tx sc i target payload (ss_rows S)))")
  case (Inl e)
  then show ?thesis using run wf by (simp add: AcceptTransactionSave_def)
next
  case (Inr rows)
  then obtain payload where "accept_tx sc i target payload (ss_rows S) = Inr rows" by (auto simp: res_simps)
  note ok = accept_tx_ok[OF wf this]
  obtain q S1 where st: "TransactionSaveStatus i (S\<lparr>ss_rows := rows\<rparr>) = (q, S1)" by fastforce
  then have "S' = S1 \<or> S' = WakeWorker S1"
    using run Inr by (auto simp: AcceptTransactionSave_def split: sum.splits)
  then show ?thesis using ok status_rows[OF st] by (auto simp: WakeWorker_def)
qed

lemma fail_ok:
  assumes "saves_wf (ss_rows S)"
  shows "saves_wf (ss_rows (failTransactionSave i img S)) \<and>
    rows_continue (ss_rows S) (ss_rows (failTransactionSave i img S)) \<and>
    ss_service (failTransactionSave i img S) = ss_service S"
proof -
  have "save_row_check (r\<lparr>sv_state := SaveFailed, sv_error := Some m\<rparr>)"
    if "r \<in> set (ss_rows S)" "sv_state r = SavePending" for r m
    using that assms by (auto simp: saves_wf_def save_row_check_def)
  then show ?thesis
    using assms
    by (auto simp: failTransactionSave_def save_continues_def intro!: saves_wf_upd rows_continue_upd)
qed

lemma complete_ok:
  assumes "saves_wf rows"
  shows "saves_wf (complete_save i encoded rows) \<and> rows_continue rows (complete_save i encoded rows)"
proof -
  have "save_row_check (r\<lparr>sv_state := SaveCompleted, sv_payload := None, sv_result := Some encoded\<rparr>)"
    if "r \<in> set rows" "sv_state r = SavePending" for r
    using that assms by (auto simp: saves_wf_def save_row_check_def)
  then show ?thesis
    using assms by (auto simp: complete_save_def save_continues_def intro!: saves_wf_upd rows_continue_upd)
qed

text \<open>The four outcomes of processing one request.\<close>

lemma processTransactionSave_cases:
  assumes "processTransactionSave codec sc i raw S = Inr S'"
  obtains (failed) img where "S' = failTransactionSave i img S"
  | (skipped) r where "find_save i (ss_rows S) = Some r" "sv_state r \<noteq> SavePending" "S' = S"
  | (saved) r L' encoded target req date imgs response where
      "find_save i (ss_rows S) = Some r" "sv_state r = SavePending"
      "UnmarshalPayload sc raw = Some (target, req)"
      "save_apply target req date imgs (svc_ledger (ss_service S)) = Inr (L', response)"
      "save_prepare codec req = Inr (date, imgs)"
      "encoded = MarshalResponse sc (response, transactionSaveTagsIn (tx_id response) L')"
      "S' = S\<lparr>ss_service := autoSnapshot ((ss_service S)\<lparr>svc_ledger := L'\<rparr>),
             ss_rows := complete_save i encoded (ss_rows S)\<rparr>"
proof (cases "UnmarshalPayload sc raw")
  case None
  then show ?thesis using assms failed[of False] by (simp add: processTransactionSave_def)
next
  case unm: (Some tr)
  obtain target req where tr: "tr = (target, req)" by (cases tr)
  show ?thesis
  proof (cases "save_prepare codec req")
    case (Inl e)
    then show ?thesis using assms failed[of "image_message e"] by (simp add: processTransactionSave_def unm tr)
  next
    case prep: (Inr di)
    obtain date imgs where di: "di = (date, imgs)" by (cases di)
    show ?thesis
    proof (cases "find_save i (ss_rows S)")
      case None
      then show ?thesis using assms by (simp add: processTransactionSave_def unm tr prep di)
    next
      case r: (Some r)
      show ?thesis
      proof (cases "sv_state r = SavePending")
        case False
        then show ?thesis using assms skipped[OF r] by (simp add: processTransactionSave_def unm tr prep di r)
      next
        case True
        show ?thesis
        proof (cases "save_apply target req date imgs (svc_ledger (ss_service S))")
          case (Inl e)
          then show ?thesis
            using assms failed[of "image_message e"] True by (simp add: processTransactionSave_def unm tr prep di r)
        next
          case run: (Inr lr)
          obtain L' response where lr: "lr = (L', response)" by (cases lr)
          let ?enc = "MarshalResponse sc (response, transactionSaveTagsIn (tx_id response) L')"
          show ?thesis
            using assms failed[of False] saved[OF r True unm[unfolded tr] run[unfolded lr] prep[unfolded di] refl] True
            by (cases "length ?enc > maxSavePayloadBytes")
              (simp_all add: processTransactionSave_def unm tr prep di r run lr Let_def)
        qed
      qed
    qed
  qed
qed

lemma save_apply_ok: "ledger_ok L \<Longrightarrow> save_apply target req date imgs L = Inr (L', r) \<Longrightarrow> ledger_ok L'"
  by (auto simp: save_apply_def split: if_splits intro: addPreparedTransactionIn_ok updatePreparedTransactionIn_ok)

lemma processTransactionSave_ok:
  assumes wf: "saves_wf (ss_rows S)" and ok: "ledger_ok (svc_ledger (ss_service S))"
    and run: "processTransactionSave codec sc i raw S = Inr S'"
  shows "saves_wf (ss_rows S') \<and> rows_continue (ss_rows S) (ss_rows S') \<and> ledger_ok (svc_ledger (ss_service S'))"
  using run
proof (cases rule: processTransactionSave_cases)
  case (saved r L' encoded target req date imgs response)
  then have "ledger_ok L'" using save_apply_ok[OF ok] by blast
  then show ?thesis using saved complete_ok[OF wf] by simp
qed (use fail_ok[OF wf] wf ok in auto)

lemma dismiss_ok:
  assumes "saves_wf (ss_rows S)" and "DismissFailedTransactionSave i S = Inr S'"
  shows "saves_wf (ss_rows S') \<and> rows_continue (ss_rows S) (ss_rows S') \<and> ss_service S' = ss_service S"
proof -
  have "save_row_check (r\<lparr>sv_payload := None\<rparr>)" if "r \<in> set (ss_rows S)" "sv_state r = SaveFailed" for r
    using that assms(1) by (auto simp: saves_wf_def save_row_check_def)
  then show ?thesis
    using assms
    by (auto simp: DismissFailedTransactionSave_def res_simps save_continues_def split: if_splits
        intro!: saves_wf_upd rows_continue_upd)
qed

section \<open>The loop ends with an empty queue\<close>

lemma next_pending_Some: "next_pending rows = Some r \<Longrightarrow> r \<in> set rows \<and> sv_state r = SavePending"
  by (auto simp: next_pending_def dest!: find_SomeD)

lemma pending_count_upd_le:
  assumes "\<And>r. p r \<Longrightarrow> sv_state (f r) \<noteq> SavePending"
  shows "pending_count (upd_where p f rows) \<le> pending_count rows"
  using assms by (induction rows) (auto simp: pending_count_def count_where_def table_simps)

lemma pending_count_upd:
  assumes "r \<in> set rows" and "p r" and "sv_state r = SavePending"
    and "\<And>r. p r \<Longrightarrow> sv_state (f r) \<noteq> SavePending"
  shows "pending_count (upd_where p f rows) < pending_count rows"
  using assms(1)
proof (induction rows)
  case (Cons q rows)
  show ?case
  proof (cases "q = r")
    case True
    then show ?thesis using assms(2-) pending_count_upd_le[of p f rows]
      by (auto simp: pending_count_def count_where_def table_simps)
  next
    case False
    then have "pending_count (upd_where p f rows) < pending_count rows" using Cons by simp
    then show ?thesis using assms(4) by (auto simp: pending_count_def count_where_def table_simps)
  qed
qed simp

lemma fail_decreases:
  "r \<in> set (ss_rows S) \<Longrightarrow> sv_state r = SavePending \<Longrightarrow>
   pending_count (ss_rows (failTransactionSave (sv_id r) img S)) < pending_count (ss_rows S)"
  using pending_count_upd[of r "ss_rows S" "\<lambda>q. sv_id q = sv_id r \<and> sv_state q = SavePending"]
  by (simp add: failTransactionSave_def)

lemma complete_decreases:
  "r \<in> set rows \<Longrightarrow> sv_state r = SavePending \<Longrightarrow> pending_count (complete_save (sv_id r) e rows) < pending_count rows"
  unfolding complete_save_def by (rule pending_count_upd) auto

lemma process_next_decreases:
  assumes wf: "saves_wf (ss_rows S)" and r: "next_pending (ss_rows S) = Some r"
  obtains S' where "processTransactionSave codec sc (sv_id r) raw S = Inr S'"
    and "pending_count (ss_rows S') < pending_count (ss_rows S)"
proof -
  have r': "r \<in> set (ss_rows S)" "sv_state r = SavePending" using next_pending_Some[OF r] by blast+
  have found: "find_save (sv_id r) (ss_rows S) = Some r" using r' wf by (simp add: find_save_iff)
  then obtain S' where run: "processTransactionSave codec sc (sv_id r) raw S = Inr S'"
    using r'(2) by (fastforce simp: processTransactionSave_def Let_def split: option.splits sum.splits)
  have "pending_count (ss_rows S') < pending_count (ss_rows S)"
    using run
  proof (cases rule: processTransactionSave_cases)
    case (failed img)
    then show ?thesis using fail_decreases[OF r'] by simp
  next
    case (skipped q)
    then show ?thesis using found r' by simp
  next
    case saved
    then show ?thesis using complete_decreases[OF r'] by simp
  qed
  with run that show thesis by blast
qed

lemma processTransactionSaves_drains:
  assumes "saves_wf (ss_rows S)" and "ledger_ok (svc_ledger (ss_service S))"
  shows "\<exists>S'. processTransactionSaves codec sc S = Some S' \<and> next_pending (ss_rows S') = None \<and>
    saves_wf (ss_rows S') \<and> ledger_ok (svc_ledger (ss_service S')) \<and> rows_continue (ss_rows S) (ss_rows S')"
  using assms
proof (induction "pending_count (ss_rows S)" arbitrary: S rule: less_induct)
  case less
  show ?case
  proof (cases "next_pending (ss_rows S)")
    case None
    then show ?thesis using less.prems by (simp add: processTransactionSaves.simps[of codec sc S])
  next
    case (Some r)
    let ?raw = "case sv_payload r of Some p \<Rightarrow> p | None \<Rightarrow> []"
    obtain S1 where run: "processTransactionSave codec sc (sv_id r) ?raw S = Inr S1"
      and less1: "pending_count (ss_rows S1) < pending_count (ss_rows S)"
      using process_next_decreases[OF less.prems(1) Some] by blast
    note ok = processTransactionSave_ok[OF less.prems run]
    obtain S' where "processTransactionSaves codec sc S1 = Some S'" "next_pending (ss_rows S') = None"
      "saves_wf (ss_rows S')" "ledger_ok (svc_ledger (ss_service S'))" "rows_continue (ss_rows S1) (ss_rows S')"
      using less.hyps[OF less1] ok by blast
    moreover have "processTransactionSaves codec sc S = processTransactionSaves codec sc S1"
      by (subst processTransactionSaves.simps) (simp add: Some run)
    ultimately show ?thesis using ok rows_continue_trans by auto
  qed
qed

section \<open>Histories\<close>

inductive save_step :: "image_codec \<Rightarrow> save_codec \<Rightarrow> save_service \<Rightarrow> save_service \<Rightarrow> bool" for codec sc where
  accept: "AcceptTransactionSave sc i target req S = (r, S') \<Longrightarrow> save_step codec sc S S'"
| status: "TransactionSaveStatus i S = (r, S') \<Longrightarrow> save_step codec sc S S'"
| process: "processTransactionSave codec sc i raw S = Inr S' \<Longrightarrow> save_step codec sc S S'"
| dismiss: "DismissFailedTransactionSave i S = Inr S' \<Longrightarrow> save_step codec sc S S'"
| ledger: "ledger_step codec (ss_service S) s' \<Longrightarrow> save_step codec sc S (S\<lparr>ss_service := s'\<rparr>)"

definition saves_ok :: "save_service \<Rightarrow> bool" where
  "saves_ok S \<longleftrightarrow> saves_wf (ss_rows S) \<and> ledger_ok (svc_ledger (ss_service S))"

definition fresh_saves :: "save_service \<Rightarrow> bool" where
  "fresh_saves S \<longleftrightarrow> ss_rows S = [] \<and> fresh_service (ss_service S)"

lemma save_step_ok:
  assumes "save_step codec sc S S'" and "saves_ok S"
  shows "saves_ok S' \<and> rows_continue (ss_rows S) (ss_rows S')"
  using assms(1)
proof cases
  case (accept i target req r)
  then show ?thesis using AcceptTransactionSave_ok[OF _ accept] assms(2) by (simp add: saves_ok_def)
next
  case (status i r)
  then show ?thesis using status_rows[OF status] assms(2) by (simp add: saves_ok_def)
next
  case (process i raw)
  then show ?thesis using processTransactionSave_ok[OF _ _ process] assms(2) by (simp add: saves_ok_def)
next
  case (dismiss i)
  then show ?thesis using dismiss_ok[OF _ dismiss] assms(2) by (simp add: saves_ok_def)
next
  case (ledger s')
  then show ?thesis using ledger_step_ok[of codec "ss_service S" s'] assms(2) by (simp add: saves_ok_def)
qed

interpretation saves: step_machine fresh_saves "save_step codec sc" saves_ok
  by unfold_locales
    (auto simp: fresh_saves_def fresh_service_def saves_ok_def saves_wf_def payload_count_def
      pending_bytes_def count_where_def ledger_ok_empty dest: save_step_ok)

lemma saves_continue:
  assumes "(save_step codec sc)\<^sup>*\<^sup>* S S'" and "saves_ok S"
  shows "saves_ok S' \<and> rows_continue (ss_rows S) (ss_rows S')"
  using assms
  by (induction rule: rtranclp_induct) (auto dest: save_step_ok intro: rows_continue_trans)

text \<open>Processing a finished request changes neither the queue nor the ledger.\<close>

lemma process_finished:
  assumes wf: "saves_wf (ss_rows S)" and r: "r \<in> set (ss_rows S)" "sv_id r = i" "sv_state r \<noteq> SavePending"
    and run: "processTransactionSave codec sc i raw S = Inr S'"
  shows "S' = S"
  using run
proof (cases rule: processTransactionSave_cases)
  case (failed img)
  have "\<not> (sv_id q = i \<and> sv_state q = SavePending)" if "q \<in> set (ss_rows S)" for q
    using that r wf by (auto simp: saves_wf_def dest: distinct_map_inj)
  then show ?thesis using failed by (simp add: failTransactionSave_def upd_where_id)
next
  case (saved q)
  then have "q = r" using r wf find_save_Some[of i "ss_rows S" q]
    by (auto simp: saves_wf_def dest: distinct_map_inj)
  then show ?thesis using saved(2) r(3) by simp
qed

section \<open>Properties\<close>

lemma find_continues:
  assumes "rows_continue rows rows'" and "saves_wf rows'" and "r \<in> set rows"
  shows "\<exists>r'. find_save (sv_id r) rows' = Some r' \<and> save_continues r r'"
  using assms unfolding rows_continue_def by (auto simp: find_save_iff save_continues_def)

text \<open>C15: the answer to a finished request is final: whatever happens later, the request is still known, with
  the same target and hash, the same final state, the same stored result and the same failure message;
  and the ledger stays consistent and the queue within its limits throughout.\<close>

theorem finished_save_is_final:
  assumes "saves_ok S" and "(save_step codec sc)\<^sup>*\<^sup>* S T"
    and "r \<in> set (ss_rows S)" and "sv_state r \<noteq> SavePending"
  shows "\<exists>r'. find_save (sv_id r) (ss_rows T) = Some r' \<and> sv_state r' = sv_state r \<and> sv_target r' = sv_target r \<and>
    sv_hash r' = sv_hash r \<and> sv_result r' = sv_result r \<and> sv_error r' = sv_error r \<and> saves_ok T"
proof -
  have c: "saves_ok T" "rows_continue (ss_rows S) (ss_rows T)" using saves_continue[OF assms(2,1)] by blast+
  then obtain r' where "find_save (sv_id r) (ss_rows T) = Some r'" "save_continues r r'"
    using find_continues[OF c(2) _ assms(3)] by (auto simp: saves_ok_def)
  then show ?thesis using c(1) assms(4) by (auto simp: save_continues_def)
qed

definition sample_saves :: save_service where
  "sample_saves = \<lparr>ss_service = sample_service, ss_rows =
     [\<lparr>sv_id = ''00000000-0000-0000-0000-000000000000'', sv_target = 0, sv_hash = replicate 32 0,
       sv_payload = None, sv_state = SaveCompleted, sv_result = Some [1, 2], sv_error = None\<rparr>,
      \<lparr>sv_id = ''00000000-0000-0000-0000-000000000001'', sv_target = 0, sv_hash = replicate 32 1,
       sv_payload = Some [1, 2], sv_state = SavePending, sv_result = None, sv_error = None\<rparr>],
     ss_wakes = 0\<rparr>"

definition sample_save_codec :: save_codec where
  "sample_save_codec = \<lparr>MarshalPayload = (\<lambda>_. [1, 2]),
     UnmarshalPayload = (\<lambda>p. if p = [1, 2] then Some (0, sample_request) else None),
     MarshalResponse = (\<lambda>_. [3, 4]), Sum256 = (\<lambda>p. replicate 32 1)\<rparr>"

lemma sample_saves_ok: "saves_ok sample_saves"
proof -
  have "svc_ledger (ss_service sample_saves) = empty_ledger" by (simp add: sample_saves_def sample_service_def)
  moreover have "saves_wf (ss_rows sample_saves)" by code_simp
  ultimately show ?thesis by (simp add: saves_ok_def ledger_ok_empty)
qed

theorem finished_save_is_final_witness:
  "\<exists>r'. find_save ''00000000-0000-0000-0000-000000000000''
     (ss_rows (snd (TransactionSaveStatus ''00000000-0000-0000-0000-000000000001'' sample_saves))) = Some r' \<and>
     sv_result r' = Some [1, 2]"
proof -
  let ?T = "snd (TransactionSaveStatus ''00000000-0000-0000-0000-000000000001'' sample_saves)"
  let ?r = "hd (ss_rows sample_saves)"
  have "save_step sample_codec sample_save_codec sample_saves ?T"
    by (rule save_step.status[of "''00000000-0000-0000-0000-000000000001''" _
        "fst (TransactionSaveStatus ''00000000-0000-0000-0000-000000000001'' sample_saves)"]) simp
  then have st: "(save_step sample_codec sample_save_codec)\<^sup>*\<^sup>* sample_saves ?T" by blast
  have r: "?r \<in> set (ss_rows sample_saves)" "sv_state ?r \<noteq> SavePending"
    "sv_id ?r = ''00000000-0000-0000-0000-000000000000''" "sv_result ?r = Some [1, 2]"
    by (simp_all add: sample_saves_def)
  show ?thesis using finished_save_is_final[OF sample_saves_ok st r(1,2)] unfolding r(3,4) by blast
qed

text \<open>C14: a request takes effect at most once: processing it when it is already finished changes neither the
  queue nor the ledger.\<close>

theorem save_applied_at_most_once:
  assumes "saves_ok S" and "r \<in> set (ss_rows S)" and "sv_state r \<noteq> SavePending"
    and "processTransactionSave codec sc (sv_id r) raw S = Inr S'"
  shows "S' = S"
  using process_finished[OF _ assms(2) refl assms(3,4)] assms(1) by (simp add: saves_ok_def)

theorem save_applied_at_most_once_witness:
  "processTransactionSave sample_codec sample_save_codec ''00000000-0000-0000-0000-000000000000'' [1, 2] sample_saves =
     Inr sample_saves"
proof -
  let ?r = "hd (ss_rows sample_saves)"
  let ?m = "processTransactionSave sample_codec sample_save_codec (sv_id ?r) [1, 2] sample_saves"
  have run: "?m = Inr (projr ?m)" by (rule okE_projr) code_simp
  have r: "?r \<in> set (ss_rows sample_saves)" "sv_state ?r \<noteq> SavePending"
    and i: "sv_id ?r = ''00000000-0000-0000-0000-000000000000''" by (simp_all add: sample_saves_def)
  show ?thesis using save_applied_at_most_once[OF sample_saves_ok r run] run unfolding i by simp
qed

lemma failed_keeps:
  "\<forall>r\<in>set (ss_rows (failTransactionSave i img S)). sv_id r = i \<and> sv_state r = SaveCompleted \<longrightarrow> r \<in> set (ss_rows S)"
proof (intro ballI impI)
  fix r assume "r \<in> set (ss_rows (failTransactionSave i img S))" and c: "sv_id r = i \<and> sv_state r = SaveCompleted"
  then have "r \<in> set (upd_where (\<lambda>r. sv_id r = i \<and> sv_state r = SavePending)
      (\<lambda>r. r\<lparr>sv_state := SaveFailed, sv_error := Some (if img then SaveMessageImage else SaveMessageGeneral)\<rparr>) (ss_rows S))"
    by (simp add: failTransactionSave_def)
  then show "r \<in> set (ss_rows S)" by (rule upd_where_elim) (use c in simp_all)
qed

lemma find_completed:
  assumes "saves_wf rows" "find_save i rows = Some r" "sv_state r = SavePending"
  shows "find_save i (complete_save i encoded rows) = Some (r\<lparr>sv_state := SaveCompleted, sv_payload := None, sv_result := Some encoded\<rparr>)"
proof -
  have r: "r \<in> set rows" "sv_id r = i" using find_save_Some[OF assms(2)] by simp_all
  then have "r\<lparr>sv_state := SaveCompleted, sv_payload := None, sv_result := Some encoded\<rparr> \<in> set (complete_save i encoded rows)"
    using assms(3) by (force simp: complete_save_def set_upd_where)
  then show ?thesis using complete_ok[OF assms(1), of i encoded] r(2) by (simp add: find_save_iff)
qed

text \<open>The request \<open>raw\<close> stored under \<open>i\<close> can be applied: it decodes, prepares and applies to the ledger, its row is pending, and the
  encoded answer fits.\<close>

definition applies ::
  "image_codec \<Rightarrow> save_codec \<Rightarrow> string \<Rightarrow> bytes \<Rightarrow> save_service \<Rightarrow> save_row \<Rightarrow> ledger \<Rightarrow> bytes \<Rightarrow> bool" where
  "applies codec sc i raw S r L' encoded \<longleftrightarrow> find_save i (ss_rows S) = Some r \<and> sv_state r = SavePending
     \<and> (\<exists>target req date imgs response. UnmarshalPayload sc raw = Some (target, req) \<and> save_prepare codec req = Inr (date, imgs)
         \<and> save_apply target req date imgs (svc_ledger (ss_service S)) = Inr (L', response)
         \<and> encoded = MarshalResponse sc (response, transactionSaveTagsIn (tx_id response) L'))"

text \<open>C27: processing one request is all or nothing. When the stored request decodes, passes its checks, prepares (date and
  images included) and applies to the ledger, and its answer fits, the ledger afterwards is exactly the result of applying
  it with the prepared date and images and the row is completed with the encoded answer. Otherwise the ledger is
  unchanged and no request becomes completed.\<close>

theorem save_all_or_nothing:
  assumes "saves_ok S" and "processTransactionSave codec sc i raw S = Inr S'"
  shows "(\<forall>r L' encoded. applies codec sc i raw S r L' encoded \<and> length encoded \<le> maxSavePayloadBytes \<longrightarrow>
      svc_ledger (ss_service S') = L' \<and>
      find_save i (ss_rows S') = Some (r\<lparr>sv_state := SaveCompleted, sv_payload := None, sv_result := Some encoded\<rparr>)) \<and>
    ((\<exists>r L' encoded. applies codec sc i raw S r L' encoded \<and> length encoded \<le> maxSavePayloadBytes) \<or>
     svc_ledger (ss_service S') = svc_ledger (ss_service S) \<and>
     (\<forall>r\<in>set (ss_rows S'). sv_state r = SaveCompleted \<longrightarrow> r \<in> set (ss_rows S)))"
proof -
  have wf: "saves_wf (ss_rows S)" using assms(1) by (simp add: saves_ok_def)
  have done_if: "svc_ledger (ss_service S') = L' \<and>
      find_save i (ss_rows S') = Some (r\<lparr>sv_state := SaveCompleted, sv_payload := None, sv_result := Some encoded\<rparr>)"
    if "applies codec sc i raw S r L' encoded" "length encoded \<le> maxSavePayloadBytes" for r L' encoded
  proof -
    have "S' = S\<lparr>ss_service := autoSnapshot ((ss_service S)\<lparr>svc_ledger := L'\<rparr>), ss_rows := complete_save i encoded (ss_rows S)\<rparr>"
      using that assms(2) by (auto simp: applies_def processTransactionSave_def Let_def)
    then show ?thesis using find_completed[OF wf] that(1) by (simp add: applies_def)
  qed
  have keeps: "\<forall>r\<in>set (ss_rows (failTransactionSave i img S)). sv_state r = SaveCompleted \<longrightarrow> r \<in> set (ss_rows S)" for img
    by (auto simp: failTransactionSave_def set_upd_where split: if_splits)
  have otherwise: "(\<exists>r L' encoded. applies codec sc i raw S r L' encoded \<and> length encoded \<le> maxSavePayloadBytes) \<or>
      S' = S \<or> (\<exists>img. S' = failTransactionSave i img S)"
    using assms(2) unfolding processTransactionSave_def applies_def
    by (auto simp: Let_def split: option.splits prod.splits sum.splits if_splits)
  show ?thesis using done_if otherwise keeps by (auto simp: failTransactionSave_def)
qed

theorem save_all_or_nothing_witness:
  "length (txs (svc_ledger (ss_service (projr (processTransactionSave sample_codec sample_save_codec
     ''00000000-0000-0000-0000-000000000001'' [1, 2] sample_saves))))) = 1 \<and>
   (\<exists>r L' encoded. applies sample_codec sample_save_codec ''00000000-0000-0000-0000-000000000001'' [1, 2] sample_saves r L' encoded)"
proof -
  let ?m = "processTransactionSave sample_codec sample_save_codec ''00000000-0000-0000-0000-000000000001'' [1, 2] sample_saves"
  have run: "?m = Inr (projr ?m)" by (rule okE_projr) code_simp
  have one: "length (txs (svc_ledger (ss_service (projr ?m)))) = 1" by code_simp
  have zero: "length (txs (svc_ledger (ss_service sample_saves))) = 0" by code_simp
  have "svc_ledger (ss_service (projr ?m)) \<noteq> svc_ledger (ss_service sample_saves)"
  proof
    assume same: "svc_ledger (ss_service (projr ?m)) = svc_ledger (ss_service sample_saves)"
    have "(1 :: nat) = 0" using one zero unfolding same by (rule trans[OF sym])
    then show False by (rule one_neq_zero[THEN notE])
  qed
  then show ?thesis using conjunct2[OF save_all_or_nothing[OF sample_saves_ok run]] one by blast
qed

text \<open>C29: the loop over the queue ends, with no request pending: every accepted request ends completed or failed,
  in a consistent ledger.\<close>

theorem queue_drains:
  assumes "saves_ok S"
  shows "\<exists>S'. processTransactionSaves codec sc S = Some S' \<and> (\<forall>r\<in>set (ss_rows S'). sv_state r \<noteq> SavePending) \<and>
    (\<forall>r\<in>set (ss_rows S). \<exists>r'. find_save (sv_id r) (ss_rows S') = Some r' \<and> save_continues r r') \<and>
    saves_ok S'"
proof -
  obtain S' where d: "processTransactionSaves codec sc S = Some S'" "next_pending (ss_rows S') = None"
    "saves_wf (ss_rows S')" "ledger_ok (svc_ledger (ss_service S'))" "rows_continue (ss_rows S) (ss_rows S')"
    using processTransactionSaves_drains[of S codec sc] assms by (auto simp: saves_ok_def)
  have "\<forall>r\<in>set (ss_rows S'). sv_state r \<noteq> SavePending"
    using d(2) by (auto simp: next_pending_def find_None_iff)
  then show ?thesis using d find_continues[OF d(5,3)] by (auto simp: saves_ok_def)
qed

theorem queue_drains_witness:
  "\<exists>S'. processTransactionSaves sample_codec sample_save_codec sample_saves = Some S' \<and>
     (\<forall>r\<in>set (ss_rows S'). sv_state r \<noteq> SavePending)"
  using queue_drains[OF sample_saves_ok, of sample_codec sample_save_codec] by blast

lemma accept_known:
  assumes "saves_ok S" and "okE (database (ss_service S))" and "find_save i (ss_rows S) = Some r"
    and "accept_checks sc i target req = Inr payload"
  shows "\<exists>S'. AcceptTransactionSave sc i target req S =
      ((if sv_hash r = Sum256 sc payload then Inr r else Inl ErrSaveRequestConflict), S') \<and>
    ss_rows S' = ss_rows S \<and> ss_service S' = ss_service S"
proof -
  have valid: "ValidSaveRequestID i" using assms(4) by (auto simp: accept_checks_def res_simps)
  obtain L where db: "database (ss_service S) = Inr L" using assms(2) by (auto simp: okE_iff)
  show ?thesis
    using assms(3) valid db by (auto simp: AcceptTransactionSave_def assms(4) accept_tx_def TransactionSaveStatus_def WakeWorker_def)
qed

lemma accept_new:
  assumes "find_save i (ss_rows S) = None" and "AcceptTransactionSave sc i target req S = (Inr r, S')"
  shows "r \<in> set (ss_rows S') \<and> sv_id r = i \<and> sv_hash r = Sum256 sc (MarshalPayload sc (target, req))"
proof -
  obtain payload rows S2 where c: "accept_checks sc i target req = Inr payload" "accept_tx sc i target payload (ss_rows S) = Inr rows"
      "TransactionSaveStatus i (S\<lparr>ss_rows := rows\<rparr>) = (Inr r, S2)" "S' = WakeWorker S2"
    using assms(2) by (auto simp: AcceptTransactionSave_def res_simps split: sum.splits prod.splits)
  have "payload = MarshalPayload sc (target, req)" using c(1) by (auto simp: accept_checks_def res_simps Let_def)
  then obtain new where rows: "rows = ss_rows S @ [new]" "sv_id new = i" "sv_hash new = Sum256 sc (MarshalPayload sc (target, req))"
    using c(2) assms(1) by (auto simp: accept_tx_def Let_def split: if_splits)
  have "find_save i rows = Some r" "ss_rows S2 = rows"
    using c(3) by (auto simp: TransactionSaveStatus_def WakeWorker_def split: if_splits option.splits sum.splits)
  then show ?thesis using rows assms(1) c(4) by (auto simp: find_save_def find_append WakeWorker_def split: option.splits)
qed

text \<open>C28: a request id is bound to its first payload. Once an id is accepted for a request, and whatever is accepted, processed,
  dismissed or written afterwards, every further valid request under that id is answered with the row of the first one
  when its payload has the same digest, and refused as a conflict when it has another; neither touches the ledger or the
  queue.\<close>

theorem accept_is_idempotent:
  assumes "saves_ok S" and "find_save i (ss_rows S) = None" and "AcceptTransactionSave sc i target req S = (Inr r0, S1)"
    and "(save_step codec sc)\<^sup>*\<^sup>* S1 T" and "okE (database (ss_service T))"
    and "okE (accept_checks sc i target' req')"
  shows "\<exists>r S'. find_save i (ss_rows T) = Some r \<and> sv_target r = sv_target r0 \<and>
      AcceptTransactionSave sc i target' req' T =
        ((if Sum256 sc (MarshalPayload sc (target', req')) = Sum256 sc (MarshalPayload sc (target, req)) then Inr r
          else Inl ErrSaveRequestConflict), S') \<and>
      ss_rows S' = ss_rows T \<and> ss_service S' = ss_service T"
proof -
  have new: "r0 \<in> set (ss_rows S1)" "sv_id r0 = i" "sv_hash r0 = Sum256 sc (MarshalPayload sc (target, req))"
    using accept_new[OF assms(2,3)] by simp_all
  have ok: "saves_ok S1" using save_step_ok[OF save_step.accept[OF assms(3)] assms(1)] by blast
  have T: "saves_ok T" "rows_continue (ss_rows S1) (ss_rows T)" using saves_continue[OF assms(4) ok] by blast+
  obtain r where r: "find_save i (ss_rows T) = Some r" "save_continues r0 r"
    using find_continues[OF T(2) _ new(1)] T(1) new(2) by (auto simp: saves_ok_def)
  obtain payload where p: "accept_checks sc i target' req' = Inr payload" using assms(6) by (auto simp: okE_iff)
  then have "payload = MarshalPayload sc (target', req')" by (auto simp: accept_checks_def res_simps Let_def)
  then show ?thesis using accept_known[OF T(1) assms(5) r(1) p] r new(3) by (auto simp: save_continues_def)
qed

theorem accept_is_idempotent_witness:
  "\<exists>r S'. AcceptTransactionSave sample_save_codec ''00000000-0000-0000-0000-000000000002'' 0 sample_request
      (snd (AcceptTransactionSave sample_save_codec ''00000000-0000-0000-0000-000000000002'' 0 sample_request sample_saves)) = (Inr r, S')"
proof -
  let ?i = "''00000000-0000-0000-0000-000000000002''"
  let ?a = "AcceptTransactionSave sample_save_codec ?i 0 sample_request sample_saves"
  have new: "find_save ?i (ss_rows sample_saves) = None" by code_simp
  have "okE (fst ?a)" by code_simp
  then obtain r0 where first: "?a = (Inr r0, snd ?a)" by (metis okE_iff prod.collapse)
  have db: "okE (database (ss_service (snd ?a)))" and chk: "okE (accept_checks sample_save_codec ?i 0 sample_request)" by code_simp+
  show ?thesis using accept_is_idempotent[OF sample_saves_ok new first rtranclp.rtrancl_refl db chk] by (simp only: if_True refl) blast
qed

end
