(* ===== verification/SaveWorker.thy ===== *)
theory SaveWorker
  imports Prelude
begin

text \<open>
  The worker of \<open>backend/database/transaction_save_worker.go\<close>: one goroutine per database instance that
  runs the save queue whenever it is woken. The fields of \<open>ledgerWork\<close> change only under its mutex, so a
  step of the relation is one critical section of one goroutine, or one action of the work function on
  the durable queue. \<open>wk_wakers\<close> counts the callers that have committed a request or installed the
  runner and are about to call \<open>WakeLedgerWorker\<close>. Reads of the queue do not fail in this model.
\<close>

text \<open>A worker goroutine is before its next look at \<open>pending\<close>, or inside \<open>work()\<close>.\<close>

datatype worker_pc = AtTop | Working

record ledger_work =
  wk_work :: bool
  wk_running :: bool
  wk_pending :: bool
  wk_closing :: bool
  wk_threads :: "worker_pc list"
  wk_queue :: nat
  wk_wakers :: nat

definition initLedgerWork :: "nat \<Rightarrow> ledger_work" where
  "initLedgerWork durable = \<lparr>wk_work = False, wk_running = False, wk_pending = False, wk_closing = False,
     wk_threads = [], wk_queue = durable, wk_wakers = 0\<rparr>"

text \<open>\<open>RegisterLedgerWorker\<close>: the first registration is followed by a wake-up.\<close>

definition RegisterLedgerWorker :: "ledger_work \<Rightarrow> ledger_work" where
  "RegisterLedgerWorker w =
     (if \<not> wk_work w \<and> \<not> wk_closing w then w\<lparr>wk_work := True, wk_wakers := Suc (wk_wakers w)\<rparr> else w)"

definition WakeLedgerWorker :: "ledger_work \<Rightarrow> ledger_work" where
  "WakeLedgerWorker w =
     (if wk_closing w \<or> \<not> wk_work w then w
      else if wk_running w then w\<lparr>wk_pending := True\<rparr>
      else w\<lparr>wk_pending := True, wk_running := True, wk_threads := wk_threads w @ [AtTop]\<rparr>)"

text \<open>The top of the goroutine's loop: it ends when nothing is pending, else it takes the wake-up.\<close>

definition worker_top :: "nat \<Rightarrow> ledger_work \<Rightarrow> ledger_work" where
  "worker_top k w =
     (if \<not> wk_pending w
      then w\<lparr>wk_running := False, wk_threads := take k (wk_threads w) @ drop (Suc k) (wk_threads w)\<rparr>
      else w\<lparr>wk_pending := False, wk_threads := (wk_threads w)[k := Working]\<rparr>)"

definition stopLedgerWork_begin :: "ledger_work \<Rightarrow> ledger_work" where
  "stopLedgerWork_begin w = w\<lparr>wk_closing := True\<rparr>"

text \<open>\<open>WaitForLedgerWork\<close> without cancellation and the wait of \<open>stopLedgerWork\<close> return in this state.\<close>

definition work_joined :: "ledger_work \<Rightarrow> bool" where
  "work_joined w \<longleftrightarrow> \<not> wk_running w"

definition resetLedgerWork :: "ledger_work \<Rightarrow> ledger_work" where
  "resetLedgerWork w = w\<lparr>wk_closing := False, wk_pending := False, wk_work := False\<rparr>"

inductive worker_step :: "ledger_work \<Rightarrow> ledger_work \<Rightarrow> bool" where
  register: "worker_step w (RegisterLedgerWorker w)"
| commit: "worker_step w (w\<lparr>wk_queue := Suc (wk_queue w), wk_wakers := Suc (wk_wakers w)\<rparr>)"
| wake: "0 < wk_wakers w \<Longrightarrow> worker_step w ((WakeLedgerWorker w)\<lparr>wk_wakers := wk_wakers w - 1\<rparr>)"
| extra_wake: "worker_step w (WakeLedgerWorker w)"
| top: "k < length (wk_threads w) \<Longrightarrow> wk_threads w ! k = AtTop \<Longrightarrow> worker_step w (worker_top k w)"
| work_one: "k < length (wk_threads w) \<Longrightarrow> wk_threads w ! k = Working \<Longrightarrow> 0 < wk_queue w \<Longrightarrow>
    worker_step w (w\<lparr>wk_queue := wk_queue w - 1\<rparr>)"
| work_done: "k < length (wk_threads w) \<Longrightarrow> wk_threads w ! k = Working \<Longrightarrow> wk_queue w = 0 \<Longrightarrow>
    worker_step w (w\<lparr>wk_threads := (wk_threads w)[k := AtTop]\<rparr>)"
| stop: "worker_step w (stopLedgerWork_begin w)"
| reset: "wk_closing w \<Longrightarrow> work_joined w \<Longrightarrow> worker_step w (resetLedgerWork w)"

section \<open>The invariant\<close>

text \<open>At most one goroutine; a pending wake-up has a goroutine to take it; and a durable request is
  always about to be seen while the runner is installed and not closing.\<close>

definition worker_inv :: "ledger_work \<Rightarrow> bool" where
  "worker_inv w \<longleftrightarrow>
     length (wk_threads w) \<le> 1 \<and> (wk_running w \<longleftrightarrow> wk_threads w \<noteq> []) \<and>
     (wk_pending w \<longrightarrow> wk_running w) \<and>
     (wk_work w \<and> \<not> wk_closing w \<and> 0 < wk_queue w \<longrightarrow>
        0 < wk_wakers w \<or> wk_pending w \<or> Working \<in> set (wk_threads w))"

lemma worker_inv_init: "worker_inv (initLedgerWork n)"
  by (simp add: worker_inv_def initLedgerWork_def)

lemma single_thread: "length ts \<le> 1 \<Longrightarrow> k < length ts \<Longrightarrow> ts = [ts ! k]"
  by (cases ts) auto

lemma worker_inv_step:
  assumes inv: "worker_inv w" and "worker_step w w'"
  shows "worker_inv w'"
  using assms(2)
proof cases
  case (top k)
  then have "wk_threads w = [AtTop]" "k = 0"
    using inv single_thread[of "wk_threads w" k] by (auto simp: worker_inv_def)
  then show ?thesis using inv top by (auto simp: worker_inv_def worker_top_def)
next
  case (work_one k)
  then have "wk_threads w = [Working]"
    using inv single_thread[of "wk_threads w" k] by (auto simp: worker_inv_def)
  then show ?thesis using inv work_one by (auto simp: worker_inv_def)
next
  case (work_done k)
  then have "wk_threads w = [Working]" "k = 0"
    using inv single_thread[of "wk_threads w" k] by (auto simp: worker_inv_def)
  then show ?thesis using inv work_done by (auto simp: worker_inv_def)
qed (use inv in \<open>auto simp: worker_inv_def RegisterLedgerWorker_def WakeLedgerWorker_def
      stopLedgerWork_begin_def resetLedgerWork_def work_joined_def\<close>)

interpretation worker: step_machine "\<lambda>w. \<exists>n. w = initLedgerWork n" worker_step worker_inv
  by unfold_locales (auto intro: worker_inv_init worker_inv_step)

section \<open>Progress\<close>

text \<open>What the one goroutine does when it is scheduled, with the queue undisturbed.\<close>

definition worker_run1 :: "ledger_work \<Rightarrow> ledger_work" where
  "worker_run1 w =
     (case wk_threads w of
        [] \<Rightarrow> w
      | AtTop # _ \<Rightarrow> worker_top 0 w
      | Working # _ \<Rightarrow>
          if 0 < wk_queue w then w\<lparr>wk_queue := wk_queue w - 1\<rparr> else w\<lparr>wk_threads := (wk_threads w)[0 := AtTop]\<rparr>)"

definition run_measure :: "ledger_work \<Rightarrow> nat" where
  "run_measure w = wk_queue w + (if wk_pending w then 2 else 0) +
     (case wk_threads w of [] \<Rightarrow> 0 | AtTop # _ \<Rightarrow> 1 | Working # _ \<Rightarrow> 2)"

lemma worker_run1_step: "wk_threads w \<noteq> [] \<Longrightarrow> worker_step w (worker_run1 w)"
  using worker_step.top[of 0 w] worker_step.work_one[of 0 w] worker_step.work_done[of 0 w]
  by (cases "wk_threads w"; cases "hd (wk_threads w)") (auto simp: worker_run1_def)

lemma worker_run1_measure:
  "worker_inv w \<Longrightarrow> wk_threads w \<noteq> [] \<Longrightarrow> run_measure (worker_run1 w) < run_measure w"
  by (cases "wk_threads w"; cases "hd (wk_threads w)")
    (auto simp: worker_run1_def run_measure_def worker_top_def worker_inv_def)

lemma worker_run1_frame:
  "wk_work (worker_run1 w) = wk_work w" "wk_closing (worker_run1 w) = wk_closing w"
  "wk_wakers (worker_run1 w) = wk_wakers w"
  by (auto simp: worker_run1_def worker_top_def split: list.splits worker_pc.splits)

lemma worker_drains:
  assumes "worker_inv w"
  shows "\<exists>n \<le> run_measure w. wk_threads ((worker_run1 ^^ n) w) = [] \<and> worker_inv ((worker_run1 ^^ n) w)"
  using assms
proof (induction "run_measure w" arbitrary: w rule: less_induct)
  case less
  show ?case
  proof (cases "wk_threads w = []")
    case True
    then show ?thesis using less.prems by (intro exI[of _ 0]) simp
  next
    case False
    note dec = worker_run1_measure[OF less.prems False]
    have "worker_inv (worker_run1 w)" using worker_inv_step[OF less.prems worker_run1_step[OF False]] .
    then obtain n where "n \<le> run_measure (worker_run1 w)" "wk_threads ((worker_run1 ^^ n) (worker_run1 w)) = []"
      "worker_inv ((worker_run1 ^^ n) (worker_run1 w))"
      using less.hyps[OF dec] by blast
    then show ?thesis using dec by (intro exI[of _ "Suc n"]) (simp add: funpow_swap1)
  qed
qed

lemma worker_run_frame:
  "wk_work ((worker_run1 ^^ n) w) = wk_work w" "wk_closing ((worker_run1 ^^ n) w) = wk_closing w"
  "wk_wakers ((worker_run1 ^^ n) w) = wk_wakers w"
  by (induction n) (simp_all add: worker_run1_frame)

section \<open>Properties\<close>

text \<open>C16: the worker loses no request: in every reachable state with the runner installed and not closing, an
  idle worker with no caller about to wake it has an empty queue; and at most one goroutine ever runs.\<close>

theorem worker_no_lost_request:
  assumes "worker_step\<^sup>*\<^sup>* (initLedgerWork n) w"
  shows "length (wk_threads w) \<le> 1 \<and>
    (wk_work w \<and> \<not> wk_closing w \<and> \<not> wk_running w \<and> wk_wakers w = 0 \<longrightarrow> wk_queue w = 0)"
proof -
  have "worker_inv w" using worker.inv_reachable[of "initLedgerWork n" w] assms by blast
  then show ?thesis by (auto simp: worker_inv_def)
qed

theorem worker_no_lost_request_witness:
  "wk_queue (worker_top 0 (worker_run1 (worker_run1 (worker_top 0 ((WakeLedgerWorker
     (RegisterLedgerWorker (initLedgerWork 1)))\<lparr>wk_wakers := 0\<rparr>))))) = 0"
proof -
  let ?r = "RegisterLedgerWorker (initLedgerWork 1)"
  let ?w = "(WakeLedgerWorker ?r)\<lparr>wk_wakers := 0\<rparr>"
  let ?t = "worker_top 0 ?w"
  let ?d = "worker_run1 (worker_run1 ?t)"
  let ?e = "worker_top 0 ?d"
  have "worker_step (initLedgerWork 1) ?r" by (rule worker_step.register)
  moreover have "worker_step ?r ((WakeLedgerWorker ?r)\<lparr>wk_wakers := wk_wakers ?r - 1\<rparr>)"
    by (rule worker_step.wake) code_simp
  then have "worker_step ?r ?w" by (simp add: RegisterLedgerWorker_def initLedgerWork_def)
  moreover have "wk_threads ?w \<noteq> []" "wk_threads ?t \<noteq> []" "wk_threads (worker_run1 ?t) \<noteq> []" "wk_threads ?d \<noteq> []"
    by code_simp+
  moreover have "worker_run1 ?w = ?t" "worker_run1 ?d = ?e" by code_simp+
  ultimately have "worker_step\<^sup>*\<^sup>* (initLedgerWork 1) ?e"
    using worker_run1_step[of ?w] worker_run1_step[of ?t] worker_run1_step[of "worker_run1 ?t"] worker_run1_step[of ?d]
    by (metis converse_rtranclp_into_rtranclp rtranclp.rtrancl_refl)
  moreover have "wk_work ?e \<and> \<not> wk_closing ?e \<and> \<not> wk_running ?e \<and> wk_wakers ?e = 0" by code_simp
  ultimately show ?thesis using worker_no_lost_request by blast
qed

text \<open>The worker makes progress: from every reachable state the running goroutine, left alone, ends after
  at most \<open>run_measure\<close> of its own steps, and when no caller was about to wake it the queue is then empty.\<close>

theorem worker_ends_with_empty_queue:
  assumes "worker_step\<^sup>*\<^sup>* (initLedgerWork n) w" and "wk_work w" and "\<not> wk_closing w" and "wk_wakers w = 0"
  shows "\<exists>k \<le> run_measure w. \<not> wk_running ((worker_run1 ^^ k) w) \<and> wk_queue ((worker_run1 ^^ k) w) = 0"
proof -
  have "worker_inv w" using worker.inv_reachable[of "initLedgerWork n" w] assms(1) by blast
  from worker_drains[OF this] obtain k where "k \<le> run_measure w" "wk_threads ((worker_run1 ^^ k) w) = []"
    "worker_inv ((worker_run1 ^^ k) w)" by blast
  then show ?thesis using assms worker_run_frame[of k w] by (intro exI[of _ k]) (auto simp: worker_inv_def)
qed

theorem worker_ends_with_empty_queue_witness:
  "\<exists>k \<le> run_measure ((WakeLedgerWorker (RegisterLedgerWorker (initLedgerWork 3)))\<lparr>wk_wakers := 0\<rparr>).
     wk_queue ((worker_run1 ^^ k) ((WakeLedgerWorker (RegisterLedgerWorker (initLedgerWork 3)))\<lparr>wk_wakers := 0\<rparr>)) = 0"
proof -
  let ?r = "RegisterLedgerWorker (initLedgerWork 3)"
  let ?w = "(WakeLedgerWorker ?r)\<lparr>wk_wakers := 0\<rparr>"
  have "worker_step ?r ((WakeLedgerWorker ?r)\<lparr>wk_wakers := wk_wakers ?r - 1\<rparr>)"
    by (rule worker_step.wake) code_simp
  then have "worker_step ?r ?w" by (simp add: RegisterLedgerWorker_def initLedgerWork_def)
  then have "worker_step\<^sup>*\<^sup>* (initLedgerWork 3) ?w"
    using worker_step.register[of "initLedgerWork 3"] by (meson converse_rtranclp_into_rtranclp rtranclp.rtrancl_refl)
  moreover have "wk_work ?w" "\<not> wk_closing ?w" "wk_wakers ?w = 0" by code_simp+
  ultimately show ?thesis using worker_ends_with_empty_queue by blast
qed

end
