(* ===== verification/AITransactions.thy ===== *)
theory AITransactions
  imports LedgerHistory
begin

text \<open>
  The write path of AI clients, \<open>core/ai_transaction.go\<close>: an idempotency claim, the daily quota of the
  credential and the ledger write in one SQL transaction. A replay of a claimed key answers with the stored
  response. The instant of a call is its UTC calendar second and its nanoseconds; a claim row keeps it in
  place of its RFC 3339 text.
\<close>

section \<open>State\<close>

type_synonym instant = "stamp \<times> nat"

record ai_claim =
  ac_credential :: string
  ac_key :: bytes
  ac_request :: bytes
  ac_response :: "(int \<times> string \<times> string) option"
  ac_created :: instant

record ai_usage =
  au_credential :: string
  au_date :: string
  au_creates :: int

record ai_service =
  ai_svc :: service
  ai_claims :: "ai_claim list"
  ai_usages :: "ai_usage list"

record AITransactionIdentity =
  CredentialID :: string
  IdempotencyKeySHA256 :: bytes
  RequestSHA256 :: bytes
  MaxTransactionsPerDay :: int
  Now :: instant

text \<open>The answer: id, account and date of the transaction, and the whole row unless it is a replay.\<close>

record AITransactionResult =
  ar_response :: "int \<times> string \<times> string"
  ar_row :: "tx_row option"

datatype ai_error =
    ErrAIIdentity
  | ErrAIIdempotencyConflict
  | AIDailyQuotaExceededError int
  | ErrAIIncomplete
  | ErrAIStorage
  | ErrAILedger lerr

section \<open>Operations\<close>

text \<open>\<open>ToResponse\<close> prints the day, and the time of day unless it is midnight.\<close>

definition response_date :: "stamp \<Rightarrow> string" where
  "response_date = (\<lambda>(y, m, d, h, mi, s). format_day (y, m, d) @
     (if h = 0 \<and> mi = 0 \<and> s = 0 then [] else '' '' @ two h @ '':'' @ two mi @ '':'' @ two s))"

definition ToResponse :: "tx_row \<Rightarrow> int \<times> string \<times> string" where
  "ToResponse r = (tx_id r, tx_account r, response_date (tx_date r))"

definition utc_date :: "instant \<Rightarrow> string" where
  "utc_date = (\<lambda>((y, m, d, _), _). format_day (y, m, d))"

definition is_zero_time :: "instant \<Rightarrow> bool" where
  "is_zero_time t \<longleftrightarrow> t = ((1, 1, 1, 0, 0, 0), 0)"

definition claim_key :: "ai_claim \<Rightarrow> string \<times> bytes" where
  "claim_key c = (ac_credential c, ac_key c)"

definition claimAIIdempotency ::
  "AITransactionIdentity \<Rightarrow> ai_claim list \<Rightarrow> (ai_error, ai_claim list \<times> (int \<times> string \<times> string) option) result" where
  "claimAIIdempotency identity claims =
     (case List.find (\<lambda>c. claim_key c = (CredentialID identity, IdempotencyKeySHA256 identity)) claims of
        None \<Rightarrow>
          if length (IdempotencyKeySHA256 identity) = 32 \<and> length (RequestSHA256 identity) = 32
          then Inr (claims @ [\<lparr>ac_credential = CredentialID identity, ac_key = IdempotencyKeySHA256 identity,
                 ac_request = RequestSHA256 identity, ac_response = None, ac_created = Now identity\<rparr>], None)
          else Inl ErrAIStorage
      | Some c \<Rightarrow>
          if length (ac_request c) \<noteq> length (RequestSHA256 identity) \<or> ac_request c \<noteq> RequestSHA256 identity
          then Inl ErrAIIdempotencyConflict
          else (case ac_response c of None \<Rightarrow> Inl ErrAIIncomplete | Some r \<Rightarrow> Inr (claims, Some r)))"

text \<open>Nanoseconds to the next UTC midnight, and the seconds rounded up.\<close>

definition day_remaining :: "instant \<Rightarrow> int" where
  "day_remaining = (\<lambda>((_, _, _, h, mi, s), ns). 86400 * 10 ^ 9 - (int (h * 3600 + mi * 60 + s) * 10 ^ 9 + int ns))"

definition retry_after :: "instant \<Rightarrow> int" where
  "retry_after now =
     (let remaining = day_remaining now;
          seconds = remaining div 10 ^ 9 + (if remaining mod 10 ^ 9 \<noteq> 0 then 1 else 0) in
      if seconds < 1 then 1 else seconds)"

definition consumeAIDailyQuota ::
  "AITransactionIdentity \<Rightarrow> ai_usage list \<Rightarrow> (ai_error, ai_usage list) result" where
  "consumeAIDailyQuota identity usages =
     (let mine = (\<lambda>u. au_credential u = CredentialID identity \<and> au_date u = utc_date (Now identity)) in
      case List.find mine usages of
        None \<Rightarrow>
          if length (utc_date (Now identity)) = 10
          then Inr (usages @ [\<lparr>au_credential = CredentialID identity, au_date = utc_date (Now identity), au_creates = 1\<rparr>])
          else Inl ErrAIStorage
      | Some u \<Rightarrow>
          if au_creates u < MaxTransactionsPerDay identity
          then Inr (upd_where mine (\<lambda>u. u\<lparr>au_creates := au_creates u + 1\<rparr>) usages)
          else Inl (AIDailyQuotaExceededError (retry_after (Now identity))))"

text \<open>Storing the response: exactly one incomplete claim, and no other claim of the transaction.\<close>

definition store_response ::
  "AITransactionIdentity \<Rightarrow> int \<times> string \<times> string \<Rightarrow> ai_claim list \<Rightarrow> (ai_error, ai_claim list) result" where
  "store_response identity response claims =
     (let mine = (\<lambda>c. claim_key c = (CredentialID identity, IdempotencyKeySHA256 identity) \<and> ac_response c = None) in
      if \<exists>c\<in>set claims. map_option fst (ac_response c) = Some (fst response) then Inl ErrAIStorage
      else bindE (guardE (count_where mine claims = 1) ErrAIStorage) (\<lambda>_.
        Inr (upd_where mine (\<lambda>c. c\<lparr>ac_response := Some response\<rparr>) claims)))"

text \<open>The SQL transaction.\<close>

definition ai_tx ::
  "prepared_insert \<Rightarrow> AITransactionIdentity \<Rightarrow> ai_service \<Rightarrow> (ai_error, ai_service \<times> AITransactionResult) result" where
  "ai_tx prepared identity A =
     bindE (claimAIIdempotency identity (ai_claims A)) (\<lambda>(claims, replay).
     case replay of
       Some r \<Rightarrow> Inr (A, \<lparr>ar_response = r, ar_row = None\<rparr>)
     | None \<Rightarrow>
         bindE (consumeAIDailyQuota identity (ai_usages A)) (\<lambda>usages.
         bindE (mapErr ErrAILedger (addPreparedTransactionIn prepared (svc_ledger (ai_svc A)))) (\<lambda>(L, row).
         bindE (store_response identity (ToResponse row) claims) (\<lambda>claims'.
         Inr (A\<lparr>ai_svc := autoSnapshot ((ai_svc A)\<lparr>svc_ledger := L\<rparr>), ai_claims := claims', ai_usages := usages\<rparr>,
              \<lparr>ar_response = ToResponse row, ar_row = Some row\<rparr>)))))"

definition AddAITransaction ::
  "image_codec \<Rightarrow> TransactionRequest \<Rightarrow> AITransactionIdentity \<Rightarrow> ai_service \<Rightarrow>
     (ai_error, AITransactionResult) result \<times> ai_service" where
  "AddAITransaction codec req identity A =
     (case bindE (mapErr ErrAILedger (database (ai_svc A))) (\<lambda>_.
           bindE (guardE (\<not> (CredentialID identity = [] \<or> MaxTransactionsPerDay identity \<le> 0 \<or> is_zero_time (Now identity)))
              ErrAIIdentity) (\<lambda>_.
           bindE (mapErr ErrAILedger (prepareTransactionInsert codec req)) (\<lambda>prepared.
           ai_tx prepared identity A))) of
        Inl e \<Rightarrow> (Inl e, A)
      | Inr (A', x) \<Rightarrow> (Inr x, A'))"

section \<open>The invariant\<close>

definition usage_of :: "string \<Rightarrow> string \<Rightarrow> ai_usage list \<Rightarrow> int" where
  "usage_of c d us = (case List.find (\<lambda>u. au_credential u = c \<and> au_date u = d) us of None \<Rightarrow> 0 | Some u \<Rightarrow> au_creates u)"

definition claims_on :: "string \<Rightarrow> string \<Rightarrow> ai_claim list \<Rightarrow> nat" where
  "claims_on c d cs = count_where (\<lambda>x. ac_credential x = c \<and> utc_date (ac_created x) = d) cs"

text \<open>Keys are unique, every claim has its response and no two of them name the same transaction, and the
  usage table counts exactly the claims of each credential and day.\<close>

definition ai_ok :: "ai_service \<Rightarrow> bool" where
  "ai_ok A \<longleftrightarrow> distinct (map claim_key (ai_claims A)) \<and> (\<forall>c\<in>set (ai_claims A). ac_response c \<noteq> None) \<and>
     distinct (map (\<lambda>c. map_option fst (ac_response c)) (ai_claims A)) \<and>
     distinct (map (\<lambda>u. (au_credential u, au_date u)) (ai_usages A)) \<and>
     (\<forall>c d. usage_of c d (ai_usages A) = int (claims_on c d (ai_claims A)))"

lemma consume_ok:
  assumes d: "distinct (map (\<lambda>u. (au_credential u, au_date u)) us)" and run: "consumeAIDailyQuota identity us = Inr us'"
    and max: "0 < MaxTransactionsPerDay identity" and nn: "\<forall>c d. 0 \<le> usage_of c d us"
  shows "distinct (map (\<lambda>u. (au_credential u, au_date u)) us')"
    and "usage_of c x us' = usage_of c x us + (if c = CredentialID identity \<and> x = utc_date (Now identity) then 1 else 0)"
    and "usage_of (CredentialID identity) (utc_date (Now identity)) us' \<le> MaxTransactionsPerDay identity"
proof -
  let ?c = "CredentialID identity" and ?d = "utc_date (Now identity)"
  let ?m = "\<lambda>u. au_credential u = ?c \<and> au_date u = ?d" and ?k = "\<lambda>u. (au_credential u, au_date u)"
  let ?f = "\<lambda>u. u\<lparr>au_creates := au_creates u + 1\<rparr>"
  show "distinct (map ?k us')"
    using run d by (auto simp: consumeAIDailyQuota_def Let_def find_None_iff table_simps split: option.splits if_splits) blast
  have main: "usage_of c x us' = usage_of c x us + (if c = ?c \<and> x = ?d then 1 else 0)" for c x
  proof (cases "List.find ?m us")
    case None
    then have us': "us' = us @ [\<lparr>au_credential = ?c, au_date = ?d, au_creates = 1\<rparr>]"
      using run by (auto simp: consumeAIDailyQuota_def Let_def split: if_splits)
    show ?thesis using None by (auto simp: us' usage_of_def find_append split: option.splits)
  next
    case (Some u)
    then have us': "us' = upd_where ?m ?f us" using run by (auto simp: consumeAIDailyQuota_def Let_def split: if_splits)
    show ?thesis
    proof (cases "c = ?c \<and> x = ?d")
      case True
      have d': "distinct (map ?k us')" unfolding us' using d by (simp add: table_simps)
      have "u \<in> set us \<and> ?m u" using find_SomeD[OF Some] .
      then have "?f u \<in> set us'" "?k (?f u) = (?c, ?d)" unfolding us' set_upd_where by force+
      then have "List.find (\<lambda>u. ?k u = (?c, ?d)) us' = Some (?f u)" using find_eq_Some_iff[OF d'] by blast
      then show ?thesis using True Some by (simp add: usage_of_def)
    next
      case False
      then have "List.find (\<lambda>u. au_credential u = c \<and> au_date u = x) us' = List.find (\<lambda>u. au_credential u = c \<and> au_date u = x) us"
        unfolding us' by (intro find_upd_where_other) auto
      then show ?thesis using False by (auto simp: usage_of_def)
    qed
  qed
  then show "usage_of c x us' = usage_of c x us + (if c = ?c \<and> x = ?d then 1 else 0)" .
  show "usage_of ?c ?d us' \<le> MaxTransactionsPerDay identity"
    unfolding main using run max by (auto simp: consumeAIDailyQuota_def usage_of_def Let_def split: option.splits if_splits)
qed

text \<open>A call that creates a transaction: the claim list grows by one completed claim.\<close>

definition new_claim :: "AITransactionIdentity \<Rightarrow> int \<times> string \<times> string \<Rightarrow> ai_claim" where
  "new_claim identity r = \<lparr>ac_credential = CredentialID identity, ac_key = IdempotencyKeySHA256 identity,
     ac_request = RequestSHA256 identity, ac_response = Some r, ac_created = Now identity\<rparr>"

lemma upd_where_append: "upd_where p f (xs @ ys) = upd_where p f xs @ upd_where p f ys"
  by (simp add: upd_where_def)

lemma claim_store:
  assumes claim: "claimAIIdempotency identity claims = Inr (claims1, None)" and run: "store_response identity r claims1 = Inr claims'"
  shows "claims' = claims @ [new_claim identity r]"
    and "(CredentialID identity, IdempotencyKeySHA256 identity) \<notin> claim_key ` set claims"
    and "\<And>c q. c \<in> set claims \<Longrightarrow> ac_response c = Some q \<Longrightarrow> fst q \<noteq> fst r"
proof -
  let ?k = "(CredentialID identity, IdempotencyKeySHA256 identity)"
  have none: "List.find (\<lambda>c. claim_key c = ?k) claims = None"
    and c1: "claims1 = claims @ [\<lparr>ac_credential = CredentialID identity, ac_key = IdempotencyKeySHA256 identity,
      ac_request = RequestSHA256 identity, ac_response = None, ac_created = Now identity\<rparr>]"
    using claim by (auto simp: claimAIIdempotency_def split: option.splits if_splits)
  show new: "?k \<notin> claim_key ` set claims" using none by (auto simp: find_None_iff)
  have "upd_where (\<lambda>c. claim_key c = ?k \<and> ac_response c = None) (\<lambda>c. c\<lparr>ac_response := Some r\<rparr>) claims = claims"
    using new by (intro upd_where_id) (metis imageI)
  then show "claims' = claims @ [new_claim identity r]"
    using run by (auto simp: store_response_def c1 Let_def res_simps upd_where_append table_simps claim_key_def new_claim_def split: if_splits)
  show "\<And>c q. c \<in> set claims \<Longrightarrow> ac_response c = Some q \<Longrightarrow> fst q \<noteq> fst r"
    using run unfolding store_response_def c1 Let_def by (force split: if_splits)
qed

lemma ai_call_cases:
  assumes "AddAITransaction codec req identity A = (res, A')"
  obtains (error) e where "res = Inl e" "A' = A"
  | (replay) c r where "A' = A" "res = Inr \<lparr>ar_response = r, ar_row = None\<rparr>" "c \<in> set (ai_claims A)"
      "claim_key c = (CredentialID identity, IdempotencyKeySHA256 identity)" "ac_request c = RequestSHA256 identity"
      "ac_response c = Some r"
  | (create) prepared L row usages where "prepareTransactionInsert codec req = Inr prepared"
      "0 < MaxTransactionsPerDay identity" "consumeAIDailyQuota identity (ai_usages A) = Inr usages"
      "addPreparedTransactionIn prepared (svc_ledger (ai_svc A)) = Inr (L, row)"
      "res = Inr \<lparr>ar_response = ToResponse row, ar_row = Some row\<rparr>"
      "(CredentialID identity, IdempotencyKeySHA256 identity) \<notin> claim_key ` set (ai_claims A)"
      "\<And>c q. c \<in> set (ai_claims A) \<Longrightarrow> ac_response c = Some q \<Longrightarrow> fst q \<noteq> tx_id row"
      "A' = A\<lparr>ai_svc := autoSnapshot ((ai_svc A)\<lparr>svc_ledger := L\<rparr>), ai_claims := ai_claims A @ [new_claim identity (ToResponse row)],
        ai_usages := usages\<rparr>"
proof (cases res)
  case (Inl e)
  then have "A' = A" using assms by (auto simp: AddAITransaction_def split: sum.splits)
  then show thesis using error Inl by blast
next
  case (Inr x)
  obtain prepared where p: "prepareTransactionInsert codec req = Inr prepared" and tx: "ai_tx prepared identity A = Inr (A', x)"
    and m: "0 < MaxTransactionsPerDay identity"
    using assms Inr by (auto simp: AddAITransaction_def res_simps split: sum.splits)
  obtain claims rep where cl: "claimAIIdempotency identity (ai_claims A) = Inr (claims, rep)"
    using tx by (auto simp: ai_tx_def res_simps)
  show thesis
  proof (cases rep)
    case (Some r)
    then have "\<exists>c. c \<in> set (ai_claims A) \<and> claim_key c = (CredentialID identity, IdempotencyKeySHA256 identity) \<and>
        ac_request c = RequestSHA256 identity \<and> ac_response c = Some r"
      using cl by (auto simp: claimAIIdempotency_def split: option.splits if_splits dest!: find_SomeD)
    moreover have "A' = A" "x = \<lparr>ar_response = r, ar_row = None\<rparr>" using tx cl Some by (auto simp: ai_tx_def)
    ultimately show thesis using replay Inr by blast
  next
    case None
    obtain usages L row claims' where q: "consumeAIDailyQuota identity (ai_usages A) = Inr usages"
      "addPreparedTransactionIn prepared (svc_ledger (ai_svc A)) = Inr (L, row)"
      and st: "store_response identity (ToResponse row) claims = Inr claims'"
      and A': "A' = A\<lparr>ai_svc := autoSnapshot ((ai_svc A)\<lparr>svc_ledger := L\<rparr>), ai_claims := claims', ai_usages := usages\<rparr>"
        "x = \<lparr>ar_response = ToResponse row, ar_row = Some row\<rparr>"
      using tx cl None by (auto simp: ai_tx_def res_simps)
    note s = claim_store[OF cl[unfolded None] st]
    show thesis by (rule create[OF p m q]) (use Inr A' s in \<open>auto simp: ToResponse_def\<close>)
  qed
qed

lemma ai_call_ok:
  assumes ok: "ai_ok A" and run: "AddAITransaction codec req identity A = (res, A')"
  shows "ai_ok A'"
  using run
proof (cases rule: ai_call_cases)
  case (create prepared L row usages)
  have u: "distinct (map (\<lambda>u. (au_credential u, au_date u)) (ai_usages A))" "\<forall>c d. 0 \<le> usage_of c d (ai_usages A)"
    using ok by (simp_all add: ai_ok_def)
  note c = consume_ok[OF u(1) create(3,2) u(2)]
  let ?n = "new_claim identity (ToResponse row)"
  have n: "claim_key ?n = (CredentialID identity, IdempotencyKeySHA256 identity)" "ac_response ?n = Some (ToResponse row)"
    "ac_credential ?n = CredentialID identity" "ac_created ?n = Now identity" by (simp_all add: new_claim_def claim_key_def)
  have cnt: "claims_on x d (ai_claims A @ [?n]) = claims_on x d (ai_claims A) +
      (if x = CredentialID identity \<and> d = utc_date (Now identity) then 1 else 0)" for x d
    by (auto simp: claims_on_def count_where_def n)
  have "map_option fst (ac_response c) \<noteq> Some (tx_id row)" if "c \<in> set (ai_claims A)" for c
    using create(7)[OF that] by (cases "ac_response c") auto
  moreover have "map_option fst (ac_response ?n) = Some (tx_id row)" by (simp add: new_claim_def ToResponse_def)
  ultimately have "map_option fst (ac_response ?n) \<notin> (\<lambda>c. map_option fst (ac_response c)) ` set (ai_claims A)"
    by (metis (no_types, lifting) imageE)
  then show ?thesis using ok create(6) n cnt c by (auto simp: ai_ok_def create(8)) (metis prod_cases3)
qed (use ok in auto)

section \<open>Histories\<close>

text \<open>Calls of AI clients between any other writes to the ledger.\<close>

inductive ai_step :: "image_codec \<Rightarrow> ai_service \<Rightarrow> ai_service \<Rightarrow> bool" for codec where
  step_ai: "AddAITransaction codec req identity A = (res, A') \<Longrightarrow> ai_step codec A A'"
| step_ledger: "ledger_step codec (ai_svc A) s \<Longrightarrow> ai_step codec A (A\<lparr>ai_svc := s\<rparr>)"

definition ai_fresh :: "ai_service \<Rightarrow> bool" where
  "ai_fresh A \<longleftrightarrow> fresh_service (ai_svc A) \<and> ai_claims A = [] \<and> ai_usages A = []"

definition ai_inv :: "ai_service \<Rightarrow> bool" where
  "ai_inv A \<longleftrightarrow> ai_ok A \<and> ledger_ok (svc_ledger (ai_svc A))"

lemma ai_call_ledger:
  assumes "AddAITransaction codec req identity A = (res, A')" and "ledger_ok (svc_ledger (ai_svc A))"
  shows "ledger_ok (svc_ledger (ai_svc A'))"
  using assms(1)
proof (cases rule: ai_call_cases)
  case (create prepared L row usages)
  then show ?thesis using addPreparedTransactionIn_ok[OF assms(2) create(4)] by simp
qed (use assms(2) in auto)

interpretation ai_history: step_machine ai_fresh "ai_step codec" ai_inv
proof unfold_locales
  fix A show "ai_fresh A \<Longrightarrow> ai_inv A"
    by (auto simp: ai_fresh_def ai_inv_def ai_ok_def fresh_service_def ledger_ok_empty usage_of_def claims_on_def count_where_def)
next
  fix A B assume i: "ai_inv A" and st: "ai_step codec A B"
  from st show "ai_inv B"
  proof cases
    case (step_ai req identity res)
    then show ?thesis using i ai_call_ok ai_call_ledger unfolding ai_inv_def by blast
  next
    case (step_ledger s)
    then show ?thesis using i ledger_step_ok[OF step_ledger(2)] by (simp add: ai_inv_def ai_ok_def)
  qed
qed

lemma ai_step_claims: "ai_step codec A B \<Longrightarrow> set (ai_claims A) \<subseteq> set (ai_claims B)"
proof (erule ai_step.cases)
  fix req identity A0 res A'
  assume "AddAITransaction codec req identity A0 = (res, A')" "A = A0" "B = A'"
  then show ?thesis by (cases rule: ai_call_cases) auto
qed auto

lemma ai_steps_claims: "(ai_step codec)\<^sup>*\<^sup>* A B \<Longrightarrow> set (ai_claims A) \<subseteq> set (ai_claims B)"
  by (induction rule: rtranclp_induct) (auto dest: ai_step_claims)

text \<open>A call on a known key.\<close>

lemma known_key:
  assumes ok: "ai_ok A" and c: "c \<in> set (ai_claims A)" "claim_key c = (CredentialID identity, IdempotencyKeySHA256 identity)"
    "ac_response c = Some r"
  shows "claimAIIdempotency identity (ai_claims A) =
    (if ac_request c = RequestSHA256 identity then Inr (ai_claims A, Some r) else Inl ErrAIIdempotencyConflict)"
proof -
  have "List.find (\<lambda>c. claim_key c = (CredentialID identity, IdempotencyKeySHA256 identity)) (ai_claims A) = Some c"
    using ok c by (subst find_eq_Some_iff) (auto simp: ai_ok_def)
  then show ?thesis using c(3) by (auto simp: claimAIIdempotency_def)
qed

lemma known_call:
  assumes ok: "ai_ok A" and c: "c \<in> set (ai_claims A)" "claim_key c = (CredentialID identity, IdempotencyKeySHA256 identity)"
    "ac_response c = Some r"
  shows "snd (AddAITransaction codec req identity A) = A"
    and "okE (database (ai_svc A)) \<Longrightarrow> CredentialID identity \<noteq> [] \<Longrightarrow> 0 < MaxTransactionsPerDay identity \<Longrightarrow>
      \<not> is_zero_time (Now identity) \<Longrightarrow> okE (prepareTransactionInsert codec req) \<Longrightarrow>
      fst (AddAITransaction codec req identity A) = (if ac_request c = RequestSHA256 identity
        then Inr \<lparr>ar_response = r, ar_row = None\<rparr> else Inl ErrAIIdempotencyConflict)"
  using known_key[OF assms]
  by (auto simp: AddAITransaction_def ai_tx_def okE_iff guardE_def bindE_def split: sum.splits)

lemma round_up:
  fixes r k n :: int
  assumes "r \<le> n * k" and k: "0 < k"
  shows "r div k \<le> n \<and> (r mod k \<noteq> 0 \<longrightarrow> r div k + 1 \<le> n)"
proof -
  note e = div_mult_mod_eq[of r k]
  have m: "0 \<le> r mod k" using k by simp
  have "(r div k) * k \<le> n * k" using assms(1) e m by linarith
  then have "r div k \<le> n" using k by simp
  moreover have "(r div k) * k < n * k" if "r mod k \<noteq> 0" using assms(1) e m that by linarith
  then have "r mod k \<noteq> 0 \<longrightarrow> r div k < n" using k by simp
  ultimately show ?thesis by auto
qed

lemma retry_after_bounds: "1 \<le> retry_after now \<and> retry_after now \<le> 86400"
proof -
  obtain y m d h mi s ns where n: "now = ((y, m, d, h, mi, s), ns)" by (cases now) auto
  let ?r = "day_remaining now"
  have "?r \<le> 86400 * 10 ^ 9" unfolding n day_remaining_def by simp
  then have "?r div 10 ^ 9 \<le> 86400 \<and> (?r mod 10 ^ 9 \<noteq> 0 \<longrightarrow> ?r div 10 ^ 9 + 1 \<le> 86400)" by (intro round_up) simp_all
  then show ?thesis unfolding retry_after_def Let_def by simp
qed

lemma quota_error:
  assumes "fst (AddAITransaction codec req identity A) = Inl (AIDailyQuotaExceededError n)"
  shows "MaxTransactionsPerDay identity \<le> usage_of (CredentialID identity) (utc_date (Now identity)) (ai_usages A) \<and>
    n = retry_after (Now identity)"
proof -
  have "consumeAIDailyQuota identity (ai_usages A) = Inl (AIDailyQuotaExceededError n)"
    using assms
    by (auto simp: AddAITransaction_def ai_tx_def res_simps claimAIIdempotency_def store_response_def Let_def
        split: sum.splits option.splits if_splits)
  then show ?thesis by (auto simp: consumeAIDailyQuota_def usage_of_def Let_def split: option.splits if_splits)
qed

section \<open>Properties\<close>

text \<open>C25: an AI request is applied at most once: after a successful call, in every later state, a call with the
  same credential and key changes nothing at all, unless a CSV restore has deleted the claims in between; if it is valid, it answers with the stored response when it
  carries the same request digest and with a conflict otherwise.\<close>

theorem ai_request_applied_once:
  assumes "ai_ok A" and "AddAITransaction codec req identity A = (Inr x, A')" and "(ai_step codec)\<^sup>*\<^sup>* A' B"
    and "ai_inv A'"
    and "CredentialID identity' = CredentialID identity" and "IdempotencyKeySHA256 identity' = IdempotencyKeySHA256 identity"
  shows "snd (AddAITransaction codec req' identity' B) = B \<and>
    (okE (database (ai_svc B)) \<and> CredentialID identity' \<noteq> [] \<and> 0 < MaxTransactionsPerDay identity' \<and>
      \<not> is_zero_time (Now identity') \<and> okE (prepareTransactionInsert codec req') \<longrightarrow>
      fst (AddAITransaction codec req' identity' B) = (if RequestSHA256 identity' = RequestSHA256 identity
        then Inr \<lparr>ar_response = ar_response x, ar_row = None\<rparr> else Inl ErrAIIdempotencyConflict))"
proof -
  have "\<exists>c\<in>set (ai_claims A'). claim_key c = (CredentialID identity, IdempotencyKeySHA256 identity) \<and>
      ac_request c = RequestSHA256 identity \<and> ac_response c = Some (ar_response x)"
    using assms(2) by (cases rule: ai_call_cases) (auto simp: new_claim_def claim_key_def)
  then obtain c where c: "c \<in> set (ai_claims B)" "claim_key c = (CredentialID identity', IdempotencyKeySHA256 identity')"
    "ac_response c = Some (ar_response x)" "ac_request c = RequestSHA256 identity"
    using ai_steps_claims[OF assms(3)] assms(5,6) by auto
  have "ai_ok B" using ai_history.inv_steps[OF assms(3,4)] by (simp add: ai_inv_def)
  then show ?thesis using known_call[of B c identity' "ar_response x" codec req'] c by auto
qed

text \<open>C30: the daily quota is exact: in every state reached without a CSV restore, which deletes both tables, the usage of a
  credential on a UTC day is the number of transactions it created that day, a call that creates one counts once and stays within its limit, and a
  refusal happens only at the limit and announces between one second and one day.\<close>

theorem ai_quota_exact:
  assumes "ai_fresh A0" and "(ai_step codec)\<^sup>*\<^sup>* A0 A"
  shows "usage_of c d (ai_usages A) = int (claims_on c d (ai_claims A)) \<and>
    (\<forall>x A'. AddAITransaction codec req identity A = (Inr x, A') \<and> ar_row x \<noteq> None \<longrightarrow>
       claims_on (CredentialID identity) (utc_date (Now identity)) (ai_claims A') =
         claims_on (CredentialID identity) (utc_date (Now identity)) (ai_claims A) + 1 \<and>
       int (claims_on (CredentialID identity) (utc_date (Now identity)) (ai_claims A')) \<le> MaxTransactionsPerDay identity) \<and>
    (\<forall>n. fst (AddAITransaction codec req identity A) = Inl (AIDailyQuotaExceededError n) \<longrightarrow>
       MaxTransactionsPerDay identity \<le> int (claims_on (CredentialID identity) (utc_date (Now identity)) (ai_claims A)) \<and>
       1 \<le> n \<and> n \<le> 86400)"
proof -
  let ?c = "CredentialID identity" and ?d = "utc_date (Now identity)"
  have ok: "ai_ok A" using ai_history.inv_reachable[OF assms] by (simp add: ai_inv_def)
  have u: "usage_of c d (ai_usages A) = int (claims_on c d (ai_claims A))" for c d using ok by (simp add: ai_ok_def)
  have "claims_on ?c ?d (ai_claims A') = claims_on ?c ?d (ai_claims A) + 1 \<and>
      int (claims_on ?c ?d (ai_claims A')) \<le> MaxTransactionsPerDay identity"
    if run: "AddAITransaction codec req identity A = (Inr x, A')" "ar_row x \<noteq> None" for x A'
    using run(1)
  proof (cases rule: ai_call_cases)
    case (create prepared L row usages)
    have "distinct (map (\<lambda>u. (au_credential u, au_date u)) (ai_usages A))" "\<forall>c d. 0 \<le> usage_of c d (ai_usages A)"
      using ok by (simp_all add: ai_ok_def)
    note q = consume_ok(2,3)[OF this(1) create(3,2) this(2)]
    have "usage_of ?c ?d (ai_usages A') = int (claims_on ?c ?d (ai_claims A'))" using ai_call_ok[OF ok run(1)] by (simp add: ai_ok_def)
    moreover have "ai_usages A' = usages" by (simp add: create(8))
    ultimately show ?thesis using q u[of ?c ?d] by simp
  qed (use run(2) in auto)
  moreover have "MaxTransactionsPerDay identity \<le> int (claims_on ?c ?d (ai_claims A)) \<and> 1 \<le> n \<and> n \<le> 86400"
    if "fst (AddAITransaction codec req identity A) = Inl (AIDailyQuotaExceededError n)" for n
    using quota_error[OF that] u[of ?c ?d] retry_after_bounds[of "Now identity"] by auto
  ultimately show ?thesis using u by blast
qed

definition sample_identity :: "8 word \<Rightarrow> AITransactionIdentity" where
  "sample_identity b = \<lparr>CredentialID = ''ai'', IdempotencyKeySHA256 = replicate 32 1, RequestSHA256 = replicate 32 b,
     MaxTransactionsPerDay = 2, Now = ((2024, 5, 1, 12, 0, 0), 5)\<rparr>"

definition sample_ai :: ai_service where
  "sample_ai = \<lparr>ai_svc = sample_service, ai_claims = [], ai_usages = []\<rparr>"

lemma sample_ai_fresh: "ai_fresh sample_ai"
  by (simp add: ai_fresh_def sample_ai_def fresh_service_def sample_service_def)

lemma sample_ai_inv: "ai_inv sample_ai"
  by (rule ai_history.inv_init[OF sample_ai_fresh])

theorem ai_request_applied_once_witness:
  "fst (AddAITransaction sample_codec sample_request (sample_identity 3)
     (snd (AddAITransaction sample_codec sample_request (sample_identity 2) sample_ai))) = Inl ErrAIIdempotencyConflict"
proof -
  let ?r = "AddAITransaction sample_codec sample_request (sample_identity 2) sample_ai"
  have "okE (fst ?r)" by code_simp
  then obtain x where x: "?r = (Inr x, snd ?r)" by (metis okE_iff prod.collapse)
  have ok: "ai_ok sample_ai" using sample_ai_inv by (simp add: ai_inv_def)
  have inv: "ai_inv (snd ?r)" by (rule ai_history.inv_step[OF sample_ai_inv step_ai[OF x]])
  have v: "okE (database (ai_svc (snd ?r)))" "okE (prepareTransactionInsert sample_codec sample_request)" by code_simp+
  have i: "CredentialID (sample_identity 3) = CredentialID (sample_identity 2)"
    "IdempotencyKeySHA256 (sample_identity 3) = IdempotencyKeySHA256 (sample_identity 2)"
    "CredentialID (sample_identity 3) \<noteq> []" "0 < MaxTransactionsPerDay (sample_identity 3)"
    "\<not> is_zero_time (Now (sample_identity 3))" "RequestSHA256 (sample_identity 3) \<noteq> RequestSHA256 (sample_identity 2)"
    by code_simp+
  show ?thesis using ai_request_applied_once[OF ok x rtranclp.rtrancl_refl inv i(1,2)] v i(3-6) by auto
qed

theorem ai_quota_exact_witness:
  "usage_of ''ai'' ''2024-05-01''
     (ai_usages (snd (AddAITransaction sample_codec sample_request (sample_identity 2) sample_ai))) =
   int (claims_on ''ai'' ''2024-05-01''
     (ai_claims (snd (AddAITransaction sample_codec sample_request (sample_identity 2) sample_ai))))"
proof -
  let ?r = "AddAITransaction sample_codec sample_request (sample_identity 2) sample_ai"
  have "(ai_step sample_codec)\<^sup>*\<^sup>* sample_ai (snd ?r)"
    by (rule r_into_rtranclp, rule step_ai[of _ sample_request "sample_identity 2" _ "fst ?r"]) simp
  then show ?thesis using ai_quota_exact[OF sample_ai_fresh] by blast
qed

end
