(* ===== verification/Control.thy ===== *)
theory Control
  imports ImageContainer GoText
begin

text \<open>
  The control store of \<open>backend/control\<close>: the accounts of a server, their credentials, invitations and
  password-reset tickets, on the encrypted control database. Tables are lists of rows in insertion order;
  the declared constraints of \<open>schema.go\<close> are checked by the statements that can violate them. A point in
  time is its number of Unix milliseconds; \<open>validateOperationTime\<close> has cut it to that precision. What the
  store takes from \<open>net/mail\<close>, \<open>strings.ToLower\<close> and \<open>encoding/json\<close> is a parameter, and so is the random
  identifier of \<open>GenerateID\<close>.
\<close>

section \<open>Rows\<close>

datatype Role = RoleAdmin | RoleUser | RoleOther string

datatype UserState = UserActive | UserDisabled

datatype InvitationState = InvitationPending | InvitationAccepted | InvitationRevoked | InvitationExpired

datatype PasswordResetState = PasswordResetPending | PasswordResetConsumed | PasswordResetRevoked | PasswordResetExpired

datatype Kind = KindPassword | KindRecovery | KindPasskey | KindServerPasskey | KindOther string

record Envelope =
  ev_version :: nat
  ev_kind :: Kind
  ev_kdf :: string
  ev_profile :: "nat \<times> nat \<times> nat"
  ev_salt :: bytes
  ev_nonce :: bytes
  ev_ciphertext :: bytes
  ev_verifier :: bytes

record user_row =
  u_id :: string
  u_email :: string
  u_display :: string
  u_role :: Role
  u_state :: UserState
  u_vault :: string
  u_created :: int
  u_updated :: int
  u_login :: "int option"

record password_row =
  pw_user :: string
  pw_json :: string
  pw_created :: int
  pw_updated :: int

record recovery_row =
  rc_id :: string
  rc_user :: string
  rc_json :: string
  rc_active :: bool
  rc_created :: int
  rc_revoked :: "int option"

record invitation_row =
  iv_id :: string
  iv_hash :: bytes
  iv_email :: string
  iv_role :: Role
  iv_state :: InvitationState
  iv_by :: string
  iv_accepted :: "string option"
  iv_created :: int
  iv_expires :: int
  iv_resolved :: "int option"

record ticket_row =
  tk_id :: string
  tk_user :: string
  tk_hash :: bytes
  tk_state :: PasswordResetState
  tk_by :: string
  tk_created :: int
  tk_expires :: int
  tk_resolved :: "int option"

record passkey_row =
  pk_id :: bytes
  pk_user :: string
  pk_name :: string
  pk_json :: string
  pk_salt :: bytes
  pk_envelope :: string
  pk_revision :: int
  pk_created :: int
  pk_updated :: int
  pk_used :: "int option"

record control_db =
  users :: "user_row list"
  passwords :: "password_row list"
  recoveries :: "recovery_row list"
  invitations :: "invitation_row list"
  tickets :: "ticket_row list"
  passkeys :: "passkey_row list"

record store =
  st_db :: "control_db option"
  st_closed :: bool

datatype cerr =
    ErrStoreClosed
  | ErrAlreadyBootstrapped
  | ErrNotFound
  | ErrConflict
  | ErrForbidden
  | ErrSelfDisable
  | ErrLastActiveAdmin
  | ErrInvitationInactive
  | ErrInvitationExpired
  | ErrResetTicketInactive
  | ErrResetTicketExpired
  | ErrCredentialConflict
  | ErrRecoveryConflict
  | ErrInput
  | ErrStorage

text \<open>What the store answers with: a user without the vault id, an invitation and a ticket without the token
  hash. The scan functions read them from a row.\<close>

record UserSummary =
  us_id :: string
  us_email :: string
  us_display :: string
  us_role :: Role
  us_state :: UserState
  us_created :: int
  us_updated :: int
  us_login :: "int option"

record Invitation =
  in_id :: string
  in_email :: string
  in_role :: Role
  in_state :: InvitationState
  in_by :: string
  in_accepted :: "string option"
  in_created :: int
  in_expires :: int
  in_resolved :: "int option"

record PasswordResetTicket =
  pt_id :: string
  pt_user :: string
  pt_state :: PasswordResetState
  pt_by :: string
  pt_created :: int
  pt_expires :: int
  pt_resolved :: "int option"

definition scanUserSummary :: "user_row \<Rightarrow> UserSummary" where
  "scanUserSummary u = \<lparr>us_id = u_id u, us_email = u_email u, us_display = u_display u, us_role = u_role u,
     us_state = u_state u, us_created = u_created u, us_updated = u_updated u, us_login = u_login u\<rparr>"

definition scanInvitation :: "invitation_row \<Rightarrow> Invitation" where
  "scanInvitation v = \<lparr>in_id = iv_id v, in_email = iv_email v, in_role = iv_role v, in_state = iv_state v, in_by = iv_by v,
     in_accepted = iv_accepted v, in_created = iv_created v, in_expires = iv_expires v, in_resolved = iv_resolved v\<rparr>"

definition scanPasswordResetTicket :: "ticket_row \<Rightarrow> PasswordResetTicket" where
  "scanPasswordResetTicket t = \<lparr>pt_id = tk_id t, pt_user = tk_user t, pt_state = tk_state t, pt_by = tk_by t,
     pt_created = tk_created t, pt_expires = tk_expires t, pt_resolved = tk_resolved t\<rparr>"

text \<open>The parameters: \<open>strings.ToLower\<close>, \<open>mail.ParseAddress\<close> (its \<open>Address\<close>), \<open>json.Marshal\<close> of an envelope and
  its inverse.\<close>

record control_env =
  env_lower :: "string \<Rightarrow> string"
  env_address :: "string \<Rightarrow> string option"
  env_encode :: "Envelope \<Rightarrow> string"
  env_decode :: "string \<Rightarrow> Envelope option"

section \<open>Validation\<close>

definition id_char :: "char \<Rightarrow> bool" where
  "id_char c \<longleftrightarrow> (let n = byte c in 97 \<le> n \<and> n \<le> 122 \<or> 65 \<le> n \<and> n \<le> 90 \<or> 48 \<le> n \<and> n \<le> 57 \<or> n = 45 \<or> n = 95)"

text \<open>An id consists of ASCII letters, digits, dash and underscore, so the test for surrounding space is
  subsumed, and a multi-byte rune is rejected by its bytes.\<close>

definition normalizeID :: "string \<Rightarrow> (cerr, string) result" where
  "normalizeID i =
     (if TrimSpace i \<noteq> i then Inl ErrInput
      else if length i < 16 \<or> length i > 128 then Inl ErrInput
      else if list_all id_char i then Inr i else Inl ErrInput)"

definition idOrGenerate :: "string \<Rightarrow> string \<Rightarrow> (cerr, string) result" where
  "idOrGenerate generated i = (if i = [] then Inr generated else normalizeID i)"

definition normalizeEmail :: "control_env \<Rightarrow> string \<Rightarrow> (cerr, string) result" where
  "normalizeEmail env raw =
     (let email = env_lower env (TrimSpace raw) in
      if length email < 3 \<or> length email > 254 \<or> (\<exists>c\<in>set email. byte c = 13 \<or> byte c = 10 \<or> byte c = 0)
      then Inl ErrInput
      else if env_address env email \<noteq> Some email \<or> count_list email (CHR ''@'') \<noteq> 1 then Inl ErrInput
      else Inr email)"

definition normalizeDisplayName :: "string \<Rightarrow> (cerr, string) result" where
  "normalizeDisplayName raw =
     (let name = TrimSpace raw in
      if name = [] \<or> length name > 200 then Inl ErrInput
      else if \<exists>r\<in>set (runes name). IsControl r then Inl ErrInput
      else Inr name)"

definition validateRole :: "Role \<Rightarrow> (cerr, unit) result" where
  "validateRole role = guardE (role = RoleAdmin \<or> role = RoleUser) ErrInput"

text \<open>The years 2000 to 9999.\<close>

definition validateOperationTime :: "int \<Rightarrow> (cerr, int) result" where
  "validateOperationTime t = (if 946684800000 \<le> t \<and> t \<le> 253402300799999 then Inr t else Inl ErrInput)"

definition MaxInvitationLifetime :: int where "MaxInvitationLifetime = 7 * 24 * 3600 * 1000"
definition MaxPasswordResetLifetime :: int where "MaxPasswordResetLifetime = 3600 * 1000"

definition validateBoundedExpiry :: "int \<Rightarrow> int \<Rightarrow> int \<Rightarrow> (cerr, int) result" where
  "validateBoundedExpiry now expiresAt maximum =
     bindE (validateOperationTime expiresAt) (\<lambda>e.
     bindE (guardE (e > now) ErrInput) (\<lambda>_.
     bindE (guardE (e - now \<le> maximum) ErrInput) (\<lambda>_. Inr e)))"

definition validateTokenHash :: "bytes \<Rightarrow> (cerr, unit) result" where
  "validateTokenHash h = guardE (length h = 32) ErrInput"

definition DefaultProfile :: "nat \<times> nat \<times> nat" where
  "DefaultProfile = (64 * 1024, 3, 2)"

definition validateKeyEnvelope :: "Envelope \<Rightarrow> Kind \<Rightarrow> (cerr, unit) result" where
  "validateKeyEnvelope e kind =
     bindE (guardE (ev_version e = 1 \<and> ev_kind e = kind) ErrInput) (\<lambda>_.
     bindE (guardE (length (ev_salt e) = 32) ErrInput) (\<lambda>_.
     bindE (guardE (length (ev_nonce e) = 12) ErrInput) (\<lambda>_.
     bindE (guardE (length (ev_ciphertext e) = 32 + 16) ErrInput) (\<lambda>_.
     case kind of
       KindPassword \<Rightarrow>
         bindE (guardE (ev_kdf e = ''argon2id-hkdf-sha256'' \<and> ev_profile e = DefaultProfile) ErrInput) (\<lambda>_.
         guardE (length (ev_verifier e) = 32) ErrInput)
     | KindOther _ \<Rightarrow> Inl ErrInput
     | _ \<Rightarrow> guardE (ev_kdf e = ''hkdf-sha256'' \<and> ev_profile e = (0, 0, 0) \<and> ev_verifier e = []) ErrInput))))"

definition encodeKeyEnvelope :: "control_env \<Rightarrow> Envelope \<Rightarrow> Kind \<Rightarrow> (cerr, string) result" where
  "encodeKeyEnvelope env e kind =
     bindE (validateKeyEnvelope e kind) (\<lambda>_.
     let encoded = env_encode env e in
     bindE (guardE (length encoded \<le> 8192) ErrInput) (\<lambda>_. Inr encoded))"

definition decodeKeyEnvelope :: "control_env \<Rightarrow> string \<Rightarrow> Kind \<Rightarrow> (cerr, Envelope) result" where
  "decodeKeyEnvelope env encoded kind =
     bindE (guardE (2 \<le> length encoded \<and> length encoded \<le> 8192) ErrInput) (\<lambda>_.
     bindE (ofOption ErrInput (env_decode env encoded)) (\<lambda>e.
     bindE (validateKeyEnvelope e kind) (\<lambda>_. Inr e)))"

definition validateUserMutation :: "string \<Rightarrow> string \<Rightarrow> int \<Rightarrow> (cerr, string \<times> string \<times> int) result" where
  "validateUserMutation actorID targetID now =
     bindE (normalizeID actorID) (\<lambda>a.
     bindE (normalizeID targetID) (\<lambda>t.
     bindE (validateOperationTime now) (\<lambda>n. Inr (a, t, n))))"

section \<open>The store\<close>

text \<open>\<open>withImmediate\<close>: an error of the operation rolls everything back. An operation that commits and then
  answers with an error returns that answer as \<open>Inl\<close>.\<close>

definition withImmediate ::
  "(control_db \<Rightarrow> (cerr, control_db \<times> (cerr, 'a) result) result) \<Rightarrow> store \<Rightarrow> (cerr, 'a) result \<times> store" where
  "withImmediate operation S =
     (case (st_closed S, st_db S) of
        (False, Some db) \<Rightarrow>
          (case operation db of
             Inl e \<Rightarrow> (Inl e, S)
           | Inr (db', answer) \<Rightarrow> (answer, S\<lparr>st_db := Some db'\<rparr>))
      | _ \<Rightarrow> (Inl ErrStoreClosed, S))"

definition Close :: "store \<Rightarrow> store" where
  "Close S = (if st_closed S then S else S\<lparr>st_closed := True, st_db := None\<rparr>)"

section \<open>Statements\<close>

text \<open>\<open>COLLATE NOCASE\<close> folds the ASCII letters.\<close>

definition nocase :: "string \<Rightarrow> string" where
  "nocase s = map (\<lambda>c. if 65 \<le> byte c \<and> byte c \<le> 90 then char_of (byte c + 32) else c) s"

definition user_check :: "user_row \<Rightarrow> bool" where
  "user_check u \<longleftrightarrow>
     16 \<le> length (u_id u) \<and> length (u_id u) \<le> 128 \<and>
     3 \<le> length (runes (u_email u)) \<and> length (runes (u_email u)) \<le> 254 \<and>
     1 \<le> length (runes (u_display u)) \<and> length (runes (u_display u)) \<le> 200 \<and>
     (u_role u = RoleAdmin \<or> u_role u = RoleUser) \<and>
     16 \<le> length (u_vault u) \<and> length (u_vault u) \<le> 128 \<and>
     0 < u_created u \<and> u_created u \<le> u_updated u \<and>
     (case u_login u of None \<Rightarrow> True | Some t \<Rightarrow> u_created u \<le> t)"

definition insert_user :: "user_row \<Rightarrow> control_db \<Rightarrow> (cerr, control_db) result" where
  "insert_user u db =
     (if user_check u \<and> u_id u \<notin> u_id ` set (users db) \<and> nocase (u_email u) \<notin> (nocase \<circ> u_email) ` set (users db) \<and>
         u_vault u \<notin> u_vault ` set (users db)
      then Inr (db\<lparr>users := users db @ [u]\<rparr>) else Inl ErrConflict)"

text \<open>\<open>UPDATE users ... WHERE id = ?\<close>; a violated CHECK is a driver error.\<close>

definition update_user :: "string \<Rightarrow> (user_row \<Rightarrow> user_row) \<Rightarrow> control_db \<Rightarrow> (cerr, control_db) result" where
  "update_user i f db =
     (if \<exists>u\<in>set (users db). u_id u = i \<and> \<not> user_check (f u) then Inl ErrStorage
      else Inr (db\<lparr>users := upd_where (\<lambda>u. u_id u = i) f (users db)\<rparr>))"

definition insert_password :: "password_row \<Rightarrow> control_db \<Rightarrow> (cerr, control_db) result" where
  "insert_password p db =
     (if 2 \<le> length (pw_json p) \<and> length (pw_json p) \<le> 8192 \<and> 0 < pw_created p \<and> pw_created p \<le> pw_updated p \<and>
         pw_user p \<notin> pw_user ` set (passwords db) \<and> pw_user p \<in> u_id ` set (users db)
      then Inr (db\<lparr>passwords := passwords db @ [p]\<rparr>) else Inl ErrStorage)"

definition insert_recovery :: "string \<Rightarrow> string \<Rightarrow> string \<Rightarrow> int \<Rightarrow> control_db \<Rightarrow> (cerr, control_db) result" where
  "insert_recovery i user json now db =
     (if 16 \<le> length i \<and> length i \<le> 128 \<and> 2 \<le> length json \<and> length json \<le> 8192 \<and> 0 < now \<and>
         i \<notin> rc_id ` set (recoveries db) \<and> user \<in> u_id ` set (users db) \<and>
         \<not> (\<exists>r\<in>set (recoveries db). rc_user r = user \<and> rc_active r)
      then Inr (db\<lparr>recoveries := recoveries db @ [\<lparr>rc_id = i, rc_user = user, rc_json = json, rc_active = True,
             rc_created = now, rc_revoked = None\<rparr>]\<rparr>) else Inl ErrConflict)"

definition invitation_check :: "invitation_row \<Rightarrow> bool" where
  "invitation_check v \<longleftrightarrow>
     16 \<le> length (iv_id v) \<and> length (iv_id v) \<le> 128 \<and> length (iv_hash v) = 32 \<and>
     3 \<le> length (runes (iv_email v)) \<and> length (runes (iv_email v)) \<le> 254 \<and>
     (iv_role v = RoleAdmin \<or> iv_role v = RoleUser) \<and> 0 < iv_created v \<and> iv_created v < iv_expires v \<and>
     (case iv_resolved v of None \<Rightarrow> True | Some t \<Rightarrow> iv_created v \<le> t) \<and>
     (case iv_state v of
        InvitationPending \<Rightarrow> iv_accepted v = None \<and> iv_resolved v = None
      | InvitationAccepted \<Rightarrow> iv_accepted v \<noteq> None \<and> iv_resolved v \<noteq> None
      | _ \<Rightarrow> iv_accepted v = None \<and> iv_resolved v \<noteq> None)"

definition insert_invitation :: "invitation_row \<Rightarrow> control_db \<Rightarrow> (cerr, control_db) result" where
  "insert_invitation v db =
     (if invitation_check v \<and> iv_id v \<notin> iv_id ` set (invitations db) \<and> iv_hash v \<notin> iv_hash ` set (invitations db) \<and>
         iv_by v \<in> u_id ` set (users db) \<and>
         \<not> (\<exists>w\<in>set (invitations db). iv_state w = InvitationPending \<and> nocase (iv_email w) = nocase (iv_email v))
      then Inr (db\<lparr>invitations := invitations db @ [v]\<rparr>) else Inl ErrConflict)"

definition update_invitations ::
  "(invitation_row \<Rightarrow> bool) \<Rightarrow> (invitation_row \<Rightarrow> invitation_row) \<Rightarrow> control_db \<Rightarrow> (cerr, control_db) result" where
  "update_invitations p f db =
     (if \<exists>v\<in>set (invitations db). p v \<and> \<not> (invitation_check (f v) \<and>
           (case iv_accepted (f v) of None \<Rightarrow> True | Some a \<Rightarrow> a \<in> u_id ` set (users db)))
      then Inl ErrStorage
      else Inr (db\<lparr>invitations := upd_where p f (invitations db)\<rparr>))"

definition ticket_check :: "ticket_row \<Rightarrow> bool" where
  "ticket_check t \<longleftrightarrow>
     16 \<le> length (tk_id t) \<and> length (tk_id t) \<le> 128 \<and> length (tk_hash t) = 32 \<and>
     0 < tk_created t \<and> tk_created t < tk_expires t \<and>
     (case tk_resolved t of None \<Rightarrow> True | Some s \<Rightarrow> tk_created t \<le> s) \<and>
     (tk_state t = PasswordResetPending \<longleftrightarrow> tk_resolved t = None)"

definition insert_ticket :: "ticket_row \<Rightarrow> control_db \<Rightarrow> (cerr, control_db) result" where
  "insert_ticket t db =
     (if ticket_check t \<and> tk_id t \<notin> tk_id ` set (tickets db) \<and> tk_hash t \<notin> tk_hash ` set (tickets db) \<and>
         tk_user t \<in> u_id ` set (users db) \<and> tk_by t \<in> u_id ` set (users db)
      then Inr (db\<lparr>tickets := tickets db @ [t]\<rparr>) else Inl ErrConflict)"

definition update_tickets ::
  "(ticket_row \<Rightarrow> bool) \<Rightarrow> (ticket_row \<Rightarrow> ticket_row) \<Rightarrow> control_db \<Rightarrow> (cerr, control_db) result" where
  "update_tickets p f db =
     (if \<exists>t\<in>set (tickets db). p t \<and> \<not> ticket_check (f t) then Inl ErrStorage
      else Inr (db\<lparr>tickets := upd_where p f (tickets db)\<rparr>))"

section \<open>Authorisation\<close>

definition loadRoleAndState :: "string \<Rightarrow> control_db \<Rightarrow> (cerr, Role \<times> UserState) result" where
  "loadRoleAndState i db =
     bindE (ofOption ErrNotFound (List.find (\<lambda>u. u_id u = i) (users db))) (\<lambda>u. Inr (u_role u, u_state u))"

definition requireActiveAdmin :: "string \<Rightarrow> control_db \<Rightarrow> (cerr, unit) result" where
  "requireActiveAdmin i db =
     bindE (mapErr (\<lambda>_. ErrForbidden) (loadRoleAndState i db)) (\<lambda>(role, state).
     guardE (role = RoleAdmin \<and> state = UserActive) ErrForbidden)"

definition requireActiveUser :: "string \<Rightarrow> control_db \<Rightarrow> (cerr, unit) result" where
  "requireActiveUser i db =
     bindE (mapErr (\<lambda>_. ErrForbidden) (loadRoleAndState i db)) (\<lambda>(_, state).
     guardE (state = UserActive) ErrForbidden)"

definition requireAnotherActiveAdmin :: "string \<Rightarrow> control_db \<Rightarrow> (cerr, unit) result" where
  "requireAnotherActiveAdmin i db =
     guardE (\<exists>u\<in>set (users db). u_role u = RoleAdmin \<and> u_state u = UserActive \<and> u_id u \<noteq> i) ErrLastActiveAdmin"

section \<open>Users\<close>

record NewUserInput =
  nu_id :: string
  nu_email :: string
  nu_display :: string
  nu_vault :: string
  nu_password :: Envelope
  nu_recovery :: "(string \<times> Envelope) option"

record preparedNewUser =
  pu_id :: string
  pu_email :: string
  pu_display :: string
  pu_vault :: string
  pu_password_json :: string
  pu_recovery_id :: string
  pu_recovery_json :: string

definition prepareNewUser :: "control_env \<Rightarrow> string \<Rightarrow> NewUserInput \<Rightarrow> (cerr, preparedNewUser) result" where
  "prepareNewUser env generated input =
     bindE (normalizeID (nu_id input)) (\<lambda>i.
     bindE (normalizeEmail env (nu_email input)) (\<lambda>email.
     bindE (normalizeDisplayName (nu_display input)) (\<lambda>display.
     bindE (normalizeID (nu_vault input)) (\<lambda>vault.
     bindE (validateKeyEnvelope (nu_password input) KindPassword) (\<lambda>_.
     bindE (encodeKeyEnvelope env (nu_password input) KindPassword) (\<lambda>passwordJSON.
     bindE (ofOption ErrInput (nu_recovery input)) (\<lambda>(rid, recovery).
     bindE (validateKeyEnvelope recovery KindRecovery) (\<lambda>_.
     bindE (idOrGenerate generated rid) (\<lambda>recoveryID.
     bindE (encodeKeyEnvelope env recovery KindRecovery) (\<lambda>recoveryJSON.
     Inr \<lparr>pu_id = i, pu_email = email, pu_display = display, pu_vault = vault, pu_password_json = passwordJSON,
          pu_recovery_id = recoveryID, pu_recovery_json = recoveryJSON\<rparr>))))))))))"

definition new_user_row :: "preparedNewUser \<Rightarrow> Role \<Rightarrow> int \<Rightarrow> user_row" where
  "new_user_row p role now = \<lparr>u_id = pu_id p, u_email = pu_email p, u_display = pu_display p, u_role = role,
     u_state = UserActive, u_vault = pu_vault p, u_created = now, u_updated = now, u_login = None\<rparr>"

definition summary :: "preparedNewUser \<Rightarrow> Role \<Rightarrow> int \<Rightarrow> UserSummary" where
  "summary p role now = \<lparr>us_id = pu_id p, us_email = pu_email p, us_display = pu_display p, us_role = role,
     us_state = UserActive, us_created = now, us_updated = now, us_login = None\<rparr>"

definition insertPreparedUser :: "preparedNewUser \<Rightarrow> Role \<Rightarrow> int \<Rightarrow> control_db \<Rightarrow> (cerr, control_db) result" where
  "insertPreparedUser p role now db =
     bindE (validateRole role) (\<lambda>_.
     bindE (insert_user (new_user_row p role now) db) (\<lambda>db1.
     bindE (insert_password \<lparr>pw_user = pu_id p, pw_json = pu_password_json p, pw_created = now, pw_updated = now\<rparr> db1) (\<lambda>db2.
     mapErr (\<lambda>_. ErrStorage) (insert_recovery (pu_recovery_id p) (pu_id p) (pu_recovery_json p) now db2))))"

definition BootstrapFirstAdmin ::
  "control_env \<Rightarrow> string \<Rightarrow> NewUserInput \<Rightarrow> int \<Rightarrow> store \<Rightarrow> (cerr, UserSummary) result \<times> store" where
  "BootstrapFirstAdmin env generated input time S =
     (case bindE (validateOperationTime time) (\<lambda>now.
           bindE (prepareNewUser env generated input) (\<lambda>p. Inr (now, p))) of
        Inl e \<Rightarrow> (Inl e, S)
      | Inr (now, p) \<Rightarrow>
          withImmediate (\<lambda>db.
            bindE (guardE (users db = []) ErrAlreadyBootstrapped) (\<lambda>_.
            bindE (insertPreparedUser p RoleAdmin now db) (\<lambda>db'.
            Inr (db', Inr (summary p RoleAdmin now))))) S)"

text \<open>A revoked row is resolved at the later of its creation and now.\<close>

definition revokePendingCapabilities :: "string \<Rightarrow> int \<Rightarrow> control_db \<Rightarrow> (cerr, control_db) result" where
  "revokePendingCapabilities userID now db =
     bindE (update_invitations (\<lambda>v. iv_by v = userID \<and> iv_state v = InvitationPending)
        (\<lambda>v. v\<lparr>iv_state := InvitationRevoked, iv_resolved := Some (if iv_created v > now then iv_created v else now)\<rparr>) db)
     (update_tickets (\<lambda>t. (tk_by t = userID \<or> tk_user t = userID) \<and> tk_state t = PasswordResetPending)
        (\<lambda>t. t\<lparr>tk_state := PasswordResetRevoked, tk_resolved := Some (if tk_created t > now then tk_created t else now)\<rparr>))"

definition DisableUser :: "string \<Rightarrow> string \<Rightarrow> int \<Rightarrow> store \<Rightarrow> (cerr, unit) result \<times> store" where
  "DisableUser actor target time S =
     (case bindE (validateUserMutation actor target time) (\<lambda>(a, t, now).
           if a = t then Inl ErrSelfDisable else Inr (a, t, now)) of
        Inl e \<Rightarrow> (Inl e, S)
      | Inr (a, t, now) \<Rightarrow>
          withImmediate (\<lambda>db.
            bindE (requireActiveAdmin a db) (\<lambda>_.
            bindE (loadRoleAndState t db) (\<lambda>(role, state).
            if state = UserDisabled
            then bindE (revokePendingCapabilities t now db) (\<lambda>db'. Inr (db', Inr ()))
            else
              bindE (if role = RoleAdmin then requireAnotherActiveAdmin t db else Inr ()) (\<lambda>_.
              bindE (update_user t (\<lambda>u. u\<lparr>u_state := UserDisabled, u_updated := now\<rparr>) db) (\<lambda>db1.
              bindE (revokePendingCapabilities t now db1) (\<lambda>db2. Inr (db2, Inr ()))))))) S)"

definition EnableUser :: "string \<Rightarrow> string \<Rightarrow> int \<Rightarrow> store \<Rightarrow> (cerr, unit) result \<times> store" where
  "EnableUser actor target time S =
     (case validateUserMutation actor target time of
        Inl e \<Rightarrow> (Inl e, S)
      | Inr (a, t, now) \<Rightarrow>
          withImmediate (\<lambda>db.
            bindE (requireActiveAdmin a db) (\<lambda>_.
            bindE (loadRoleAndState t db) (\<lambda>_.
            bindE (update_user t (\<lambda>u. u\<lparr>u_state := UserActive, u_updated := now\<rparr>) db) (\<lambda>db'.
            Inr (db', Inr ()))))) S)"

definition SetUserRole :: "string \<Rightarrow> string \<Rightarrow> Role \<Rightarrow> int \<Rightarrow> store \<Rightarrow> (cerr, unit) result \<times> store" where
  "SetUserRole actor target role time S =
     (case bindE (validateRole role) (\<lambda>_. validateUserMutation actor target time) of
        Inl e \<Rightarrow> (Inl e, S)
      | Inr (a, t, now) \<Rightarrow>
          withImmediate (\<lambda>db.
            bindE (requireActiveAdmin a db) (\<lambda>_.
            bindE (loadRoleAndState t db) (\<lambda>(currentRole, state).
            if currentRole = role then Inr (db, Inr ())
            else
              bindE (if currentRole = RoleAdmin \<and> role \<noteq> RoleAdmin \<and> state = UserActive
                     then requireAnotherActiveAdmin t db else Inr ()) (\<lambda>_.
              bindE (update_user t (\<lambda>u. u\<lparr>u_role := role, u_updated := now\<rparr>) db) (\<lambda>db1.
              bindE (if currentRole = RoleAdmin \<and> role \<noteq> RoleAdmin
                     then revokePendingCapabilities t now db1 else Inr db1) (\<lambda>db2.
              Inr (db2, Inr ()))))))) S)"

section \<open>Invitations\<close>

record CreateInvitationInput =
  ci_id :: string
  ci_email :: string
  ci_role :: Role
  ci_hash :: bytes
  ci_expires :: int

definition CreateInvitation ::
  "control_env \<Rightarrow> string \<Rightarrow> string \<Rightarrow> CreateInvitationInput \<Rightarrow> int \<Rightarrow> store \<Rightarrow> (cerr, Invitation) result \<times> store" where
  "CreateInvitation env generated actor input time S =
     (case bindE (normalizeID actor) (\<lambda>a.
           bindE (validateOperationTime time) (\<lambda>now.
           bindE (idOrGenerate generated (ci_id input)) (\<lambda>i.
           bindE (normalizeEmail env (ci_email input)) (\<lambda>email.
           bindE (validateRole (ci_role input)) (\<lambda>_.
           bindE (validateTokenHash (ci_hash input)) (\<lambda>_.
           bindE (validateBoundedExpiry now (ci_expires input) MaxInvitationLifetime) (\<lambda>expires.
           Inr (a, now, \<lparr>iv_id = i, iv_hash = ci_hash input, iv_email = email, iv_role = ci_role input,
              iv_state = InvitationPending, iv_by = a, iv_accepted = None, iv_created = now, iv_expires = expires,
              iv_resolved = None\<rparr>)))))))) of
        Inl e \<Rightarrow> (Inl e, S)
      | Inr (a, now, v) \<Rightarrow>
          withImmediate (\<lambda>db.
            bindE (requireActiveAdmin a db) (\<lambda>_.
            bindE (guardE (\<forall>u\<in>set (users db). nocase (u_email u) \<noteq> nocase (iv_email v)) ErrConflict) (\<lambda>_.
            bindE (update_invitations
                (\<lambda>w. nocase (iv_email w) = nocase (iv_email v) \<and> iv_state w = InvitationPending \<and> iv_expires w \<le> now)
                (\<lambda>w. w\<lparr>iv_state := InvitationExpired, iv_resolved := Some now\<rparr>) db) (\<lambda>db1.
            bindE (insert_invitation v db1) (\<lambda>db2. Inr (db2, Inr (scanInvitation v))))))) S)"

definition AcceptInvitation ::
  "control_env \<Rightarrow> string \<Rightarrow> bytes \<Rightarrow> NewUserInput \<Rightarrow> int \<Rightarrow> store \<Rightarrow> (cerr, UserSummary) result \<times> store" where
  "AcceptInvitation env generated hash input time S =
     (case bindE (validateTokenHash hash) (\<lambda>_.
           bindE (validateOperationTime time) (\<lambda>now.
           bindE (prepareNewUser env generated input) (\<lambda>p. Inr (now, p)))) of
        Inl e \<Rightarrow> (Inl e, S)
      | Inr (now, p) \<Rightarrow>
          withImmediate (\<lambda>db.
            bindE (ofOption ErrNotFound (List.find (\<lambda>v. iv_hash v = hash) (invitations db))) (\<lambda>v.
            if iv_state v \<noteq> InvitationPending then Inl ErrInvitationInactive
            else if \<not> iv_expires v > now then
              bindE (update_invitations (\<lambda>w. iv_id w = iv_id v \<and> iv_state w = InvitationPending)
                  (\<lambda>w. w\<lparr>iv_state := InvitationExpired, iv_resolved := Some now\<rparr>) db) (\<lambda>db'.
              Inr (db', Inl ErrInvitationExpired))
            else if pu_email p \<noteq> iv_email v then Inl ErrInput
            else
              bindE (insertPreparedUser p (iv_role v) now db) (\<lambda>db1.
              bindE (update_invitations (\<lambda>w. iv_id w = iv_id v \<and> iv_state w = InvitationPending)
                  (\<lambda>w. w\<lparr>iv_state := InvitationAccepted, iv_accepted := Some (pu_id p), iv_resolved := Some now\<rparr>) db1) (\<lambda>db2.
              Inr (db2, Inr (summary p (iv_role v) now)))))) S)"

definition RevokeInvitation :: "string \<Rightarrow> string \<Rightarrow> int \<Rightarrow> store \<Rightarrow> (cerr, unit) result \<times> store" where
  "RevokeInvitation actor i time S =
     (case validateUserMutation actor i time of
        Inl e \<Rightarrow> (Inl e, S)
      | Inr (a, t, now) \<Rightarrow>
          withImmediate (\<lambda>db.
            bindE (requireActiveAdmin a db) (\<lambda>_.
            bindE (ofOption ErrNotFound (List.find (\<lambda>v. iv_id v = t) (invitations db))) (\<lambda>v.
            bindE (guardE (iv_state v = InvitationPending) ErrInvitationInactive) (\<lambda>_.
            bindE (update_invitations (\<lambda>w. iv_id w = t \<and> iv_state w = InvitationPending)
                (\<lambda>w. w\<lparr>iv_state := InvitationRevoked, iv_resolved := Some now\<rparr>) db) (\<lambda>db'.
            Inr (db', Inr ())))))) S)"

end
