(* ===== verification/ControlCredentials.thy ===== *)
theory ControlCredentials
  imports Control
begin

text \<open>
  Credentials of the control store: \<open>credentials.go\<close> (login commit, password change, recovery rotation),
  \<open>password_reset.go\<close> and \<open>passkeys.go\<close>. Every change names the revision it was prepared against and fails if
  that revision is no longer stored. A WebAuthn credential is seen through its id, its public key and its
  JSON text.
\<close>

section \<open>Statements\<close>

definition advanceUserUpdatedAt :: "string \<Rightarrow> int \<Rightarrow> control_db \<Rightarrow> (cerr, control_db) result" where
  "advanceUserUpdatedAt i now = update_user i (\<lambda>u. u\<lparr>u_updated := (if u_updated u < now then now else u_updated u)\<rparr>)"

definition insertActiveRecoveryEnvelope ::
  "string \<Rightarrow> string \<Rightarrow> string \<Rightarrow> int \<Rightarrow> control_db \<Rightarrow> (cerr, control_db) result" where
  "insertActiveRecoveryEnvelope = insert_recovery"

text \<open>The boolean tells whether exactly one row was revoked. A revocation before the creation of the row
  would violate its CHECK.\<close>

definition revokeExpectedRecoveryEnvelope ::
  "string \<Rightarrow> string \<Rightarrow> string \<Rightarrow> int \<Rightarrow> int \<Rightarrow> control_db \<Rightarrow> (cerr, control_db \<times> bool) result" where
  "revokeExpectedRecoveryEnvelope user i json created now db =
     (let p = (\<lambda>r. rc_id r = i \<and> rc_user r = user \<and> rc_active r \<and> rc_json r = json \<and> rc_created r = created) in
      if \<exists>r\<in>set (recoveries db). p r \<and> now < rc_created r then Inl ErrStorage
      else Inr (db\<lparr>recoveries := upd_where p (\<lambda>r. r\<lparr>rc_active := False, rc_revoked := Some now\<rparr>) (recoveries db)\<rparr>,
                count_where p (recoveries db) = 1))"

definition password_matches :: "string \<Rightarrow> string \<Rightarrow> int \<Rightarrow> password_row \<Rightarrow> bool" where
  "password_matches user json updated p \<longleftrightarrow> pw_user p = user \<and> pw_json p = json \<and> pw_updated p = updated"

definition set_password :: "(password_row \<Rightarrow> bool) \<Rightarrow> string \<Rightarrow> int \<Rightarrow> control_db \<Rightarrow> (cerr, control_db) result" where
  "set_password p json now db =
     (if \<exists>r\<in>set (passwords db). p r \<and> (now < pw_created r \<or> length json < 2 \<or> length json > 8192) then Inl ErrStorage
      else Inr (db\<lparr>passwords := upd_where p (\<lambda>r. r\<lparr>pw_json := json, pw_updated := now\<rparr>) (passwords db)\<rparr>))"

section \<open>Passwords\<close>

record PasswordCredential =
  pc_user :: string
  pc_envelope :: Envelope
  pc_created :: int
  pc_updated :: int

definition RecordSuccessfulLogin ::
  "control_env \<Rightarrow> string \<Rightarrow> PasswordCredential \<Rightarrow> int \<Rightarrow> store \<Rightarrow> (cerr, unit) result \<times> store" where
  "RecordSuccessfulLogin env user expected time S =
     (case bindE (normalizeID user) (\<lambda>i.
           bindE (guardE (pc_user expected = i) ErrCredentialConflict) (\<lambda>_.
           bindE (encodeKeyEnvelope env (pc_envelope expected) KindPassword) (\<lambda>json.
           bindE (validateOperationTime (pc_updated expected)) (\<lambda>updated.
           bindE (validateOperationTime time) (\<lambda>now.
           bindE (guardE (\<not> now < updated) ErrCredentialConflict) (\<lambda>_. Inr (i, json, updated, now))))))) of
        Inl e \<Rightarrow> (Inl e, S)
      | Inr (i, json, updated, now) \<Rightarrow>
          withImmediate (\<lambda>db.
            bindE (requireActiveUser i db) (\<lambda>_.
            bindE (guardE (\<exists>p\<in>set (passwords db). password_matches i json updated p) ErrCredentialConflict) (\<lambda>_.
            bindE (guardE (count_where (\<lambda>u. u_id u = i \<and> u_state u = UserActive \<and> u_created u \<le> now) (users db) = 1)
               ErrInput) (\<lambda>_.
            bindE (update_user i (\<lambda>u. u\<lparr>u_login :=
                Some (case u_login u of None \<Rightarrow> now | Some t \<Rightarrow> if t < now then now else t)\<rparr>) db) (\<lambda>db'.
            Inr (db', Inr ())))))) S)"

definition ReplacePasswordCredentialWithPasskeyPolicy ::
  "control_env \<Rightarrow> string \<Rightarrow> PasswordCredential \<Rightarrow> Envelope \<Rightarrow> bool \<Rightarrow> int \<Rightarrow> store \<Rightarrow> (cerr, nat) result \<times> store" where
  "ReplacePasswordCredentialWithPasskeyPolicy env user expected replacement revokePasskeys time S =
     (case bindE (normalizeID user) (\<lambda>i.
           bindE (guardE (pc_user expected = i) ErrCredentialConflict) (\<lambda>_.
           bindE (encodeKeyEnvelope env (pc_envelope expected) KindPassword) (\<lambda>json.
           bindE (encodeKeyEnvelope env replacement KindPassword) (\<lambda>newJSON.
           bindE (guardE (json \<noteq> newJSON) ErrInput) (\<lambda>_.
           bindE (validateOperationTime (pc_updated expected)) (\<lambda>updated.
           bindE (validateOperationTime time) (\<lambda>now.
           bindE (guardE (\<not> now \<le> updated) ErrCredentialConflict) (\<lambda>_. Inr (i, json, newJSON, updated, now))))))))) of
        Inl e \<Rightarrow> (Inl e, S)
      | Inr (i, json, newJSON, updated, now) \<Rightarrow>
          withImmediate (\<lambda>db.
            bindE (requireActiveUser i db) (\<lambda>_.
            bindE (set_password (password_matches i json updated) newJSON now db) (\<lambda>db1.
            bindE (guardE (count_where (password_matches i json updated) (passwords db) = 1) ErrCredentialConflict) (\<lambda>_.
            let db2 = (if revokePasskeys then db1\<lparr>passkeys := del_where (\<lambda>k. pk_user k = i) (passkeys db1)\<rparr> else db1);
                revoked = (if revokePasskeys then count_where (\<lambda>k. pk_user k = i) (passkeys db1) else 0) in
            bindE (advanceUserUpdatedAt i now db2) (\<lambda>db3. Inr (db3, Inr revoked)))))) S)"

section \<open>Recovery envelopes\<close>

record RecoveryEnvelope =
  re_id :: string
  re_user :: string
  re_envelope :: Envelope
  re_active :: bool
  re_created :: int
  re_revoked :: "int option"

definition RotateRecoveryEnvelope ::
  "control_env \<Rightarrow> string \<Rightarrow> string \<Rightarrow> RecoveryEnvelope \<Rightarrow> string \<times> Envelope \<Rightarrow> int \<Rightarrow> store \<Rightarrow>
     (cerr, RecoveryEnvelope) result \<times> store" where
  "RotateRecoveryEnvelope env generated user expected replacement time S =
     (case bindE (normalizeID user) (\<lambda>i.
           bindE (guardE (re_user expected = i \<and> re_active expected) ErrRecoveryConflict) (\<lambda>_.
           bindE (normalizeID (re_id expected)) (\<lambda>eid.
           bindE (encodeKeyEnvelope env (re_envelope expected) KindRecovery) (\<lambda>json.
           bindE (validateOperationTime (re_created expected)) (\<lambda>created.
           bindE (idOrGenerate generated (fst replacement)) (\<lambda>rid.
           bindE (guardE (rid \<noteq> eid) ErrRecoveryConflict) (\<lambda>_.
           bindE (encodeKeyEnvelope env (snd replacement) KindRecovery) (\<lambda>newJSON.
           bindE (guardE (newJSON \<noteq> json) ErrRecoveryConflict) (\<lambda>_.
           bindE (validateOperationTime time) (\<lambda>now.
           bindE (guardE (\<not> now < created) ErrRecoveryConflict) (\<lambda>_.
           bindE (decodeKeyEnvelope env newJSON KindRecovery) (\<lambda>stored.
           Inr (i, eid, json, created, rid, newJSON, now, stored))))))))))))) of
        Inl e \<Rightarrow> (Inl e, S)
      | Inr (i, eid, json, created, rid, newJSON, now, stored) \<Rightarrow>
          withImmediate (\<lambda>db.
            bindE (requireActiveUser i db) (\<lambda>_.
            bindE (revokeExpectedRecoveryEnvelope i eid json created now db) (\<lambda>(db1, ok).
            bindE (guardE ok ErrRecoveryConflict) (\<lambda>_.
            bindE (insertActiveRecoveryEnvelope rid i newJSON now db1) (\<lambda>db2.
            bindE (advanceUserUpdatedAt i now db2) (\<lambda>db3.
            Inr (db3, Inr \<lparr>re_id = rid, re_user = i, re_envelope = stored, re_active = True, re_created = now,
               re_revoked = None\<rparr>))))))) S)"

section \<open>Password reset\<close>

definition CreatePasswordResetTicket ::
  "string \<Rightarrow> string \<Rightarrow> string \<Rightarrow> string \<Rightarrow> bytes \<Rightarrow> int \<Rightarrow> int \<Rightarrow> store \<Rightarrow> (cerr, PasswordResetTicket) result \<times> store" where
  "CreatePasswordResetTicket generated actor target rawID hash expiry time S =
     (case bindE (validateUserMutation actor target time) (\<lambda>(a, t, now).
           bindE (idOrGenerate generated rawID) (\<lambda>i.
           bindE (validateTokenHash hash) (\<lambda>_.
           bindE (validateBoundedExpiry now expiry MaxPasswordResetLifetime) (\<lambda>expires.
           Inr (a, now, \<lparr>tk_id = i, tk_user = t, tk_hash = hash, tk_state = PasswordResetPending, tk_by = a,
              tk_created = now, tk_expires = expires, tk_resolved = None\<rparr>))))) of
        Inl e \<Rightarrow> (Inl e, S)
      | Inr (a, now, t) \<Rightarrow>
          withImmediate (\<lambda>db.
            bindE (requireActiveAdmin a db) (\<lambda>_.
            bindE (loadRoleAndState (tk_user t) db) (\<lambda>(_, state).
            bindE (guardE (state = UserActive) ErrForbidden) (\<lambda>_.
            bindE (update_tickets (\<lambda>s. tk_user s = tk_user t \<and> tk_state s = PasswordResetPending)
                (\<lambda>s. s\<lparr>tk_state := (if tk_expires s \<le> now then PasswordResetExpired else PasswordResetRevoked),
                       tk_resolved := Some now\<rparr>) db) (\<lambda>db1.
            bindE (insert_ticket t db1) (\<lambda>db2. Inr (db2, Inr (scanPasswordResetTicket t)))))))) S)"

record CompletePasswordResetInput =
  cp_hash :: bytes
  cp_expected :: RecoveryEnvelope
  cp_password :: Envelope
  cp_recovery :: "string \<times> Envelope"

text \<open>The checks before the transaction.\<close>

definition complete_reset_checks ::
  "control_env \<Rightarrow> string \<Rightarrow> CompletePasswordResetInput \<Rightarrow> int \<Rightarrow>
     (cerr, string \<times> string \<times> string \<times> int \<times> string \<times> string \<times> string \<times> int) result" where
  "complete_reset_checks env generated input time =
     bindE (validateTokenHash (cp_hash input)) (\<lambda>_.
     let expected = cp_expected input in
     bindE (mapErr (\<lambda>_. ErrRecoveryConflict) (normalizeID (re_user expected))) (\<lambda>user.
     bindE (guardE (re_active expected) ErrRecoveryConflict) (\<lambda>_.
     bindE (normalizeID (re_id expected)) (\<lambda>eid.
     bindE (encodeKeyEnvelope env (re_envelope expected) KindRecovery) (\<lambda>json.
     bindE (validateOperationTime (re_created expected)) (\<lambda>created.
     bindE (encodeKeyEnvelope env (cp_password input) KindPassword) (\<lambda>passwordJSON.
     bindE (idOrGenerate generated (fst (cp_recovery input))) (\<lambda>rid.
     bindE (guardE (rid \<noteq> eid) ErrInput) (\<lambda>_.
     bindE (encodeKeyEnvelope env (snd (cp_recovery input)) KindRecovery) (\<lambda>recoveryJSON.
     bindE (guardE (recoveryJSON \<noteq> json) ErrInput) (\<lambda>_.
     bindE (validateOperationTime time) (\<lambda>now.
     bindE (guardE (\<not> now < created) ErrRecoveryConflict) (\<lambda>_.
     Inr (user, eid, json, created, passwordJSON, rid, recoveryJSON, now))))))))))))))"

text \<open>The transition of a pending, unexpired ticket.\<close>

definition complete_reset_tx ::
  "ticket_row \<Rightarrow> string \<Rightarrow> string \<Rightarrow> int \<Rightarrow> string \<Rightarrow> string \<Rightarrow> string \<Rightarrow> int \<Rightarrow> control_db \<Rightarrow> (cerr, control_db) result" where
  "complete_reset_tx t eid json created passwordJSON rid recoveryJSON now db =
     (let user = tk_user t;
          db1 = db\<lparr>passkeys := del_where (\<lambda>k. pk_user k = user) (passkeys db)\<rparr>;
          stale = (\<lambda>p. pw_user p = user \<and> pw_updated p < now) in
      bindE (set_password stale passwordJSON now db1) (\<lambda>db2.
      bindE (guardE (count_where stale (passwords db1) = 1) ErrCredentialConflict) (\<lambda>_.
      bindE (revokeExpectedRecoveryEnvelope user eid json created now db2) (\<lambda>(db3, ok).
      bindE (guardE ok ErrRecoveryConflict) (\<lambda>_.
      bindE (insertActiveRecoveryEnvelope rid user recoveryJSON now db3) (\<lambda>db4.
      bindE (update_tickets (\<lambda>s. tk_id s = tk_id t \<and> tk_state s = PasswordResetPending)
         (\<lambda>s. s\<lparr>tk_state := PasswordResetConsumed, tk_resolved := Some now\<rparr>) db4) (\<lambda>db5.
      bindE (guardE (count_where (\<lambda>s. tk_id s = tk_id t \<and> tk_state s = PasswordResetPending) (tickets db4) = 1)
         ErrResetTicketInactive) (\<lambda>_.
      bindE (update_tickets (\<lambda>s. tk_user s = user \<and> tk_state s = PasswordResetPending \<and> tk_id s \<noteq> tk_id t)
         (\<lambda>s. s\<lparr>tk_state := PasswordResetRevoked, tk_resolved := Some now\<rparr>) db5) (\<lambda>db6.
      advanceUserUpdatedAt user now db6)))))))))"

definition CompletePasswordReset ::
  "control_env \<Rightarrow> string \<Rightarrow> CompletePasswordResetInput \<Rightarrow> int \<Rightarrow> store \<Rightarrow> (cerr, PasswordResetTicket) result \<times> store" where
  "CompletePasswordReset env generated input time S =
     (case complete_reset_checks env generated input time of
        Inl e \<Rightarrow> (Inl e, S)
      | Inr (user, eid, json, created, passwordJSON, rid, recoveryJSON, now) \<Rightarrow>
          withImmediate (\<lambda>db.
            bindE (ofOption ErrNotFound (List.find (\<lambda>t. tk_hash t = cp_hash input) (tickets db))) (\<lambda>t.
            if tk_state t \<noteq> PasswordResetPending then Inl ErrResetTicketInactive
            else if \<not> tk_expires t > now then
              bindE (update_tickets (\<lambda>s. tk_id s = tk_id t \<and> tk_state s = PasswordResetPending)
                 (\<lambda>s. s\<lparr>tk_state := PasswordResetExpired, tk_resolved := Some now\<rparr>) db) (\<lambda>db'.
              Inr (db', Inl ErrResetTicketExpired))
            else if tk_user t \<noteq> user then Inl ErrRecoveryConflict
            else
              bindE (requireActiveUser (tk_user t) db) (\<lambda>_.
              bindE (complete_reset_tx t eid json created passwordJSON rid recoveryJSON now db) (\<lambda>db'.
              Inr (db', Inr (scanPasswordResetTicket (t\<lparr>tk_state := PasswordResetConsumed, tk_resolved := Some now\<rparr>))))))) S)"

definition RevokePasswordResetTicket :: "string \<Rightarrow> string \<Rightarrow> int \<Rightarrow> store \<Rightarrow> (cerr, unit) result \<times> store" where
  "RevokePasswordResetTicket actor i time S =
     (case validateUserMutation actor i time of
        Inl e \<Rightarrow> (Inl e, S)
      | Inr (a, t, now) \<Rightarrow>
          withImmediate (\<lambda>db.
            bindE (requireActiveAdmin a db) (\<lambda>_.
            bindE (ofOption ErrNotFound (List.find (\<lambda>s. tk_id s = t) (tickets db))) (\<lambda>s.
            bindE (guardE (tk_state s = PasswordResetPending) ErrResetTicketInactive) (\<lambda>_.
            bindE (update_tickets (\<lambda>s. tk_id s = t \<and> tk_state s = PasswordResetPending)
                (\<lambda>s. s\<lparr>tk_state := PasswordResetRevoked, tk_resolved := Some now\<rparr>) db) (\<lambda>db'.
            Inr (db', Inr ())))))) S)"

section \<open>Passkeys\<close>

definition MaxPasskeysPerUser :: nat where "MaxPasskeysPerUser = 10"

record WebauthnCredential =
  wc_id :: bytes
  wc_public :: bytes
  wc_json :: string

record PasskeyCredentialInput =
  ki_user :: string
  ki_name :: string
  ki_credential :: WebauthnCredential
  ki_salt :: bytes
  ki_envelope :: Envelope
  ki_password_required :: bool

definition validatePasskeyCredentialID :: "bytes \<Rightarrow> (cerr, unit) result" where
  "validatePasskeyCredentialID i = guardE (16 \<le> length i \<and> length i \<le> 1024) ErrInput"

definition legacyUnlockMarker :: string where
  "legacyUnlockMarker = [CHR ''{'', CHR 0x22] @ ''unlock'' @ [CHR 0x22, CHR '':'', CHR 0x22] @ ''password'' @ [CHR 0x22, CHR ''}'']"

definition encodePasskeyEnvelope :: "control_env \<Rightarrow> Envelope \<Rightarrow> (cerr, string) result" where
  "encodePasskeyEnvelope env e =
     bindE (guardE (ev_kind e = KindPasskey \<or> ev_kind e = KindServerPasskey) ErrInput) (\<lambda>_.
     encodeKeyEnvelope env e (ev_kind e))"

definition preparePasskeyCredential ::
  "control_env \<Rightarrow> PasskeyCredentialInput \<Rightarrow> (cerr, string \<times> string \<times> string) result" where
  "preparePasskeyCredential env input =
     bindE (normalizeID (ki_user input)) (\<lambda>user.
     let name = TrimSpace (ki_name input) in
     bindE (guardE (name \<noteq> [] \<and> length name \<le> 120) ErrInput) (\<lambda>_.
     bindE (validatePasskeyCredentialID (wc_id (ki_credential input))) (\<lambda>_.
     bindE (guardE (wc_public (ki_credential input) \<noteq> []) ErrInput) (\<lambda>_.
     bindE (guardE (length (ki_salt input) = 32) ErrInput) (\<lambda>_.
     bindE (guardE (2 \<le> length (wc_json (ki_credential input)) \<and> length (wc_json (ki_credential input)) \<le> 1048576)
        ErrInput) (\<lambda>_.
     bindE (if ki_password_required input then Inr legacyUnlockMarker else encodePasskeyEnvelope env (ki_envelope input)) (\<lambda>ej.
     Inr (user, name, ej))))))))"

definition CreatePasskeyCredential ::
  "control_env \<Rightarrow> PasskeyCredentialInput \<Rightarrow> int \<Rightarrow> store \<Rightarrow> (cerr, passkey_row) result \<times> store" where
  "CreatePasskeyCredential env input now S =
     (case preparePasskeyCredential env input of
        Inl e \<Rightarrow> (Inl e, S)
      | Inr (user, name, ej) \<Rightarrow>
          let k = \<lparr>pk_id = wc_id (ki_credential input), pk_user = user, pk_name = name,
                   pk_json = wc_json (ki_credential input), pk_salt = ki_salt input, pk_envelope = ej,
                   pk_revision = 1, pk_created = now, pk_updated = now, pk_used = None\<rparr> in
          withImmediate (\<lambda>db.
            bindE (guardE (count_where (\<lambda>q. pk_user q = user) (passkeys db) < MaxPasskeysPerUser) ErrConflict) (\<lambda>_.
            bindE (guardE (0 < now \<and> 2 \<le> length ej \<and> length ej \<le> 8192 \<and> 1 \<le> length (runes name) \<and> length (runes name) \<le> 120 \<and>
               pk_id k \<notin> pk_id ` set (passkeys db) \<and> user \<in> u_id ` set (users db)) ErrConflict) (\<lambda>_.
            Inr (db\<lparr>passkeys := passkeys db @ [k]\<rparr>, Inr k)))) S)"

definition passkey_at :: "passkey_row \<Rightarrow> passkey_row \<Rightarrow> bool" where
  "passkey_at expected k \<longleftrightarrow> pk_user k = pk_user expected \<and> pk_id k = pk_id expected \<and> pk_revision k = pk_revision expected"

definition active_user :: "string \<Rightarrow> control_db \<Rightarrow> bool" where
  "active_user i db \<longleftrightarrow> (\<exists>u\<in>set (users db). u_id u = i \<and> u_state u = UserActive)"

definition touch_passkey ::
  "passkey_row \<Rightarrow> (passkey_row \<Rightarrow> passkey_row) \<Rightarrow> int \<Rightarrow> control_db \<Rightarrow> (cerr, control_db) result" where
  "touch_passkey expected f now db =
     (if \<exists>k\<in>set (passkeys db). passkey_at expected k \<and> now < pk_created k then Inl ErrStorage
      else bindE (guardE (count_where (passkey_at expected) (passkeys db) = 1) ErrCredentialConflict) (\<lambda>_.
        Inr (db\<lparr>passkeys := upd_where (passkey_at expected)
               (\<lambda>k. (f k)\<lparr>pk_revision := pk_revision k + 1, pk_updated := now\<rparr>) (passkeys db)\<rparr>)))"

definition RecordSuccessfulPasskeyUse ::
  "passkey_row \<Rightarrow> WebauthnCredential \<Rightarrow> int \<Rightarrow> bool \<Rightarrow> store \<Rightarrow> (cerr, unit) result \<times> store" where
  "RecordSuccessfulPasskeyUse expected updated now recordLogin S =
     (if pk_revision expected < 1 \<or> pk_id expected \<noteq> wc_id updated then (Inl ErrCredentialConflict, S)
      else if length (wc_json updated) < 2 \<or> length (wc_json updated) > 1048576 then (Inl ErrInput, S)
      else withImmediate (\<lambda>db.
        bindE (touch_passkey expected (\<lambda>k. k\<lparr>pk_json := wc_json updated, pk_used := Some now\<rparr>) now db) (\<lambda>db1.
        if recordLogin then
          bindE (guardE (active_user (pk_user expected) db1) ErrCredentialConflict) (\<lambda>_.
          bindE (update_user (pk_user expected) (\<lambda>u. u\<lparr>u_login := Some now,
              u_updated := (if u_updated u < now then now else u_updated u)\<rparr>) db1) (\<lambda>db2. Inr (db2, Inr ())))
        else bindE (guardE (active_user (pk_user expected) db1) ErrCredentialConflict) (\<lambda>_. Inr (db1, Inr ())))) S)"

definition ReplacePasskeyEnvelope ::
  "control_env \<Rightarrow> passkey_row \<Rightarrow> Envelope \<Rightarrow> int \<Rightarrow> store \<Rightarrow> (cerr, unit) result \<times> store" where
  "ReplacePasskeyEnvelope env expected e now S =
     (if pk_revision expected < 1 then (Inl ErrCredentialConflict, S)
      else case encodeKeyEnvelope env e KindServerPasskey of
        Inl x \<Rightarrow> (Inl x, S)
      | Inr encoded \<Rightarrow>
          withImmediate (\<lambda>db.
            bindE (guardE (active_user (pk_user expected) db) ErrCredentialConflict) (\<lambda>_.
            bindE (guardE ((\<exists>k\<in>set (passkeys db). passkey_at expected k) \<longrightarrow> 2 \<le> length encoded) ErrStorage) (\<lambda>_.
            bindE (touch_passkey expected (\<lambda>k. k\<lparr>pk_envelope := encoded\<rparr>) now db) (\<lambda>db1. Inr (db1, Inr ()))))) S)"

definition DeletePasskeyCredential :: "string \<Rightarrow> bytes \<Rightarrow> store \<Rightarrow> (cerr, unit) result \<times> store" where
  "DeletePasskeyCredential user i S =
     (case bindE (normalizeID user) (\<lambda>u. bindE (validatePasskeyCredentialID i) (\<lambda>_. Inr u)) of
        Inl e \<Rightarrow> (Inl e, S)
      | Inr u \<Rightarrow>
          withImmediate (\<lambda>db.
            let p = (\<lambda>k. pk_user k = u \<and> pk_id k = i) in
            bindE (guardE (count_where p (passkeys db) = 1) ErrNotFound) (\<lambda>_.
            Inr (db\<lparr>passkeys := del_where p (passkeys db)\<rparr>, Inr ()))) S)"

definition DeleteAllPasskeyCredentials :: "string \<Rightarrow> store \<Rightarrow> (cerr, nat) result \<times> store" where
  "DeleteAllPasskeyCredentials user S =
     (case normalizeID user of
        Inl e \<Rightarrow> (Inl e, S)
      | Inr u \<Rightarrow>
          withImmediate (\<lambda>db.
            Inr (db\<lparr>passkeys := del_where (\<lambda>k. pk_user k = u) (passkeys db)\<rparr>,
                 Inr (count_where (\<lambda>k. pk_user k = u) (passkeys db)))) S)"

end
