(* ===== verification/ControlInvariant.thy ===== *)
theory ControlInvariant
  imports ControlCredentials
begin

text \<open>
  The invariant of the control store: keys and references, one password and exactly one active recovery
  envelope per user, at most one pending invitation per address and one pending ticket per user, pending
  capabilities only from active administrators and for active users, at most ten passkeys per user, and an
  active administrator once the store is bootstrapped. Each operation keeps it.
\<close>

section \<open>The invariant\<close>

definition user_ids :: "user_row list \<Rightarrow> string set" where
  "user_ids us = u_id ` set us"

definition active_ids :: "user_row list \<Rightarrow> string set" where
  "active_ids us = u_id ` {u \<in> set us. u_state u = UserActive}"

definition admin_ids :: "user_row list \<Rightarrow> string set" where
  "admin_ids us = u_id ` {u \<in> set us. u_role u = RoleAdmin \<and> u_state u = UserActive}"

definition users_ok :: "user_row list \<Rightarrow> bool" where
  "users_ok us \<longleftrightarrow> distinct (map u_id us) \<and> distinct (map (nocase \<circ> u_email) us) \<and> distinct (map u_vault us) \<and>
     (\<forall>u\<in>set us. user_check u)"

definition passwords_ok :: "string set \<Rightarrow> password_row list \<Rightarrow> bool" where
  "passwords_ok U ps \<longleftrightarrow> distinct (map pw_user ps) \<and> pw_user ` set ps = U"

definition recoveries_ok :: "string set \<Rightarrow> recovery_row list \<Rightarrow> bool" where
  "recoveries_ok U rs \<longleftrightarrow> distinct (map rc_id rs) \<and> rc_user ` set rs \<subseteq> U \<and>
     (\<forall>i\<in>U. count_where (\<lambda>r. rc_user r = i \<and> rc_active r) rs = 1)"

text \<open>A table of capabilities: unique ids and token hashes, and at most one pending row per key.\<close>

definition capability_table :: "('r \<Rightarrow> 'i) \<Rightarrow> ('r \<Rightarrow> 'h) \<Rightarrow> ('r \<Rightarrow> 'k) \<Rightarrow> ('r \<Rightarrow> bool) \<Rightarrow> 'r list \<Rightarrow> bool" where
  "capability_table ident hash key pend rows \<longleftrightarrow>
     distinct (map ident rows) \<and> distinct (map hash rows) \<and> distinct (map key (filter pend rows))"

definition pending_inv :: "invitation_row \<Rightarrow> bool" where
  "pending_inv v \<longleftrightarrow> iv_state v = InvitationPending"

definition pending_ticket :: "ticket_row \<Rightarrow> bool" where
  "pending_ticket t \<longleftrightarrow> tk_state t = PasswordResetPending"

definition inv_ok :: "string set \<Rightarrow> string set \<Rightarrow> invitation_row \<Rightarrow> bool" where
  "inv_ok A U v \<longleftrightarrow> invitation_check v \<and> iv_by v \<in> U \<and> (pending_inv v \<longrightarrow> iv_by v \<in> A) \<and>
     (case iv_accepted v of None \<Rightarrow> True | Some a \<Rightarrow> a \<in> U)"

definition invitations_ok :: "string set \<Rightarrow> string set \<Rightarrow> invitation_row list \<Rightarrow> bool" where
  "invitations_ok A U vs \<longleftrightarrow> capability_table iv_id iv_hash (nocase \<circ> iv_email) pending_inv vs \<and> (\<forall>v\<in>set vs. inv_ok A U v)"

definition ticket_ok :: "string set \<Rightarrow> string set \<Rightarrow> string set \<Rightarrow> ticket_row \<Rightarrow> bool" where
  "ticket_ok A C U t \<longleftrightarrow> ticket_check t \<and> tk_user t \<in> U \<and> tk_by t \<in> U \<and>
     (pending_ticket t \<longrightarrow> tk_by t \<in> A \<and> tk_user t \<in> C)"

definition tickets_ok :: "string set \<Rightarrow> string set \<Rightarrow> string set \<Rightarrow> ticket_row list \<Rightarrow> bool" where
  "tickets_ok A C U ts \<longleftrightarrow> capability_table tk_id tk_hash tk_user pending_ticket ts \<and> (\<forall>t\<in>set ts. ticket_ok A C U t)"

definition passkeys_ok :: "string set \<Rightarrow> passkey_row list \<Rightarrow> bool" where
  "passkeys_ok U ks \<longleftrightarrow> distinct (map pk_id ks) \<and> pk_user ` set ks \<subseteq> U \<and>
     (\<forall>i. count_where (\<lambda>k. pk_user k = i) ks \<le> MaxPasskeysPerUser)"

definition control_ok :: "control_db \<Rightarrow> bool" where
  "control_ok db \<longleftrightarrow> users_ok (users db) \<and> (users db \<noteq> [] \<longrightarrow> admin_ids (users db) \<noteq> {}) \<and>
     passwords_ok (user_ids (users db)) (passwords db) \<and> recoveries_ok (user_ids (users db)) (recoveries db) \<and>
     invitations_ok (admin_ids (users db)) (user_ids (users db)) (invitations db) \<and>
     tickets_ok (admin_ids (users db)) (active_ids (users db)) (user_ids (users db)) (tickets db) \<and>
     passkeys_ok (user_ids (users db)) (passkeys db)"

definition store_ok :: "store \<Rightarrow> bool" where
  "store_ok S \<longleftrightarrow> (case st_db S of None \<Rightarrow> True | Some db \<Rightarrow> control_ok db)"

section \<open>Rows and tables\<close>

lemma filter_resolve:
  "(\<And>v. v \<in> set vs \<Longrightarrow> p v \<Longrightarrow> \<not> q (f v)) \<Longrightarrow> filter q (upd_where p f vs) = filter (\<lambda>v. q v \<and> \<not> p v) vs"
  by (induction vs) (auto simp: table_simps)

lemma map_upd_where: "(\<And>v. v \<in> set vs \<Longrightarrow> p v \<Longrightarrow> k (f v) = k v) \<Longrightarrow> map k (upd_where p f vs) = map k vs"
  by (induction vs) (auto simp: table_simps)

lemma capability_resolve:
  assumes "capability_table ident hash key pend rows"
    and "\<And>r. r \<in> set rows \<Longrightarrow> p r \<Longrightarrow> ident (f r) = ident r \<and> hash (f r) = hash r \<and> \<not> pend (f r)"
  shows "capability_table ident hash key pend (upd_where p f rows)"
proof -
  have "distinct (map key (filter (\<lambda>v. pend v \<and> \<not> p v) rows))"
    using assms(1) distinct_map_filter[of key "filter pend rows" "\<lambda>v. \<not> p v"]
    by (simp add: capability_table_def conj_commute)
  then show ?thesis
    using assms map_upd_where[of rows p ident f] map_upd_where[of rows p hash f] filter_resolve[of rows p pend f]
    by (simp add: capability_table_def)
qed

lemma capability_insert:
  "capability_table ident hash key pend rows \<Longrightarrow> ident r \<notin> ident ` set rows \<Longrightarrow> hash r \<notin> hash ` set rows \<Longrightarrow>
   (\<And>q. q \<in> set rows \<Longrightarrow> pend q \<Longrightarrow> key q \<noteq> key r) \<Longrightarrow> capability_table ident hash key pend (rows @ [r])"
  unfolding capability_table_def by (simp add: image_iff) metis

lemma inv_ok_mono: "inv_ok A U v \<Longrightarrow> A \<subseteq> A' \<Longrightarrow> U \<subseteq> U' \<Longrightarrow> inv_ok A' U' v"
  by (auto simp: inv_ok_def split: option.splits)

lemma invitations_mono: "invitations_ok A U vs \<Longrightarrow> A \<subseteq> A' \<Longrightarrow> U \<subseteq> U' \<Longrightarrow> invitations_ok A' U' vs"
  using inv_ok_mono by (auto simp: invitations_ok_def)

lemma tickets_mono: "tickets_ok A C U ts \<Longrightarrow> A \<subseteq> A' \<Longrightarrow> C \<subseteq> C' \<Longrightarrow> U \<subseteq> U' \<Longrightarrow> tickets_ok A' C' U' ts"
  by (auto simp: tickets_ok_def ticket_ok_def)

text \<open>Resolving invitations or tickets, possibly because issuers lost their rights.\<close>

lemma invitations_resolve:
  assumes ok: "invitations_ok A U (invitations db)" and run: "update_invitations p f db = Inr db'"
    and us: "U = u_id ` set (users db)"
    and keep: "\<And>v. iv_id (f v) = iv_id v \<and> iv_hash (f v) = iv_hash v \<and> iv_by (f v) = iv_by v \<and> \<not> pending_inv (f v)"
    and left: "\<And>v. v \<in> set (invitations db) \<Longrightarrow> pending_inv v \<Longrightarrow> \<not> p v \<Longrightarrow> iv_by v \<in> A \<Longrightarrow> iv_by v \<in> A'"
  shows "invitations_ok A' U (invitations db')"
proof -
  have db': "invitations db' = upd_where p f (invitations db)"
    and chk: "\<And>v. v \<in> set (invitations db) \<Longrightarrow> p v \<Longrightarrow> invitation_check (f v) \<and>
      (case iv_accepted (f v) of None \<Rightarrow> True | Some a \<Rightarrow> a \<in> U)"
    using run us by (auto simp: update_invitations_def split: if_splits)
  have "inv_ok A' U w" if "w \<in> set (upd_where p f (invitations db))" for w
    using that
  proof (rule upd_where_elim)
    assume "w \<in> set (invitations db)" "\<not> p w"
    then show ?thesis using ok left by (auto simp: invitations_ok_def inv_ok_def)
  next
    fix v assume "v \<in> set (invitations db)" "p v" "w = f v"
    then show ?thesis using ok chk keep by (auto simp: invitations_ok_def inv_ok_def)
  qed
  then show ?thesis
    using ok keep unfolding invitations_ok_def db' by (auto intro: capability_resolve)
qed

lemma tickets_resolve:
  assumes ok: "tickets_ok A C U (tickets db)" and run: "update_tickets p f db = Inr db'"
    and keep: "\<And>t. tk_id (f t) = tk_id t \<and> tk_hash (f t) = tk_hash t \<and> tk_by (f t) = tk_by t \<and>
      tk_user (f t) = tk_user t \<and> \<not> pending_ticket (f t)"
    and left: "\<And>t. t \<in> set (tickets db) \<Longrightarrow> pending_ticket t \<Longrightarrow> \<not> p t \<Longrightarrow> tk_by t \<in> A \<Longrightarrow> tk_user t \<in> C \<Longrightarrow>
      tk_by t \<in> A' \<and> tk_user t \<in> C'"
  shows "tickets_ok A' C' U (tickets db')"
proof -
  have db': "tickets db' = upd_where p f (tickets db)"
    and chk: "\<And>t. t \<in> set (tickets db) \<Longrightarrow> p t \<Longrightarrow> ticket_check (f t)"
    using run by (auto simp: update_tickets_def split: if_splits)
  have "ticket_ok A' C' U w" if "w \<in> set (upd_where p f (tickets db))" for w
    using that
  proof (rule upd_where_elim)
    assume "w \<in> set (tickets db)" "\<not> p w"
    then show ?thesis using ok left by (auto simp: tickets_ok_def ticket_ok_def)
  next
    fix t assume "t \<in> set (tickets db)" "p t" "w = f t"
    then show ?thesis using ok chk keep by (auto simp: tickets_ok_def ticket_ok_def)
  qed
  then show ?thesis
    using ok keep unfolding tickets_ok_def db' by (auto intro: capability_resolve)
qed

lemma update_invitations_frame:
  "update_invitations p f db = Inr db' \<Longrightarrow> users db' = users db \<and> passwords db' = passwords db \<and>
     recoveries db' = recoveries db \<and> tickets db' = tickets db \<and> passkeys db' = passkeys db"
  by (auto simp: update_invitations_def split: if_splits)

lemma update_tickets_frame:
  "update_tickets p f db = Inr db' \<Longrightarrow> users db' = users db \<and> passwords db' = passwords db \<and>
     recoveries db' = recoveries db \<and> invitations db' = invitations db \<and> passkeys db' = passkeys db"
  by (auto simp: update_tickets_def split: if_splits)

lemma revoke_pending_ok:
  assumes inv: "invitations_ok A U (invitations db)" and tk: "tickets_ok A C U (tickets db)"
    and us: "U = u_id ` set (users db)" and run: "revokePendingCapabilities i now db = Inr db'"
    and A: "A - {i} \<subseteq> A'" and C: "C - {i} \<subseteq> C'"
  shows "invitations_ok A' U (invitations db')" and "tickets_ok A' C' U (tickets db')"
    and "users db' = users db \<and> passwords db' = passwords db \<and> recoveries db' = recoveries db \<and> passkeys db' = passkeys db"
proof -
  obtain db1 where
    r1: "update_invitations (\<lambda>v. iv_by v = i \<and> iv_state v = InvitationPending)
      (\<lambda>v. v\<lparr>iv_state := InvitationRevoked, iv_resolved := Some (if iv_created v > now then iv_created v else now)\<rparr>) db = Inr db1"
    and r2: "update_tickets (\<lambda>t. (tk_by t = i \<or> tk_user t = i) \<and> tk_state t = PasswordResetPending)
      (\<lambda>t. t\<lparr>tk_state := PasswordResetRevoked, tk_resolved := Some (if tk_created t > now then tk_created t else now)\<rparr>) db1 = Inr db'"
    using run by (auto simp: revokePendingCapabilities_def res_simps)
  note f1 = update_invitations_frame[OF r1] and f2 = update_tickets_frame[OF r2]
  have "invitations_ok A' U (invitations db1)"
    by (rule invitations_resolve[OF inv r1 us]) (use A in \<open>auto simp: pending_inv_def\<close>)
  then show "invitations_ok A' U (invitations db')" using f2 by simp
  have "tickets_ok A C U (tickets db1)" using tk f1 by simp
  then show "tickets_ok A' C' U (tickets db')"
    by (rule tickets_resolve[OF _ r2]) (use A C in \<open>auto simp: pending_ticket_def\<close>)
  show "users db' = users db \<and> passwords db' = passwords db \<and> recoveries db' = recoveries db \<and> passkeys db' = passkeys db"
    using f1 f2 by simp
qed

section \<open>Updates of one user\<close>

lemma users_upd:
  assumes ok: "users_ok (users db)" and run: "update_user i f db = Inr db'"
    and keep: "\<And>u. u_id (f u) = u_id u \<and> u_email (f u) = u_email u \<and> u_vault (f u) = u_vault u"
  shows "users_ok (users db')" and "user_ids (users db') = user_ids (users db)"
    and "users db' = upd_where (\<lambda>u. u_id u = i) f (users db)"
    and "db' = db\<lparr>users := users db'\<rparr>"
proof -
  show u': "users db' = upd_where (\<lambda>u. u_id u = i) f (users db)" and "db' = db\<lparr>users := users db'\<rparr>"
    using run by (auto simp: update_user_def split: if_splits)
  have chk: "\<And>u. u \<in> set (users db) \<Longrightarrow> u_id u = i \<Longrightarrow> user_check (f u)"
    using run by (auto simp: update_user_def split: if_splits)
  have m: "map k (users db') = map k (users db)" if "\<And>u. k (f u) = k u" for k
    unfolding u' using that by (intro map_upd_where) simp
  have "user_check u" if "u \<in> set (users db')" for u
    using that unfolding u' by (rule upd_where_elim) (use ok chk in \<open>auto simp: users_ok_def\<close>)
  then show "users_ok (users db')"
    using ok m[of u_id] m[of "nocase \<circ> u_email"] m[of u_vault] keep by (simp add: users_ok_def)
  show "user_ids (users db') = user_ids (users db)"
    using m[of u_id] keep unfolding user_ids_def by (metis list.set_map)
qed

lemma image_collect: "(\<And>u. h (g u) = h u) \<Longrightarrow> h ` {u \<in> g ` S. q u} = h ` {u \<in> S. q (g u)}"
  by (auto simp: image_iff) metis+

lemma upd_ids_gen:
  assumes "\<And>u. u_id (f u) = u_id u"
  shows "u_id ` {u \<in> set (upd_where p f us). q u} = u_id ` {u \<in> set us. q (if p u then f u else u)}"
  unfolding set_upd_where using assms by (intro image_collect) simp

lemma upd_ids:
  assumes "\<And>u. u_id (f u) = u_id u" and "\<And>u. q (f u) = q u"
  shows "u_id ` {u \<in> set (upd_where p f us). q u} = u_id ` {u \<in> set us. q u}"
proof -
  have "q (if p u then f u else u) = q u" for u using assms(2) by simp
  then show ?thesis by (simp only: upd_ids_gen[OF assms(1)])
qed

lemma upd_ids_drop:
  assumes "\<And>u. u_id (f u) = u_id u"
  shows "u_id ` {u \<in> set us. q u} - {i} \<subseteq> u_id ` {u \<in> set (upd_where (\<lambda>u. u_id u = i) f us). q u}"
  unfolding upd_ids_gen[OF assms] by auto

lemma upd_ids_grow:
  assumes "\<And>u. u_id (f u) = u_id u" and "\<And>u. q u \<Longrightarrow> q (f u)"
  shows "u_id ` {u \<in> set us. q u} \<subseteq> u_id ` {u \<in> set (upd_where p f us). q u}"
  unfolding upd_ids_gen[OF assms(1)] using assms(2) by auto

text \<open>Updates of bookkeeping columns.\<close>

lemma touch_user_ok:
  assumes ok: "control_ok db" and run: "update_user i f db = Inr db'"
    and keep: "\<And>u. u_id (f u) = u_id u \<and> u_email (f u) = u_email u \<and> u_vault (f u) = u_vault u \<and>
      u_role (f u) = u_role u \<and> u_state (f u) = u_state u"
  shows "control_ok db'"
proof -
  have o: "users_ok (users db)" using ok by (simp add: control_ok_def)
  note u = users_upd[OF o run] and k = keep
  have "admin_ids (users db') = admin_ids (users db)" "active_ids (users db') = active_ids (users db)"
    using k by (simp_all add: admin_ids_def active_ids_def u(3) upd_ids)
  moreover have "users db' = [] \<longleftrightarrow> users db = []" using k u(3) by (cases "users db") (simp_all add: table_simps)
  moreover have "passwords db' = passwords db" "recoveries db' = recoveries db" "invitations db' = invitations db"
    "tickets db' = tickets db" "passkeys db' = passkeys db"
    using u(4) k by (metis control_db.select_convs control_db.surjective control_db.update_convs(1))+
  ultimately show ?thesis using ok u(1,2) k by (simp add: control_ok_def)
qed

section \<open>New users\<close>

lemma count_where_append: "count_where p (xs @ ys) = count_where p xs + count_where p ys"
  by (simp add: count_where_def)

lemma recoveries_insert:
  assumes "recoveries_ok U rs" and "user \<notin> U" and "i \<notin> rc_id ` set rs"
  shows "recoveries_ok (insert user U) (rs @ [\<lparr>rc_id = i, rc_user = user, rc_json = j, rc_active = True,
    rc_created = t, rc_revoked = None\<rparr>])"
proof -
  have "\<And>r. r \<in> set rs \<Longrightarrow> rc_user r \<noteq> user" using assms(1,2) by (auto simp: recoveries_ok_def)
  then have "count_where (\<lambda>r. rc_user r = user \<and> rc_active r) rs = 0" by (auto simp: count_where_eq_0)
  then show ?thesis using assms by (auto simp: recoveries_ok_def count_where_append) (auto simp: count_where_def)
qed

lemma insertPreparedUser_ok:
  assumes ok: "control_ok db" and run: "insertPreparedUser p role now db = Inr db'"
    and role: "users db \<noteq> [] \<or> role = RoleAdmin"
  shows "control_ok db'" and "users db' = users db @ [new_user_row p role now]"
    and "invitations db' = invitations db" and "pu_id p \<notin> user_ids (users db)"
proof -
  let ?u = "new_user_row p role now"
  have c: "user_check ?u" "u_id ?u \<notin> u_id ` set (users db)" "nocase (u_email ?u) \<notin> (nocase \<circ> u_email) ` set (users db)"
    "u_vault ?u \<notin> u_vault ` set (users db)" "pu_id p \<notin> pw_user ` set (passwords db)"
    "pu_recovery_id p \<notin> rc_id ` set (recoveries db)"
    and db': "db' = db\<lparr>users := users db @ [?u],
      passwords := passwords db @ [\<lparr>pw_user = pu_id p, pw_json = pu_password_json p, pw_created = now, pw_updated = now\<rparr>],
      recoveries := recoveries db @ [\<lparr>rc_id = pu_recovery_id p, rc_user = pu_id p, rc_json = pu_recovery_json p,
        rc_active = True, rc_created = now, rc_revoked = None\<rparr>]\<rparr>"
    using run by (auto simp: insertPreparedUser_def insert_user_def insert_password_def insert_recovery_def res_simps split: if_splits)
  have u: "u_id ?u = pu_id p" "u_state ?u = UserActive" "u_role ?u = role" by (simp_all add: new_user_row_def)
  show "users db' = users db @ [?u]" "invitations db' = invitations db" by (simp_all add: db')
  show new: "pu_id p \<notin> user_ids (users db)" using c(2) u by (simp add: user_ids_def)
  have ids: "user_ids (users db') = insert (pu_id p) (user_ids (users db))"
    "admin_ids (users db) \<subseteq> admin_ids (users db')" "active_ids (users db) \<subseteq> active_ids (users db')"
    using u by (auto simp: db' user_ids_def admin_ids_def active_ids_def)
  have adm: "admin_ids (users db') \<noteq> {}"
    using ok role ids(2) u by (auto simp: control_ok_def db' admin_ids_def)
  have "users_ok (users db')" using ok c by (auto simp: control_ok_def users_ok_def db')
  moreover have "passwords_ok (user_ids (users db')) (passwords db')"
    unfolding ids using ok c(5) by (auto simp: control_ok_def passwords_ok_def db')
  moreover have "recoveries_ok (user_ids (users db')) (recoveries db')"
    unfolding ids using ok new c(6) by (auto simp: control_ok_def db' intro!: recoveries_insert)
  moreover have "invitations_ok (admin_ids (users db')) (user_ids (users db')) (invitations db')"
    using ok ids by (auto simp: control_ok_def db' intro: invitations_mono)
  moreover have "tickets_ok (admin_ids (users db')) (active_ids (users db')) (user_ids (users db')) (tickets db')"
    using ok ids by (auto simp: control_ok_def db' intro: tickets_mono)
  moreover have "passkeys_ok (user_ids (users db')) (passkeys db')"
    using ok ids(1) by (auto simp: control_ok_def passkeys_ok_def db')
  ultimately show "control_ok db'" using adm by (simp add: control_ok_def)
qed

section \<open>Operations\<close>

lemma withImmediate_ok:
  assumes "withImmediate operation S = (r, S')" and "store_ok S"
    and "\<And>db db' a. control_ok db \<Longrightarrow> operation db = Inr (db', a) \<Longrightarrow> control_ok db'"
  shows "store_ok S'"
proof (cases "st_db S")
  case None
  then show ?thesis using assms(1,2) by (auto simp: withImmediate_def split: bool.splits)
next
  case (Some db)
  then have "control_ok db" using assms(2) by (simp add: store_ok_def)
  then show ?thesis
    using assms Some by (auto simp: withImmediate_def store_ok_def split: bool.splits sum.splits)
qed

lemma withImmediate_closed: "st_closed S \<or> st_db S = None \<Longrightarrow> withImmediate operation S = (Inl ErrStoreClosed, S)"
  by (auto simp: withImmediate_def split: bool.splits option.splits)

text \<open>The contract of an operation on the store: it keeps the invariant, and a closed store refuses it and
  stays as it is.\<close>

locale store_operation =
  fixes run :: "store \<Rightarrow> (cerr, 'a) result \<times> store"
  assumes keeps: "run S = (r, S') \<Longrightarrow> store_ok S \<Longrightarrow> store_ok S'"
    and refuses: "st_closed S \<or> st_db S = None \<Longrightarrow> \<exists>e. run S = (Inl e, S)"
begin

lemma keeps_snd: "store_ok S \<Longrightarrow> store_ok (snd (run S))"
  using keeps[of S "fst (run S)" "snd (run S)"] by simp

end

lemma store_tx:
  assumes "\<And>db db' a. control_ok db \<Longrightarrow> operation db = Inr (db', a) \<Longrightarrow> control_ok db'"
  shows "store_operation (withImmediate operation)"
  by unfold_locales (use assms withImmediate_ok withImmediate_closed in blast)+

lemma store_prepared:
  assumes "\<And>S. run S = (case prep of Inl e \<Rightarrow> (Inl e, S) | Inr x \<Rightarrow> tx x S)"
    and "\<And>x. prep = Inr x \<Longrightarrow> store_operation (tx x)"
  shows "store_operation run"
proof (cases prep)
  case (Inl e)
  then show ?thesis by unfold_locales (auto simp: assms(1))
next
  case (Inr x)
  then have "run = tx x" by (auto simp: assms(1))
  then show ?thesis using assms(2)[OF Inr] by simp
qed

lemma store_if: "store_operation f \<Longrightarrow> store_operation (\<lambda>S. if c then (Inl e, S) else f S)"
  by (cases c) (simp_all, unfold_locales, simp_all)

lemma invitation_tx_ok:
  assumes ok: "control_ok db" and run: "update_invitations p f db = Inr db'"
    and keep: "\<And>v. iv_id (f v) = iv_id v \<and> iv_hash (f v) = iv_hash v \<and> iv_by (f v) = iv_by v \<and> \<not> pending_inv (f v)"
  shows "control_ok db'"
proof -
  have "invitations_ok (admin_ids (users db)) (user_ids (users db)) (invitations db')"
    using ok by (intro invitations_resolve[OF _ run _ keep]) (auto simp: control_ok_def user_ids_def)
  then show ?thesis using ok update_invitations_frame[OF run] by (simp add: control_ok_def)
qed

lemma resolve_invitation_ok:
  "control_ok db \<Longrightarrow> update_invitations p (\<lambda>w. w\<lparr>iv_state := s, iv_resolved := Some now\<rparr>) db = Inr db' \<Longrightarrow>
   s \<noteq> InvitationPending \<Longrightarrow> control_ok db'"
  by (erule invitation_tx_ok) (auto simp: pending_inv_def)

lemma ticket_tx_ok:
  assumes ok: "control_ok db" and run: "update_tickets p f db = Inr db'"
    and keep: "\<And>t. tk_id (f t) = tk_id t \<and> tk_hash (f t) = tk_hash t \<and> tk_by (f t) = tk_by t \<and>
      tk_user (f t) = tk_user t \<and> \<not> pending_ticket (f t)"
  shows "control_ok db'"
proof -
  have "tickets_ok (admin_ids (users db)) (active_ids (users db)) (user_ids (users db)) (tickets db')"
    using ok by (intro tickets_resolve[OF _ run keep]) (auto simp: control_ok_def)
  then show ?thesis using ok update_tickets_frame[OF run] by (simp add: control_ok_def)
qed

text \<open>Taking rights away from a user who is not the last active administrator, with the revocation of what
  the user has issued.\<close>

lemma demote_ok:
  assumes ok: "control_ok db" and upd: "update_user i f db = Inr db1"
    and rev: "revokePendingCapabilities i now db1 = Inr db'"
    and keep: "\<And>u. u_id (f u) = u_id u \<and> u_email (f u) = u_email u \<and> u_vault (f u) = u_vault u"
    and other: "admin_ids (users db) - {i} \<noteq> {}"
  shows "control_ok db'"
proof -
  have o: "users_ok (users db)" using ok by (simp add: control_ok_def)
  note u = users_upd[OF o upd keep]
  have A: "admin_ids (users db) - {i} \<subseteq> admin_ids (users db1)" and C: "active_ids (users db) - {i} \<subseteq> active_ids (users db1)"
    using keep by (simp_all add: admin_ids_def active_ids_def u(3) upd_ids_drop)
  have t: "passwords db1 = passwords db" "recoveries db1 = recoveries db" "invitations db1 = invitations db"
    "tickets db1 = tickets db" "passkeys db1 = passkeys db"
    using upd by (auto simp: update_user_def split: if_splits)
  have inv: "invitations_ok (admin_ids (users db)) (user_ids (users db1)) (invitations db1)"
    "tickets_ok (admin_ids (users db)) (active_ids (users db)) (user_ids (users db1)) (tickets db1)"
    using ok u(2) t by (simp_all add: control_ok_def)
  note r = revoke_pending_ok[OF inv _ rev A C]
  have "user_ids (users db1) = u_id ` set (users db1)" by (simp add: user_ids_def)
  then have "invitations_ok (admin_ids (users db1)) (user_ids (users db1)) (invitations db')"
    "tickets_ok (admin_ids (users db1)) (active_ids (users db1)) (user_ids (users db1)) (tickets db')"
    "users db' = users db1 \<and> passwords db' = passwords db1 \<and> recoveries db' = recoveries db1 \<and> passkeys db' = passkeys db1"
    using r by blast+
  moreover have "admin_ids (users db1) \<noteq> {}" using A other by blast
  ultimately show ?thesis using ok u(1,2) t by (simp add: control_ok_def)
qed

lemma promote_ok:
  assumes ok: "control_ok db" and upd: "update_user i f db = Inr db'"
    and keep: "\<And>u. u_id (f u) = u_id u \<and> u_email (f u) = u_email u \<and> u_vault (f u) = u_vault u"
    and grow: "\<And>u. u_state u = UserActive \<Longrightarrow> u_state (f u) = UserActive"
      "\<And>u. u_role u = RoleAdmin \<Longrightarrow> u_role (f u) = RoleAdmin"
  shows "control_ok db'"
proof -
  have o: "users_ok (users db)" using ok by (simp add: control_ok_def)
  note u = users_upd[OF o upd keep]
  have A: "admin_ids (users db) \<subseteq> admin_ids (users db')"
    unfolding admin_ids_def u(3) by (rule upd_ids_grow) (use keep grow in auto)
  have C: "active_ids (users db) \<subseteq> active_ids (users db')"
    unfolding active_ids_def u(3) by (rule upd_ids_grow) (use keep grow in auto)
  have "users db' = [] \<longleftrightarrow> users db = []" using u(3) by (cases "users db") (simp_all add: table_simps)
  then have "users db' \<noteq> [] \<longrightarrow> admin_ids (users db') \<noteq> {}" using ok A by (auto simp: control_ok_def)
  moreover have "passwords db' = passwords db" "recoveries db' = recoveries db" "invitations db' = invitations db"
    "tickets db' = tickets db" "passkeys db' = passkeys db"
    using upd by (auto simp: update_user_def split: if_splits)
  ultimately show ?thesis
    using ok u(1,2) invitations_mono[OF _ A order_refl] tickets_mono[OF _ A C order_refl] by (simp add: control_ok_def)
qed

section \<open>Contracts of the operations on users and invitations\<close>

lemma admin_in_ids: "requireActiveAdmin a db = Inr x \<Longrightarrow> a \<in> admin_ids (users db)"
  by (auto simp: requireActiveAdmin_def loadRoleAndState_def admin_ids_def res_simps dest!: find_SomeD)

lemma other_admin: "requireAnotherActiveAdmin i db = Inr x \<Longrightarrow> admin_ids (users db) - {i} \<noteq> {}"
  by (auto simp: requireAnotherActiveAdmin_def admin_ids_def res_simps)

lemma loaded_role:
  assumes "users_ok (users db)" and "loadRoleAndState i db = Inr (role, state)"
  shows "i \<in> admin_ids (users db) \<longleftrightarrow> role = RoleAdmin \<and> state = UserActive"
proof -
  obtain u where u: "u \<in> set (users db)" "u_id u = i" "u_role u = role" "u_state u = state"
    using assms(2) by (auto simp: loadRoleAndState_def res_simps dest!: find_SomeD)
  have "w = u" if "w \<in> set (users db)" "u_id w = i" for w
    using distinct_map_inj[of u_id "users db" w u] assms(1) that u by (simp add: users_ok_def)
  then have "i \<in> admin_ids (users db) \<longleftrightarrow> u_role u = RoleAdmin \<and> u_state u = UserActive"
    using u(1,2) unfolding admin_ids_def by blast
  then show ?thesis using u(3,4) by simp
qed

interpretation bootstrap: store_operation "BootstrapFirstAdmin env generated input time"
  by (rule store_prepared[OF BootstrapFirstAdmin_def])
    (auto simp: res_simps intro!: store_tx intro: insertPreparedUser_ok(1))

lemma disable_tx_ok:
  assumes ok: "control_ok db" and run: "bindE (requireActiveAdmin a db) (\<lambda>_.
            bindE (loadRoleAndState t db) (\<lambda>(role, state).
            if state = UserDisabled
            then bindE (revokePendingCapabilities t now db) (\<lambda>db'. Inr (db', Inr ()))
            else
              bindE (if role = RoleAdmin then requireAnotherActiveAdmin t db else Inr ()) (\<lambda>_.
              bindE (update_user t (\<lambda>u. u\<lparr>u_state := UserDisabled, u_updated := now\<rparr>) db) (\<lambda>db1.
              bindE (revokePendingCapabilities t now db1) (\<lambda>db2. Inr (db2, Inr ())))))) = Inr (db', r)"
    and "a \<noteq> t"
  shows "control_ok db'"
proof -
  have a: "a \<in> admin_ids (users db) - {t}" using run assms(3) by (auto simp: res_simps dest: admin_in_ids)
  consider "revokePendingCapabilities t now db = Inr db'" |
    db1 where "update_user t (\<lambda>u. u\<lparr>u_state := UserDisabled, u_updated := now\<rparr>) db = Inr db1"
      "revokePendingCapabilities t now db1 = Inr db'"
    using run by (auto simp: res_simps split: if_splits prod.splits)
  then show ?thesis
  proof cases
    case 1
    have inv: "invitations_ok (admin_ids (users db)) (user_ids (users db)) (invitations db)"
      "tickets_ok (admin_ids (users db)) (active_ids (users db)) (user_ids (users db)) (tickets db)"
      using ok by (simp_all add: control_ok_def)
    note r = revoke_pending_ok[OF inv user_ids_def 1 Diff_subset Diff_subset]
    then show ?thesis using ok by (simp add: control_ok_def)
  next
    case 2
    show ?thesis by (rule demote_ok[OF ok 2]) (use a in auto)
  qed
qed

interpretation disable: store_operation "DisableUser actor target time"
  by (rule store_prepared[OF DisableUser_def])
    (auto simp: res_simps split: if_splits intro!: store_tx intro: disable_tx_ok)

interpretation enable: store_operation "EnableUser actor target time"
  by (rule store_prepared[OF EnableUser_def])
    (auto simp: res_simps split: if_splits intro!: store_tx intro: promote_ok)

lemma role_tx_ok:
  assumes ok: "control_ok db" and adm: "requireActiveAdmin a db = Inr x"
    and cur: "loadRoleAndState t db = Inr (currentRole, state)"
    and run: "(if currentRole = role then Inr (db, Inr ())
            else
              bindE (if currentRole = RoleAdmin \<and> role \<noteq> RoleAdmin \<and> state = UserActive
                     then requireAnotherActiveAdmin t db else Inr ()) (\<lambda>_.
              bindE (update_user t (\<lambda>u. u\<lparr>u_role := role, u_updated := now\<rparr>) db) (\<lambda>db1.
              bindE (if currentRole = RoleAdmin \<and> role \<noteq> RoleAdmin
                     then revokePendingCapabilities t now db1 else Inr db1) (\<lambda>db2.
              Inr (db2, Inr ()))))) = Inr (db', r)"
    and valid: "validateRole role = Inr y"
  shows "control_ok db'"
proof (cases "currentRole = role")
  case False
  have us: "users_ok (users db)" using ok by (simp add: control_ok_def)
  obtain db1 where
    guard: "(if currentRole = RoleAdmin \<and> role \<noteq> RoleAdmin \<and> state = UserActive
      then requireAnotherActiveAdmin t db else Inr ()) = Inr ()"
    and upd: "update_user t (\<lambda>u. u\<lparr>u_role := role, u_updated := now\<rparr>) db = Inr db1"
    and rev: "(if currentRole = RoleAdmin \<and> role \<noteq> RoleAdmin then revokePendingCapabilities t now db1 else Inr db1) = Inr db'"
    using run False by (auto simp: res_simps)
  have "currentRole = RoleAdmin \<or> currentRole = RoleUser"
    using cur us by (auto simp: loadRoleAndState_def res_simps users_ok_def user_check_def dest!: find_SomeD)
  then consider (down) "currentRole = RoleAdmin" "role = RoleUser" | (up) "role = RoleAdmin"
    using valid False by (auto simp: validateRole_def res_simps)
  then show ?thesis
  proof cases
    case down
    have "admin_ids (users db) - {t} \<noteq> {}"
      using down guard other_admin[of t db "()"] loaded_role[OF us cur] admin_in_ids[OF adm] by (cases state) auto
    then show ?thesis using rev down by (intro demote_ok[OF ok upd, of now]) auto
  next
    case up
    then have "db' = db1" using rev False by auto
    then show ?thesis using up by (auto intro: promote_ok[OF ok upd])
  qed
qed (use ok run in auto)

interpretation set_role: store_operation "SetUserRole actor target role time"
  by (rule store_prepared[OF SetUserRole_def])
    (clarsimp simp: res_simps, rule store_tx, clarsimp simp: res_simps, erule (4) role_tx_ok)

lemma invitation_insert_ok:
  assumes ok: "control_ok db" and adm: "iv_by v \<in> admin_ids (users db)" and "iv_accepted v = None"
    and run: "insert_invitation v db = Inr db'"
  shows "control_ok db'"
proof -
  have db': "db' = db\<lparr>invitations := invitations db @ [v]\<rparr>" and
    c: "invitation_check v" "iv_id v \<notin> iv_id ` set (invitations db)" "iv_hash v \<notin> iv_hash ` set (invitations db)"
      "iv_by v \<in> user_ids (users db)"
      "\<And>w. w \<in> set (invitations db) \<Longrightarrow> pending_inv w \<Longrightarrow> nocase (iv_email w) \<noteq> nocase (iv_email v)"
    using run by (auto simp: insert_invitation_def pending_inv_def user_ids_def split: if_splits)
  have "capability_table iv_id iv_hash (nocase \<circ> iv_email) pending_inv (invitations db @ [v])"
    using ok c by (intro capability_insert) (auto simp: control_ok_def invitations_ok_def)
  then show ?thesis using ok c(1,4) adm assms(3) by (auto simp: control_ok_def invitations_ok_def inv_ok_def db')
qed

lemma ticket_insert_ok:
  assumes ok: "control_ok db" and adm: "tk_by t \<in> admin_ids (users db)" and act: "tk_user t \<in> active_ids (users db)"
    and none: "\<And>s. s \<in> set (tickets db) \<Longrightarrow> pending_ticket s \<Longrightarrow> tk_user s \<noteq> tk_user t"
    and run: "insert_ticket t db = Inr db'"
  shows "control_ok db'"
proof -
  have db': "db' = db\<lparr>tickets := tickets db @ [t]\<rparr>" and
    c: "ticket_check t" "tk_id t \<notin> tk_id ` set (tickets db)" "tk_hash t \<notin> tk_hash ` set (tickets db)"
      "tk_by t \<in> user_ids (users db)" "tk_user t \<in> user_ids (users db)"
    using run by (auto simp: insert_ticket_def user_ids_def split: if_splits)
  have "capability_table tk_id tk_hash tk_user pending_ticket (tickets db @ [t])"
    using ok c none by (intro capability_insert) (auto simp: control_ok_def tickets_ok_def)
  then show ?thesis using ok c(1,4,5) adm act by (auto simp: control_ok_def tickets_ok_def ticket_ok_def db')
qed

lemma create_invitation_tx_ok:
  assumes ok: "control_ok db"
    and upd: "update_invitations p (\<lambda>w. w\<lparr>iv_state := InvitationExpired, iv_resolved := Some now\<rparr>) db = Inr db1"
    and ins: "insert_invitation v db1 = Inr db'"
    and adm: "requireActiveAdmin (iv_by v) db = Inr ()" and acc: "iv_accepted v = None"
  shows "control_ok db'"
proof -
  have "control_ok db1" by (rule invitation_tx_ok[OF ok upd]) (simp add: pending_inv_def)
  moreover have "iv_by v \<in> admin_ids (users db1)"
    using admin_in_ids[OF adm] update_invitations_frame[OF upd] by simp
  ultimately show ?thesis using acc ins by (rule invitation_insert_ok)
qed

interpretation create_invitation: store_operation "CreateInvitation env generated actor input time"
  by (rule store_prepared[OF CreateInvitation_def])
    (clarsimp simp: res_simps, rule store_tx, clarsimp simp: res_simps, erule (2) create_invitation_tx_ok, simp_all)

lemma accept_tx_control_ok:
  assumes ok: "control_ok db" and v: "v \<in> set (invitations db)"
    and ins: "insertPreparedUser p (iv_role v) now db = Inr db1"
    and upd: "update_invitations (\<lambda>w. iv_id w = iv_id v \<and> iv_state w = InvitationPending)
      (\<lambda>w. w\<lparr>iv_state := InvitationAccepted, iv_accepted := Some (pu_id p), iv_resolved := Some now\<rparr>) db1 = Inr db'"
  shows "control_ok db'"
proof -
  have "iv_by v \<in> user_ids (users db)" using ok v by (auto simp: control_ok_def invitations_ok_def inv_ok_def)
  then have "users db \<noteq> []" by (auto simp: user_ids_def)
  then have "control_ok db1" using ok ins by (blast intro: insertPreparedUser_ok(1))
  then show ?thesis by (rule invitation_tx_ok[OF _ upd]) (simp add: pending_inv_def)
qed

interpretation accept_invitation: store_operation "AcceptInvitation env generated hash input time"
  by (rule store_prepared[OF AcceptInvitation_def])
    (auto simp: res_simps split: if_splits dest!: find_SomeD intro!: store_tx,
     (erule (1) resolve_invitation_ok, simp), erule (3) accept_tx_control_ok)

interpretation revoke_invitation: store_operation "RevokeInvitation actor i time"
  by (rule store_prepared[OF RevokeInvitation_def])
    (auto simp: res_simps intro!: store_tx elim: resolve_invitation_ok)

section \<open>Contracts of the operations on credentials\<close>

lemma set_password_ok:
  assumes ok: "control_ok db" and run: "set_password p json now db = Inr db'"
  shows "control_ok db'"
proof -
  have db': "db' = db\<lparr>passwords := upd_where p (\<lambda>r. r\<lparr>pw_json := json, pw_updated := now\<rparr>) (passwords db)\<rparr>"
    using run by (auto simp: set_password_def split: if_splits)
  have m: "map pw_user (passwords db') = map pw_user (passwords db)" by (simp add: db' map_upd_where)
  have "passwords_ok (user_ids (users db)) (passwords db')"
    using ok m unfolding control_ok_def passwords_ok_def by (metis list.set_map)
  then show ?thesis using ok by (simp add: control_ok_def db')
qed

lemma advance_user_ok: "control_ok db \<Longrightarrow> advanceUserUpdatedAt i now db = Inr db' \<Longrightarrow> control_ok db'"
  unfolding advanceUserUpdatedAt_def by (erule (1) touch_user_ok) simp

lemma login_user_ok:
  "control_ok db \<Longrightarrow> update_user i (\<lambda>u. u\<lparr>u_login := g u\<rparr>) db = Inr db' \<Longrightarrow> control_ok db'"
  "control_ok db \<Longrightarrow> update_user i (\<lambda>u. u\<lparr>u_login := g u, u_updated := h u\<rparr>) db = Inr db' \<Longrightarrow> control_ok db'"
  by (erule (1) touch_user_ok, simp)+

lemma passkeys_keep:
  assumes ok: "control_ok db" and db': "db' = db\<lparr>passkeys := ks\<rparr>" and "distinct (map pk_id ks)"
    and sub: "pk_user ` set ks \<subseteq> user_ids (users db)" and "\<And>i. count_where (\<lambda>k. pk_user k = i) ks \<le> MaxPasskeysPerUser"
  shows "control_ok db'"
  using assms by (simp add: control_ok_def passkeys_ok_def)

lemma count_del_where: "count_where q (del_where p rs) \<le> count_where q rs"
  by (induction rs) (auto simp: count_where_def del_where_def)

lemma passkeys_delete:
  assumes ok: "control_ok db" shows "control_ok (db\<lparr>passkeys := del_where p (passkeys db)\<rparr>)"
proof (rule passkeys_keep[OF ok refl])
  have k: "passkeys_ok (user_ids (users db)) (passkeys db)" using ok by (simp add: control_ok_def)
  show "distinct (map pk_id (del_where p (passkeys db)))" using k by (simp add: passkeys_ok_def distinct_del_where)
  show "pk_user ` set (del_where p (passkeys db)) \<subseteq> user_ids (users db)"
    using k by (auto simp: passkeys_ok_def table_simps)
  show "count_where (\<lambda>k. pk_user k = i) (del_where p (passkeys db)) \<le> MaxPasskeysPerUser" for i
    using k count_del_where[of "\<lambda>k. pk_user k = i" p "passkeys db"] by (auto simp: passkeys_ok_def intro: order_trans)
qed

lemma count_upd_where: "(\<And>r. p r \<Longrightarrow> q (f r) = q r) \<Longrightarrow> count_where q (upd_where p f rs) = count_where q rs"
  by (simp add: count_where_def filter_upd_where)

lemma touch_passkey_ok:
  assumes ok: "control_ok db" and run: "touch_passkey expected f now db = Inr db'"
    and keep: "\<And>k. pk_id (f k) = pk_id k \<and> pk_user (f k) = pk_user k"
  shows "control_ok db'"
proof -
  let ?g = "\<lambda>k. (f k)\<lparr>pk_revision := pk_revision k + 1, pk_updated := now\<rparr>"
  have db': "db' = db\<lparr>passkeys := upd_where (passkey_at expected) ?g (passkeys db)\<rparr>"
    using run by (auto simp: touch_passkey_def res_simps split: if_splits)
  have k: "passkeys_ok (user_ids (users db)) (passkeys db)" using ok by (simp add: control_ok_def)
  show ?thesis
  proof (rule passkeys_keep[OF ok db'])
    show "distinct (map pk_id (upd_where (passkey_at expected) ?g (passkeys db)))"
      using k keep by (simp add: map_upd_where passkeys_ok_def)
    show "pk_user ` set (upd_where (passkey_at expected) ?g (passkeys db)) \<subseteq> user_ids (users db)"
      using k keep by (auto simp: passkeys_ok_def elim!: upd_where_elim)
    show "count_where (\<lambda>k. pk_user k = i) (upd_where (passkey_at expected) ?g (passkeys db)) \<le> MaxPasskeysPerUser" for i
      using k keep by (simp add: count_upd_where passkeys_ok_def)
  qed
qed

text \<open>Replacing the active recovery envelope of a user.\<close>

lemma rotate_recovery_ok:
  assumes ok: "control_ok db" and rev: "revokeExpectedRecoveryEnvelope user i json created now db = Inr (db1, b)"
    and ins: "insertActiveRecoveryEnvelope rid user j now db1 = Inr db'"
  shows "control_ok db'" and "users db' = users db \<and> passwords db' = passwords db \<and> passkeys db' = passkeys db \<and> tickets db' = tickets db"
proof -
  let ?p = "\<lambda>r. rc_id r = i \<and> rc_user r = user \<and> rc_active r \<and> rc_json r = json \<and> rc_created r = created"
  let ?f = "\<lambda>r. r\<lparr>rc_active := False, rc_revoked := Some now\<rparr>"
  let ?row = "\<lparr>rc_id = rid, rc_user = user, rc_json = j, rc_active = True, rc_created = now, rc_revoked = None\<rparr>"
  let ?rs = "upd_where ?p ?f (recoveries db)"
  have db1: "db1 = db\<lparr>recoveries := ?rs\<rparr>"
    using rev by (auto simp: revokeExpectedRecoveryEnvelope_def Let_def split: if_splits)
  have db': "db' = db\<lparr>recoveries := ?rs @ [?row]\<rparr>" and new: "rid \<notin> rc_id ` set ?rs" "user \<in> user_ids (users db)"
    "\<not> (\<exists>r\<in>set ?rs. rc_user r = user \<and> rc_active r)"
    using ins unfolding db1 by (auto simp: insertActiveRecoveryEnvelope_def insert_recovery_def user_ids_def split: if_splits)
  have r: "recoveries_ok (user_ids (users db)) (recoveries db)" using ok by (simp add: control_ok_def)
  have "count_where (\<lambda>r. rc_user r = k \<and> rc_active r) (?rs @ [?row]) = 1" if "k \<in> user_ids (users db)" for k
  proof (cases "k = user")
    case True
    then have "count_where (\<lambda>r. rc_user r = k \<and> rc_active r) ?rs = 0" using new(3) by (auto simp: count_where_eq_0)
    then show ?thesis using True by (simp add: count_where_append) (simp add: count_where_def)
  next
    case False
    then have "count_where (\<lambda>r. rc_user r = k \<and> rc_active r) ?rs = count_where (\<lambda>r. rc_user r = k \<and> rc_active r) (recoveries db)"
      by (intro count_upd_where) auto
    then show ?thesis using False r that by (simp add: count_where_append recoveries_ok_def) (simp add: count_where_def)
  qed
  moreover have ids: "map rc_id ?rs = map rc_id (recoveries db)" by (simp add: map_upd_where)
  have "rid \<notin> set (map rc_id (recoveries db))" using new(1) unfolding ids[symmetric] by simp
  then have "distinct (map rc_id (?rs @ [?row]))" using r by (simp add: ids recoveries_ok_def)
  moreover have "rc_user ` set (?rs @ [?row]) \<subseteq> user_ids (users db)"
    using r new(2) by (auto simp: recoveries_ok_def elim!: upd_where_elim)
  ultimately have "recoveries_ok (user_ids (users db)) (?rs @ [?row])" by (simp add: recoveries_ok_def)
  then show "control_ok db'" using ok by (simp add: control_ok_def db')
  show "users db' = users db \<and> passwords db' = passwords db \<and> passkeys db' = passkeys db \<and> tickets db' = tickets db"
    by (simp add: db')
qed

interpretation record_login: store_operation "RecordSuccessfulLogin env user expected time"
  by (rule store_prepared[OF RecordSuccessfulLogin_def])
    (auto simp: res_simps intro!: store_tx elim: login_user_ok)

interpretation replace_password:
  store_operation "ReplacePasswordCredentialWithPasskeyPolicy env user expected replacement revokePasskeys time"
  by (rule store_prepared[OF ReplacePasswordCredentialWithPasskeyPolicy_def])
    (auto simp: res_simps Let_def split: if_splits
      intro!: store_tx passkeys_delete elim!: advance_user_ok[rotated] set_password_ok[rotated])

interpretation rotate_recovery: store_operation "RotateRecoveryEnvelope env generated user expected replacement time"
  by (rule store_prepared[OF RotateRecoveryEnvelope_def])
    (auto simp: res_simps intro!: store_tx elim!: advance_user_ok[rotated] intro: rotate_recovery_ok(1))

lemma active_loaded: "loadRoleAndState i db = Inr (role, UserActive) \<Longrightarrow> i \<in> active_ids (users db)"
  by (auto simp: loadRoleAndState_def active_ids_def res_simps dest!: find_SomeD)

lemma create_ticket_tx_ok:
  assumes ok: "control_ok db"
    and upd: "update_tickets (\<lambda>s. tk_user s = i \<and> tk_state s = PasswordResetPending)
      (\<lambda>s. s\<lparr>tk_state := (if tk_expires s \<le> now then PasswordResetExpired else PasswordResetRevoked),
                       tk_resolved := Some now\<rparr>) db = Inr db1"
    and ins: "insert_ticket t db1 = Inr db'"
    and adm: "requireActiveAdmin (tk_by t) db = Inr ()" and i: "i = tk_user t" and act: "i \<in> active_ids (users db)"
  shows "control_ok db'"
proof -
  have ok1: "control_ok db1" by (rule ticket_tx_ok[OF ok upd]) (simp add: pending_ticket_def)
  have us: "users db1 = users db" using update_tickets_frame[OF upd] by simp
  have ts: "tickets db1 = upd_where (\<lambda>s. tk_user s = i \<and> tk_state s = PasswordResetPending)
      (\<lambda>s. s\<lparr>tk_state := (if tk_expires s \<le> now then PasswordResetExpired else PasswordResetRevoked),
                       tk_resolved := Some now\<rparr>) (tickets db)"
    using upd by (auto simp: update_tickets_def split: if_splits)
  have none: "tk_user s \<noteq> tk_user t" if "s \<in> set (tickets db1)" "pending_ticket s" for s
    using that(1) unfolding ts by (rule upd_where_elim) (use that(2) i in \<open>auto simp: pending_ticket_def split: if_splits\<close>)
  show ?thesis
    by (rule ticket_insert_ok[OF ok1 _ _ none ins]) (use admin_in_ids[OF adm] act i us in auto)
qed

interpretation create_ticket: store_operation "CreatePasswordResetTicket generated actor target rawID hash expiry time"
  by (rule store_prepared[OF CreatePasswordResetTicket_def])
    (clarsimp simp: res_simps, rule store_tx, clarsimp simp: res_simps, erule (2) create_ticket_tx_ok,
     auto intro: active_loaded)

lemma resolve_ticket_ok:
  "control_ok db \<Longrightarrow> update_tickets p (\<lambda>w. w\<lparr>tk_state := s, tk_resolved := Some now\<rparr>) db = Inr db' \<Longrightarrow>
   s \<noteq> PasswordResetPending \<Longrightarrow> control_ok db'"
  by (erule ticket_tx_ok) (auto simp: pending_ticket_def)

lemma complete_reset_tx_ok:
  assumes ok: "control_ok db" and run: "complete_reset_tx t eid json created passwordJSON rid recoveryJSON now db = Inr db'"
  shows "control_ok db'"
proof -
  let ?db1 = "db\<lparr>passkeys := del_where (\<lambda>k. pk_user k = tk_user t) (passkeys db)\<rparr>"
  obtain p db2 db3 db4 db5 db6 q f g where
    a: "set_password p passwordJSON now ?db1 = Inr db2"
      "revokeExpectedRecoveryEnvelope (tk_user t) eid json created now db2 = Inr (db3, True)"
      "insertActiveRecoveryEnvelope rid (tk_user t) recoveryJSON now db3 = Inr db4"
    and b: "update_tickets f (\<lambda>s. s\<lparr>tk_state := PasswordResetConsumed, tk_resolved := Some now\<rparr>) db4 = Inr db5"
      "update_tickets g (\<lambda>s. s\<lparr>tk_state := PasswordResetRevoked, tk_resolved := Some now\<rparr>) db5 = Inr db6"
      "advanceUserUpdatedAt (tk_user t) now db6 = Inr db'"
    using run by (auto simp: complete_reset_tx_def Let_def res_simps)
  have "control_ok db2" using a(1) passkeys_delete[OF ok] by (rule set_password_ok[rotated])
  then have "control_ok db4" using a(2,3) by (rule rotate_recovery_ok(1))
  then have "control_ok db6" using b(1,2) by (auto intro: resolve_ticket_ok)
  then show ?thesis using b(3) by (rule advance_user_ok)
qed

interpretation complete_reset: store_operation "CompletePasswordReset env generated input time"
  by (rule store_prepared[OF CompletePasswordReset_def])
    (auto simp: res_simps split: if_splits prod.splits intro!: store_tx elim: resolve_ticket_ok complete_reset_tx_ok)

interpretation revoke_ticket: store_operation "RevokePasswordResetTicket actor i time"
  by (rule store_prepared[OF RevokePasswordResetTicket_def])
    (auto simp: res_simps intro!: store_tx elim: resolve_ticket_ok)

lemma use_passkey_ok:
  assumes "control_ok db" and "touch_passkey expected (\<lambda>k. k\<lparr>pk_json := j, pk_used := Some now\<rparr>) now db = Inr db1"
    and "update_user i (\<lambda>u. u\<lparr>u_login := g u, u_updated := h u\<rparr>) db1 = Inr db'"
  shows "control_ok db'"
  using touch_passkey_ok[OF assms(1,2)] by (rule login_user_ok(2)[OF _ assms(3)]) simp

lemma passkey_insert_ok:
  assumes ok: "control_ok db" and "count_where (\<lambda>q. pk_user q = pk_user k) (passkeys db) < MaxPasskeysPerUser"
    and "pk_id k \<notin> pk_id ` set (passkeys db)" and "pk_user k \<in> u_id ` set (users db)"
  shows "control_ok (db\<lparr>passkeys := passkeys db @ [k]\<rparr>)"
proof -
  have "count_where (\<lambda>q. pk_user q = i) [k] = (if pk_user k = i then 1 else 0)" for i by (simp add: count_where_def)
  then show ?thesis
    using assms by (intro passkeys_keep[OF ok refl])
      (auto simp: control_ok_def passkeys_ok_def user_ids_def count_where_append Suc_le_eq)
qed

interpretation create_passkey: store_operation "CreatePasskeyCredential env input now"
  by (rule store_prepared[OF CreatePasskeyCredential_def])
    (auto simp: res_simps Let_def intro!: store_tx passkey_insert_ok)

interpretation use_passkey: store_operation "RecordSuccessfulPasskeyUse expected updated now recordLogin"
  unfolding RecordSuccessfulPasskeyUse_def[abs_def]
  by (intro store_if store_tx) (auto simp: res_simps split: if_splits intro: use_passkey_ok touch_passkey_ok)

interpretation replace_passkey: store_operation "ReplacePasskeyEnvelope env expected e now"
  unfolding ReplacePasskeyEnvelope_def[abs_def]
  by (intro store_if store_prepared[OF refl] store_tx) (auto simp: res_simps intro: touch_passkey_ok)

interpretation delete_passkey: store_operation "DeletePasskeyCredential user i"
  by (rule store_prepared[OF DeletePasskeyCredential_def])
    (auto simp: res_simps Let_def intro!: store_tx passkeys_delete)

interpretation delete_passkeys: store_operation "DeleteAllPasskeyCredentials user"
  by (rule store_prepared[OF DeleteAllPasskeyCredentials_def])
    (auto simp: res_simps intro!: store_tx passkeys_delete)

end
