(* ===== verification/ControlHistory.thy ===== *)
theory ControlHistory
  imports ControlInvariant
begin

text \<open>
  Histories of the control store: any sequence of its operations, successful or not, from an empty store.
  The contracts of the operations give the invariant in every reachable state, and that a resolved
  invitation or reset ticket stays resolved forever.
\<close>

section \<open>Steps\<close>

inductive control_step :: "control_env \<Rightarrow> store \<Rightarrow> store \<Rightarrow> bool" for env where
  step_bootstrap: "control_step env S (snd (BootstrapFirstAdmin env g input t S))"
| step_disable: "control_step env S (snd (DisableUser a i t S))"
| step_enable: "control_step env S (snd (EnableUser a i t S))"
| step_role: "control_step env S (snd (SetUserRole a i role t S))"
| step_invite: "control_step env S (snd (CreateInvitation env g a ci t S))"
| step_accept: "control_step env S (snd (AcceptInvitation env g hash input t S))"
| step_revoke_invitation: "control_step env S (snd (RevokeInvitation a i t S))"
| step_login: "control_step env S (snd (RecordSuccessfulLogin env i pc t S))"
| step_replace_password: "control_step env S (snd (ReplacePasswordCredentialWithPasskeyPolicy env i pc e b t S))"
| step_rotate: "control_step env S (snd (RotateRecoveryEnvelope env g i re rep t S))"
| step_create_ticket: "control_step env S (snd (CreatePasswordResetTicket g a i k hash x t S))"
| step_complete_reset: "control_step env S (snd (CompletePasswordReset env g cp t S))"
| step_revoke_ticket: "control_step env S (snd (RevokePasswordResetTicket a i t S))"
| step_create_passkey: "control_step env S (snd (CreatePasskeyCredential env ki t S))"
| step_use_passkey: "control_step env S (snd (RecordSuccessfulPasskeyUse k wc t b S))"
| step_replace_passkey: "control_step env S (snd (ReplacePasskeyEnvelope env k e t S))"
| step_delete_passkey: "control_step env S (snd (DeletePasskeyCredential i c S))"
| step_delete_passkeys: "control_step env S (snd (DeleteAllPasskeyCredentials i S))"
| step_close: "control_step env S (Close S)"

definition empty_control :: control_db where
  "empty_control = \<lparr>users = [], passwords = [], recoveries = [], invitations = [], tickets = [], passkeys = []\<rparr>"

definition fresh_store :: "store \<Rightarrow> bool" where
  "fresh_store S \<longleftrightarrow> st_db S = Some empty_control"

lemmas control_keeps = bootstrap.keeps_snd disable.keeps_snd enable.keeps_snd set_role.keeps_snd
  create_invitation.keeps_snd accept_invitation.keeps_snd revoke_invitation.keeps_snd record_login.keeps_snd
  replace_password.keeps_snd rotate_recovery.keeps_snd create_ticket.keeps_snd complete_reset.keeps_snd
  revoke_ticket.keeps_snd create_passkey.keeps_snd use_passkey.keeps_snd replace_passkey.keeps_snd
  delete_passkey.keeps_snd delete_passkeys.keeps_snd

lemma control_ok_empty: "control_ok empty_control"
  by (simp add: control_ok_def empty_control_def users_ok_def passwords_ok_def recoveries_ok_def invitations_ok_def
    tickets_ok_def passkeys_ok_def capability_table_def user_ids_def count_where_def)

lemma close_ok: "store_ok S \<Longrightarrow> store_ok (Close S)"
  by (simp add: Close_def store_ok_def)

lemma fresh_ok: "fresh_store S \<Longrightarrow> store_ok S"
  by (simp add: fresh_store_def store_ok_def control_ok_empty)

lemma control_step_ok: "store_ok S \<Longrightarrow> control_step env S S' \<Longrightarrow> store_ok S'"
  by (erule control_step.cases) (auto intro: control_keeps close_ok)

interpretation control_history: step_machine fresh_store "control_step env" store_ok
  by unfold_locales (auto intro: control_step_ok fresh_ok)

section \<open>Resolved capabilities\<close>

definition settles :: "control_db \<Rightarrow> control_db \<Rightarrow> bool" where
  "settles db db' \<longleftrightarrow> {v \<in> set (invitations db). \<not> pending_inv v} \<subseteq> set (invitations db') \<and>
     {t \<in> set (tickets db). \<not> pending_ticket t} \<subseteq> set (tickets db')"

definition store_settles :: "store \<Rightarrow> store \<Rightarrow> bool" where
  "store_settles S S' \<longleftrightarrow> (case st_db S' of None \<Rightarrow> True | Some db' \<Rightarrow>
     (case st_db S of None \<Rightarrow> False | Some db \<Rightarrow> settles db db'))"

lemma settles_trans: "settles db db1 \<Longrightarrow> settles db1 db2 \<Longrightarrow> settles db db2"
  by (auto simp: settles_def)

lemma settles_frame: "invitations db' = invitations db \<Longrightarrow> tickets db' = tickets db \<Longrightarrow> settles db db'"
  by (auto simp: settles_def)

lemma final_upd: "v \<in> set vs \<Longrightarrow> \<not> p v \<Longrightarrow> v \<in> set (upd_where p f vs)"
  by (force simp: set_upd_where)

lemma settles_statements:
  "update_user i f db = Inr db' \<Longrightarrow> settles db db'"
  "set_password q json now db = Inr db' \<Longrightarrow> settles db db'"
  "touch_passkey k g now db = Inr db' \<Longrightarrow> settles db db'"
  "revokeExpectedRecoveryEnvelope user i json created now db = Inr (db', b) \<Longrightarrow> settles db db'"
  "insertActiveRecoveryEnvelope i user json now db = Inr db' \<Longrightarrow> settles db db'"
  "insert_invitation v db = Inr db' \<Longrightarrow> settles db db'"
  "insert_ticket t db = Inr db' \<Longrightarrow> settles db db'"
  "insertPreparedUser pu role now db = Inr db' \<Longrightarrow> settles db db'"
  "settles db (db\<lparr>passkeys := ks\<rparr>)"
  by (auto simp: settles_def update_user_def set_password_def touch_passkey_def revokeExpectedRecoveryEnvelope_def Let_def
      insertActiveRecoveryEnvelope_def insert_recovery_def insert_invitation_def insert_ticket_def insertPreparedUser_def
      insert_user_def insert_password_def res_simps split: if_splits)

lemma settles_passkeys: "settles (db\<lparr>passkeys := ks\<rparr>) db' = settles db db'"
  by (simp add: settles_def)

lemma settles_invitations:
  "update_invitations p f db = Inr db' \<Longrightarrow> (\<And>v. p v \<Longrightarrow> iv_state v = InvitationPending) \<Longrightarrow> settles db db'"
  by (auto simp: settles_def update_invitations_def pending_inv_def split: if_splits intro!: final_upd)

lemma settles_tickets:
  "update_tickets q g db = Inr db' \<Longrightarrow> (\<And>t. q t \<Longrightarrow> tk_state t = PasswordResetPending) \<Longrightarrow> settles db db'"
  by (auto simp: settles_def update_tickets_def pending_ticket_def split: if_splits intro!: final_upd)

lemma settles_revoke: "revokePendingCapabilities i now db = Inr db' \<Longrightarrow> settles db db'"
  unfolding revokePendingCapabilities_def bindE_eq_Inr
  by (elim exE conjE, rule settles_trans, erule settles_invitations, simp, erule settles_tickets, simp)

text \<open>The contract of an operation that leaves resolved capabilities alone.\<close>

locale settled_operation =
  fixes run :: "store \<Rightarrow> (cerr, 'a) result \<times> store"
  assumes settled: "store_settles S (snd (run S))"

lemma store_settles_refl: "store_settles S S"
  by (simp add: store_settles_def settles_def split: option.splits)

lemma settled_tx:
  assumes "\<And>db db' a. operation db = Inr (db', a) \<Longrightarrow> settles db db'"
  shows "settled_operation (withImmediate operation)"
  by unfold_locales
    (use assms in \<open>auto simp: withImmediate_def store_settles_def settles_def split: bool.splits option.splits sum.splits\<close>)

lemma settled_prepared:
  assumes "\<And>S. run S = (case prep of Inl e \<Rightarrow> (Inl e, S) | Inr x \<Rightarrow> tx x S)"
    and "\<And>x. prep = Inr x \<Longrightarrow> settled_operation (tx x)"
  shows "settled_operation run"
proof (cases prep)
  case (Inl e)
  then show ?thesis by unfold_locales (simp add: assms(1) store_settles_refl)
next
  case (Inr x)
  then have "run = tx x" by (auto simp: assms(1))
  then show ?thesis using assms(2)[OF Inr] by simp
qed

lemma settled_if: "settled_operation f \<Longrightarrow> settled_operation (\<lambda>S. if c then (Inl e, S) else f S)"
  by (cases c) (simp_all, unfold_locales, simp add: store_settles_refl)

lemmas settle_dests = settles_statements(1-8) settles_invitations settles_tickets settles_revoke

interpretation settled_bootstrap: settled_operation "BootstrapFirstAdmin env generated input time"
  by (rule settled_prepared[OF BootstrapFirstAdmin_def])
    (auto simp: res_simps intro!: settled_tx dest!: settle_dests)

interpretation settled_disable: settled_operation "DisableUser actor target time"
  by (rule settled_prepared[OF DisableUser_def])
    (auto simp: res_simps split: if_splits intro!: settled_tx dest!: settle_dests intro: settles_trans)

interpretation settled_enable: settled_operation "EnableUser actor target time"
  by (rule settled_prepared[OF EnableUser_def])
    (auto simp: res_simps intro!: settled_tx dest!: settle_dests)

interpretation settled_role: settled_operation "SetUserRole actor target role time"
  by (rule settled_prepared[OF SetUserRole_def])
    (auto simp: res_simps split: if_splits intro!: settled_tx dest!: settle_dests intro: settles_trans settles_frame)

interpretation settled_create_invitation: settled_operation "CreateInvitation env generated actor input time"
  by (rule settled_prepared[OF CreateInvitation_def])
    (auto simp: res_simps intro!: settled_tx dest!: settle_dests intro: settles_trans)

interpretation settled_accept: settled_operation "AcceptInvitation env generated hash input time"
  by (rule settled_prepared[OF AcceptInvitation_def])
    (auto simp: res_simps split: if_splits intro!: settled_tx dest!: settle_dests intro: settles_trans)

interpretation settled_revoke_invitation: settled_operation "RevokeInvitation actor i time"
  by (rule settled_prepared[OF RevokeInvitation_def])
    (auto simp: res_simps intro!: settled_tx dest!: settle_dests)

interpretation settled_login: settled_operation "RecordSuccessfulLogin env user expected time"
  by (rule settled_prepared[OF RecordSuccessfulLogin_def])
    (auto simp: res_simps intro!: settled_tx dest!: settle_dests)

interpretation settled_replace_password:
  settled_operation "ReplacePasswordCredentialWithPasskeyPolicy env user expected replacement revokePasskeys time"
  by (rule settled_prepared[OF ReplacePasswordCredentialWithPasskeyPolicy_def])
    (auto simp: res_simps Let_def advanceUserUpdatedAt_def settles_passkeys split: if_splits
      intro!: settled_tx dest!: settle_dests, (blast intro: settles_trans)+)

interpretation settled_rotate: settled_operation "RotateRecoveryEnvelope env generated user expected replacement time"
  by (rule settled_prepared[OF RotateRecoveryEnvelope_def])
    (auto simp: res_simps advanceUserUpdatedAt_def intro!: settled_tx dest!: settle_dests, (blast intro: settles_trans)+)

interpretation settled_create_ticket: settled_operation "CreatePasswordResetTicket generated actor target rawID hash expiry time"
  by (rule settled_prepared[OF CreatePasswordResetTicket_def])
    (auto simp: res_simps intro!: settled_tx dest!: settle_dests intro: settles_trans)

interpretation settled_revoke_ticket: settled_operation "RevokePasswordResetTicket actor i time"
  by (rule settled_prepared[OF RevokePasswordResetTicket_def])
    (auto simp: res_simps intro!: settled_tx dest!: settle_dests)

interpretation settled_create_passkey: settled_operation "CreatePasskeyCredential env input now"
  by (rule settled_prepared[OF CreatePasskeyCredential_def])
    (auto simp: res_simps Let_def intro!: settled_tx settles_statements(9))

interpretation settled_use_passkey: settled_operation "RecordSuccessfulPasskeyUse expected updated now recordLogin"
  unfolding RecordSuccessfulPasskeyUse_def[abs_def]
  by (intro settled_if settled_tx) (auto simp: res_simps split: if_splits dest!: settle_dests intro: settles_trans)

interpretation settled_replace_passkey: settled_operation "ReplacePasskeyEnvelope env expected e now"
  unfolding ReplacePasskeyEnvelope_def[abs_def]
  by (intro settled_if settled_prepared[OF refl] settled_tx) (auto simp: res_simps dest!: settle_dests)

interpretation settled_delete_passkey: settled_operation "DeletePasskeyCredential user i"
  by (rule settled_prepared[OF DeletePasskeyCredential_def])
    (auto simp: res_simps Let_def intro!: settled_tx settles_statements(9))

interpretation settled_delete_passkeys: settled_operation "DeleteAllPasskeyCredentials user"
  by (rule settled_prepared[OF DeleteAllPasskeyCredentials_def])
    (auto simp: res_simps intro!: settled_tx settles_statements(9))

lemma complete_reset_settles:
  "complete_reset_tx t eid json created passwordJSON rid recoveryJSON now db = Inr db' \<Longrightarrow> settles db db'"
  by (auto simp: complete_reset_tx_def res_simps Let_def advanceUserUpdatedAt_def settles_passkeys dest!: settle_dests)
    (blast intro: settles_trans)

interpretation settled_complete: settled_operation "CompletePasswordReset env generated input time"
  by (rule settled_prepared[OF CompletePasswordReset_def])
    (auto simp: res_simps split: if_splits prod.splits intro!: settled_tx dest!: settle_dests complete_reset_settles)

lemmas control_settled = settled_bootstrap.settled settled_disable.settled settled_enable.settled settled_role.settled
  settled_create_invitation.settled settled_accept.settled settled_revoke_invitation.settled settled_login.settled
  settled_replace_password.settled settled_rotate.settled settled_create_ticket.settled settled_complete.settled
  settled_revoke_ticket.settled settled_create_passkey.settled settled_use_passkey.settled settled_replace_passkey.settled
  settled_delete_passkey.settled settled_delete_passkeys.settled

lemma store_settles_trans: "store_settles S T \<Longrightarrow> store_settles T U \<Longrightarrow> store_settles S U"
  by (auto simp: store_settles_def split: option.splits intro: settles_trans)

lemma step_settles: "control_step env S S' \<Longrightarrow> store_settles S S'"
  by (erule control_step.cases) (auto simp: control_settled, simp add: Close_def store_settles_def settles_def split: option.splits)

lemma steps_settle: "(control_step env)\<^sup>*\<^sup>* S S' \<Longrightarrow> store_settles S S'"
  by (induction rule: rtranclp_induct) (auto intro: store_settles_refl store_settles_trans step_settles)

lemma settled_rows:
  assumes "(control_step env)\<^sup>*\<^sup>* S T" and "st_db S = Some db" and "st_db T = Some db2"
  shows "w \<in> set (invitations db) \<Longrightarrow> \<not> pending_inv w \<Longrightarrow> w \<in> set (invitations db2)"
    and "t \<in> set (tickets db) \<Longrightarrow> \<not> pending_ticket t \<Longrightarrow> t \<in> set (tickets db2)"
  using steps_settle[OF assms(1)] assms(2,3) by (auto simp: store_settles_def settles_def)

lemma steps_ok: "(control_step env)\<^sup>*\<^sup>* S S' \<Longrightarrow> store_ok S \<Longrightarrow> store_ok S'"
  by (rule control_history.inv_steps)

section \<open>Using a capability\<close>

lemma withImmediate_Inr:
  "withImmediate operation S = (Inr x, S') \<longleftrightarrow>
     (\<exists>db db'. \<not> st_closed S \<and> st_db S = Some db \<and> operation db = Inr (db', Inr x) \<and> S' = S\<lparr>st_db := Some db'\<rparr>)"
  by (auto simp: withImmediate_def split: bool.splits option.splits sum.splits)

lemma withImmediate_fails:
  "(\<And>db. st_db S = Some db \<Longrightarrow> \<exists>e. operation db = Inl e) \<Longrightarrow> \<exists>e. withImmediate operation S = (Inl e, S)"
  by (auto simp: withImmediate_def split: bool.splits option.splits sum.splits)

lemma bind_fails: "(\<And>x. m = Inr x \<Longrightarrow> \<exists>e. f x = Inl e) \<Longrightarrow> \<exists>e. bindE m f = Inl e"
  by (cases m) auto

text \<open>The accepted invitation after a successful acceptance.\<close>

lemma accept_success:
  assumes ok: "store_ok S" and run: "AcceptInvitation env generated hash input time S = (Inr u, S')"
  obtains db db' v w where "st_db S = Some db" "st_db S' = Some db'" "v \<in> set (invitations db)" "iv_hash v = hash"
    "iv_state v = InvitationPending" "time < iv_expires v" "us_email u = iv_email v" "us_role u = iv_role v"
    "map scanUserSummary (users db') = map scanUserSummary (users db) @ [u]" "w \<in> set (invitations db')" "iv_hash w = hash" "iv_state w = InvitationAccepted"
    "iv_accepted w = Some (us_id u)"
proof -
  let ?p = "\<lambda>v w. iv_id w = iv_id v \<and> iv_state w = InvitationPending"
  let ?f = "\<lambda>p. \<lambda>w. w\<lparr>iv_state := InvitationAccepted, iv_accepted := Some (pu_id p), iv_resolved := Some time\<rparr>"
  obtain p db v db1 db' where a: "st_db S = Some db" "List.find (\<lambda>v. iv_hash v = hash) (invitations db) = Some v"
      "iv_state v = InvitationPending" "time < iv_expires v" "pu_email p = iv_email v"
    and ins: "insertPreparedUser p (iv_role v) time db = Inr db1" and upd: "update_invitations (?p v) (?f p) db1 = Inr db'"
    and u: "u = summary p (iv_role v) time" and S': "S' = S\<lparr>st_db := Some db'\<rparr>"
    using run by (auto simp: AcceptInvitation_def withImmediate_Inr res_simps validateOperationTime_def split: sum.splits if_splits)
  have cok: "control_ok db" using ok a(1) by (simp add: store_ok_def)
  have v: "v \<in> set (invitations db)" "iv_hash v = hash" using find_SomeD[OF a(2)] by auto
  have "iv_by v \<in> user_ids (users db)" using cok v(1) by (auto simp: control_ok_def invitations_ok_def inv_ok_def)
  then have "users db \<noteq> []" by (auto simp: user_ids_def)
  note i = insertPreparedUser_ok[OF cok ins disjI1, OF this]
  have d: "invitations db' = upd_where (?p v) (?f p) (invitations db)" "users db' = users db @ [new_user_row p (iv_role v) time]"
    using upd i(2,3) by (auto simp: update_invitations_def split: if_splits)
  have w: "?f p v \<in> set (invitations db')" unfolding d(1) set_upd_where using v(1) a(3) by force
  show thesis
    by (rule that[of db db' v "?f p v"]) (use a v d w S' u in \<open>auto simp: new_user_row_def summary_def scanUserSummary_def\<close>)
qed

lemma accept_resolved_fails:
  assumes ok: "store_ok S" and "\<And>db. st_db S = Some db \<Longrightarrow> \<exists>w\<in>set (invitations db). iv_hash w = hash \<and> \<not> pending_inv w"
  shows "\<exists>e. AcceptInvitation env generated hash input time S = (Inl e, S)"
proof -
  have "List.find (\<lambda>v. iv_hash v = hash) (invitations db) = Some w"
    if "st_db S = Some db" "w \<in> set (invitations db)" "iv_hash w = hash" for db w
    using that ok by (subst find_eq_Some_iff)
      (auto simp: store_ok_def control_ok_def invitations_ok_def capability_table_def)
  then show ?thesis
    using assms(2) by (force simp: AcceptInvitation_def pending_inv_def split: sum.splits intro!: withImmediate_fails)
qed

lemma complete_success:
  assumes ok: "store_ok S" and run: "CompletePasswordReset env generated input time S = (Inr t', S')"
  obtains db db' t user eid json created passwordJSON rid recoveryJSON where
    "st_db S = Some db" "st_db S' = Some db'" "t \<in> set (tickets db)" "tk_hash t = cp_hash input"
    "tk_state t = PasswordResetPending" "time < tk_expires t" "tk_user t \<in> active_ids (users db)"
    "encodeKeyEnvelope env (cp_password input) KindPassword = Inr passwordJSON"
    "encodeKeyEnvelope env (snd (cp_recovery input)) KindRecovery = Inr recoveryJSON"
    "complete_reset_tx t eid json created passwordJSON rid recoveryJSON time db = Inr db'"
    "t' = scanPasswordResetTicket (t\<lparr>tk_state := PasswordResetConsumed, tk_resolved := Some time\<rparr>)"
proof -
  obtain db db' t user eid json created passwordJSON rid recoveryJSON where
    a: "st_db S = Some db" "List.find (\<lambda>t. tk_hash t = cp_hash input) (tickets db) = Some t"
      "tk_state t = PasswordResetPending" "time < tk_expires t" "requireActiveUser (tk_user t) db = Inr ()"
      "complete_reset_tx t eid json created passwordJSON rid recoveryJSON time db = Inr db'"
      "t' = scanPasswordResetTicket (t\<lparr>tk_state := PasswordResetConsumed, tk_resolved := Some time\<rparr>)" "S' = S\<lparr>st_db := Some db'\<rparr>"
    and e: "encodeKeyEnvelope env (cp_password input) KindPassword = Inr passwordJSON"
      "encodeKeyEnvelope env (snd (cp_recovery input)) KindRecovery = Inr recoveryJSON"
    using run by (auto simp: CompletePasswordReset_def complete_reset_checks_def withImmediate_Inr res_simps
        validateOperationTime_def Let_def split: sum.splits if_splits prod.splits)
  have "tk_user t \<in> active_ids (users db)"
    using a(5) by (auto simp: requireActiveUser_def res_simps intro: active_loaded)
  then show thesis using that[OF a(1) _ _ _ a(3,4) _ e a(6,7)] a(8) find_SomeD[OF a(2)] by simp
qed

lemma filter_upd_other: "(\<And>r. p r \<Longrightarrow> \<not> q r \<and> \<not> q (f r)) \<Longrightarrow> filter q (upd_where p f rs) = filter q rs"
  by (induction rs) (auto simp: table_simps)

lemma set_password_effect:
  assumes ok: "control_ok db" and run: "set_password p json now db = Inr db'" and one: "count_where p (passwords db) = 1"
    and p: "\<And>r. p r \<Longrightarrow> pw_user r = i"
  shows "\<forall>r\<in>set (passwords db'). pw_user r = i \<longrightarrow> pw_json r = json \<and> pw_updated r = now"
    and "\<And>j. j \<noteq> i \<Longrightarrow> filter (\<lambda>r. pw_user r = j) (passwords db') = filter (\<lambda>r. pw_user r = j) (passwords db)"
    and "db' = db\<lparr>passwords := passwords db'\<rparr>"
proof -
  let ?f = "\<lambda>r. r\<lparr>pw_json := json, pw_updated := now\<rparr>"
  have d: "passwords db' = upd_where p ?f (passwords db)" and "db' = db\<lparr>passwords := passwords db'\<rparr>"
    using run by (auto simp: set_password_def split: if_splits)
  then show "db' = db\<lparr>passwords := passwords db'\<rparr>" by simp
  obtain q where q: "q \<in> set (passwords db)" "p q" using one count_where_pos[of p "passwords db"] by auto
  have "r = q" if "r \<in> set (passwords db)" "pw_user r = i" for r
    using distinct_map_inj[of pw_user "passwords db" r q] ok that q p[OF q(2)] by (simp add: control_ok_def passwords_ok_def)
  then have hit: "p r" if "r \<in> set (passwords db)" "pw_user r = i" for r using that q(2) by blast
  have "pw_json r = json \<and> pw_updated r = now" if "r \<in> set (passwords db')" "pw_user r = i" for r
    using that(1) unfolding d by (rule upd_where_elim) (use that(2) hit in auto)
  then show "\<forall>r\<in>set (passwords db'). pw_user r = i \<longrightarrow> pw_json r = json \<and> pw_updated r = now" by blast
  show "filter (\<lambda>r. pw_user r = j) (passwords db') = filter (\<lambda>r. pw_user r = j) (passwords db)" if "j \<noteq> i" for j
    unfolding d by (rule filter_upd_other) (use p that in auto)
qed

lemma rotate_effect:
  assumes rev: "revokeExpectedRecoveryEnvelope user i json created now db = Inr (db1, b)"
    and ins: "insertActiveRecoveryEnvelope rid user j now db1 = Inr db'"
  shows "\<forall>r\<in>set (recoveries db'). rc_user r = user \<and> rc_active r \<longrightarrow> rc_json r = j \<and> rc_id r = rid"
    and "k \<noteq> user \<Longrightarrow> filter (\<lambda>r. rc_user r = k) (recoveries db') = filter (\<lambda>r. rc_user r = k) (recoveries db)"
proof -
  let ?p = "\<lambda>r. rc_id r = i \<and> rc_user r = user \<and> rc_active r \<and> rc_json r = json \<and> rc_created r = created"
  let ?f = "\<lambda>r. r\<lparr>rc_active := False, rc_revoked := Some now\<rparr>"
  have d1: "recoveries db1 = upd_where ?p ?f (recoveries db)"
    using rev by (auto simp: revokeExpectedRecoveryEnvelope_def Let_def split: if_splits)
  have d: "recoveries db' = recoveries db1 @ [\<lparr>rc_id = rid, rc_user = user, rc_json = j, rc_active = True, rc_created = now,
      rc_revoked = None\<rparr>]" and "\<not> (\<exists>r\<in>set (recoveries db1). rc_user r = user \<and> rc_active r)"
    using ins by (auto simp: insertActiveRecoveryEnvelope_def insert_recovery_def split: if_splits)
  then show "\<forall>r\<in>set (recoveries db'). rc_user r = user \<and> rc_active r \<longrightarrow> rc_json r = j \<and> rc_id r = rid" by auto
  show "k \<noteq> user \<Longrightarrow> filter (\<lambda>r. rc_user r = k) (recoveries db') = filter (\<lambda>r. rc_user r = k) (recoveries db)"
    unfolding d d1 by (auto intro: filter_upd_other)
qed

text \<open>What a completed reset leaves behind, for the user and for the others.\<close>

definition reset_done :: "string \<Rightarrow> string \<Rightarrow> string \<Rightarrow> int \<Rightarrow> control_db \<Rightarrow> bool" where
  "reset_done i passwordJSON recoveryJSON now db \<longleftrightarrow>
     (\<forall>k\<in>set (passkeys db). pk_user k \<noteq> i) \<and>
     (\<forall>r\<in>set (passwords db). pw_user r = i \<longrightarrow> pw_json r = passwordJSON \<and> pw_updated r = now) \<and>
     (\<forall>r\<in>set (recoveries db). rc_user r = i \<and> rc_active r \<longrightarrow> rc_json r = recoveryJSON) \<and>
     (\<forall>t\<in>set (tickets db). tk_user t = i \<longrightarrow> tk_state t \<noteq> PasswordResetPending)"

definition credentials_of :: "string \<Rightarrow> control_db \<Rightarrow> password_row list \<times> recovery_row list \<times> passkey_row list" where
  "credentials_of i db = (filter (\<lambda>r. pw_user r = i) (passwords db), filter (\<lambda>r. rc_user r = i) (recoveries db),
     filter (\<lambda>k. pk_user k = i) (passkeys db))"

lemma complete_tx_effect:
  assumes ok: "control_ok db" and run: "complete_reset_tx t eid json created passwordJSON rid recoveryJSON now db = Inr db'"
    and t: "t \<in> set (tickets db)" "tk_state t = PasswordResetPending"
  shows "reset_done (tk_user t) passwordJSON recoveryJSON now db'"
    and "t\<lparr>tk_state := PasswordResetConsumed, tk_resolved := Some now\<rparr> \<in> set (tickets db')"
    and "j \<noteq> tk_user t \<Longrightarrow> credentials_of j db' = credentials_of j db"
proof -
  let ?i = "tk_user t" and ?db1 = "db\<lparr>passkeys := del_where (\<lambda>k. pk_user k = tk_user t) (passkeys db)\<rparr>"
  let ?p = "\<lambda>p. pw_user p = tk_user t \<and> pw_updated p < now"
  let ?f = "\<lambda>s. tk_id s = tk_id t \<and> tk_state s = PasswordResetPending"
  let ?g = "\<lambda>s. tk_user s = tk_user t \<and> tk_state s = PasswordResetPending \<and> tk_id s \<noteq> tk_id t"
  let ?c = "\<lambda>s. s\<lparr>tk_state := PasswordResetConsumed, tk_resolved := Some now\<rparr>"
  let ?r = "\<lambda>s. s\<lparr>tk_state := PasswordResetRevoked, tk_resolved := Some now\<rparr>"
  obtain db2 db3 db4 db5 db6 where
    a: "set_password ?p passwordJSON now ?db1 = Inr db2" "count_where ?p (passwords ?db1) = 1"
      "revokeExpectedRecoveryEnvelope ?i eid json created now db2 = Inr (db3, True)"
      "insertActiveRecoveryEnvelope rid ?i recoveryJSON now db3 = Inr db4"
    and b: "update_tickets ?f ?c db4 = Inr db5" "update_tickets ?g ?r db5 = Inr db6"
      "advanceUserUpdatedAt ?i now db6 = Inr db'"
    using run by (auto simp: complete_reset_tx_def Let_def res_simps)
  have ok1: "control_ok ?db1" by (rule passkeys_delete[OF ok])
  have ok2: "control_ok db2" by (rule set_password_ok[OF ok1 a(1)])
  have d: "passwords db' = passwords db4" "recoveries db' = recoveries db4" "passkeys db' = passkeys db4"
    "tickets db' = upd_where ?g ?r (upd_where ?f ?c (tickets db4))"
    using b by (auto simp: advanceUserUpdatedAt_def update_user_def update_tickets_def split: if_splits)
  note pw = set_password_effect[OF ok1 a(1,2), of ?i] and rc = rotate_effect[OF a(3,4)] and fr = rotate_recovery_ok(2)[OF ok2 a(3,4)]
  have t2: "tickets db2 = tickets db" "passkeys db2 = passkeys ?db1" "recoveries db2 = recoveries db"
    using a(1) by (auto simp: set_password_def split: if_splits)
  have pend: "tk_state s \<noteq> PasswordResetPending" if s: "s \<in> set (tickets db')" "tk_user s = ?i" for s
    using s(1) unfolding d(4)
  proof (rule upd_where_elim)
    assume "s \<in> set (upd_where ?f ?c (tickets db4))" "\<not> ?g s"
    then show ?thesis using s(2) by (elim upd_where_elim) auto
  qed auto
  show "reset_done ?i passwordJSON recoveryJSON now db'"
    unfolding reset_done_def using pw(1) rc(1) pend d(1-3) fr t2(2) by (auto simp: table_simps)
  have "?c t \<in> set (upd_where ?f ?c (tickets db4))" using t t2(1) fr by (force simp: set_upd_where)
  then show "?c t \<in> set (tickets db')" unfolding d(4) by (rule final_upd) simp
  show "credentials_of j db' = credentials_of j db" if "j \<noteq> ?i"
    using pw(2)[OF _ that] rc(2)[OF that] d(1-3) fr t2(2,3) that by (simp add: credentials_of_def del_where_def conj_commute)
      (metis (mono_tags, lifting))
qed

lemma complete_resolved_fails:
  assumes ok: "store_ok S" and "\<And>db. st_db S = Some db \<Longrightarrow> \<exists>w\<in>set (tickets db). tk_hash w = cp_hash input \<and> \<not> pending_ticket w"
  shows "\<exists>e. CompletePasswordReset env generated input time S = (Inl e, S)"
proof -
  have "List.find (\<lambda>v. tk_hash v = cp_hash input) (tickets db) = Some w"
    if "st_db S = Some db" "w \<in> set (tickets db)" "tk_hash w = cp_hash input" for db w
    using that ok by (subst find_eq_Some_iff)
      (auto simp: store_ok_def control_ok_def tickets_ok_def capability_table_def)
  then show ?thesis
    using assms(2) by (force simp: CompletePasswordReset_def pending_ticket_def split: sum.splits intro!: withImmediate_fails)
qed

lemma one_row: "distinct (map k rs) \<Longrightarrow> i \<in> k ` set rs \<Longrightarrow> count_where (\<lambda>r. k r = i) rs = 1"
  by (induction rs) (auto simp: count_where_def filter_empty_conv rev_image_eqI)

section \<open>Samples\<close>

definition sample_env :: control_env where
  "sample_env = \<lparr>env_lower = (\<lambda>s. s), env_address = Some,
     env_encode = (\<lambda>e. ''{}'' @ map (\<lambda>b. char_of (unat b)) (ev_salt e)), env_decode = (\<lambda>_. None)\<rparr>"

definition sample_envelope :: "Kind \<Rightarrow> 8 word \<Rightarrow> Envelope" where
  "sample_envelope kind b = (let p = (kind = KindPassword) in
     \<lparr>ev_version = 1, ev_kind = kind, ev_kdf = (if p then ''argon2id-hkdf-sha256'' else ''hkdf-sha256''),
      ev_profile = (if p then DefaultProfile else (0, 0, 0)), ev_salt = replicate 32 b, ev_nonce = replicate 12 0,
      ev_ciphertext = replicate 48 0, ev_verifier = (if p then replicate 32 0 else [])\<rparr>)"

definition sample_id :: "char \<Rightarrow> string" where "sample_id c = replicate 16 c"

definition sample_time :: int where "sample_time = 1700000000000"

definition sample_admin :: NewUserInput where
  "sample_admin = \<lparr>nu_id = sample_id CHR ''a'', nu_email = ''a@x'', nu_display = ''A'', nu_vault = sample_id CHR ''v'',
     nu_password = sample_envelope KindPassword 1, nu_recovery = Some (sample_id CHR ''r'', sample_envelope KindRecovery 2)\<rparr>"

definition sample_store :: store where
  "sample_store = \<lparr>st_db = Some empty_control, st_closed = False\<rparr>"

definition sample_bootstrapped :: store where
  "sample_bootstrapped = snd (BootstrapFirstAdmin sample_env [] sample_admin sample_time sample_store)"

definition sample_guest :: NewUserInput where
  "sample_guest = \<lparr>nu_id = sample_id CHR ''b'', nu_email = ''b@x'', nu_display = ''B'', nu_vault = sample_id CHR ''w'',
     nu_password = sample_envelope KindPassword 3, nu_recovery = Some (sample_id CHR ''s'', sample_envelope KindRecovery 4)\<rparr>"

definition sample_invited :: store where
  "sample_invited = snd (CreateInvitation sample_env [] (sample_id CHR ''a'')
     \<lparr>ci_id = sample_id CHR ''i'', ci_email = ''b@x'', ci_role = RoleUser, ci_hash = replicate 32 7,
      ci_expires = sample_time + 1000\<rparr> sample_time sample_bootstrapped)"

lemma sample_bootstrapped_reach: "(control_step sample_env)\<^sup>*\<^sup>* sample_store sample_bootstrapped"
  unfolding sample_bootstrapped_def by (rule r_into_rtranclp, rule step_bootstrap)

lemma sample_fresh: "fresh_store sample_store"
  by (simp add: fresh_store_def sample_store_def)

lemma sample_bootstrapped_ok: "store_ok sample_bootstrapped"
  using control_history.inv_reachable[OF sample_fresh sample_bootstrapped_reach] .

lemma sample_invited_ok: "store_ok sample_invited"
  unfolding sample_invited_def by (rule create_invitation.keeps_snd[OF sample_bootstrapped_ok])

definition sample_ticketed :: store where
  "sample_ticketed = snd (CreatePasswordResetTicket [] (sample_id CHR ''a'') (sample_id CHR ''a'') (sample_id CHR ''t'')
     (replicate 32 9) (sample_time + 1000) sample_time sample_bootstrapped)"

definition sample_reset :: CompletePasswordResetInput where
  "sample_reset = \<lparr>cp_hash = replicate 32 9,
     cp_expected = \<lparr>re_id = sample_id CHR ''r'', re_user = sample_id CHR ''a'', re_envelope = sample_envelope KindRecovery 2,
       re_active = True, re_created = sample_time, re_revoked = None\<rparr>,
     cp_password = sample_envelope KindPassword 5, cp_recovery = (sample_id CHR ''q'', sample_envelope KindRecovery 6)\<rparr>"

lemma sample_ticketed_ok: "store_ok sample_ticketed"
  unfolding sample_ticketed_def by (rule create_ticket.keeps_snd[OF sample_bootstrapped_ok])

section \<open>Properties\<close>

text \<open>C2: in every state the control store can reach from an empty one, a store with accounts has an active
  administrator, each account has exactly one password and exactly one active recovery envelope and at most
  ten passkeys, and pending invitations and reset tickets were issued by administrators who are still active
  (a ticket for an account that is still active).\<close>

theorem reachable_control_safe:
  assumes "fresh_store S" and "(control_step env)\<^sup>*\<^sup>* S T" and "st_db T = Some db"
  shows "(users db \<noteq> [] \<longrightarrow> (\<exists>u\<in>set (users db). u_role u = RoleAdmin \<and> u_state u = UserActive)) \<and>
    (\<forall>u\<in>set (users db). count_where (\<lambda>p. pw_user p = u_id u) (passwords db) = 1 \<and>
       count_where (\<lambda>r. rc_user r = u_id u \<and> rc_active r) (recoveries db) = 1 \<and>
       count_where (\<lambda>k. pk_user k = u_id u) (passkeys db) \<le> 10) \<and>
    (\<forall>v\<in>set (invitations db). iv_state v = InvitationPending \<longrightarrow> iv_by v \<in> admin_ids (users db)) \<and>
    (\<forall>t\<in>set (tickets db). tk_state t = PasswordResetPending \<longrightarrow>
       tk_by t \<in> admin_ids (users db) \<and> tk_user t \<in> active_ids (users db))"
proof -
  have ok: "control_ok db" using control_history.inv_reachable[OF assms(1,2)] assms(3) by (simp add: store_ok_def)
  have "users db \<noteq> [] \<longrightarrow> (\<exists>u\<in>set (users db). u_role u = RoleAdmin \<and> u_state u = UserActive)"
    using ok by (auto simp: control_ok_def admin_ids_def)
  moreover have "count_where (\<lambda>p. pw_user p = u_id u) (passwords db) = 1 \<and>
       count_where (\<lambda>r. rc_user r = u_id u \<and> rc_active r) (recoveries db) = 1 \<and>
       count_where (\<lambda>k. pk_user k = u_id u) (passkeys db) \<le> 10" if "u \<in> set (users db)" for u
    using ok that one_row[of pw_user "passwords db" "u_id u"]
    by (auto simp: control_ok_def passwords_ok_def recoveries_ok_def passkeys_ok_def MaxPasskeysPerUser_def user_ids_def)
  moreover have "\<forall>v\<in>set (invitations db). iv_state v = InvitationPending \<longrightarrow> iv_by v \<in> admin_ids (users db)"
    using ok by (auto simp: control_ok_def invitations_ok_def inv_ok_def pending_inv_def)
  moreover have "\<forall>t\<in>set (tickets db). tk_state t = PasswordResetPending \<longrightarrow>
       tk_by t \<in> admin_ids (users db) \<and> tk_user t \<in> active_ids (users db)"
    using ok by (auto simp: control_ok_def tickets_ok_def ticket_ok_def pending_ticket_def)
  ultimately show ?thesis by blast
qed

theorem reachable_control_safe_witness:
  "\<exists>u\<in>set (users (the (st_db sample_bootstrapped))). u_role u = RoleAdmin \<and> u_state u = UserActive"
proof -
  have "st_db sample_bootstrapped = Some (the (st_db sample_bootstrapped))" by code_simp
  moreover have "users (the (st_db sample_bootstrapped)) \<noteq> []" by code_simp
  ultimately show ?thesis
    using reachable_control_safe[OF sample_fresh sample_bootstrapped_reach] by blast
qed

text \<open>C17: an invitation token creates one account: the new account has the address and the role of a pending,
  unexpired invitation, and in every later state of the store the token is refused without any change.\<close>

theorem invitation_used_once:
  assumes "store_ok S" and "AcceptInvitation env generated hash input time S = (Inr u, S')"
    and "(control_step env)\<^sup>*\<^sup>* S' T"
  shows "(\<exists>db v. st_db S = Some db \<and> v \<in> set (invitations db) \<and> iv_hash v = hash \<and> iv_state v = InvitationPending \<and>
      time < iv_expires v \<and> us_email u = iv_email v \<and> us_role u = iv_role v) \<and>
    (\<exists>e. AcceptInvitation env generated' hash input' time' T = (Inl e, T))"
proof -
  obtain db db' v w where a: "st_db S = Some db" "st_db S' = Some db'" "v \<in> set (invitations db)" "iv_hash v = hash"
    "iv_state v = InvitationPending" "time < iv_expires v" "us_email u = iv_email v" "us_role u = iv_role v"
    and w: "w \<in> set (invitations db')" "iv_hash w = hash" "iv_state w = InvitationAccepted"
    using accept_success[OF assms(1,2)] by metis
  have "store_ok T" using steps_ok[OF assms(3)] accept_invitation.keeps[OF assms(2,1)] by blast
  moreover have "\<exists>w\<in>set (invitations db2). iv_hash w = hash \<and> \<not> pending_inv w" if "st_db T = Some db2" for db2
    using settled_rows(1)[OF assms(3) a(2) that w(1)] w(2,3) by (auto simp: pending_inv_def)
  ultimately have "\<exists>e. AcceptInvitation env generated' hash input' time' T = (Inl e, T)" by (rule accept_resolved_fails)
  then show ?thesis using a by blast
qed

theorem invitation_used_once_witness:
  "\<exists>e. AcceptInvitation sample_env [] (replicate 32 7) sample_guest (sample_time + 2)
     (snd (AcceptInvitation sample_env [] (replicate 32 7) sample_guest (sample_time + 1) sample_invited)) =
     (Inl e, snd (AcceptInvitation sample_env [] (replicate 32 7) sample_guest (sample_time + 1) sample_invited))"
proof -
  let ?r = "AcceptInvitation sample_env [] (replicate 32 7) sample_guest (sample_time + 1) sample_invited"
  have "okE (fst ?r)" by code_simp
  then obtain u where "?r = (Inr u, snd ?r)" by (metis okE_iff prod.collapse)
  then show ?thesis using invitation_used_once[OF sample_invited_ok _ rtranclp.rtrancl_refl] by blast
qed

text \<open>C18: a successful password reset consumes a pending, unexpired ticket of an active account and leaves that
  account with the new password only, the new recovery envelope as its only active one, no passkey and no
  pending ticket; every other account keeps its credentials; and in every later state of the store the token
  is refused without any change.\<close>

theorem password_reset_effect:
  assumes "store_ok S" and "CompletePasswordReset env generated input time S = (Inr t, S')"
    and "(control_step env)\<^sup>*\<^sup>* S' T"
  shows "(\<exists>db db' passwordJSON recoveryJSON. st_db S = Some db \<and> st_db S' = Some db' \<and> pt_user t \<in> active_ids (users db) \<and>
      encodeKeyEnvelope env (cp_password input) KindPassword = Inr passwordJSON \<and>
      encodeKeyEnvelope env (snd (cp_recovery input)) KindRecovery = Inr recoveryJSON \<and>
      reset_done (pt_user t) passwordJSON recoveryJSON time db' \<and>
      (\<forall>j. j \<noteq> pt_user t \<longrightarrow> credentials_of j db' = credentials_of j db)) \<and>
    pt_state t = PasswordResetConsumed \<and> time < pt_expires t \<and>
    (cp_hash input' = cp_hash input \<longrightarrow> (\<exists>e. CompletePasswordReset env generated' input' time' T = (Inl e, T)))"
proof -
  obtain db db' s eid json created passwordJSON rid recoveryJSON where
    a: "st_db S = Some db" "st_db S' = Some db'" and s: "s \<in> set (tickets db)" "tk_hash s = cp_hash input"
      "tk_state s = PasswordResetPending" "time < tk_expires s" "tk_user s \<in> active_ids (users db)"
    and e: "encodeKeyEnvelope env (cp_password input) KindPassword = Inr passwordJSON"
      "encodeKeyEnvelope env (snd (cp_recovery input)) KindRecovery = Inr recoveryJSON"
    and run: "complete_reset_tx s eid json created passwordJSON rid recoveryJSON time db = Inr db'"
    and t: "t = scanPasswordResetTicket (s\<lparr>tk_state := PasswordResetConsumed, tk_resolved := Some time\<rparr>)"
    using complete_success[OF assms(1,2)] by metis
  have u: "pt_user t = tk_user s" "pt_state t = PasswordResetConsumed" "pt_expires t = tk_expires s"
    using t by (simp_all add: scanPasswordResetTicket_def)
  have ok: "control_ok db" using assms(1) a(1) by (simp add: store_ok_def)
  note eff = complete_tx_effect[OF ok run s(1,3)]
  have "store_ok T" using steps_ok[OF assms(3)] complete_reset.keeps[OF assms(2,1)] by blast
  moreover have "\<exists>w\<in>set (tickets db2). tk_hash w = cp_hash input \<and> \<not> pending_ticket w" if "st_db T = Some db2" for db2
    by (rule bexI[OF _ settled_rows(2)[OF assms(3) a(2) that eff(2)]]) (use s(2) in \<open>simp_all add: pending_ticket_def\<close>)
  ultimately have "cp_hash input' = cp_hash input \<longrightarrow> (\<exists>e. CompletePasswordReset env generated' input' time' T = (Inl e, T))"
    using complete_resolved_fails[of T input'] by auto
  moreover have "\<forall>j. j \<noteq> pt_user t \<longrightarrow> credentials_of j db' = credentials_of j db" using eff(3) u(1) by simp
  moreover have "reset_done (pt_user t) passwordJSON recoveryJSON time db'" using eff(1) u(1) by simp
  ultimately show ?thesis using a e s(4,5) u by auto
qed

theorem password_reset_effect_witness:
  "\<exists>e. CompletePasswordReset sample_env [] sample_reset (sample_time + 2)
     (snd (CompletePasswordReset sample_env [] sample_reset (sample_time + 1) sample_ticketed)) =
     (Inl e, snd (CompletePasswordReset sample_env [] sample_reset (sample_time + 1) sample_ticketed))"
proof -
  let ?r = "CompletePasswordReset sample_env [] sample_reset (sample_time + 1) sample_ticketed"
  have "okE (fst ?r)" by code_simp
  then obtain t where "?r = (Inr t, snd ?r)" by (metis okE_iff prod.collapse)
  then show ?thesis using password_reset_effect[OF sample_ticketed_ok _ rtranclp.rtrancl_refl] by blast
qed

text \<open>C34: a password credential is compared with the stored revision before it is used: after a successful
  replacement neither a login nor another replacement with the old revision goes through, and the
  replacement removes the account's passkeys exactly when that is asked for.\<close>

theorem stale_password_refused:
  assumes "store_ok S"
    and "ReplacePasswordCredentialWithPasskeyPolicy env user expected replacement revokePasskeys time S = (Inr n, S')"
  shows "(\<exists>e. RecordSuccessfulLogin env user expected time' S' = (Inl e, S')) \<and>
    (\<exists>e. ReplacePasswordCredentialWithPasskeyPolicy env user expected replacement' b time' S' = (Inl e, S')) \<and>
    (\<exists>db db'. st_db S = Some db \<and> st_db S' = Some db' \<and>
       passkeys db' = (if revokePasskeys then del_where (\<lambda>k. pk_user k = user) (passkeys db) else passkeys db) \<and>
       n = count_where (\<lambda>k. pk_user k = user) (passkeys db) - count_where (\<lambda>k. pk_user k = user) (passkeys db'))"
proof -
  obtain db json newJSON db1 db3 where a: "st_db S = Some db" "normalizeID user = Inr user" "pc_user expected = user"
      "encodeKeyEnvelope env (pc_envelope expected) KindPassword = Inr json" "json \<noteq> newJSON" "pc_updated expected < time"
    and sp: "set_password (password_matches user json (pc_updated expected)) newJSON time db = Inr db1"
      "count_where (password_matches user json (pc_updated expected)) (passwords db) = 1"
    and adv: "advanceUserUpdatedAt user time (if revokePasskeys then db1\<lparr>passkeys := del_where (\<lambda>k. pk_user k = user) (passkeys db1)\<rparr> else db1) = Inr db3"
    and n: "n = (if revokePasskeys then count_where (\<lambda>k. pk_user k = user) (passkeys db1) else 0)" and S': "S' = S\<lparr>st_db := Some db3\<rparr>"
    using assms(2) by (auto simp: ReplacePasswordCredentialWithPasskeyPolicy_def withImmediate_Inr res_simps Let_def
        validateOperationTime_def normalizeID_def split: sum.splits if_splits)
  have ok: "control_ok db" using assms(1) a(1) by (simp add: store_ok_def)
  note pw = set_password_effect[OF ok sp, of user]
  have d3: "passwords db3 = passwords db1" "passkeys db3 = (if revokePasskeys then del_where (\<lambda>k. pk_user k = user) (passkeys db1) else passkeys db1)"
    using adv by (auto simp: advanceUserUpdatedAt_def update_user_def split: if_splits)
  have pk: "passkeys db1 = passkeys db" using sp(1) by (auto simp: set_password_def split: if_splits)
  have none: "\<not> password_matches user json (pc_updated expected) p" if "p \<in> set (passwords db3)" for p
    using pw(1) that a(6) unfolding d3(1) by (auto simp: password_matches_def)
  then have zero: "count_where (password_matches user json (pc_updated expected)) (passwords db3) = 0"
    by (simp add: count_where_eq_0)
  have "\<exists>e. RecordSuccessfulLogin env user expected time' S' = (Inl e, S')"
    unfolding RecordSuccessfulLogin_def using a(2-4) none S'
    by (auto split: sum.splits simp: res_simps validateOperationTime_def intro!: withImmediate_fails bind_fails)
  moreover have "\<exists>e. ReplacePasswordCredentialWithPasskeyPolicy env user expected replacement' b time' S' = (Inl e, S')"
    unfolding ReplacePasswordCredentialWithPasskeyPolicy_def using a(2-4) zero S'
    by (auto split: sum.splits simp: res_simps validateOperationTime_def simp del: bindE_eq_Inl
      intro!: withImmediate_fails bind_fails)
  moreover have "n = count_where (\<lambda>k. pk_user k = user) (passkeys db) - count_where (\<lambda>k. pk_user k = user) (passkeys db3)"
    using n d3(2) pk by (simp add: count_where_def del_where_def)
  ultimately show ?thesis using a(1) S' d3(2) pk by auto
qed

theorem stale_password_refused_witness:
  "\<exists>e. RecordSuccessfulLogin sample_env (sample_id CHR ''a'')
     \<lparr>pc_user = sample_id CHR ''a'', pc_envelope = sample_envelope KindPassword 1, pc_created = sample_time, pc_updated = sample_time\<rparr> (sample_time + 2)
     (snd (ReplacePasswordCredentialWithPasskeyPolicy sample_env (sample_id CHR ''a'')
        \<lparr>pc_user = sample_id CHR ''a'', pc_envelope = sample_envelope KindPassword 1, pc_created = sample_time, pc_updated = sample_time\<rparr>
        (sample_envelope KindPassword 5) True (sample_time + 1) sample_bootstrapped)) =
     (Inl e, snd (ReplacePasswordCredentialWithPasskeyPolicy sample_env (sample_id CHR ''a'')
        \<lparr>pc_user = sample_id CHR ''a'', pc_envelope = sample_envelope KindPassword 1, pc_created = sample_time, pc_updated = sample_time\<rparr>
        (sample_envelope KindPassword 5) True (sample_time + 1) sample_bootstrapped))"
proof -
  let ?r = "ReplacePasswordCredentialWithPasskeyPolicy sample_env (sample_id CHR ''a'')
     \<lparr>pc_user = sample_id CHR ''a'', pc_envelope = sample_envelope KindPassword 1, pc_created = sample_time, pc_updated = sample_time\<rparr>
     (sample_envelope KindPassword 5) True (sample_time + 1) sample_bootstrapped"
  have "okE (fst ?r)" by code_simp
  then obtain n where "?r = (Inr n, snd ?r)" by (metis okE_iff prod.collapse)
  then show ?thesis using stale_password_refused[OF sample_bootstrapped_ok] by blast
qed

end
