(* ===== verification/ControlReads.thy ===== *)
theory ControlReads
  imports ControlHistory "HOL-Library.List_Lexorder" "HOL-Library.Char_ord"
begin

text \<open>
  The read operations of the control store (\<open>users.go\<close>, \<open>invitations.go\<close>, \<open>password_reset.go\<close>, \<open>passkeys.go\<close>)
  and what they give back of an account that was just created. Listings are sorted by the columns of their
  ORDER BY; SQLite compares text by its bytes, and with NOCASE by its folded bytes. A passkey is given in its
  stored form.
\<close>

section \<open>Operations\<close>

definition control_database :: "store \<Rightarrow> (cerr, control_db) result" where
  "control_database S = (if st_closed S then Inl ErrStoreClosed else ofOption ErrStoreClosed (st_db S))"

definition IsBootstrapped :: "store \<Rightarrow> (cerr, bool) result" where
  "IsBootstrapped S = bindE (control_database S) (\<lambda>db. Inr (users db \<noteq> []))"

definition ListUsers :: "store \<Rightarrow> (cerr, UserSummary list) result" where
  "ListUsers S = bindE (control_database S) (\<lambda>db.
     Inr (map scanUserSummary (sort_key (\<lambda>u. (nocase (u_email u), u_id u)) (users db))))"

definition GetUser :: "string \<Rightarrow> store \<Rightarrow> (cerr, UserSummary) result" where
  "GetUser rawID S =
     bindE (normalizeID rawID) (\<lambda>i.
     bindE (control_database S) (\<lambda>db.
     bindE (ofOption ErrNotFound (List.find (\<lambda>u. u_id u = i) (users db))) (\<lambda>u. Inr (scanUserSummary u))))"

definition GetUserByEmail :: "control_env \<Rightarrow> string \<Rightarrow> store \<Rightarrow> (cerr, UserSummary) result" where
  "GetUserByEmail env rawEmail S =
     bindE (normalizeEmail env rawEmail) (\<lambda>email.
     bindE (control_database S) (\<lambda>db.
     bindE (ofOption ErrNotFound (List.find (\<lambda>u. nocase (u_email u) = nocase email) (users db))) (\<lambda>u.
     Inr (scanUserSummary u))))"

definition LookupVaultID :: "string \<Rightarrow> store \<Rightarrow> (cerr, string) result" where
  "LookupVaultID rawID S =
     bindE (normalizeID rawID) (\<lambda>i.
     bindE (control_database S) (\<lambda>db.
     bindE (ofOption ErrNotFound (List.find (\<lambda>u. u_id u = i) (users db))) (\<lambda>u. Inr (u_vault u))))"

definition GetPasswordCredential :: "control_env \<Rightarrow> string \<Rightarrow> store \<Rightarrow> (cerr, PasswordCredential) result" where
  "GetPasswordCredential env rawID S =
     bindE (normalizeID rawID) (\<lambda>i.
     bindE (control_database S) (\<lambda>db.
     bindE (ofOption ErrNotFound (List.find (\<lambda>p. pw_user p = i) (passwords db))) (\<lambda>p.
     bindE (decodeKeyEnvelope env (pw_json p) KindPassword) (\<lambda>e.
     Inr \<lparr>pc_user = pw_user p, pc_envelope = e, pc_created = pw_created p, pc_updated = pw_updated p\<rparr>))))"

definition GetActiveRecoveryEnvelope :: "control_env \<Rightarrow> string \<Rightarrow> store \<Rightarrow> (cerr, RecoveryEnvelope) result" where
  "GetActiveRecoveryEnvelope env rawID S =
     bindE (normalizeID rawID) (\<lambda>i.
     bindE (control_database S) (\<lambda>db.
     bindE (ofOption ErrNotFound (List.find (\<lambda>r. rc_user r = i \<and> rc_active r) (recoveries db))) (\<lambda>r.
     bindE (decodeKeyEnvelope env (rc_json r) KindRecovery) (\<lambda>e.
     Inr \<lparr>re_id = rc_id r, re_user = rc_user r, re_envelope = e, re_active = rc_active r, re_created = rc_created r,
          re_revoked = rc_revoked r\<rparr>))))"

definition GetInvitationByTokenHash :: "bytes \<Rightarrow> store \<Rightarrow> (cerr, Invitation) result" where
  "GetInvitationByTokenHash hash S =
     bindE (validateTokenHash hash) (\<lambda>_.
     bindE (control_database S) (\<lambda>db.
     bindE (ofOption ErrNotFound (List.find (\<lambda>v. iv_hash v = hash) (invitations db))) (\<lambda>v. Inr (scanInvitation v))))"

definition ListInvitations :: "store \<Rightarrow> (cerr, Invitation list) result" where
  "ListInvitations S = bindE (control_database S) (\<lambda>db.
     Inr (map scanInvitation (take 500 (sort_key (\<lambda>v. (- iv_created v, iv_id v)) (invitations db)))))"

definition ListPasswordResetTickets :: "store \<Rightarrow> (cerr, PasswordResetTicket list) result" where
  "ListPasswordResetTickets S = bindE (control_database S) (\<lambda>db.
     Inr (map scanPasswordResetTicket (take 500 (sort_key (\<lambda>t. (- tk_created t, tk_id t)) (tickets db)))))"

definition GetPasswordResetTicketByTokenHash :: "bytes \<Rightarrow> store \<Rightarrow> (cerr, PasswordResetTicket) result" where
  "GetPasswordResetTicketByTokenHash hash S =
     bindE (validateTokenHash hash) (\<lambda>_.
     bindE (control_database S) (\<lambda>db.
     bindE (ofOption ErrNotFound (List.find (\<lambda>t. tk_hash t = hash) (tickets db))) (\<lambda>t. Inr (scanPasswordResetTicket t))))"

definition ListPasskeyCredentials :: "string \<Rightarrow> store \<Rightarrow> (cerr, passkey_row list) result" where
  "ListPasskeyCredentials rawID S =
     bindE (normalizeID rawID) (\<lambda>i.
     bindE (control_database S) (\<lambda>db.
     Inr (sort_key (\<lambda>k. (pk_created k, map unat (pk_id k))) (filter (\<lambda>k. pk_user k = i) (passkeys db)))))"

definition GetPasskeyCredential :: "string \<Rightarrow> bytes \<Rightarrow> store \<Rightarrow> (cerr, passkey_row) result" where
  "GetPasskeyCredential rawID cid S =
     bindE (normalizeID rawID) (\<lambda>i.
     bindE (validatePasskeyCredentialID cid) (\<lambda>_.
     bindE (control_database S) (\<lambda>db.
     ofOption ErrNotFound (List.find (\<lambda>k. pk_user k = i \<and> pk_id k = cid) (passkeys db)))))"

section \<open>A new account\<close>

lemma find_append_new: "(\<And>x. x \<in> set xs \<Longrightarrow> \<not> P x) \<Longrightarrow> P y \<Longrightarrow> List.find P (xs @ [y]) = Some y"
  by (induction xs) auto

lemma inserted_user:
  assumes ok: "control_ok db" and run: "insertPreparedUser p role now db = Inr db'" and role: "users db \<noteq> [] \<or> role = RoleAdmin"
  shows "List.find (\<lambda>u. u_id u = pu_id p) (users db') = Some (new_user_row p role now)"
    and "List.find (\<lambda>r. pw_user r = pu_id p) (passwords db') =
      Some \<lparr>pw_user = pu_id p, pw_json = pu_password_json p, pw_created = now, pw_updated = now\<rparr>"
    and "2 \<le> length (pu_password_json p) \<and> length (pu_password_json p) \<le> 8192"
proof -
  note i = insertPreparedUser_ok[OF ok run role]
  show "List.find (\<lambda>u. u_id u = pu_id p) (users db') = Some (new_user_row p role now)"
    unfolding i(2) by (rule find_append_new) (use i(4) in \<open>auto simp: user_ids_def new_user_row_def image_iff\<close>)
  have p: "passwords db' = passwords db @ [\<lparr>pw_user = pu_id p, pw_json = pu_password_json p, pw_created = now, pw_updated = now\<rparr>]"
    "pu_id p \<notin> pw_user ` set (passwords db)" "2 \<le> length (pu_password_json p) \<and> length (pu_password_json p) \<le> 8192"
    using run by (auto simp: insertPreparedUser_def insert_user_def insert_password_def insert_recovery_def res_simps split: if_splits)
  show "List.find (\<lambda>r. pw_user r = pu_id p) (passwords db') =
      Some \<lparr>pw_user = pu_id p, pw_json = pu_password_json p, pw_created = now, pw_updated = now\<rparr>"
    unfolding p(1) by (rule find_append_new) (use p(2) in \<open>auto simp: image_iff\<close>)
  show "2 \<le> length (pu_password_json p) \<and> length (pu_password_json p) \<le> 8192" by (rule p(3))
qed

lemma prepared_fields:
  assumes "prepareNewUser env generated input = Inr p"
  shows "normalizeID (pu_id p) = Inr (pu_id p)" and "pu_vault p = nu_vault input"
    and "validateKeyEnvelope (nu_password input) KindPassword = Inr ()"
    and "pu_password_json p = env_encode env (nu_password input)"
  using assms by (auto simp: prepareNewUser_def normalizeID_def encodeKeyEnvelope_def res_simps Let_def split: if_splits)

lemma accept_prepared:
  assumes ok: "store_ok S" and run: "AcceptInvitation env generated hash input time S = (Inr u, S')"
  obtains p role db db1 db' where "prepareNewUser env generated input = Inr p" "st_db S = Some db" "control_ok db" "users db \<noteq> []"
    "insertPreparedUser p role time db = Inr db1" "users db' = users db1" "passwords db' = passwords db1"
    "S' = S\<lparr>st_db := Some db'\<rparr>" "\<not> st_closed S" "u = summary p role time" "validateOperationTime time = Inr time"
proof -
  obtain p v db db1 db' where a: "prepareNewUser env generated input = Inr p" "st_db S = Some db"
      "List.find (\<lambda>v. iv_hash v = hash) (invitations db) = Some v" "insertPreparedUser p (iv_role v) time db = Inr db1"
      "S' = S\<lparr>st_db := Some db'\<rparr>" "\<not> st_closed S" "u = summary p (iv_role v) time" "validateOperationTime time = Inr time"
    and upd: "update_invitations (\<lambda>w. iv_id w = iv_id v \<and> iv_state w = InvitationPending)
      (\<lambda>w. w\<lparr>iv_state := InvitationAccepted, iv_accepted := Some (pu_id p), iv_resolved := Some time\<rparr>) db1 = Inr db'"
    using run by (auto simp: AcceptInvitation_def withImmediate_Inr res_simps validateOperationTime_def split: sum.splits if_splits)
  have c: "control_ok db" using ok a(2) by (simp add: store_ok_def)
  have "v \<in> set (invitations db)" using find_SomeD[OF a(3)] by simp
  then have "iv_by v \<in> user_ids (users db)" using c by (auto simp: control_ok_def invitations_ok_def inv_ok_def)
  then have "users db \<noteq> []" by (auto simp: user_ids_def)
  then show thesis using that a c update_invitations_frame[OF upd] by blast
qed

section \<open>Properties\<close>

text \<open>C31: an account created from an invitation is there: it is read back by its id with the fields of the answer and
  with its vault, and the password credential that is read back carries the given envelope and commits a
  login at any later time, provided the JSON encoding of the envelope decodes to it.\<close>

theorem new_account_can_log_in:
  assumes "store_ok S" and "AcceptInvitation env generated hash input time S = (Inr u, S')"
    and "env_decode env (env_encode env (nu_password input)) = Some (nu_password input)"
    and "time \<le> time'" and "validateOperationTime time' = Inr time'"
  shows "GetUser (us_id u) S' = Inr u \<and> LookupVaultID (us_id u) S' = Inr (nu_vault input) \<and>
    (\<exists>c S''. GetPasswordCredential env (us_id u) S' = Inr c \<and> pc_envelope c = nu_password input \<and>
       RecordSuccessfulLogin env (us_id u) c time' S' = (Inr (), S''))"
proof -
  obtain p role db db1 db' where p: "prepareNewUser env generated input = Inr p" and db: "control_ok db" "users db \<noteq> []"
    and ins: "insertPreparedUser p role time db = Inr db1" and d': "users db' = users db1" "passwords db' = passwords db1"
    and S': "S' = S\<lparr>st_db := Some db'\<rparr>" "\<not> st_closed S" and u: "u = summary p role time" and t: "validateOperationTime time = Inr time"
    using accept_prepared[OF assms(1,2)] by metis
  note f = prepared_fields[OF p] and i = inserted_user[OF db(1) ins disjI1, OF db(2)]
  note ip = insertPreparedUser_ok[OF db(1) ins disjI1, OF db(2)]
  let ?c = "\<lparr>pc_user = pu_id p, pc_envelope = nu_password input, pc_created = time, pc_updated = time\<rparr>"
  have cd: "control_database S' = Inr db'" using S' by (simp add: control_database_def)
  have uid: "us_id u = pu_id p" using u by (simp add: summary_def)
  have "GetUser (us_id u) S' = Inr u"
    using cd i(1) d' f(1) uid u by (simp add: GetUser_def scanUserSummary_def new_user_row_def summary_def)
  moreover have "LookupVaultID (us_id u) S' = Inr (nu_vault input)"
    using cd i(1) d' f(1,2) uid by (simp add: LookupVaultID_def new_user_row_def)
  moreover have "GetPasswordCredential env (us_id u) S' = Inr ?c"
    using cd i(2,3) d' f(1,3,4) uid assms(3) by (simp add: GetPasswordCredential_def decodeKeyEnvelope_def)
  moreover have "\<exists>S''. RecordSuccessfulLogin env (us_id u) ?c time' S' = (Inr (), S'')"
  proof -
    let ?u = "new_user_row p role time"
    let ?f = "\<lambda>u. u\<lparr>u_login := Some (case u_login u of None \<Rightarrow> time' | Some t \<Rightarrow> if t < time' then time' else t)\<rparr>"
    have us: "users db' = users db @ [?u]" using ip(2) d' by simp
    have old: "\<And>x. x \<in> set (users db) \<Longrightarrow> u_id x \<noteq> pu_id p" using ip(4) by (auto simp: user_ids_def image_iff)
    have enc: "encodeKeyEnvelope env (nu_password input) KindPassword = Inr (pu_password_json p)"
      using f(3,4) i(3) by (simp add: encodeKeyEnvelope_def)
    have act: "requireActiveUser (pu_id p) db' = Inr ()"
      using i(1) d' by (simp add: requireActiveUser_def loadRoleAndState_def new_user_row_def)
    have one: "count_where (\<lambda>x. u_id x = pu_id p \<and> u_state x = UserActive \<and> u_created x \<le> time') (users db') = 1"
      using old assms(4) by (auto simp: us count_where_def new_user_row_def filter_empty_conv)
    have m: "\<exists>q\<in>set (passwords db'). password_matches (pu_id p) (pu_password_json p) time q"
      using find_SomeD[OF i(2)] d' by (intro bexI) (auto simp: password_matches_def)
    have "user_check ?u" using ins by (auto simp: insertPreparedUser_def insert_user_def res_simps split: if_splits)
    then have "user_check (?f ?u)" using assms(4) by (simp add: user_check_def new_user_row_def)
    then have upd: "\<exists>db2. update_user (pu_id p) ?f db' = Inr db2"
      using old by (auto simp: update_user_def us)
    show ?thesis
      using f(1) uid enc t assms(4,5) act one m upd S'
      by (auto simp: RecordSuccessfulLogin_def withImmediate_def)
  qed
  ultimately show ?thesis by force
qed

definition sample_roundtrip_env :: control_env where
  "sample_roundtrip_env = sample_env\<lparr>env_decode := (\<lambda>s. if s = env_encode sample_env (sample_envelope KindPassword 3)
     then Some (sample_envelope KindPassword 3) else None)\<rparr>"

theorem new_account_can_log_in_witness:
  "\<exists>c S''. GetPasswordCredential sample_roundtrip_env (sample_id CHR ''b'')
      (snd (AcceptInvitation sample_roundtrip_env [] (replicate 32 7) sample_guest (sample_time + 1) sample_invited)) = Inr c \<and>
    RecordSuccessfulLogin sample_roundtrip_env (sample_id CHR ''b'') c (sample_time + 5)
      (snd (AcceptInvitation sample_roundtrip_env [] (replicate 32 7) sample_guest (sample_time + 1) sample_invited)) = (Inr (), S'')"
proof -
  let ?r = "AcceptInvitation sample_roundtrip_env [] (replicate 32 7) sample_guest (sample_time + 1) sample_invited"
  have "okE (fst ?r) \<and> us_id (projr (fst ?r)) = sample_id CHR ''b''" by code_simp
  then obtain u where u: "?r = (Inr u, snd ?r)" "us_id u = sample_id CHR ''b''" by (metis okE_iff prod.collapse sum.sel(2))
  have d: "env_decode sample_roundtrip_env (env_encode sample_roundtrip_env (nu_password sample_guest)) = Some (nu_password sample_guest)"
    by code_simp
  have t: "sample_time + 1 \<le> sample_time + 5" "validateOperationTime (sample_time + 5) = Inr (sample_time + 5)" by code_simp+
  show ?thesis using new_account_can_log_in[OF sample_invited_ok u(1) d t] unfolding u(2) by blast
qed

end
