(* ===== verification/LoginThrottle.thy ===== *)
theory LoginThrottle
  imports Control
begin

text \<open>
  The account lock-out of \<open>control/login_throttle.go\<close> and the policy the server uses it with
  (\<open>serverauth/login_throttle.go\<close>). Durations are nanoseconds and points in time Unix milliseconds, as in
  the code; a returned lock expiry is in nanoseconds. The state is the table \<open>login_throttle\<close> and the
  counter of writes that triggers the purge.
\<close>

section \<open>State\<close>

record throttle_row =
  th_key :: string
  th_failures :: int
  th_level :: int
  th_locked :: "int option"
  th_last :: int
  th_updated :: int

record throttle_store =
  ts_rows :: "throttle_row list"
  ts_open :: bool
  ts_writes :: int64

record LoginThrottlePolicy =
  MaxFailures :: int
  BaseLock :: int
  MaxLock :: int
  Decay :: int

definition second :: int where "second = 10 ^ 9"

definition loginThrottlePolicy :: LoginThrottlePolicy where
  "loginThrottlePolicy = \<lparr>MaxFailures = 5, BaseLock = 15 * 60 * second, MaxLock = 60 * 60 * second, Decay = 24 * 3600 * second\<rparr>"

section \<open>Operations\<close>

definition policy_validate :: "LoginThrottlePolicy \<Rightarrow> (cerr, unit) result" where
  "policy_validate p =
     bindE (guardE (1 \<le> MaxFailures p \<and> MaxFailures p \<le> 1000) ErrInput) (\<lambda>_.
     bindE (guardE (second \<le> BaseLock p \<and> BaseLock p \<le> MaxLock p) ErrInput) (\<lambda>_.
     bindE (guardE (MaxLock p \<le> 24 * 3600 * second) ErrInput) (\<lambda>_.
     guardE (MaxLock p \<le> Decay p) ErrInput)))"

definition validateLoginThrottleKey :: "string \<Rightarrow> (cerr, unit) result" where
  "validateLoginThrottleKey key =
     bindE (guardE (length key = 64) ErrInput) (\<lambda>_.
     guardE (list_all (\<lambda>c. 48 \<le> byte c \<and> byte c \<le> 57 \<or> 97 \<le> byte c \<and> byte c \<le> 102) key) ErrInput)"

definition throttle_row_of :: "string \<Rightarrow> throttle_store \<Rightarrow> throttle_row option" where
  "throttle_row_of key T = List.find (\<lambda>r. th_key r = key) (ts_rows T)"

definition LoginThrottleLockedUntil :: "string \<Rightarrow> int \<Rightarrow> throttle_store \<Rightarrow> (cerr, int option) result" where
  "LoginThrottleLockedUntil key time T =
     bindE (validateLoginThrottleKey key) (\<lambda>_.
     bindE (validateOperationTime time) (\<lambda>now.
     bindE (guardE (ts_open T) ErrStoreClosed) (\<lambda>_.
     Inr (case throttle_row_of key T of
            None \<Rightarrow> None
          | Some r \<Rightarrow> (case th_locked r of None \<Rightarrow> None | Some u \<Rightarrow> if u > now then Some u else None)))))"

text \<open>\<open>time.Time.Sub\<close> of two millisecond times: nanoseconds, saturated at 64 bits.\<close>

definition sub_ms :: "int \<Rightarrow> int \<Rightarrow> int" where
  "sub_ms t u = max (- (2 ^ 63)) (min (2 ^ 63 - 1) ((t - u) * 10 ^ 6))"

text \<open>The two loops over the lock level.\<close>

function max_level_from :: "LoginThrottlePolicy \<Rightarrow> int \<Rightarrow> int \<Rightarrow> int" where
  "max_level_from p duration maxLevel =
     (if duration < MaxLock p \<and> maxLevel < 64 then max_level_from p (duration * 2) (maxLevel + 1) else maxLevel)"
  by pat_completeness auto
termination by (relation "measure (\<lambda>(_, _, l). nat (64 - l))") auto

function lock_duration_from :: "LoginThrottlePolicy \<Rightarrow> int \<Rightarrow> int \<Rightarrow> int \<Rightarrow> int" where
  "lock_duration_from p level cycle duration =
     (if cycle < level \<and> duration < MaxLock p then lock_duration_from p level (cycle + 1) (duration * 2) else duration)"
  by pat_completeness auto
termination by (relation "measure (\<lambda>(_, l, c, _). nat (l - c))") auto

declare max_level_from.simps [simp del] lock_duration_from.simps [simp del]

definition max_level :: "LoginThrottlePolicy \<Rightarrow> int" where
  "max_level p = max_level_from p (BaseLock p) 1"

definition lock_duration :: "LoginThrottlePolicy \<Rightarrow> int \<Rightarrow> int" where
  "lock_duration p level = (let d = lock_duration_from p level 1 (BaseLock p) in if d > MaxLock p then MaxLock p else d)"

definition throttle_check :: "throttle_row \<Rightarrow> bool" where
  "throttle_check r \<longleftrightarrow> length (th_key r) = 64 \<and> 0 \<le> th_failures r \<and> th_failures r \<le> 1000000 \<and>
     0 \<le> th_level r \<and> th_level r \<le> 64 \<and> 0 < th_last r \<and> th_last r \<le> th_updated r \<and>
     (case th_locked r of None \<Rightarrow> True | Some u \<Rightarrow> th_last r < u)"

text \<open>The upsert.\<close>

definition put_throttle :: "throttle_row \<Rightarrow> throttle_row list \<Rightarrow> (cerr, throttle_row list) result" where
  "put_throttle r rows =
     (if \<not> throttle_check r then Inl ErrStorage
      else if \<exists>q\<in>set rows. th_key q = th_key r then Inr (upd_where (\<lambda>q. th_key q = th_key r) (\<lambda>_. r) rows)
      else Inr (rows @ [r]))"

text \<open>A failure that is not absorbed by a lock; the answer is the expiry of the lock it sets.\<close>

definition register_put ::
  "string \<Rightarrow> int \<Rightarrow> LoginThrottlePolicy \<Rightarrow> int \<Rightarrow> int \<Rightarrow> throttle_row list \<Rightarrow>
     (cerr, throttle_row list \<times> int option) result" where
  "register_put key now p failures level rows =
     (let f = failures + 1 in
      if f \<ge> MaxFailures p then
        let lv = (if level < max_level p then level + 1 else level);
            until = now * 10 ^ 6 + lock_duration p lv in
        bindE (put_throttle \<lparr>th_key = key, th_failures = 0, th_level = lv, th_locked = Some (until div 10 ^ 6),
            th_last = now, th_updated = now\<rparr> rows) (\<lambda>rows'. Inr (rows', Some until))
      else
        bindE (put_throttle \<lparr>th_key = key, th_failures = f, th_level = level, th_locked = None,
            th_last = now, th_updated = now\<rparr> rows) (\<lambda>rows'. Inr (rows', None)))"

definition register_tx ::
  "string \<Rightarrow> int \<Rightarrow> LoginThrottlePolicy \<Rightarrow> throttle_row list \<Rightarrow> (cerr, throttle_row list \<times> int option) result" where
  "register_tx key now p rows =
     (case List.find (\<lambda>r. th_key r = key) rows of
        None \<Rightarrow> register_put key now p 0 0 rows
      | Some r \<Rightarrow>
          let fresh = \<not> sub_ms now (th_last r) > Decay p;
              failures = (if fresh then th_failures r else 0);
              level = (if fresh then th_level r else 0) in
          case th_locked r of
            None \<Rightarrow> register_put key now p failures level rows
          | Some u \<Rightarrow> if u > now then Inr (rows, Some (u * 10 ^ 6)) else register_put key now p failures level rows)"

definition loginThrottleGCInterval :: int64 where "loginThrottleGCInterval = 128"

definition maybePurgeLoginThrottle :: "int \<Rightarrow> LoginThrottlePolicy \<Rightarrow> throttle_store \<Rightarrow> throttle_store" where
  "maybePurgeLoginThrottle now p T =
     (let T' = T\<lparr>ts_writes := ts_writes T + 1\<rparr> in
      if ts_writes T' mod loginThrottleGCInterval \<noteq> 0 \<or> \<not> ts_open T then T'
      else T'\<lparr>ts_rows := del_where (\<lambda>r. (case th_locked r of None \<Rightarrow> th_last r | Some u \<Rightarrow> u) < (now * 10 ^ 6 - Decay p) div 10 ^ 6)
             (ts_rows T)\<rparr>)"

definition RegisterLoginFailure ::
  "string \<Rightarrow> int \<Rightarrow> LoginThrottlePolicy \<Rightarrow> throttle_store \<Rightarrow> (cerr, int option) result \<times> throttle_store" where
  "RegisterLoginFailure key time p T =
     (case bindE (validateLoginThrottleKey key) (\<lambda>_.
           bindE (policy_validate p) (\<lambda>_.
           bindE (validateOperationTime time) (\<lambda>now.
           bindE (guardE (ts_open T) ErrStoreClosed) (\<lambda>_.
           bindE (register_tx key now p (ts_rows T)) (\<lambda>(rows, until). Inr (now, rows, until)))))) of
        Inl e \<Rightarrow> (Inl e, T)
      | Inr (now, rows, until) \<Rightarrow> (Inr until, maybePurgeLoginThrottle now p (T\<lparr>ts_rows := rows\<rparr>)))"

definition ClearLoginFailures :: "string \<Rightarrow> throttle_store \<Rightarrow> (cerr, unit) result \<times> throttle_store" where
  "ClearLoginFailures key T =
     (case bindE (validateLoginThrottleKey key) (\<lambda>_. guardE (ts_open T) ErrStoreClosed) of
        Inl e \<Rightarrow> (Inl e, T)
      | Inr _ \<Rightarrow> (Inr (), T\<lparr>ts_rows := del_where (\<lambda>r. th_key r = key) (ts_rows T)\<rparr>))"

text \<open>\<open>checkLoginThrottle\<close>: the remaining lock in nanoseconds.\<close>

definition checkLoginThrottle :: "string \<Rightarrow> int \<Rightarrow> throttle_store \<Rightarrow> (cerr, int) result" where
  "checkLoginThrottle key now T =
     bindE (LoginThrottleLockedUntil key now T) (\<lambda>until.
     Inr (case until of None \<Rightarrow> 0 | Some u \<Rightarrow> (let remaining = sub_ms u now in if remaining \<le> 0 then 0 else remaining)))"

text \<open>A failure to record is logged and otherwise ignored.\<close>

definition recordLoginFailure :: "string \<Rightarrow> int \<Rightarrow> throttle_store \<Rightarrow> throttle_store" where
  "recordLoginFailure key now T = snd (RegisterLoginFailure key now loginThrottlePolicy T)"

definition clearLoginFailures :: "string \<Rightarrow> throttle_store \<Rightarrow> throttle_store" where
  "clearLoginFailures key T = snd (ClearLoginFailures key T)"

section \<open>Lock levels\<close>

definition throttle_ok :: "throttle_row list \<Rightarrow> bool" where
  "throttle_ok rows \<longleftrightarrow> distinct (map th_key rows) \<and> (\<forall>r\<in>set rows. throttle_check r)"

lemma max_level_bounds: "l \<le> 64 \<Longrightarrow> l \<le> max_level_from p d l \<and> max_level_from p d l \<le> 64"
proof (induction p d l rule: max_level_from.induct)
  case (1 p d l)
  then show ?case by (subst max_level_from.simps, subst max_level_from.simps) auto
qed

lemma lock_duration_from_min:
  "0 < d \<Longrightarrow> min (MaxLock p) (lock_duration_from p l c d) = min (MaxLock p) (d * 2 ^ nat (l - c))"
proof (induction p l c d rule: lock_duration_from.induct)
  case (1 p l c d)
  show ?case
  proof (cases "c < l \<and> d < MaxLock p")
    case True
    have e: "nat (l - c) = Suc (nat (l - (c + 1)))" using True by auto
    show ?thesis using True 1 by (subst lock_duration_from.simps) (simp add: e mult.assoc)
  next
    case False
    have "d \<le> d * 2 ^ nat (l - c)" using 1(2) by simp
    then show ?thesis using False by (subst lock_duration_from.simps) auto
  qed
qed

lemma lock_duration_closed:
  "0 < BaseLock p \<Longrightarrow> lock_duration p l = min (MaxLock p) (BaseLock p * 2 ^ nat (l - 1))"
proof -
  have "lock_duration p l = min (MaxLock p) (lock_duration_from p l 1 (BaseLock p))"
    by (simp add: lock_duration_def Let_def min_def)
  then show "0 < BaseLock p \<Longrightarrow> ?thesis" by (simp only: lock_duration_from_min)
qed

lemma lock_duration_bounds:
  assumes "policy_validate p = Inr ()"
  shows "10 ^ 9 \<le> lock_duration p l \<and> lock_duration p l \<le> MaxLock p"
proof -
  have b: "10 ^ 9 \<le> BaseLock p" "BaseLock p \<le> MaxLock p"
    using assms by (auto simp: policy_validate_def res_simps second_def)
  have "BaseLock p \<le> BaseLock p * 2 ^ nat (l - 1)" using b by simp
  moreover have "lock_duration p l = min (MaxLock p) (BaseLock p * 2 ^ nat (l - 1))"
    using b by (intro lock_duration_closed) simp
  ultimately show ?thesis using b by linarith
qed

section \<open>Failures\<close>

lemma put_throttle_ok:
  assumes "throttle_ok rows" and "throttle_check r"
  shows "\<exists>rows'. put_throttle r rows = Inr rows' \<and> throttle_ok rows' \<and> List.find (\<lambda>q. th_key q = th_key r) rows' = Some r \<and>
    (\<forall>k. k \<noteq> th_key r \<longrightarrow> List.find (\<lambda>q. th_key q = k) rows' = List.find (\<lambda>q. th_key q = k) rows)"
proof (cases "\<exists>q\<in>set rows. th_key q = th_key r")
  case True
  let ?rows = "upd_where (\<lambda>q. th_key q = th_key r) (\<lambda>_. r) rows"
  have m: "map th_key ?rows = map th_key rows" by (intro map_key_upd_where) simp
  have d: "distinct (map th_key ?rows)" using assms(1) unfolding m by (simp add: throttle_ok_def)
  then have "throttle_ok ?rows" using assms by (auto simp: throttle_ok_def elim!: upd_where_elim)
  moreover have "r \<in> set ?rows" using True by (force simp: set_upd_where)
  then have "List.find (\<lambda>q. th_key q = th_key r) ?rows = Some r" using d by (subst find_eq_Some_iff) auto
  moreover have "List.find (\<lambda>q. th_key q = k) ?rows = List.find (\<lambda>q. th_key q = k) rows" if "k \<noteq> th_key r" for k
    by (rule find_upd_where_other) (use that in auto)
  ultimately show ?thesis using True assms(2) by (auto simp: put_throttle_def)
next
  case False
  have ap: "List.find P (rows @ [r]) = (case List.find P rows of None \<Rightarrow> if P r then Some r else None | Some q \<Rightarrow> Some q)" for P
    by (induction rows) auto
  have none: "List.find (\<lambda>q. th_key q = th_key r) rows = None" using False by (auto simp: find_None_iff)
  show ?thesis using False assms none by (auto simp: put_throttle_def throttle_ok_def ap split: option.splits)
qed

lemma register_put_ok:
  assumes ok: "throttle_ok rows" and p: "policy_validate p = Inr ()" and key: "length key = 64" and now: "0 < now"
    and f: "0 \<le> f" and l: "0 \<le> l" "l \<le> 64"
  shows "\<exists>rows' r. register_put key now p f l rows = Inr (rows',
      if f + 1 \<ge> MaxFailures p then Some (now * 10 ^ 6 + lock_duration p (th_level r)) else None) \<and>
    throttle_ok rows' \<and> List.find (\<lambda>q. th_key q = key) rows' = Some r \<and>
    (\<forall>k. k \<noteq> key \<longrightarrow> List.find (\<lambda>q. th_key q = k) rows' = List.find (\<lambda>q. th_key q = k) rows) \<and> th_last r = now \<and>
    (if f + 1 \<ge> MaxFailures p
     then th_failures r = 0 \<and> th_level r = (if l < max_level p then l + 1 else l) \<and>
       th_locked r = Some ((now * 10 ^ 6 + lock_duration p (th_level r)) div 10 ^ 6)
     else th_failures r = f + 1 \<and> th_level r = l \<and> th_locked r = None)"
proof -
  define lv where "lv = (if l < max_level p then l + 1 else l)"
  let ?u = "(now * 10 ^ 6 + lock_duration p lv) div 10 ^ 6"
  let ?a = "\<lparr>th_key = key, th_failures = 0, th_level = lv, th_locked = Some ?u, th_last = now, th_updated = now\<rparr>"
  let ?b = "\<lparr>th_key = key, th_failures = f + 1, th_level = l, th_locked = None, th_last = now, th_updated = now\<rparr>"
  have d: "10 ^ 9 \<le> lock_duration p lv" using lock_duration_bounds[OF p] by blast
  have "max_level p \<le> 64" using max_level_bounds[of 1 p "BaseLock p"] by (simp add: max_level_def)
  then have lv: "0 \<le> lv \<and> lv \<le> 64" using l by (simp add: lv_def)
  have "now < ?u" using d by simp
  then have a: "throttle_check ?a" using key now lv by (simp add: throttle_check_def)
  have b: "MaxFailures p > f + 1 \<Longrightarrow> throttle_check ?b"
    using key now f l p by (simp add: throttle_check_def policy_validate_def res_simps)
  show ?thesis
  proof (cases "f + 1 \<ge> MaxFailures p")
    case True
    then show ?thesis using put_throttle_ok[OF ok a] by (auto simp: register_put_def Let_def lv_def[symmetric])
  next
    case False
    then show ?thesis using put_throttle_ok[OF ok b] by (auto simp: register_put_def Let_def)
  qed
qed

lemma key_length: "validateLoginThrottleKey key = Inr () \<Longrightarrow> length key = 64"
  by (simp add: validateLoginThrottleKey_def res_simps)

lemma time_valid: "validateOperationTime t = Inr now \<longleftrightarrow> now = t \<and> 946684800000 \<le> t \<and> t \<le> 253402300799999"
  by (auto simp: validateOperationTime_def)

text \<open>The instant up to which a row resists the purge.\<close>

definition live_until :: "throttle_row \<Rightarrow> int" where
  "live_until r = (case th_locked r of None \<Rightarrow> th_last r | Some u \<Rightarrow> u)"

definition purge_cutoff :: "int \<Rightarrow> LoginThrottlePolicy \<Rightarrow> int" where
  "purge_cutoff now p = (now * 10 ^ 6 - Decay p) div 10 ^ 6"

lemma purge_rows:
  "ts_rows (maybePurgeLoginThrottle now p T) = ts_rows T \<or>
   ts_rows (maybePurgeLoginThrottle now p T) = del_where (\<lambda>r. live_until r < purge_cutoff now p) (ts_rows T)"
  "ts_open (maybePurgeLoginThrottle now p T) = ts_open T"
  by (auto simp: maybePurgeLoginThrottle_def Let_def live_until_def purge_cutoff_def)

lemma purge_ok: "throttle_ok (ts_rows T) \<Longrightarrow> throttle_ok (ts_rows (maybePurgeLoginThrottle now p T))"
  using purge_rows(1)[of now p T] by (auto simp: throttle_ok_def distinct_del_where table_simps)

lemma purge_keeps:
  assumes "throttle_ok (ts_rows T)" and "throttle_row_of key T = Some r" and "purge_cutoff now p \<le> live_until r"
  shows "throttle_row_of key (maybePurgeLoginThrottle now p T) = Some r"
  using purge_rows(1)[of now p T] assms
  by (auto simp: throttle_row_of_def throttle_ok_def find_eq_Some_iff distinct_del_where table_simps)

lemma purge_none: "throttle_row_of key T = None \<Longrightarrow> throttle_row_of key (maybePurgeLoginThrottle now p T) = None"
  using purge_rows(1)[of now p T] by (auto simp: throttle_row_of_def find_None_iff table_simps)

lemma cutoff_le: "policy_validate p = Inr () \<Longrightarrow> purge_cutoff now p \<le> now"
  by (auto simp: purge_cutoff_def policy_validate_def res_simps second_def)

text \<open>One call on a valid key, from a good table.\<close>

definition locked_at :: "string \<Rightarrow> int \<Rightarrow> throttle_store \<Rightarrow> int option" where
  "locked_at key now T = (case throttle_row_of key T of None \<Rightarrow> None
     | Some r \<Rightarrow> (case th_locked r of None \<Rightarrow> None | Some u \<Rightarrow> if u > now then Some u else None))"

definition current :: "LoginThrottlePolicy \<Rightarrow> int \<Rightarrow> (throttle_row \<Rightarrow> int) \<Rightarrow> string \<Rightarrow> throttle_store \<Rightarrow> int" where
  "current p now field key T = (case throttle_row_of key T of None \<Rightarrow> 0
     | Some r \<Rightarrow> if sub_ms now (th_last r) > Decay p then 0 else field r)"

lemma register_locked:
  "locked_at key now T = Some u \<Longrightarrow> register_tx key now p (ts_rows T) = Inr (ts_rows T, Some (u * 10 ^ 6))"
  by (auto simp: locked_at_def throttle_row_of_def register_tx_def Let_def split: option.splits if_splits)

lemma register_unlocked:
  "locked_at key now T = None \<Longrightarrow> register_tx key now p (ts_rows T) =
     register_put key now p (current p now th_failures key T) (current p now th_level key T) (ts_rows T)"
  by (auto simp: locked_at_def current_def throttle_row_of_def register_tx_def Let_def not_less split: option.splits if_splits)

lemma current_bounds:
  assumes "throttle_ok (ts_rows T)"
  shows "0 \<le> current p now th_failures key T" "0 \<le> current p now th_level key T" "current p now th_level key T \<le> 64"
  using assms by (auto simp: current_def throttle_row_of_def throttle_ok_def throttle_check_def split: option.splits dest!: find_SomeD)

definition valid_call :: "string \<Rightarrow> int \<Rightarrow> LoginThrottlePolicy \<Rightarrow> throttle_store \<Rightarrow> bool" where
  "valid_call key now p T \<longleftrightarrow> throttle_ok (ts_rows T) \<and> ts_open T \<and> validateLoginThrottleKey key = Inr () \<and>
     policy_validate p = Inr () \<and> validateOperationTime now = Inr now"

lemma register_runs:
  assumes "valid_call key now p T" and "register_tx key now p (ts_rows T) = Inr (rows, until)"
  shows "RegisterLoginFailure key now p T = (Inr until, maybePurgeLoginThrottle now p (T\<lparr>ts_rows := rows\<rparr>))"
  using assms by (simp add: RegisterLoginFailure_def valid_call_def)

lemma register_counts:
  assumes v: "valid_call key now p T" and free: "locked_at key now T = None"
  defines "f \<equiv> current p now th_failures key T" and "l \<equiv> current p now th_level key T"
  shows "\<exists>rows r. RegisterLoginFailure key now p T = (Inr (if f + 1 \<ge> MaxFailures p
        then Some (now * 10 ^ 6 + lock_duration p (th_level r)) else None), maybePurgeLoginThrottle now p (T\<lparr>ts_rows := rows\<rparr>)) \<and>
    throttle_ok rows \<and> List.find (\<lambda>q. th_key q = key) rows = Some r \<and>
    (\<forall>k. k \<noteq> key \<longrightarrow> List.find (\<lambda>q. th_key q = k) rows = throttle_row_of k T) \<and> th_last r = now \<and>
    (if f + 1 \<ge> MaxFailures p
     then th_failures r = 0 \<and> th_level r = (if l < max_level p then l + 1 else l) \<and>
       th_locked r = Some ((now * 10 ^ 6 + lock_duration p (th_level r)) div 10 ^ 6)
     else th_failures r = f + 1 \<and> th_level r = l \<and> th_locked r = None)"
proof -
  have a: "throttle_ok (ts_rows T)" "policy_validate p = Inr ()" "length key = 64" "0 < now"
    using v by (auto simp: valid_call_def time_valid key_length)
  have b: "0 \<le> f" "0 \<le> l" "l \<le> 64" unfolding f_def l_def using current_bounds[OF a(1)] by auto
  have tx: "register_tx key now p (ts_rows T) = register_put key now p f l (ts_rows T)"
    unfolding f_def l_def by (rule register_unlocked[OF free])
  show ?thesis
    using register_put_ok[OF a b] register_runs[OF v] unfolding tx throttle_row_of_def by metis
qed

text \<open>Sequences of failures of any accounts under one policy.\<close>

definition register_all :: "LoginThrottlePolicy \<Rightarrow> (string \<times> int) list \<Rightarrow> throttle_store \<Rightarrow> throttle_store" where
  "register_all p events T = fold (\<lambda>(k, t) T. snd (RegisterLoginFailure k t p T)) events T"

definition events_ok :: "(string \<times> int) list \<Rightarrow> bool" where
  "events_ok events \<longleftrightarrow> (\<forall>(k, t)\<in>set events. validateLoginThrottleKey k = Inr () \<and> validateOperationTime t = Inr t)"

definition good_store :: "LoginThrottlePolicy \<Rightarrow> throttle_store \<Rightarrow> bool" where
  "good_store p T \<longleftrightarrow> throttle_ok (ts_rows T) \<and> ts_open T \<and> policy_validate p = Inr ()"

lemma register_good:
  assumes "valid_call key now p T"
  shows "good_store p (snd (RegisterLoginFailure key now p T))"
proof (cases "locked_at key now T")
  case None
  from register_counts[OF assms None] show ?thesis
    using assms by (auto simp: good_store_def valid_call_def purge_rows(2) intro!: purge_ok)
next
  case (Some u)
  show ?thesis
    using assms register_runs[OF assms register_locked[OF Some]]
    by (auto simp: good_store_def valid_call_def purge_rows(2) intro!: purge_ok)
qed

lemma register_other:
  assumes v: "valid_call k now p T" and "k \<noteq> key"
  shows "throttle_row_of key T = Some r \<Longrightarrow> purge_cutoff now p \<le> live_until r \<Longrightarrow>
      throttle_row_of key (snd (RegisterLoginFailure k now p T)) = Some r"
    and "throttle_row_of key T = None \<Longrightarrow> throttle_row_of key (snd (RegisterLoginFailure k now p T)) = None"
proof -
  obtain rows until where run: "RegisterLoginFailure k now p T = (Inr until, maybePurgeLoginThrottle now p (T\<lparr>ts_rows := rows\<rparr>))"
    and ok: "throttle_ok rows" and same: "throttle_row_of key (T\<lparr>ts_rows := rows\<rparr>) = throttle_row_of key T"
  proof (cases "locked_at k now T")
    case None
    from register_counts[OF v None] show thesis using that assms(2) by (auto simp: throttle_row_of_def)
  next
    case (Some u)
    show thesis using that[OF register_runs[OF v register_locked[OF Some]]] v by (auto simp: valid_call_def throttle_row_of_def)
  qed
  show "throttle_row_of key T = Some r \<Longrightarrow> purge_cutoff now p \<le> live_until r \<Longrightarrow>
      throttle_row_of key (snd (RegisterLoginFailure k now p T)) = Some r"
    using run ok same by (auto intro: purge_keeps)
  show "throttle_row_of key T = None \<Longrightarrow> throttle_row_of key (snd (RegisterLoginFailure k now p T)) = None"
    using run same by (auto intro: purge_none)
qed

lemma register_while_locked:
  assumes v: "valid_call k now p T" and r: "throttle_row_of key T = Some r" "th_locked r = Some u" and "now < u"
  shows "throttle_row_of key (snd (RegisterLoginFailure k now p T)) = Some r"
proof (cases "k = key")
  case True
  then have l: "locked_at k now T = Some u" using r assms(4) by (simp add: locked_at_def)
  have "purge_cutoff now p \<le> live_until r"
    using v r(2) assms(4) cutoff_le[of p now] by (simp add: live_until_def valid_call_def)
  then show ?thesis using register_runs[OF v register_locked[OF l]] r(1) v by (auto simp: valid_call_def intro: purge_keeps)
next
  case False
  have "purge_cutoff now p \<le> live_until r"
    using v r(2) assms(4) cutoff_le[of p now] by (simp add: live_until_def valid_call_def)
  then show ?thesis using register_other(1)[OF v False r(1)] by blast
qed

lemma register_all_good: "good_store p T \<Longrightarrow> events_ok events \<Longrightarrow> good_store p (register_all p events T)"
proof (induction events arbitrary: T)
  case (Cons e events)
  obtain k t where e: "e = (k, t)" by (cases e)
  have "valid_call k t p T" using Cons.prems e by (auto simp: valid_call_def good_store_def events_ok_def)
  then show ?case using Cons e register_good by (auto simp: register_all_def events_ok_def)
qed (simp add: register_all_def)

text \<open>An account with \<open>n\<close> counted failures in the window from \<open>t0\<close> to \<open>t1\<close>.\<close>

definition counted :: "string \<Rightarrow> int \<Rightarrow> int \<Rightarrow> int \<Rightarrow> throttle_store \<Rightarrow> bool" where
  "counted key t0 t1 n T \<longleftrightarrow>
     (case throttle_row_of key T of
        None \<Rightarrow> n = 0
      | Some r \<Rightarrow> th_failures r = n \<and> th_level r = 0 \<and> th_locked r = None \<and> t0 \<le> th_last r \<and> th_last r \<le> t1)"

lemma window_sub: "t0 \<le> l \<Longrightarrow> now \<le> t1 \<Longrightarrow> (t1 - t0) * 10 ^ 6 \<le> Decay p \<Longrightarrow> policy_validate p = Inr () \<Longrightarrow> \<not> sub_ms now l > Decay p"
  by (auto simp: sub_ms_def policy_validate_def res_simps second_def)

lemma window_cutoff: "t0 \<le> l \<Longrightarrow> now \<le> t1 \<Longrightarrow> (t1 - t0) * 10 ^ 6 \<le> Decay p \<Longrightarrow> purge_cutoff now p \<le> l"
  by (simp add: purge_cutoff_def)

lemma counted_current:
  assumes "counted key t0 t1 n T" and "now \<le> t1" and "(t1 - t0) * 10 ^ 6 \<le> Decay p" and "policy_validate p = Inr ()"
  shows "current p now th_failures key T = n" and "current p now th_level key T = 0" and "locked_at key now T = None"
  using assms window_sub[of t0 _ now t1 p] by (auto simp: counted_def current_def locked_at_def split: option.splits)

lemma counted_step:
  assumes v: "valid_call k now p T" and c: "counted key t0 t1 n T" and w: "t0 \<le> now" "now \<le> t1" "(t1 - t0) * 10 ^ 6 \<le> Decay p"
    and n: "k = key \<Longrightarrow> n + 1 < MaxFailures p"
  shows "counted key t0 t1 (if k = key then n + 1 else n) (snd (RegisterLoginFailure k now p T))"
proof (cases "k = key")
  case True
  have p: "policy_validate p = Inr ()" using v by (simp add: valid_call_def)
  note cc = counted_current[OF c w(2,3) p]
  have free: "locked_at k now T = None" using cc(3) True by simp
  obtain rows r where run: "snd (RegisterLoginFailure k now p T) = maybePurgeLoginThrottle now p (T\<lparr>ts_rows := rows\<rparr>)"
    and r: "throttle_ok rows" "List.find (\<lambda>q. th_key q = key) rows = Some r" "th_last r = now" "th_failures r = n + 1"
      "th_level r = 0" "th_locked r = None"
    using register_counts[OF v free] cc True n by (auto split: if_splits)
  have "throttle_row_of key (maybePurgeLoginThrottle now p (T\<lparr>ts_rows := rows\<rparr>)) = Some r"
    by (rule purge_keeps) (use r w window_cutoff[of t0 now now t1 p] in \<open>auto simp: throttle_row_of_def live_until_def\<close>)
  then show ?thesis using True run r w by (simp add: counted_def)
next
  case False
  show ?thesis
  proof (cases "throttle_row_of key T")
    case None
    then show ?thesis using c register_other(2)[OF v False None] False by (simp add: counted_def)
  next
    case (Some r)
    then have "purge_cutoff now p \<le> live_until r"
      using c w window_cutoff[of t0 "th_last r" now t1 p] by (simp add: counted_def live_until_def)
    then show ?thesis using c register_other(1)[OF v False Some] False Some by (simp add: counted_def)
  qed
qed

lemma counted_all:
  assumes "good_store p T" and "counted key t0 t1 n T" and "events_ok events" and "(t1 - t0) * 10 ^ 6 \<le> Decay p"
    and "\<forall>(k, t)\<in>set events. t0 \<le> t \<and> t \<le> t1"
    and "n + int (length (filter (\<lambda>e. fst e = key) events)) < MaxFailures p"
  shows "counted key t0 t1 (n + int (length (filter (\<lambda>e. fst e = key) events))) (register_all p events T)"
  using assms
proof (induction events arbitrary: T n)
  case (Cons e events)
  obtain k t where e: "e = (k, t)" by (cases e)
  have v: "valid_call k t p T" using Cons.prems(1,3) e by (auto simp: valid_call_def good_store_def events_ok_def)
  let ?n = "if k = key then n + 1 else n"
  have "counted key t0 t1 ?n (snd (RegisterLoginFailure k t p T))"
    by (rule counted_step[OF v Cons.prems(2)]) (use Cons.prems(4,5,6) e in auto)
  then have "counted key t0 t1 (?n + int (length (filter (\<lambda>e. fst e = key) events)))
      (register_all p events (snd (RegisterLoginFailure k t p T)))"
    by (intro Cons.IH[OF register_good[OF v]]) (use Cons.prems e in \<open>auto simp: events_ok_def split: if_splits\<close>)
  then show ?case using e by (simp add: register_all_def algebra_simps split: if_splits)
qed (simp add: register_all_def)

lemma max_level_pos: "1 \<le> max_level p"
  using max_level_bounds[of 1 p "BaseLock p"] by (simp add: max_level_def)

section \<open>Properties\<close>

text \<open>C31: recording a failed login under a valid policy never fails for a good table, whatever the stored state,
  and leaves a good table in which the account has a row with a level within the CHECK range; a new lock
  lasts \<open>BaseLock\<close> doubled per level, capped at \<open>MaxLock\<close>.\<close>

theorem throttle_never_fails_open:
  assumes "throttle_ok (ts_rows T)" and "ts_open T" and "validateLoginThrottleKey key = Inr ()"
    and "policy_validate p = Inr ()" and "validateOperationTime now = Inr now"
  shows "\<exists>until r T'. RegisterLoginFailure key now p T = (Inr until, T') \<and> throttle_ok (ts_rows T') \<and>
    throttle_row_of key T' = Some r \<and> 0 \<le> th_level r \<and> th_level r \<le> 64 \<and>
    (\<forall>u. LoginThrottleLockedUntil key now T = Inr None \<and> until = Some u \<longrightarrow>
       u = now * 10 ^ 6 + min (MaxLock p) (BaseLock p * 2 ^ nat (th_level r - 1)) \<and>
       th_locked r = Some (u div 10 ^ 6) \<and> now < u div 10 ^ 6)"
proof -
  have v: "valid_call key now p T" using assms by (simp add: valid_call_def)
  have g: "throttle_ok (ts_rows (snd (RegisterLoginFailure key now p T)))" using register_good[OF v] by (simp add: good_store_def)
  have lvl: "0 \<le> th_level r \<and> th_level r \<le> 64" if "throttle_row_of key (snd (RegisterLoginFailure key now p T)) = Some r" for r
    using g that by (auto simp: throttle_ok_def throttle_row_of_def throttle_check_def dest!: find_SomeD)
  have L: "LoginThrottleLockedUntil key now T = Inr (locked_at key now T)"
    using assms by (simp add: LoginThrottleLockedUntil_def locked_at_def)
  show ?thesis
  proof (cases "locked_at key now T")
    case None
    obtain rows r until where run: "RegisterLoginFailure key now p T = (Inr until, maybePurgeLoginThrottle now p (T\<lparr>ts_rows := rows\<rparr>))"
      and rows: "throttle_ok rows" "List.find (\<lambda>q. th_key q = key) rows = Some r" "th_last r = now"
      and u: "\<And>u. until = Some u \<Longrightarrow> u = now * 10 ^ 6 + lock_duration p (th_level r) \<and> th_locked r = Some (u div 10 ^ 6)"
        "until = None \<Longrightarrow> th_locked r = None"
      using register_counts[OF v None] by (auto split: if_splits)
    have base: "0 < BaseLock p" using assms(4) by (auto simp: policy_validate_def res_simps second_def)
    have lock: "u = now * 10 ^ 6 + min (MaxLock p) (BaseLock p * 2 ^ nat (th_level r - 1)) \<and>
       th_locked r = Some (u div 10 ^ 6) \<and> now < u div 10 ^ 6" if "until = Some u" for u
      using u(1)[OF that] lock_duration_closed[OF base, of "th_level r"] lock_duration_bounds[OF assms(4), of "th_level r"] by auto
    have "purge_cutoff now p \<le> live_until r"
      using cutoff_le[OF assms(4), of now] lock rows(3) u(2) by (cases until) (auto simp: live_until_def)
    then have k: "throttle_row_of key (snd (RegisterLoginFailure key now p T)) = Some r"
      using run rows(1,2) by (auto simp: throttle_row_of_def intro: purge_keeps[unfolded throttle_row_of_def])
    show ?thesis using run g k lvl[OF k] lock by (intro exI[of _ until] exI[of _ r]) auto
  next
    case (Some u)
    obtain r where r: "throttle_row_of key T = Some r" "th_locked r = Some u" "now < u"
      using Some by (auto simp: locked_at_def split: option.splits if_splits)
    note k = register_while_locked[OF v r]
    show ?thesis using register_runs[OF v register_locked[OF Some]] g k lvl[OF k] L Some by auto
  qed
qed

definition sample_key :: string where "sample_key = replicate 64 CHR ''a''"

definition sample_throttle :: throttle_store where
  "sample_throttle = \<lparr>ts_rows = [], ts_open = True, ts_writes = 0\<rparr>"

theorem throttle_never_fails_open_witness:
  "\<exists>until r T'. RegisterLoginFailure sample_key 1700000000000 loginThrottlePolicy sample_throttle = (Inr until, T') \<and>
     throttle_row_of sample_key T' = Some r \<and> th_level r \<le> 64"
proof -
  have "throttle_ok (ts_rows sample_throttle)" "ts_open sample_throttle" by (simp_all add: throttle_ok_def sample_throttle_def)
  moreover have "validateLoginThrottleKey sample_key = Inr ()" "policy_validate loginThrottlePolicy = Inr ()"
    "validateOperationTime 1700000000000 = Inr 1700000000000" by code_simp+
  ultimately show ?thesis using throttle_never_fails_open[of sample_throttle sample_key loginThrottlePolicy] by blast
qed

text \<open>C28: a lock cannot be extended or shortened by traffic: failures of any accounts before it expires leave it
  as it is, so the account stays locked until exactly the announced instant.\<close>

theorem lock_not_extended:
  assumes "throttle_ok (ts_rows T)" and "policy_validate p = Inr ()" and "LoginThrottleLockedUntil key now T = Inr (Some u)"
    and "events_ok events" and "\<forall>(k, t)\<in>set events. t < u"
  shows "throttle_row_of key (register_all p events T) = throttle_row_of key T \<and>
    (validateOperationTime t = Inr t \<longrightarrow>
       LoginThrottleLockedUntil key t (register_all p events T) = Inr (if t < u then Some u else None))"
proof -
  obtain r where r: "throttle_row_of key T = Some r" "th_locked r = Some u" and k: "validateLoginThrottleKey key = Inr ()"
    and o: "ts_open T"
    using assms(3) by (auto simp: LoginThrottleLockedUntil_def res_simps split: option.splits if_splits)
  have g: "good_store p T" using assms(1,2) o by (simp add: good_store_def)
  have row: "throttle_row_of key (register_all p events T) = Some r"
    using assms(4,5) g r(1)
  proof (induction events arbitrary: T)
    case (Cons e events)
    obtain k t where e: "e = (k, t)" by (cases e)
    have v: "valid_call k t p T" using Cons.prems e by (auto simp: valid_call_def good_store_def events_ok_def)
    have "throttle_row_of key (snd (RegisterLoginFailure k t p T)) = Some r"
      by (rule register_while_locked[OF v Cons.prems(4) r(2)]) (use Cons.prems(2) e in auto)
    then show ?case using Cons.IH[OF _ _ register_good[OF v]] Cons.prems e by (auto simp: register_all_def events_ok_def)
  qed (simp add: register_all_def)
  have "ts_open (register_all p events T)" using register_all_good[OF g assms(4)] by (simp add: good_store_def)
  then show ?thesis using row r k by (simp add: LoginThrottleLockedUntil_def)
qed

text \<open>C32: an account without a record is locked by its \<open>MaxFailures\<close>-th failure within \<open>Decay\<close>, for \<open>BaseLock\<close>, and
  not before, whatever failures of other accounts come between.\<close>

theorem lockout_after_max_failures:
  assumes "throttle_ok (ts_rows T)" and "ts_open T" and "policy_validate p = Inr ()" and "throttle_row_of key T = None"
    and "events_ok (events @ [(key, now)])" and "\<forall>(k, t)\<in>set (events @ [(key, now)]). t0 \<le> t \<and> t \<le> t1"
    and "(t1 - t0) * 10 ^ 6 \<le> Decay p"
    and "int (length (filter (\<lambda>e. fst e = key) events)) = MaxFailures p - 1"
  shows "LoginThrottleLockedUntil key now (register_all p events T) = Inr None \<and>
    LoginThrottleLockedUntil key now (register_all p (events @ [(key, now)]) T) = Inr (Some (now + BaseLock p div 10 ^ 6))"
proof -
  let ?T = "register_all p events T"
  have g: "good_store p T" using assms(1-3) by (simp add: good_store_def)
  have e: "events_ok events" using assms(5) by (simp add: events_ok_def)
  have k: "validateLoginThrottleKey key = Inr ()" "validateOperationTime now = Inr now" using assms(5) by (auto simp: events_ok_def)
  have c: "counted key t0 t1 (0 + int (length (filter (\<lambda>e. fst e = key) events))) ?T"
    by (rule counted_all[OF g _ e assms(7)]) (use assms(4,6,8) in \<open>auto simp: counted_def\<close>)
  have g': "good_store p ?T" by (rule register_all_good[OF g e])
  have v: "valid_call key now p ?T" using g' k by (simp add: valid_call_def good_store_def)
  note cc = counted_current[OF c _ assms(7,3), of now]
  have t1: "now \<le> t1" using assms(6) by auto
  have "LoginThrottleLockedUntil key now ?T = Inr None"
    using cc(3)[OF t1] g' k by (simp add: LoginThrottleLockedUntil_def locked_at_def good_store_def)
  moreover obtain rows r where run: "snd (RegisterLoginFailure key now p ?T) = maybePurgeLoginThrottle now p (?T\<lparr>ts_rows := rows\<rparr>)"
    and r: "throttle_ok rows" "List.find (\<lambda>q. th_key q = key) rows = Some r" "th_level r = 1"
      "th_locked r = Some ((now * 10 ^ 6 + lock_duration p (th_level r)) div 10 ^ 6)"
    using register_counts[OF v cc(3)[OF t1]] cc(1,2)[OF t1] assms(8) max_level_pos[of p] by (auto split: if_splits)
  have b: "0 < BaseLock p" "BaseLock p \<le> MaxLock p" "10 ^ 6 \<le> BaseLock p"
    using assms(3) by (auto simp: policy_validate_def res_simps second_def)
  have locked: "th_locked r = Some (now + BaseLock p div 10 ^ 6)" using r(3,4) b lock_duration_closed[OF b(1), of 1] by simp
  have pos: "0 < BaseLock p div 10 ^ 6" using b(3) by (simp add: pos_imp_zdiv_pos_iff)
  have "throttle_row_of key (maybePurgeLoginThrottle now p (?T\<lparr>ts_rows := rows\<rparr>)) = Some r"
    by (rule purge_keeps) (use r(1,2) locked pos cutoff_le[OF assms(3), of now] in \<open>auto simp: throttle_row_of_def live_until_def\<close>)
  moreover have "register_all p (events @ [(key, now)]) T = snd (RegisterLoginFailure key now p ?T)" by (simp add: register_all_def)
  ultimately show ?thesis using run k locked pos g' by (simp add: LoginThrottleLockedUntil_def purge_rows(2) good_store_def)
qed

definition sample_attack :: "(string \<times> int) list" where
  "sample_attack = [(sample_key, 1700000000000), (replicate 64 CHR ''b'', 1700000000100), (sample_key, 1700000000200),
     (sample_key, 1700000000300), (sample_key, 1700000000400)]"

theorem lockout_after_max_failures_witness:
  "LoginThrottleLockedUntil sample_key 1700000000500
     (register_all loginThrottlePolicy (sample_attack @ [(sample_key, 1700000000500)]) sample_throttle) =
     Inr (Some (1700000000500 + BaseLock loginThrottlePolicy div 10 ^ 6))"
proof -
  have "throttle_ok (ts_rows sample_throttle)" "ts_open sample_throttle" "throttle_row_of sample_key sample_throttle = None"
    by (simp_all add: throttle_ok_def sample_throttle_def throttle_row_of_def)
  moreover have "policy_validate loginThrottlePolicy = Inr ()" by code_simp
  moreover have "events_ok (sample_attack @ [(sample_key, 1700000000500)])" by code_simp
  moreover have "\<forall>(k, t)\<in>set (sample_attack @ [(sample_key, 1700000000500)]). 1700000000000 \<le> t \<and> t \<le> 1700000000500" by code_simp
  moreover have "(1700000000500 - 1700000000000) * 10 ^ 6 \<le> Decay loginThrottlePolicy" by code_simp
  moreover have "int (length (filter (\<lambda>e. fst e = sample_key) sample_attack)) = MaxFailures loginThrottlePolicy - 1" by code_simp
  ultimately show ?thesis using lockout_after_max_failures by blast
qed

theorem lock_not_extended_witness:
  "LoginThrottleLockedUntil sample_key 1700000000900
     (register_all loginThrottlePolicy [(sample_key, 1700000000600)]
        (register_all loginThrottlePolicy (sample_attack @ [(sample_key, 1700000000500)]) sample_throttle)) =
     Inr (Some 1700000900500)"
proof -
  let ?T = "register_all loginThrottlePolicy (sample_attack @ [(sample_key, 1700000000500)]) sample_throttle"
  have "throttle_ok (ts_rows ?T)" by code_simp
  moreover have "policy_validate loginThrottlePolicy = Inr ()" by code_simp
  moreover have "LoginThrottleLockedUntil sample_key 1700000000550 ?T = Inr (Some 1700000900500)" by code_simp
  moreover have "events_ok [(sample_key, 1700000000600)]" by code_simp
  moreover have "validateOperationTime 1700000000900 = Inr 1700000000900" by code_simp
  ultimately show ?thesis
    using lock_not_extended[of ?T loginThrottlePolicy sample_key 1700000000550 1700000900500 "[(sample_key, 1700000000600)]" 1700000000900]
    by simp
qed

end
