(* ===== verification/RateLimit.thy ===== *)
theory RateLimit
  imports Prelude
begin

text \<open>
  The request limiter of \<open>middleware/ratelimit.go\<close>: sliding windows per client and bucket, a bounded number of
  them, shared overflow windows per bucket beyond that, and the collection of idle windows. Time is in
  nanoseconds; the Go maps are association lists with distinct keys. The mutex makes each call one step.
\<close>

section \<open>State\<close>

record requestWindow =
  Timestamps :: "int list"
  LastSeen :: int

type_synonym windows = "(string \<times> requestWindow) list"

record RateLimiter =
  rl_windows :: windows
  rl_overflow :: windows
  rl_max :: nat
  rl_seen :: int64

definition rateLimitWindow :: int where "rateLimitWindow = 60 * 10 ^ 9"
definition rateLimitRetentionDuration :: int where "rateLimitRetentionDuration = rateLimitWindow * 2"
definition maxRateLimiterEntries :: nat where "maxRateLimiterEntries = 4096"

definition NewRateLimiterWithMaxEntries :: "int \<Rightarrow> RateLimiter" where
  "NewRateLimiterWithMaxEntries n =
     \<lparr>rl_windows = [], rl_overflow = [], rl_max = (if n < 1 then maxRateLimiterEntries else nat n), rl_seen = 0\<rparr>"

definition NewRateLimiter :: RateLimiter where
  "NewRateLimiter = NewRateLimiterWithMaxEntries (int maxRateLimiterEntries)"

definition put_window :: "string \<Rightarrow> requestWindow \<Rightarrow> windows \<Rightarrow> windows" where
  "put_window k w ws = (if k \<in> fst ` set ws then upd_where (\<lambda>e. fst e = k) (\<lambda>_. (k, w)) ws else ws @ [(k, w)])"

section \<open>Operations\<close>

definition gc_windows :: "int \<Rightarrow> windows \<Rightarrow> windows" where
  "gc_windows now ws = del_where (\<lambda>(_, w). LastSeen w < now - rateLimitRetentionDuration) ws"

definition gc :: "int \<Rightarrow> RateLimiter \<Rightarrow> RateLimiter" where
  "gc now r = r\<lparr>rl_windows := gc_windows now (rl_windows r), rl_overflow := gc_windows now (rl_overflow r)\<rparr>"

text \<open>The part of the key after its last bar, unless there is none.\<close>

definition rateLimitOverflowBucket :: "string \<Rightarrow> string" where
  "rateLimitOverflowBucket key =
     (let suffix = rev (takeWhile (\<lambda>c. c \<noteq> CHR ''|'') (rev key)) in
      if CHR ''|'' \<in> set key \<and> suffix \<noteq> [] then suffix else ''global'')"

text \<open>The answer is whether the request is allowed, the remaining number, and the reset second.\<close>

definition allowWindow :: "requestWindow \<Rightarrow> int \<Rightarrow> int \<Rightarrow> (bool \<times> int \<times> int) \<times> requestWindow" where
  "allowWindow win limit now =
     (let kept = filter (\<lambda>ts. ts > now - rateLimitWindow) (Timestamps win) in
      if int (length kept) \<ge> limit
      then ((False, 0, (hd kept + rateLimitWindow) div 10 ^ 9), \<lparr>Timestamps = kept, LastSeen = now\<rparr>)
      else let stamps = kept @ [now] in
        ((True, limit - int (length stamps), (hd stamps + rateLimitWindow) div 10 ^ 9), \<lparr>Timestamps = stamps, LastSeen = now\<rparr>))"

definition empty_window :: requestWindow where
  "empty_window = \<lparr>Timestamps = [], LastSeen = 0\<rparr>"

text \<open>The window a request is charged to: its own, or that of its bucket when there is no room.\<close>

definition charge :: "string \<Rightarrow> RateLimiter \<Rightarrow> string + string" where
  "charge key r = (if key \<in> fst ` set (rl_windows r) \<or> length (rl_windows r) < rl_max r then Inl key
     else Inr (rateLimitOverflowBucket key))"

definition window_at :: "string + string \<Rightarrow> RateLimiter \<Rightarrow> requestWindow" where
  "window_at wid r = (case (case wid of Inl k \<Rightarrow> map_of (rl_windows r) k | Inr b \<Rightarrow> map_of (rl_overflow r) b) of
     None \<Rightarrow> empty_window | Some w \<Rightarrow> w)"

definition set_window :: "string + string \<Rightarrow> requestWindow \<Rightarrow> RateLimiter \<Rightarrow> RateLimiter" where
  "set_window wid w r = (case wid of
     Inl k \<Rightarrow> r\<lparr>rl_windows := put_window k w (rl_windows r)\<rparr>
   | Inr b \<Rightarrow> r\<lparr>rl_overflow := put_window b w (rl_overflow r)\<rparr>)"

text \<open>Counting the request and collecting idle windows: every 128 requests, and when there is no room for a new
  client.\<close>

definition make_room :: "string \<Rightarrow> int \<Rightarrow> RateLimiter \<Rightarrow> RateLimiter" where
  "make_room key now r =
     (let r1 = r\<lparr>rl_seen := rl_seen r + 1\<rparr>;
          r2 = (if rl_seen r1 mod 128 = 0 then gc now r1 else r1) in
      if key \<notin> fst ` set (rl_windows r2) \<and> length (rl_windows r2) \<ge> rl_max r2 then gc now r2 else r2)"

definition Allow :: "string \<Rightarrow> int \<Rightarrow> int \<Rightarrow> RateLimiter \<Rightarrow> (bool \<times> int \<times> int) \<times> RateLimiter" where
  "Allow key limit now r =
     (if limit \<le> 0 then ((False, 0, (now + rateLimitWindow) div 10 ^ 9), r)
      else
        let r' = make_room key now r;
            wid = charge key r';
            (answer, win) = allowWindow (window_at wid r') limit now in
        (answer, set_window wid win r'))"

definition isPublicServerAuthRequest :: "string \<Rightarrow> string \<Rightarrow> bool" where
  "isPublicServerAuthRequest meth path \<longleftrightarrow>
     path = ''/api/auth/status'' \<and> meth = ''GET'' \<or>
     path \<in> set [''/api/auth/login'', ''/api/auth/passkeys/login/begin'', ''/api/auth/passkeys/login/finish'',
       ''/api/auth/passkeys/discover/begin'', ''/api/auth/passkeys/discover/finish'', ''/api/auth/setup'',
       ''/api/auth/invitations/accept'', ''/api/auth/password-reset/complete''] \<and> meth = ''POST''"

definition resolveRateLimitBucket :: "string \<Rightarrow> string \<Rightarrow> string \<times> int" where
  "resolveRateLimitBucket meth path =
     (let post = (meth = ''POST'') in
      if post \<and> path = ''/api/auth/login'' then (''login'', 10)
      else if post \<and> path = ''/api/auth/reauth'' then (''reauth'', 10)
      else if post \<and> (path = ''/api/auth/passkeys/reauth/begin'' \<or> path = ''/api/auth/passkeys/reauth/finish'') then (''reauth'', 10)
      else if post \<and> path = ''/api/auth/passkeys/register/finish'' then (''account-auth'', 10)
      else if post \<and> isPublicServerAuthRequest meth path then (''account-auth'', 10)
      else if post \<and> path = ''/api/v1/ai/transactions'' then (''ai-transactions'', 30)
      else if path = ''/api/snapshots'' \<or> path = ''/api/snapshots/restore'' then (''snapshots'', 10)
      else (''global'', 120))"

text \<open>The middleware: \<open>None\<close> when the path is not limited.\<close>

definition RateLimitMiddleware ::
  "string \<Rightarrow> string \<Rightarrow> string \<Rightarrow> int \<Rightarrow> RateLimiter \<Rightarrow> (bool \<times> int \<times> int) option \<times> RateLimiter" where
  "RateLimitMiddleware meth path ip now r =
     (if \<not> prefix ''/api/'' path \<and> \<not> prefix ''/api/v1/ai/'' path then (None, r)
      else let (bucket, limit) = resolveRateLimitBucket meth path;
               (answer, r') = Allow (ip @ ''|'' @ bucket) limit now r in
        (Some answer, r'))"

section \<open>Windows and the log of allowed requests\<close>

text \<open>A log entry is the window charged and the time. The invariant at time \<open>now\<close>: keys are distinct, the log of a
  window lies in the past and, in the last minute, is what the window holds.\<close>

definition stamps_of :: "string + string \<Rightarrow> ((string + string) \<times> int) list \<Rightarrow> int list" where
  "stamps_of wid log = map snd (filter (\<lambda>e. fst e = wid) log)"

definition recent :: "int \<Rightarrow> int list \<Rightarrow> int list" where
  "recent now ts = filter (\<lambda>t. t > now - rateLimitWindow) ts"

definition windows_ok :: "int \<Rightarrow> windows \<Rightarrow> bool" where
  "windows_ok now ws \<longleftrightarrow> distinct (map fst ws) \<and>
     (\<forall>(k, w)\<in>set ws. LastSeen w \<le> now \<and> (\<forall>t\<in>set (Timestamps w). t \<le> LastSeen w))"

definition log_ok :: "int \<Rightarrow> RateLimiter \<Rightarrow> ((string + string) \<times> int) list \<Rightarrow> bool" where
  "log_ok now r log \<longleftrightarrow> windows_ok now (rl_windows r) \<and> windows_ok now (rl_overflow r) \<and> (\<forall>(_, t)\<in>set log. t \<le> now) \<and>
     (\<forall>wid. recent now (stamps_of wid log) = recent now (Timestamps (window_at wid r)))"

lemma recent_mono: "now \<le> now' \<Longrightarrow> recent now' (recent now ts) = recent now' ts"
  by (auto simp: recent_def intro!: filter_cong)

lemma recent_later:
  assumes "recent now xs = recent now ys" and "now \<le> now'"
  shows "recent now' xs = recent now' ys"
  using assms recent_mono[of now now' xs] recent_mono[of now now' ys] by simp

lemma windows_ok_later: "windows_ok now ws \<Longrightarrow> now \<le> now' \<Longrightarrow> windows_ok now' ws"
  by (auto simp: windows_ok_def intro: order_trans)

lemma log_ok_later: "log_ok now r log \<Longrightarrow> now \<le> now' \<Longrightarrow> log_ok now' r log"
  unfolding log_ok_def by (auto intro: windows_ok_later recent_later)

lemma map_of_del_keep:
  "distinct (map fst ws) \<Longrightarrow> map_of (del_where p ws) k = (case map_of ws k of None \<Rightarrow> None | Some w \<Rightarrow> if p (k, w) then None else Some w)"
  by (induction ws) (auto simp: del_where_def map_of_eq_None_iff split: option.splits dest: map_of_SomeD)

text \<open>A collected window holds nothing of the last minute.\<close>

lemma gc_recent:
  assumes "windows_ok now ws"
  shows "recent now (case map_of (gc_windows now ws) k of None \<Rightarrow> [] | Some w \<Rightarrow> Timestamps w) =
    recent now (case map_of ws k of None \<Rightarrow> [] | Some w \<Rightarrow> Timestamps w)"
proof (cases "map_of ws k")
  case (Some w)
  have "(k, w) \<in> set ws" using Some by (rule map_of_SomeD)
  then have old: "\<forall>t\<in>set (Timestamps w). t \<le> LastSeen w" using assms by (auto simp: windows_ok_def)
  have "recent now (Timestamps w) = []" if "LastSeen w < now - rateLimitRetentionDuration"
    using old that by (force simp: recent_def filter_empty_conv rateLimitRetentionDuration_def rateLimitWindow_def)
  then show ?thesis using Some assms by (auto simp: gc_windows_def map_of_del_keep windows_ok_def recent_def)
qed (use assms in \<open>simp add: gc_windows_def map_of_del_keep windows_ok_def\<close>)

lemma gc_windows_ok: "windows_ok now ws \<Longrightarrow> windows_ok now (gc_windows now ws)"
  by (auto simp: windows_ok_def gc_windows_def table_simps distinct_del_where)

lemma window_at_stamps:
  "Timestamps (window_at wid r) = (case (case wid of Inl k \<Rightarrow> map_of (rl_windows r) k | Inr b \<Rightarrow> map_of (rl_overflow r) b) of
     None \<Rightarrow> [] | Some w \<Rightarrow> Timestamps w)"
  by (auto simp: window_at_def empty_window_def split: option.splits)

lemma gc_log_ok: "log_ok now r log \<Longrightarrow> log_ok now (gc now r) log"
  unfolding log_ok_def window_at_stamps
  by (auto simp: gc_def gc_windows_ok gc_recent split: sum.splits)

lemma make_room_log_ok: "log_ok now r log \<Longrightarrow> log_ok now (make_room key now r) log"
proof -
  assume a: "log_ok now r log"
  have "window_at wid (r\<lparr>rl_seen := n\<rparr>) = window_at wid r" for wid n by (cases wid) (simp_all add: window_at_def)
  then have "log_ok now (r\<lparr>rl_seen := rl_seen r + 1\<rparr>) log" using a by (simp add: log_ok_def)
  then show ?thesis by (auto simp: make_room_def Let_def intro: gc_log_ok)
qed

lemma map_of_put: "map_of (put_window k w ws) = (map_of ws)(k \<mapsto> w)"
proof -
  have "map_of (upd_where (\<lambda>e. fst e = k) (\<lambda>_. (k, w)) vs) = (if k \<in> fst ` set vs then (map_of vs)(k \<mapsto> w) else map_of vs)" for vs
    by (induction vs) (auto simp: table_simps fun_eq_iff)
  moreover have "k \<notin> fst ` set vs \<Longrightarrow> map_of (vs @ [(k, w)]) = (map_of vs)(k \<mapsto> w)" for vs
    by (induction vs) (auto simp: fun_eq_iff)
  ultimately show ?thesis by (simp add: put_window_def)
qed

lemma put_windows_ok:
  assumes "windows_ok now ws" and "LastSeen w \<le> now" and "\<forall>t\<in>set (Timestamps w). t \<le> LastSeen w"
  shows "windows_ok now (put_window k w ws)"
proof -
  have "distinct (map fst (put_window k w ws))"
    using assms(1) by (auto simp: put_window_def windows_ok_def map_key_upd_where)
  moreover have "LastSeen x \<le> now \<and> (\<forall>t\<in>set (Timestamps x). t \<le> LastSeen x)" if "(j, x) \<in> set (put_window k w ws)" for j x
    using that assms unfolding put_window_def windows_ok_def by (auto split: if_splits elim!: upd_where_elim)
  ultimately show ?thesis by (auto simp: windows_ok_def)
qed

lemma window_at_set: "window_at v (set_window wid w r) = (if v = wid then w else window_at v r)"
  by (cases v; cases wid) (auto simp: window_at_def set_window_def map_of_put)

lemma stamps_of_snoc: "stamps_of v (log @ [(wid, t)]) = stamps_of v log @ (if v = wid then [t] else [])"
  by (simp add: stamps_of_def)

lemma recent_append: "recent now (xs @ ys) = recent now xs @ recent now ys"
  by (simp add: recent_def)

lemma recent_idem: "recent now (recent now xs) = recent now xs"
  by (simp add: recent_def)

lemma set_window_ok:
  assumes "log_ok now r log" and "LastSeen w \<le> now" and "\<forall>t\<in>set (Timestamps w). t \<le> LastSeen w"
  shows "windows_ok now (rl_windows (set_window wid w r)) \<and> windows_ok now (rl_overflow (set_window wid w r))"
  using assms by (auto simp: log_ok_def set_window_def put_windows_ok split: sum.splits)

text \<open>One call of \<open>Allow\<close>, with the log.\<close>

lemma allow_step:
  assumes ok: "log_ok now r log" and limit: "0 < limit" and run: "Allow key limit now r = ((allowed, rem, reset), r')"
  defines "wid \<equiv> charge key (make_room key now r)"
  defines "log' \<equiv> (if allowed then log @ [(wid, now)] else log)"
  shows "log_ok now r' log'"
    and "allowed \<longleftrightarrow> int (length (recent now (stamps_of wid log))) < limit"
    and "allowed \<Longrightarrow> rem = limit - int (length (recent now (stamps_of wid log'))) \<and> 0 \<le> rem"
proof -
  let ?r = "make_room key now r"
  have ok1: "log_ok now ?r log" by (rule make_room_log_ok[OF ok])
  let ?kept = "filter (\<lambda>ts. ts > now - rateLimitWindow) (Timestamps (window_at wid ?r))"
  have kept: "?kept = recent now (stamps_of wid log)" using ok1 by (simp add: log_ok_def recent_def)
  obtain w where w: "allowWindow (window_at wid ?r) limit now = ((allowed, rem, reset), w)" and r': "r' = set_window wid w ?r"
    using run limit by (auto simp: Allow_def wid_def Let_def split: prod.splits)
  show al: "allowed \<longleftrightarrow> int (length (recent now (stamps_of wid log))) < limit"
    using w unfolding kept[symmetric] by (auto simp: allowWindow_def Let_def split: if_splits)
  have logpast: "\<forall>(_, t)\<in>set log. t \<le> now" using ok by (simp add: log_ok_def)
  have past: "\<forall>t\<in>set (recent now (stamps_of wid log)). t \<le> now"
    using logpast by (auto simp: recent_def stamps_of_def)
  have w': "w = \<lparr>Timestamps = recent now (stamps_of wid log'), LastSeen = now\<rparr>"
    using w unfolding log'_def kept[symmetric]
    by (auto simp: allowWindow_def Let_def stamps_of_snoc recent_append kept split: if_splits)
      (auto simp: recent_def rateLimitWindow_def)
  have past': "\<forall>t\<in>set (recent now (stamps_of wid log')). t \<le> now"
    using past unfolding log'_def by (auto simp: stamps_of_snoc recent_append recent_def)
  have "recent now (stamps_of v log') = recent now (Timestamps (window_at v r'))" for v
  proof (cases "v = wid")
    case True
    then show ?thesis by (simp add: r' window_at_set w' recent_idem)
  next
    case False
    then show ?thesis using ok1 by (simp add: r' window_at_set log'_def stamps_of_snoc log_ok_def)
  qed
  moreover have "\<forall>(_, t)\<in>set log'. t \<le> now" using ok by (auto simp: log'_def log_ok_def)
  moreover have "windows_ok now (rl_windows r') \<and> windows_ok now (rl_overflow r')"
    unfolding r' by (rule set_window_ok[OF ok1]) (use past' in \<open>simp_all add: w'\<close>)
  ultimately show "log_ok now r' log'" unfolding log_ok_def by blast
  show "allowed \<Longrightarrow> rem = limit - int (length (recent now (stamps_of wid log'))) \<and> 0 \<le> rem"
    using w al unfolding log'_def by (auto simp: allowWindow_def Let_def kept stamps_of_snoc recent_append split: if_splits)
      (auto simp: recent_def rateLimitWindow_def)
qed

section \<open>Requests through the middleware\<close>

type_synonym request = "string \<times> string \<times> string \<times> int"

definition serve :: "request \<Rightarrow> RateLimiter \<times> ((string + string) \<times> int) list \<Rightarrow> RateLimiter \<times> ((string + string) \<times> int) list" where
  "serve req st = (case req of (meth, path, ip, now) \<Rightarrow> case st of (r, log) \<Rightarrow>
     (case RateLimitMiddleware meth path ip now r of
        (Some (True, _, _), r') \<Rightarrow>
          let key = ip @ ''|'' @ fst (resolveRateLimitBucket meth path) in
          (r', log @ [(charge key (make_room key now r), now)])
      | (_, r') \<Rightarrow> (r', log)))"

definition serve_all :: "request list \<Rightarrow> RateLimiter \<times> ((string + string) \<times> int) list" where
  "serve_all reqs = fold serve reqs (NewRateLimiter, [])"

definition request_time :: "request \<Rightarrow> int" where
  "request_time = (\<lambda>(_, _, _, t). t)"

text \<open>The limit of a bucket, and the bucket of a window.\<close>

definition bucket_limit :: "string \<Rightarrow> nat" where
  "bucket_limit b = (if b = ''global'' then 120 else if b = ''ai-transactions'' then 30 else 10)"

definition window_bucket :: "string + string \<Rightarrow> string" where
  "window_bucket wid = (case wid of Inl key \<Rightarrow> rateLimitOverflowBucket key | Inr b \<Rightarrow> b)"

lemma if_member: "x \<in> S \<Longrightarrow> y \<in> S \<Longrightarrow> (if c then x else y) \<in> S"
  by simp

lemma resolve_bucket:
  assumes "resolveRateLimitBucket meth path = (b, l)"
  shows "l = int (bucket_limit b)" and "CHR ''|'' \<notin> set b" and "b \<noteq> []"
proof -
  have b: "(b, l) \<in> {(''login'', 10), (''reauth'', 10), (''account-auth'', 10), (''ai-transactions'', 30), (''snapshots'', 10), (''global'', 120)}"
    unfolding assms[symmetric] resolveRateLimitBucket_def Let_def by (intro if_member) simp_all
  show "l = int (bucket_limit b)" using b by (auto simp: bucket_limit_def)
  show "CHR ''|'' \<notin> set b" using b by auto
  show "b \<noteq> []" using b by auto
qed

lemma overflow_bucket:
  assumes "CHR ''|'' \<notin> set b" and "b \<noteq> []"
  shows "rateLimitOverflowBucket (ip @ CHR ''|'' # b) = b"
proof -
  have "takeWhile (\<lambda>c. c \<noteq> CHR ''|'') (rev b @ CHR ''|'' # rev ip) = rev b"
    using assms(1) by (subst takeWhile_append2) auto
  then show ?thesis using assms(2) by (simp add: rateLimitOverflowBucket_def)
qed

lemma charge_bucket: "window_bucket (charge key r) = rateLimitOverflowBucket key"
  by (simp add: charge_def window_bucket_def)

text \<open>At most \<open>n\<close> entries in every minute.\<close>

definition minute_bound :: "nat \<Rightarrow> int list \<Rightarrow> bool" where
  "minute_bound n ts \<longleftrightarrow> (\<forall>t. length (filter (\<lambda>x. t - rateLimitWindow < x \<and> x \<le> t) ts) \<le> n)"

lemma minute_bound_snoc:
  assumes "minute_bound n ts" and "\<forall>x\<in>set ts. x \<le> now" and "length (recent now ts) < n"
  shows "minute_bound n (ts @ [now])"
  unfolding minute_bound_def
proof
  fix t
  show "length (filter (\<lambda>x. t - rateLimitWindow < x \<and> x \<le> t) (ts @ [now])) \<le> n"
  proof (cases "t - rateLimitWindow < now \<and> now \<le> t")
    case True
    have "filter (\<lambda>x. t - rateLimitWindow < x \<and> x \<le> t) ts = filter (\<lambda>x. t - rateLimitWindow < x \<and> x \<le> t) (recent now ts)"
      using True by (auto simp: recent_def intro!: filter_cong)
    then have "length (filter (\<lambda>x. t - rateLimitWindow < x \<and> x \<le> t) ts) \<le> length (recent now ts)" by simp
    then show ?thesis using True assms(3) by simp
  next
    case False
    then show ?thesis using assms(1) by (auto simp: minute_bound_def)
  qed
qed

definition served_ok :: "int \<Rightarrow> RateLimiter \<times> ((string + string) \<times> int) list \<Rightarrow> bool" where
  "served_ok now st \<longleftrightarrow> log_ok now (fst st) (snd st) \<and>
     (\<forall>wid. minute_bound (bucket_limit (window_bucket wid)) (stamps_of wid (snd st)))"

lemma serve_ok:
  assumes ok: "served_ok t0 (r, log)" and later: "t0 \<le> now"
  shows "served_ok now (serve (meth, path, ip, now) (r, log))"
proof -
  have l: "log_ok now r log" and mb: "\<And>wid. minute_bound (bucket_limit (window_bucket wid)) (stamps_of wid log)"
    using ok later by (auto simp: served_ok_def intro: log_ok_later)
  obtain b limit where bl: "resolveRateLimitBucket meth path = (b, limit)" by (cases "resolveRateLimitBucket meth path")
  note rb = resolve_bucket[OF bl]
  let ?key = "ip @ ''|'' @ b"
  let ?wid = "charge ?key (make_room ?key now r)"
  have wb: "window_bucket ?wid = b" using rb by (simp add: charge_bucket overflow_bucket)
  have pos: "0 < limit" using rb(1) by (simp add: bucket_limit_def)
  obtain allowed rem reset r' where run: "Allow ?key limit now r = ((allowed, rem, reset), r')" by (cases "Allow ?key limit now r") auto
  note st = allow_step[OF l pos run]
  show ?thesis
  proof (cases "\<not> prefix ''/api/'' path \<and> \<not> prefix ''/api/v1/ai/'' path")
    case True
    then show ?thesis using l mb by (simp add: serve_def RateLimitMiddleware_def served_ok_def)
  next
    case False
    have sv: "serve (meth, path, ip, now) (r, log) = (r', if allowed then log @ [(?wid, now)] else log)"
      using False bl run by (cases allowed) (auto simp: serve_def RateLimitMiddleware_def Let_def)
    have past: "\<forall>x\<in>set (stamps_of ?wid log). x \<le> now" using l by (auto simp: log_ok_def stamps_of_def)
    have "minute_bound (bucket_limit (window_bucket v)) (stamps_of v (if allowed then log @ [(?wid, now)] else log))" for v
    proof (cases "allowed \<and> v = ?wid")
      case True
      have "length (recent now (stamps_of ?wid log)) < bucket_limit b" using st(2) True rb(1) by simp
      then show ?thesis using True mb[of ?wid] minute_bound_snoc[OF _ past] wb by (simp add: stamps_of_snoc)
    next
      case False
      then show ?thesis using mb[of v] by (auto simp: stamps_of_snoc)
    qed
    then show ?thesis using st(1) by (simp add: sv served_ok_def)
  qed
qed

lemma serve_all_ok:
  assumes "sorted (map request_time reqs)"
  shows "\<exists>now. served_ok now (serve_all reqs) \<and> (reqs \<noteq> [] \<longrightarrow> now = request_time (last reqs))"
  using assms
proof (induction reqs rule: rev_induct)
  case Nil
  have "served_ok 0 (NewRateLimiter, [])"
    by (auto simp: served_ok_def log_ok_def windows_ok_def NewRateLimiter_def NewRateLimiterWithMaxEntries_def stamps_of_def
        minute_bound_def window_at_def empty_window_def split: sum.splits)
  then show ?case by (auto simp: serve_all_def)
next
  case (snoc req reqs)
  obtain meth path ip t where req: "req = (meth, path, ip, t)" by (cases req) auto
  obtain now where n: "served_ok now (serve_all reqs)" "reqs \<noteq> [] \<longrightarrow> now = request_time (last reqs)"
    using snoc by (auto simp: sorted_append)
  have step: "serve_all (reqs @ [req]) = serve req (serve_all reqs)" by (simp add: serve_all_def)
  show ?case
  proof (cases "reqs = []")
    case True
    have "served_ok t (NewRateLimiter, [])"
      by (auto simp: served_ok_def log_ok_def windows_ok_def NewRateLimiter_def NewRateLimiterWithMaxEntries_def stamps_of_def
          minute_bound_def window_at_def empty_window_def split: sum.splits)
    then show ?thesis using serve_ok[of t NewRateLimiter "[]" t] True req by (auto simp: step serve_all_def request_time_def)
  next
    case False
    have "now \<le> t" using snoc.prems n(2) False req by (auto simp: sorted_append request_time_def)
    then have "served_ok t (serve (meth, path, ip, t) (serve_all reqs))"
      using serve_ok[of now "fst (serve_all reqs)" "snd (serve_all reqs)" t] n(1) by simp
    then show ?thesis unfolding step by (auto simp: req request_time_def)
  qed
qed

text \<open>The number of client windows stays within the capacity.\<close>

definition bounded :: "RateLimiter \<Rightarrow> bool" where
  "bounded r \<longleftrightarrow> length (rl_windows r) \<le> rl_max r \<and> rl_max r = maxRateLimiterEntries"

lemma gc_bounded: "bounded r \<Longrightarrow> bounded (gc now r)"
  by (auto simp: bounded_def gc_def gc_windows_def del_where_def intro: order_trans[OF length_filter_le])

lemma make_room_bounded: "bounded r \<Longrightarrow> bounded (make_room key now r)"
proof -
  assume "bounded r"
  then have "bounded (r\<lparr>rl_seen := rl_seen r + 1\<rparr>)" by (simp add: bounded_def)
  then show ?thesis by (auto simp: make_room_def Let_def intro: gc_bounded)
qed

lemma charge_bounded: "bounded r \<Longrightarrow> bounded (set_window (charge key r) w r)"
  by (auto simp: bounded_def set_window_def charge_def put_window_def)

lemma serve_bounded: "bounded (fst st) \<Longrightarrow> bounded (fst (serve req st))"
  by (auto simp: serve_def RateLimitMiddleware_def Allow_def Let_def make_room_bounded charge_bounded
      split: prod.splits option.splits bool.splits if_splits)

lemma serve_all_bounded: "bounded (fst (serve_all reqs))"
proof -
  have "bounded (fst st) \<Longrightarrow> bounded (fst (fold serve reqs st))" for st
    by (induction reqs arbitrary: st) (simp_all only: fold_simps serve_bounded)
  moreover have "bounded (fst (NewRateLimiter, []))"
    by (simp add: bounded_def NewRateLimiter_def NewRateLimiterWithMaxEntries_def maxRateLimiterEntries_def)
  ultimately show ?thesis unfolding serve_all_def by blast
qed

section \<open>Properties\<close>

text \<open>C33: for requests in the order of their times, every window of the limiter lets through at most the limit of
  its bucket in any minute, whatever collection and overflow do: this holds for the window of a client in a
  bucket and for the window that clients beyond the capacity share. The number of client windows never
  exceeds 4096.\<close>

theorem rate_limit_enforced:
  assumes "sorted (map request_time reqs)"
  shows "length (filter (\<lambda>x. t - rateLimitWindow < x \<and> x \<le> t) (stamps_of wid (snd (serve_all reqs)))) \<le>
    bucket_limit (window_bucket wid) \<and> length (rl_windows (fst (serve_all reqs))) \<le> 4096"
  using serve_all_ok[OF assms] serve_all_bounded[of reqs]
  by (auto simp: served_ok_def minute_bound_def bounded_def maxRateLimiterEntries_def)

definition sample_requests :: "request list" where
  "sample_requests = map (\<lambda>n. (''POST'', ''/api/auth/login'', ''10.0.0.1'', int n)) [0..<12]"

theorem rate_limit_enforced_witness:
  "length (filter (\<lambda>x. 100 - rateLimitWindow < x \<and> x \<le> 100)
     (stamps_of (Inl ''10.0.0.1|login'') (snd (serve_all sample_requests)))) \<le> 10"
proof -
  have "sorted (map request_time sample_requests)" by code_simp
  moreover have "bucket_limit (window_bucket (Inl ''10.0.0.1|login'')) = 10" by code_simp
  ultimately show ?thesis using rate_limit_enforced[of sample_requests 100 "Inl ''10.0.0.1|login''"] by simp
qed

end
