(* ===== verification/VaultManager.thy ===== *)
theory VaultManager
  imports GoText "HOL-Library.Multiset"
begin

text \<open>
  The manager of per-user encrypted ledgers, \<open>vault/manager.go\<close>. Entries are reference counted; leases are handed
  to sessions (roots) and requests (children); an entry is opened by one goroutine while others wait, is
  retired when its last root goes, and is closed by whichever goroutine finds it idle. Every field below
  changes only under \<open>Manager.mu\<close>, so a step of the relation is one critical section of one goroutine, or one
  action on the file between two of them.

  The heap holds all entries ever made and a pointer is an index into it. A channel is what its waiters can
  see of it: \<open>ready\<close> is open or gone, \<open>closing\<close> is absent, open or closed, \<open>idle\<close> and \<open>retired\<close> carry the number of
  the channel made last, and \<open>refChange\<close> the number of changes. Closing an absent or closed channel panics.
\<close>

section \<open>State\<close>

datatype vault_error = ErrClosed | ErrDraining | ErrRestoreInFlight | ErrBindingMismatch | ErrInvalidIdentity
  | ErrLeaseReleased | ErrOpen

datatype signal = NoSignal | SigOpen | SigClosed

record entry =
  en_user :: string
  en_vault :: string
  en_key :: string
  en_instance :: "nat option"
  en_ready :: bool
  en_openErr :: bool
  en_refs :: nat
  en_roots :: nat
  en_draining :: bool
  en_auto :: bool
  en_retired :: "nat option"
  en_retirements :: nat
  en_idle :: nat
  en_idle_open :: bool
  en_closing :: signal
  en_closeErr :: bool
  en_changes :: nat

text \<open>A lease, with the binding it was requested for.\<close>

record Lease =
  ls_entry :: nat
  ls_root :: bool
  ls_released :: bool
  ls_binding :: "string \<times> string \<times> string"

text \<open>Where a goroutine is inside \<open>closeEntry\<close>, \<open>RestoreSnapshot\<close> and \<open>Acquire\<close>. A closer knows whether its context can be
  cancelled and which entries \<open>Close\<close> has still to close after this one.\<close>

datatype close_pc = Top | AwaitReady | AwaitClosing | AwaitIdle nat | Draining | Final "nat option" bool
  | Destroy "nat option" | Publish bool

datatype restore_pc = RTop | RWait nat | RSole | RRun nat

datatype vault_thread =
    Acquiring string string string
  | WaitRetired string string string nat "nat option"
  | WaitReady string string string nat
  | Opening string string string nat
  | Opened string string string nat nat
  | Closer bool nat "nat list" close_pc
  | Restoring nat restore_pc
  | Ended "vault_error option"

text \<open>\<open>vm_open\<close> lists the database instances that are open, with the entry they were opened for.\<close>

record Manager =
  vm_heap :: "entry list"
  vm_entries :: "string \<rightharpoonup> nat"
  vm_byVault :: "string \<rightharpoonup> nat"
  vm_closing :: bool
  vm_leases :: "Lease list"
  vm_threads :: "vault_thread multiset"
  vm_open :: "(nat \<times> nat) list"
  vm_next :: nat
  vm_panic :: bool

definition newManager :: Manager where
  "newManager = \<lparr>vm_heap = [], vm_entries = Map.empty, vm_byVault = Map.empty, vm_closing = False, vm_leases = [],
     vm_threads = {#}, vm_open = [], vm_next = 0, vm_panic = False\<rparr>"

definition ent :: "Manager \<Rightarrow> nat \<Rightarrow> entry" where
  "ent s i = vm_heap s ! i"

definition upd_ent :: "nat \<Rightarrow> (entry \<Rightarrow> entry) \<Rightarrow> Manager \<Rightarrow> Manager" where
  "upd_ent i f s = s\<lparr>vm_heap := (vm_heap s)[i := f (vm_heap s ! i)]\<rparr>"

text \<open>\<open>m.entries[current.userID] == current\<close>\<close>

definition cur :: "Manager \<Rightarrow> nat \<Rightarrow> bool" where
  "cur s i \<longleftrightarrow> vm_entries s (en_user (ent s i)) = Some i"

definition panic_if :: "bool \<Rightarrow> Manager \<Rightarrow> Manager" where
  "panic_if b s = s\<lparr>vm_panic := vm_panic s \<or> b\<rparr>"

definition zeroFingerprint :: string where
  "zeroFingerprint = replicate 32 (char_of (0 :: nat))"

section \<open>Identifiers\<close>

definition validateUserID :: "string \<Rightarrow> (vault_error, unit) result" where
  "validateUserID value =
     bindE (guardE (value \<noteq> [] \<and> TrimSpace value = value \<and> length value \<le> 128) ErrInvalidIdentity) (\<lambda>_.
       guardE (\<forall>r\<in>set (runes value). \<not> IsControl r) ErrInvalidIdentity)"

definition vault_id_rune :: "nat \<Rightarrow> bool" where
  "vault_id_rune r \<longleftrightarrow> 97 \<le> r \<and> r \<le> 122 \<or> 65 \<le> r \<and> r \<le> 90 \<or> 48 \<le> r \<and> r \<le> 57 \<or> r = 45 \<or> r = 95"

definition validateVaultID :: "string \<Rightarrow> (vault_error, unit) result" where
  "validateVaultID value =
     bindE (guardE (16 \<le> length value \<and> length value \<le> 128) ErrInvalidIdentity) (\<lambda>_.
       guardE (\<forall>r\<in>set (runes value). vault_id_rune r) ErrInvalidIdentity)"

section \<open>References and leases\<close>

definition addReferenceLocked :: "bool \<Rightarrow> entry \<Rightarrow> entry" where
  "addReferenceLocked root e =
     e\<lparr>en_idle := (if en_refs e = 0 then en_idle e + 1 else en_idle e),
       en_idle_open := (en_refs e = 0 \<or> en_idle_open e),
       en_refs := en_refs e + 1,
       en_roots := (if root then en_roots e + 1 else en_roots e)\<rparr>"

text \<open>A reference and the lease that holds it; the new lease is the last of the table.\<close>

definition grant :: "nat \<Rightarrow> bool \<Rightarrow> string \<times> string \<times> string \<Rightarrow> Manager \<Rightarrow> Manager" where
  "grant i root b s =
     (let s1 = upd_ent i (addReferenceLocked root) s in
      s1\<lparr>vm_leases := vm_leases s1 @ [\<lparr>ls_entry = i, ls_root = root, ls_released = False, ls_binding = b\<rparr>]\<rparr>)"

definition lease :: "Manager \<Rightarrow> nat \<Rightarrow> Lease" where
  "lease s l = vm_leases s ! l"

text \<open>The checks \<open>Borrow\<close> and \<open>BeginRestore\<close> make before they take the manager's mutex.\<close>

definition root_live :: "Manager \<Rightarrow> nat \<Rightarrow> bool" where
  "root_live s l \<longleftrightarrow> l < length (vm_leases s) \<and> \<not> ls_released (lease s l) \<and> ls_root (lease s l)"

definition isLive :: "Manager \<Rightarrow> nat \<Rightarrow> bool" where
  "isLive s l \<longleftrightarrow> l < length (vm_leases s) \<and> \<not> ls_released (lease s l) \<and> en_instance (ent s (ls_entry (lease s l))) \<noteq> None"

definition ValidateSessionRoot :: "Manager \<Rightarrow> nat \<Rightarrow> (vault_error, unit) result" where
  "ValidateSessionRoot s l =
     bindE (guardE (root_live s l) ErrLeaseReleased) (\<lambda>_.
     bindE (guardE (\<not> vm_closing s) ErrClosed) (\<lambda>_.
     let i = ls_entry (lease s l) in
     guardE (cur s i \<and> \<not> en_draining (ent s i) \<and> \<not> en_ready (ent s i) \<and> en_instance (ent s i) \<noteq> None) ErrDraining))"

text \<open>\<open>Borrow\<close> makes the same checks as \<open>ValidateSessionRoot\<close>.\<close>

definition Borrow :: "nat \<Rightarrow> Manager \<Rightarrow> (vault_error, nat) result \<times> Manager" where
  "Borrow l s =
     (if \<not> root_live s l then (Inl ErrLeaseReleased, s)
      else if vm_closing s then (Inl ErrClosed, s)
      else let i = ls_entry (lease s l); e = ent s i in
        if \<not> cur s i \<or> en_draining e \<or> en_ready e \<or> en_instance e = None then (Inl ErrDraining, s)
        else (Inr (length (vm_leases s)), grant i False (ls_binding (lease s l)) s))"

text \<open>\<open>BeginRestore\<close>: the operation it returns is the goroutine that will run or abandon it.\<close>

definition BeginRestore :: "nat \<Rightarrow> Manager \<Rightarrow> (vault_error, vault_thread) result \<times> Manager" where
  "BeginRestore l s =
     (if \<not> root_live s l then (Inl ErrLeaseReleased, s)
      else let i = ls_entry (lease s l); e = ent s i in
        if vm_closing s then (Inl ErrClosed, s)
        else if \<not> cur s i \<or> en_ready e \<or> en_instance e = None then (Inl ErrDraining, s)
        else if en_draining e then (Inl ErrRestoreInFlight, s)
        else (Inr (Restoring i RTop), upd_ent i (\<lambda>e. addReferenceLocked False (e\<lparr>en_draining := True\<rparr>)) s))"

text \<open>Giving a reference back: shared by \<open>Lease.Release\<close> and \<open>RestoreOperation.Release\<close>. The result says whether the
  caller now closes the entry.\<close>

definition drop_reference :: "bool \<Rightarrow> entry \<Rightarrow> entry" where
  "drop_reference root e =
     (let e1 = e\<lparr>en_refs := en_refs e - 1, en_changes := en_changes e + 1\<rparr>;
          e2 = (if root \<and> en_roots e1 > 0
                then let e' = e1\<lparr>en_roots := en_roots e1 - 1\<rparr> in
                  if en_roots e' = 0 \<and> \<not> en_draining e'
                  then e'\<lparr>en_draining := True, en_auto := True, en_retired := Some (en_retirements e'),
                          en_retirements := en_retirements e' + 1\<rparr>
                  else e'
                else e1) in
      if en_refs e2 = 0 then e2\<lparr>en_idle_open := False\<rparr> else e2)"

definition release_reference :: "nat \<Rightarrow> bool \<Rightarrow> Manager \<Rightarrow> vault_thread list \<times> Manager" where
  "release_reference i root s =
     (if cur s i \<and> en_refs (ent s i) > 0
      then let e' = drop_reference root (ent s i);
               s1 = upd_ent i (drop_reference root) s;
               s2 = panic_if (en_refs e' = 0 \<and> \<not> en_idle_open (ent s i)) s1 in
        (if en_refs e' = 0 \<and> en_draining e' then [Closer False i [] Top] else [], s2)
      else ([], s))"

definition Release :: "nat \<Rightarrow> Manager \<Rightarrow> vault_thread list \<times> Manager" where
  "Release l s =
     (if ls_released (lease s l) then ([], s)
      else release_reference (ls_entry (lease s l)) (ls_root (lease s l))
        (s\<lparr>vm_leases := (vm_leases s)[l := (lease s l)\<lparr>ls_released := True\<rparr>]\<rparr>))"

section \<open>Acquire\<close>

text \<open>A fresh login adopts an entry that is only retiring.\<close>

definition revive :: "nat \<Rightarrow> Manager \<Rightarrow> Manager" where
  "revive i s =
     (if en_auto (ent s i)
      then panic_if (en_retired (ent s i) = None)
        (upd_ent i (\<lambda>e. e\<lparr>en_draining := False, en_auto := False, en_retired := None\<rparr>) s)
      else s)"

definition new_entry :: "string \<Rightarrow> string \<Rightarrow> string \<Rightarrow> entry" where
  "new_entry u v k =
     \<lparr>en_user = u, en_vault = v, en_key = k, en_instance = None, en_ready = True, en_openErr = False, en_refs = 0,
      en_roots = 0, en_draining = False, en_auto = False, en_retired = None, en_retirements = 0, en_idle = 0,
      en_idle_open = False, en_closing = NoSignal, en_closeErr = False, en_changes = 0\<rparr>"

definition reserve :: "string \<Rightarrow> string \<Rightarrow> string \<Rightarrow> Manager \<Rightarrow> vault_thread \<times> Manager" where
  "reserve u v k s =
     (let i = length (vm_heap s) in
      (Opening u v k i, s\<lparr>vm_heap := vm_heap s @ [new_entry u v k], vm_entries := (vm_entries s)(u \<mapsto> i),
                          vm_byVault := (vm_byVault s)(v \<mapsto> i)\<rparr>))"

text \<open>One turn of the loop of \<open>Acquire\<close>, up to the first unlock.\<close>

definition acquire_turn :: "string \<Rightarrow> string \<Rightarrow> string \<Rightarrow> Manager \<Rightarrow> vault_thread \<times> Manager" where
  "acquire_turn u v k s =
     (if vm_closing s then (Ended (Some ErrClosed), s)
      else case vm_entries s u of
        Some i \<Rightarrow>
          let e = ent s i in
          if en_draining e \<and> \<not> en_auto e then (Ended (Some ErrDraining), s)
          else if en_vault e \<noteq> v \<or> en_key e \<noteq> k then (Ended (Some ErrBindingMismatch), s)
          else if en_auto e \<and> en_closing e \<noteq> NoSignal then (WaitRetired u v k i (en_retired e), s)
          else let s1 = revive i s in
            if en_ready e then (WaitReady u v k i, s1)
            else if en_instance e = None then (Ended (Some ErrDraining), s1)
            else (Ended None, grant i True (u, v, k) s1)
      | None \<Rightarrow>
          (case vm_byVault s v of
             Some j \<Rightarrow> if en_user (ent s j) \<noteq> u then (Ended (Some ErrBindingMismatch), s) else reserve u v k s
           | None \<Rightarrow> reserve u v k s))"

text \<open>The waiter after \<open>ready\<close> was closed.\<close>

definition acquire_ready :: "string \<Rightarrow> string \<Rightarrow> string \<Rightarrow> nat \<Rightarrow> Manager \<Rightarrow> vault_thread \<times> Manager" where
  "acquire_ready u v k i s =
     (let e = ent s i in
      if en_openErr e then (Ended (Some ErrOpen), s)
      else if vm_closing s then (Ended (Some ErrClosed), s)
      else if en_draining e \<or> vm_entries s u \<noteq> Some i \<or> en_instance e = None then (Ended (Some ErrDraining), s)
      else (Ended None, grant i True (u, v, k) s))"

text \<open>Removing an entry from both maps, where they still point to it.\<close>

definition unlink :: "nat \<Rightarrow> Manager \<Rightarrow> Manager" where
  "unlink i s =
     (let u = en_user (ent s i); v = en_vault (ent s i) in
      s\<lparr>vm_entries := (if vm_entries s u = Some i then (vm_entries s)(u := None) else vm_entries s),
        vm_byVault := (if vm_byVault s v = Some i then (vm_byVault s)(v := None) else vm_byVault s)\<rparr>)"

definition finishOpening ::
  "nat \<Rightarrow> nat option \<Rightarrow> bool \<Rightarrow> string \<times> string \<times> string \<Rightarrow> Manager \<Rightarrow> vault_thread \<times> Manager" where
  "finishOpening i instance openErr b s =
     (let terminal = (en_draining (ent s i) \<or> vm_closing s);
          s1 = upd_ent i (\<lambda>e. e\<lparr>en_instance := instance, en_openErr := openErr, en_ready := False\<rparr>) s;
          s2 = (if openErr \<and> \<not> terminal then unlink i s1 else s1);
          s3 = (if openErr then upd_ent i (\<lambda>e. e\<lparr>en_key := zeroFingerprint\<rparr>) s2 else s2) in
      if openErr then (if terminal then Closer False i [] Top else Ended (Some ErrOpen), s3)
      else if vm_closing s \<or> en_draining (ent s i) then (Closer False i [] Top, s3)
      else (Ended None, grant i True b s3))"

section \<open>Closing\<close>

text \<open>The first critical section of a turn of \<open>closeEntry\<close>; \<open>None\<close> when it returns.\<close>

definition close_top :: "nat \<Rightarrow> Manager \<Rightarrow> close_pc option" where
  "close_top i s =
     (let e = ent s i in
      if \<not> cur s i then None
      else if \<not> en_draining e then None
      else if en_ready e then Some AwaitReady
      else if en_closing e \<noteq> NoSignal then Some AwaitClosing
      else Some (AwaitIdle (en_idle e)))"

text \<open>Whether the channel a closer waits for is closed.\<close>

definition awaited :: "nat \<Rightarrow> close_pc \<Rightarrow> Manager \<Rightarrow> bool" where
  "awaited i pc s =
     (case pc of
        AwaitReady \<Rightarrow> \<not> en_ready (ent s i)
      | AwaitClosing \<Rightarrow> en_closing (ent s i) = SigClosed
      | AwaitIdle g \<Rightarrow> en_idle (ent s i) \<noteq> g \<or> \<not> en_idle_open (ent s i)
      | _ \<Rightarrow> True)"

text \<open>The second section; the retirement it remembers decides whether it may give up in the third one.\<close>

definition close_draining :: "nat \<Rightarrow> Manager \<Rightarrow> close_pc" where
  "close_draining i s =
     (let e = ent s i in Final (en_retired e) (en_auto e \<and> en_refs e = 0 \<and> en_closing e = NoSignal))"

definition close_final :: "nat \<Rightarrow> nat option \<Rightarrow> bool \<Rightarrow> Manager \<Rightarrow> close_pc option \<times> Manager" where
  "close_final i retired autoRetiring s =
     (let e = ent s i in
      if autoRetiring \<and> (en_retired e \<noteq> retired \<or> \<not> en_auto e) then (None, s)
      else if \<not> cur s i \<or> \<not> en_draining e \<or> en_ready e \<or> en_refs e \<noteq> 0 \<or> en_closing e \<noteq> NoSignal then (Some Top, s)
      else (Some (Destroy (en_instance e)), upd_ent i (\<lambda>e. e\<lparr>en_closing := SigOpen, en_instance := None\<rparr>) s))"

definition close_destroy :: "nat \<Rightarrow> nat option \<Rightarrow> Manager \<Rightarrow> Manager" where
  "close_destroy i inst s = (case inst of None \<Rightarrow> s | Some n \<Rightarrow> s\<lparr>vm_open := del_where (\<lambda>p. p = (n, i)) (vm_open s)\<rparr>)"

definition close_publish :: "nat \<Rightarrow> bool \<Rightarrow> Manager \<Rightarrow> Manager" where
  "close_publish i closeErr s =
     (let s1 = unlink i (upd_ent i (\<lambda>e. e\<lparr>en_closeErr := closeErr\<rparr>) s);
          s2 = panic_if (en_closing (ent s1 i) \<noteq> SigOpen)
                 (upd_ent i (\<lambda>e. e\<lparr>en_key := zeroFingerprint, en_closing := SigClosed\<rparr>) s1) in
      upd_ent i (\<lambda>e. e\<lparr>en_retired := None\<rparr>) s2)"

text \<open>What a closer does when \<open>closeEntry\<close> returns: \<open>Close\<close> goes on with its next entry.\<close>

definition close_return :: "bool \<Rightarrow> nat list \<Rightarrow> vault_thread" where
  "close_return c rest = (case rest of [] \<Rightarrow> Ended None | j # js \<Rightarrow> Closer c j js Top)"

definition close_goto :: "bool \<Rightarrow> nat \<Rightarrow> nat list \<Rightarrow> close_pc option \<Rightarrow> vault_thread" where
  "close_goto c i rest next = (case next of None \<Rightarrow> close_return c rest | Some pc \<Rightarrow> Closer c i rest pc)"

definition start_drain :: "entry \<Rightarrow> entry" where
  "start_drain e = e\<lparr>en_draining := True, en_auto := False\<rparr>"

definition BeginUserDrain :: "string \<Rightarrow> Manager \<Rightarrow> vault_thread list \<times> Manager" where
  "BeginUserDrain u s =
     (case vm_entries s u of None \<Rightarrow> ([], s) | Some i \<Rightarrow> ([Closer True i [] Top], upd_ent i start_drain s))"

text \<open>\<open>Close\<close> marks every entry of the map and closes them one after the other, in the order of the map's
  iteration.\<close>

definition current_entries :: "Manager \<Rightarrow> nat list" where
  "current_entries s = filter (cur s) [0..<length (vm_heap s)]"

definition CloseManager :: "nat list \<Rightarrow> Manager \<Rightarrow> vault_thread \<times> Manager" where
  "CloseManager order s =
     (close_return True order,
      fold (\<lambda>i. upd_ent i start_drain) order (s\<lparr>vm_closing := True\<rparr>))"

section \<open>Restoring a snapshot\<close>

text \<open>A turn of \<open>waitForReferences\<close>; \<open>None\<close> when it gives up.\<close>

definition restore_wait :: "nat \<Rightarrow> Manager \<Rightarrow> restore_pc option" where
  "restore_wait i s =
     (let e = ent s i in
      if \<not> cur s i then None
      else if en_refs e \<le> 1 \<and> \<not> en_ready e \<and> en_closing e = NoSignal then Some RSole
      else Some (RWait (en_changes e)))"

definition restore_open :: "nat \<Rightarrow> Manager \<Rightarrow> restore_pc option" where
  "restore_open i s = (if \<not> cur s i then None else map_option RRun (en_instance (ent s i)))"

section \<open>Steps\<close>

definition put_threads :: "vault_thread multiset \<Rightarrow> vault_thread list \<Rightarrow> Manager \<Rightarrow> Manager" where
  "put_threads T ts s = s\<lparr>vm_threads := T + mset ts\<rparr>"

inductive vault_step :: "Manager \<Rightarrow> Manager \<Rightarrow> bool" where
  acquire: "validateUserID u = Inr () \<Longrightarrow> validateVaultID v = Inr () \<Longrightarrow>
    vault_step s (put_threads (vm_threads s) [Acquiring u v k] s)"
| acquire_turn: "vm_threads s = add_mset (Acquiring u v k) T \<Longrightarrow> acquire_turn u v k s = (t, s') \<Longrightarrow>
    vault_step s (put_threads T [t] s')"
| retired: "vm_threads s = add_mset (WaitRetired u v k i r) T \<Longrightarrow> r \<noteq> None \<Longrightarrow> en_retired (ent s i) \<noteq> r \<Longrightarrow>
    vault_step s (put_threads T [Acquiring u v k] s)"
| ready: "vm_threads s = add_mset (WaitReady u v k i) T \<Longrightarrow> \<not> en_ready (ent s i) \<Longrightarrow>
    acquire_ready u v k i s = (t, s') \<Longrightarrow> vault_step s (put_threads T [t] s')"
| opened: "vm_threads s = add_mset (Opening u v k i) T \<Longrightarrow>
    vault_step s (put_threads T [Opened u v k i (vm_next s)]
      (s\<lparr>vm_open := (vm_next s, i) # vm_open s, vm_next := vm_next s + 1\<rparr>))"
| open_failed: "vm_threads s = add_mset (Opening u v k i) T \<Longrightarrow> finishOpening i None True (u, v, k) s = (t, s') \<Longrightarrow>
    vault_step s (put_threads T [t] s')"
| accepted: "vm_threads s = add_mset (Opened u v k i n) T \<Longrightarrow> finishOpening i (Some n) False (u, v, k) s = (t, s') \<Longrightarrow>
    vault_step s (put_threads T [t] s')"
| refused: "vm_threads s = add_mset (Opened u v k i n) T \<Longrightarrow>
    finishOpening i None True (u, v, k) (s\<lparr>vm_open := del_where (\<lambda>p. p = (n, i)) (vm_open s)\<rparr>) = (t, s') \<Longrightarrow>
    vault_step s (put_threads T [t] s')"
| borrow: "Borrow l s = (Inr c, s') \<Longrightarrow> vault_step s s'"
| release: "l < length (vm_leases s) \<Longrightarrow> Release l s = (ts, s') \<Longrightarrow> vault_step s (put_threads (vm_threads s) ts s')"
| begin_restore: "BeginRestore l s = (Inr t, s') \<Longrightarrow> vault_step s (put_threads (vm_threads s) [t] s')"
| restore_wait: "vm_threads s = add_mset (Restoring i pc) T \<Longrightarrow> pc = RTop \<or> (\<exists>g. pc = RWait g \<and> en_changes (ent s i) \<noteq> g) \<Longrightarrow>
    restore_wait i s = Some pc' \<Longrightarrow> vault_step s (put_threads T [Restoring i pc'] s)"
| restore_open: "vm_threads s = add_mset (Restoring i RSole) T \<Longrightarrow> restore_open i s = Some pc' \<Longrightarrow>
    vault_step s (put_threads T [Restoring i pc'] s)"
| restore_end: "vm_threads s = add_mset (Restoring i pc) T \<Longrightarrow> release_reference i False s = (ts, s') \<Longrightarrow>
    vault_step s (put_threads T (Ended None # ts) s')"
| drain: "validateUserID u = Inr () \<Longrightarrow> BeginUserDrain u s = (ts, s') \<Longrightarrow>
    vault_step s (put_threads (vm_threads s) ts s')"
| close_all: "distinct order \<Longrightarrow> set order = set (current_entries s) \<Longrightarrow> CloseManager order s = (t, s') \<Longrightarrow>
    vault_step s (put_threads (vm_threads s) [t] s')"
| close_top: "vm_threads s = add_mset (Closer c i rest Top) T \<Longrightarrow>
    vault_step s (put_threads T [close_goto c i rest (close_top i s)] s)"
| close_ready: "vm_threads s = add_mset (Closer c i rest AwaitReady) T \<Longrightarrow> awaited i AwaitReady s \<Longrightarrow>
    vault_step s (put_threads T [Closer c i rest Top] s)"
| close_closed: "vm_threads s = add_mset (Closer c i rest AwaitClosing) T \<Longrightarrow> awaited i AwaitClosing s \<Longrightarrow>
    vault_step s (put_threads T [close_return c rest] s)"
| close_idle: "vm_threads s = add_mset (Closer c i rest (AwaitIdle g)) T \<Longrightarrow> awaited i (AwaitIdle g) s \<Longrightarrow>
    vault_step s (put_threads T [Closer c i rest Draining] s)"
| close_draining: "vm_threads s = add_mset (Closer c i rest Draining) T \<Longrightarrow>
    vault_step s (put_threads T [Closer c i rest (close_draining i s)] s)"
| close_final: "vm_threads s = add_mset (Closer c i rest (Final r a)) T \<Longrightarrow> close_final i r a s = (next, s') \<Longrightarrow>
    vault_step s (put_threads T [close_goto c i rest next] s')"
| close_destroy: "vm_threads s = add_mset (Closer c i rest (Destroy inst)) T \<Longrightarrow>
    vault_step s (put_threads T [Closer c i rest (Publish err)] (close_destroy i inst s))"
| close_publish: "vm_threads s = add_mset (Closer c i rest (Publish err)) T \<Longrightarrow>
    vault_step s (put_threads T [close_return c rest] (close_publish i err s))"

text \<open>Cancellation: a closer whose context is cancelled returns from the points where it waits or looks at it.\<close>

definition cancel_point :: "close_pc \<Rightarrow> bool" where
  "cancel_point pc = (case pc of AwaitReady \<Rightarrow> True | AwaitClosing \<Rightarrow> True | AwaitIdle _ \<Rightarrow> True | Draining \<Rightarrow> True
     | Final _ a \<Rightarrow> a | _ \<Rightarrow> False)"

inductive vault_cancel :: "Manager \<Rightarrow> Manager \<Rightarrow> bool" where
  cancel: "vm_threads s = add_mset (Closer True i rest pc) T \<Longrightarrow> cancel_point pc \<Longrightarrow>
    vault_cancel s (put_threads T [Ended None] s)"

end
