(* ===== verification/VaultInvariant.thy ===== *)
theory VaultInvariant
  imports VaultManager
begin

text \<open>
  The invariant of the vault manager: reference counts are the live leases and restores, the two maps agree,
  an open instance belongs to exactly one current entry, and no channel is closed twice. From it: an
  instance is never closed under a live lease, no ledger file is open twice, and a lease has the binding
  it was asked for.
\<close>

section \<open>What the goroutines hold\<close>

definition live_leases :: "Manager \<Rightarrow> nat \<Rightarrow> nat" where
  "live_leases s i = count_where (\<lambda>l. ls_entry l = i \<and> \<not> ls_released l) (vm_leases s)"

definition live_roots :: "Manager \<Rightarrow> nat \<Rightarrow> nat" where
  "live_roots s i = count_where (\<lambda>l. ls_entry l = i \<and> \<not> ls_released l \<and> ls_root l) (vm_leases s)"

fun is_opener :: "nat \<Rightarrow> vault_thread \<Rightarrow> bool" where
  "is_opener i (Opening _ _ _ j) = (i = j)"
| "is_opener i (Opened _ _ _ j _) = (i = j)"
| "is_opener i _ = False"

fun is_destroyer :: "nat \<Rightarrow> vault_thread \<Rightarrow> bool" where
  "is_destroyer i (Closer _ j _ (Destroy _)) = (i = j)"
| "is_destroyer i (Closer _ j _ (Publish _)) = (i = j)"
| "is_destroyer i _ = False"

fun is_restorer :: "nat \<Rightarrow> vault_thread \<Rightarrow> bool" where
  "is_restorer i (Restoring j _) = (i = j)"
| "is_restorer i _ = False"

fun is_sole :: "nat \<Rightarrow> vault_thread \<Rightarrow> bool" where
  "is_sole i (Restoring j RSole) = (i = j)"
| "is_sole i (Restoring j (RRun _)) = (i = j)"
| "is_sole i _ = False"

definition threads :: "(vault_thread \<Rightarrow> bool) \<Rightarrow> Manager \<Rightarrow> nat" where
  "threads p s = size (filter_mset p (vm_threads s))"

text \<open>The open instances a goroutine or an entry is responsible for.\<close>

fun thread_holds :: "vault_thread \<Rightarrow> (nat \<times> nat) list" where
  "thread_holds (Opened _ _ _ i n) = [(n, i)]"
| "thread_holds (Closer _ i _ (Destroy (Some n))) = [(n, i)]"
| "thread_holds _ = []"

section \<open>The invariant\<close>

text \<open>Of one entry: \<open>c\<close> says it is current, \<open>m\<close> that the manager is closing; then come the numbers of its leases, root
  leases, openers, destroyers, restorers and restorers that are alone.\<close>

definition entry_ok :: "entry \<Rightarrow> bool \<Rightarrow> bool \<Rightarrow> nat \<Rightarrow> nat \<Rightarrow> nat \<Rightarrow> nat \<Rightarrow> nat \<Rightarrow> nat \<Rightarrow> bool" where
  "entry_ok e c m leases roots openers destroyers restorers soles \<longleftrightarrow>
     en_refs e = leases + restorers \<and> en_roots e = roots \<and>
     (en_idle_open e \<longleftrightarrow> en_refs e > 0) \<and>
     (en_refs e > 0 \<longrightarrow> c \<and> \<not> en_ready e \<and> en_instance e \<noteq> None \<and> en_closing e = NoSignal) \<and>
     openers = (if en_ready e then 1 else 0) \<and> destroyers = (if en_closing e = SigOpen then 1 else 0) \<and>
     (en_ready e \<longrightarrow> c \<and> en_instance e = None \<and> \<not> en_auto e \<and> en_closing e = NoSignal \<and> \<not> en_openErr e \<and> en_retired e = None) \<and>
     (en_closing e = SigOpen \<longrightarrow> c \<and> en_instance e = None \<and> en_draining e) \<and>
     (en_closing e = SigClosed \<longrightarrow> \<not> c) \<and>
     (en_instance e \<noteq> None \<longrightarrow> c) \<and>
     (c \<and> \<not> en_ready e \<and> en_roots e = 0 \<longrightarrow> en_draining e) \<and>
     (en_auto e \<longrightarrow> en_draining e \<and> en_roots e = 0 \<and>
        (c \<longrightarrow> en_retired e \<noteq> None \<and> (en_closing e = NoSignal \<longrightarrow> en_instance e \<noteq> None))) \<and>
     (c \<and> m \<longrightarrow> en_draining e) \<and>
     (restorers > 0 \<longrightarrow> en_draining e \<and> \<not> en_auto e) \<and> (soles > 0 \<longrightarrow> en_refs e = 1)"

definition entries_ok :: "Manager \<Rightarrow> bool" where
  "entries_ok s \<longleftrightarrow> (\<forall>i < length (vm_heap s). entry_ok (ent s i) (cur s i) (vm_closing s) (live_leases s i) (live_roots s i)
     (threads (is_opener i) s) (threads (is_destroyer i) s) (threads (is_restorer i) s) (threads (is_sole i) s))"

definition maps_ok :: "Manager \<Rightarrow> bool" where
  "maps_ok s \<longleftrightarrow>
     (\<forall>u i. vm_entries s u = Some i \<longrightarrow> i < length (vm_heap s) \<and> en_user (ent s i) = u \<and> vm_byVault s (en_vault (ent s i)) = Some i) \<and>
     (\<forall>v i. vm_byVault s v = Some i \<longrightarrow> i < length (vm_heap s) \<and> en_vault (ent s i) = v \<and> vm_entries s (en_user (ent s i)) = Some i)"

text \<open>The binding an entry was reserved for; its key is erased when it goes.\<close>

definition bound :: "Manager \<Rightarrow> nat \<Rightarrow> string \<times> string \<times> string \<Rightarrow> bool" where
  "bound s i b \<longleftrightarrow> b = (en_user (ent s i), en_vault (ent s i), en_key (ent s i))"

definition leases_ok :: "Manager \<Rightarrow> bool" where
  "leases_ok s \<longleftrightarrow> (\<forall>l\<in>set (vm_leases s). ls_entry l < length (vm_heap s) \<and> (\<not> ls_released l \<longrightarrow> bound s (ls_entry l) (ls_binding l)))"

fun thread_ok :: "Manager \<Rightarrow> vault_thread \<Rightarrow> bool" where
  "thread_ok s (Opening u v k i) = (i < length (vm_heap s) \<and> bound s i (u, v, k))"
| "thread_ok s (Opened u v k i n) = (i < length (vm_heap s) \<and> bound s i (u, v, k))"
| "thread_ok s (WaitReady u v k i) = (i < length (vm_heap s) \<and> (bound s i (u, v, k) \<or> en_openErr (ent s i) \<or> \<not> en_ready (ent s i) \<and> \<not> cur s i))"
| "thread_ok s (Closer c i rest pc) = (i < length (vm_heap s) \<and> (\<forall>j\<in>set rest. j < length (vm_heap s)))"
| "thread_ok s (Restoring i pc) = (i < length (vm_heap s) \<and> (case pc of RRun n \<Rightarrow> en_instance (ent s i) = Some n | _ \<Rightarrow> True))"
| "thread_ok s _ = True"

definition threads_ok :: "Manager \<Rightarrow> bool" where
  "threads_ok s \<longleftrightarrow> (\<forall>t\<in>#vm_threads s. thread_ok s t)"

text \<open>Every open instance is held by its entry or by one goroutine, and the other way round.\<close>

definition entry_holds :: "Manager \<Rightarrow> nat \<Rightarrow> (nat \<times> nat) list" where
  "entry_holds s i = (case en_instance (ent s i) of None \<Rightarrow> [] | Some n \<Rightarrow> [(n, i)])"

definition held :: "Manager \<Rightarrow> (nat \<times> nat) set" where
  "held s = {p. \<exists>i < length (vm_heap s). p \<in> set (entry_holds s i)} \<union> {p. \<exists>t\<in>#vm_threads s. p \<in> set (thread_holds t)}"

definition open_ok :: "Manager \<Rightarrow> bool" where
  "open_ok s \<longleftrightarrow> set (vm_open s) = held s \<and> distinct (map snd (vm_open s)) \<and> (\<forall>p\<in>set (vm_open s). fst p < vm_next s)"

definition vault_inv :: "Manager \<Rightarrow> bool" where
  "vault_inv s \<longleftrightarrow> maps_ok s \<and> entries_ok s \<and> leases_ok s \<and> threads_ok s \<and> open_ok s \<and> \<not> vm_panic s"

section \<open>Frames\<close>

lemma ent_upd [simp]: "i < length (vm_heap s) \<Longrightarrow> ent (upd_ent i f s) j = (if j = i then f (ent s i) else ent s j)"
  by (simp add: ent_def upd_ent_def)

lemma upd_ent_fields [simp]:
  "length (vm_heap (upd_ent i f s)) = length (vm_heap s)" "vm_entries (upd_ent i f s) = vm_entries s"
  "vm_byVault (upd_ent i f s) = vm_byVault s" "vm_closing (upd_ent i f s) = vm_closing s"
  "vm_leases (upd_ent i f s) = vm_leases s" "vm_threads (upd_ent i f s) = vm_threads s"
  "vm_open (upd_ent i f s) = vm_open s" "vm_next (upd_ent i f s) = vm_next s" "vm_panic (upd_ent i f s) = vm_panic s"
  by (simp_all add: upd_ent_def)

lemma panic_if_fields [simp]:
  "vm_heap (panic_if b s) = vm_heap s" "vm_entries (panic_if b s) = vm_entries s"
  "vm_byVault (panic_if b s) = vm_byVault s" "vm_closing (panic_if b s) = vm_closing s"
  "vm_leases (panic_if b s) = vm_leases s" "vm_threads (panic_if b s) = vm_threads s"
  "vm_open (panic_if b s) = vm_open s" "vm_next (panic_if b s) = vm_next s" "vm_panic (panic_if b s) = (vm_panic s \<or> b)"
  "ent (panic_if b s) = ent s" "cur (panic_if b s) = cur s"
  by (simp_all add: panic_if_def ent_def cur_def fun_eq_iff)

lemma put_threads_fields [simp]:
  "vm_heap (put_threads T ts s) = vm_heap s" "vm_entries (put_threads T ts s) = vm_entries s"
  "vm_byVault (put_threads T ts s) = vm_byVault s" "vm_closing (put_threads T ts s) = vm_closing s"
  "vm_leases (put_threads T ts s) = vm_leases s" "vm_threads (put_threads T ts s) = T + mset ts"
  "vm_open (put_threads T ts s) = vm_open s" "vm_next (put_threads T ts s) = vm_next s" "vm_panic (put_threads T ts s) = vm_panic s"
  "ent (put_threads T ts s) = ent s" "cur (put_threads T ts s) = cur s"
  by (simp_all add: put_threads_def ent_def cur_def fun_eq_iff)

lemma ent_frames [simp]:
  "ent (s\<lparr>vm_open := a\<rparr>) = ent s" "ent (s\<lparr>vm_next := b\<rparr>) = ent s" "ent (s\<lparr>vm_leases := c\<rparr>) = ent s"
  "ent (s\<lparr>vm_closing := d\<rparr>) = ent s" "ent (s\<lparr>vm_entries := f\<rparr>) = ent s" "ent (s\<lparr>vm_byVault := g\<rparr>) = ent s"
  "cur (s\<lparr>vm_open := a\<rparr>) = cur s" "cur (s\<lparr>vm_next := b\<rparr>) = cur s" "cur (s\<lparr>vm_leases := c\<rparr>) = cur s"
  "cur (s\<lparr>vm_closing := d\<rparr>) = cur s"
  by (simp_all add: ent_def cur_def fun_eq_iff)

lemma count_where_Cons: "count_where p (x # xs) = (if p x then 1 else 0) + count_where p xs"
  by (simp add: count_where_def)

lemma count_where_snoc: "count_where p (xs @ [x]) = count_where p xs + (if p x then 1 else 0)"
  by (simp add: count_where_def)

lemma count_where_update:
  "l < length xs \<Longrightarrow> count_where p (xs[l := y]) + (if p (xs ! l) then 1 else 0) = count_where p xs + (if p y then 1 else 0)"
proof (induction xs arbitrary: l)
  case (Cons x xs)
  then show ?case by (cases l) (auto simp: count_where_Cons split: if_splits)
qed simp

lemma filter_conj_length: "length (filter (\<lambda>x. p x \<and> q x \<and> r x) xs) \<le> length (filter (\<lambda>x. p x \<and> q x) xs)"
  by (induction xs) auto

lemma threads_pos: "t \<in># vm_threads s \<Longrightarrow> p t \<Longrightarrow> threads p s > 0"
  by (metis count_filter_mset count_greater_zero_iff empty_iff nonempty_has_size set_mset_empty threads_def)

lemma entries_okD:
  assumes "vault_inv s" and "i < length (vm_heap s)"
  shows "entry_ok (ent s i) (cur s i) (vm_closing s) (live_leases s i) (live_roots s i)
     (threads (is_opener i) s) (threads (is_destroyer i) s) (threads (is_restorer i) s) (threads (is_sole i) s)"
  using assms by (simp add: vault_inv_def entries_ok_def)

text \<open>The parts of an entry that goroutines rely on across critical sections.\<close>

definition same_core :: "entry \<Rightarrow> entry \<Rightarrow> bool" where
  "same_core e e' \<longleftrightarrow> en_user e' = en_user e \<and> en_vault e' = en_vault e \<and> en_key e' = en_key e \<and>
     en_instance e' = en_instance e \<and> en_ready e' = en_ready e \<and> en_openErr e' = en_openErr e"

definition thread_holdings :: "vault_thread multiset \<Rightarrow> (nat \<times> nat) set" where
  "thread_holdings T = {p. \<exists>t\<in>#T. p \<in> set (thread_holds t)}"

lemma thread_holdings_simps [simp]:
  "thread_holdings {#} = {}" "thread_holdings (add_mset t T) = set (thread_holds t) \<union> thread_holdings T"
  "thread_holdings (T + U) = thread_holdings T \<union> thread_holdings U"
  by (auto simp: thread_holdings_def)

lemma held_eq: "held s = {p. \<exists>i < length (vm_heap s). p \<in> set (entry_holds s i)} \<union> thread_holdings (vm_threads s)"
  by (simp add: held_def thread_holdings_def)

lemma maps_okD:
  "maps_ok s \<Longrightarrow> vm_entries s u = Some i \<Longrightarrow> i < length (vm_heap s) \<and> en_user (ent s i) = u \<and> vm_byVault s (en_vault (ent s i)) = Some i"
  "maps_ok s \<Longrightarrow> vm_byVault s v = Some i \<Longrightarrow> i < length (vm_heap s) \<and> en_vault (ent s i) = v \<and> vm_entries s (en_user (ent s i)) = Some i"
  unfolding maps_ok_def by blast+

lemma maps_frame:
  assumes m: "maps_ok s" and len: "length (vm_heap s') = length (vm_heap s)"
    and same: "vm_entries s' = vm_entries s" "vm_byVault s' = vm_byVault s"
    and fld: "\<And>j. j < length (vm_heap s) \<Longrightarrow> en_user (ent s' j) = en_user (ent s j)"
      "\<And>j. j < length (vm_heap s) \<Longrightarrow> en_vault (ent s' j) = en_vault (ent s j)"
  shows "maps_ok s'"
  unfolding maps_ok_def same len
proof (intro conjI allI impI)
  fix u i assume "vm_entries s u = Some i"
  note d = maps_okD(1)[OF m this]
  then show "i < length (vm_heap s)" "en_user (ent s' i) = u" "vm_byVault s (en_vault (ent s' i)) = Some i"
    using fld by simp_all
next
  fix v i assume "vm_byVault s v = Some i"
  note d = maps_okD(2)[OF m this]
  then show "i < length (vm_heap s)" "en_vault (ent s' i) = v" "vm_entries s (en_user (ent s' i)) = Some i"
    using fld by simp_all
qed

text \<open>A step that changes the bookkeeping of one entry, the leases and the goroutines, but no map, file or key.\<close>

lemma bookkeeping_step:
  assumes inv: "vault_inv s" and i: "i < length (vm_heap s)"
    and heap: "vm_heap s' = (vm_heap s)[i := e']" and core: "same_core (ent s i) e'"
    and same: "vm_entries s' = vm_entries s" "vm_byVault s' = vm_byVault s" "vm_closing s' = vm_closing s"
      "vm_open s' = vm_open s" "vm_next s' = vm_next s" "\<not> vm_panic s'"
    and leases: "\<And>l. l \<in> set (vm_leases s') \<Longrightarrow> ls_released l \<and> ls_entry l < length (vm_heap s) \<or> l \<in> set (vm_leases s) \<or>
      ls_entry l < length (vm_heap s) \<and> bound s (ls_entry l) (ls_binding l)"
    and new: "\<And>t. t \<in># vm_threads s' \<Longrightarrow> t \<in># vm_threads s \<or> thread_ok s t"
    and holds: "thread_holdings (vm_threads s') = thread_holdings (vm_threads s)"
    and others: "\<And>j. j \<noteq> i \<Longrightarrow> j < length (vm_heap s) \<Longrightarrow> live_leases s' j = live_leases s j \<and> live_roots s' j = live_roots s j \<and>
      threads (is_opener j) s' = threads (is_opener j) s \<and> threads (is_destroyer j) s' = threads (is_destroyer j) s \<and>
      threads (is_restorer j) s' = threads (is_restorer j) s \<and> threads (is_sole j) s' = threads (is_sole j) s"
    and mine: "entry_ok e' (cur s i) (vm_closing s) (live_leases s' i) (live_roots s' i)
     (threads (is_opener i) s') (threads (is_destroyer i) s') (threads (is_restorer i) s') (threads (is_sole i) s')"
  shows "vault_inv s'"
proof -
  have len: "length (vm_heap s') = length (vm_heap s)" by (simp add: heap)
  have e: "ent s' j = (if j = i then e' else ent s j)" if "j < length (vm_heap s)" for j
    using that by (simp add: ent_def heap)
  have fld: "en_user (ent s' j) = en_user (ent s j)" "en_vault (ent s' j) = en_vault (ent s j)" "en_key (ent s' j) = en_key (ent s j)"
    "en_instance (ent s' j) = en_instance (ent s j)" "en_ready (ent s' j) = en_ready (ent s j)" "en_openErr (ent s' j) = en_openErr (ent s j)"
    if "j < length (vm_heap s)" for j using core e[OF that] by (auto simp: same_core_def)
  have c: "cur s' j = cur s j" if "j < length (vm_heap s)" for j using fld[OF that] same by (simp add: cur_def)
  have b: "bound s' j x = bound s j x" if "j < length (vm_heap s)" for j x using fld[OF that] by (simp add: bound_def)
  have m: "maps_ok s" using inv by (simp add: vault_inv_def)
  have "maps_ok s'" using maps_frame[OF m len same(1,2)] fld by simp
  moreover have "entries_ok s'" unfolding entries_ok_def len same
    using others mine e c entries_okD[OF inv] by (auto simp: i)
  moreover have "leases_ok s'" unfolding leases_ok_def len
  proof
    fix l assume l: "l \<in> set (vm_leases s')"
    have "\<forall>l\<in>set (vm_leases s). ls_entry l < length (vm_heap s) \<and> (\<not> ls_released l \<longrightarrow> bound s (ls_entry l) (ls_binding l))"
      using inv by (simp add: vault_inv_def leases_ok_def)
    then show "ls_entry l < length (vm_heap s) \<and> (\<not> ls_released l \<longrightarrow> bound s' (ls_entry l) (ls_binding l))"
      using leases[OF l] b by blast
  qed
  moreover have tk: "thread_ok s' t" if "thread_ok s t" for t
    using that by (cases t) (auto simp: len b fld c split: restore_pc.splits)
  have "threads_ok s'" using new tk inv unfolding threads_ok_def vault_inv_def by blast
  moreover have "held s' = held s" unfolding held_eq len holds
    by (rule arg_cong2[where f="(\<union>)"]) (auto simp: entry_holds_def fld)
  then have "open_ok s'" using inv by (simp add: vault_inv_def open_ok_def same)
  ultimately show ?thesis using same by (simp add: vault_inv_def)
qed

section \<open>Goroutines that only look\<close>

fun quiet :: "vault_thread \<Rightarrow> bool" where
  "quiet (Opening _ _ _ _) = False"
| "quiet (Opened _ _ _ _ _) = False"
| "quiet (Restoring _ _) = False"
| "quiet (Closer _ _ _ (Destroy _)) = False"
| "quiet (Closer _ _ _ (Publish _)) = False"
| "quiet _ = True"

lemma quiet_simps:
  assumes "quiet t"
  shows "\<not> is_opener i t" "\<not> is_destroyer i t" "\<not> is_restorer i t" "\<not> is_sole i t" "thread_holds t = []"
  using assms by (cases t rule: quiet.cases; simp)+

lemma quiet_msets:
  assumes "\<forall>t\<in>#M. quiet t"
  shows "filter_mset (is_opener i) M = {#}" "filter_mset (is_destroyer i) M = {#}" "filter_mset (is_restorer i) M = {#}"
    "filter_mset (is_sole i) M = {#}" "thread_holdings M = {}"
  using assms by (auto simp: filter_mset_eq_conv quiet_simps thread_holdings_def)

lemma threads_put: "threads p (put_threads T ts s) = size (filter_mset p T) + size (filter_mset p (mset ts))"
  by (simp add: threads_def)

lemma threads_put_all: "threads p (put_threads (vm_threads s) ts s') = threads p s + size (filter_mset p (mset ts))"
  by (simp add: threads_def)

lemma threads_split: "vm_threads s = M + T \<Longrightarrow> threads p s = size (filter_mset p M) + size (filter_mset p T)"
  by (simp add: threads_def)

lemma put_threads_counts [simp]:
  "live_leases (put_threads T ts s) = live_leases s" "live_roots (put_threads T ts s) = live_roots s"
  by (simp_all add: live_leases_def live_roots_def fun_eq_iff)

lemma soles_restorers: "threads (is_sole i) s \<le> threads (is_restorer i) s"
proof -
  have "is_sole i t \<Longrightarrow> is_restorer i t" for t by (cases "(i, t)" rule: is_sole.cases) auto
  then show ?thesis unfolding threads_def by (intro size_mset_mono filter_mset_mono_strong) auto
qed

lemma quiet_step:
  assumes inv: "vault_inv s" and T: "vm_threads s = M + T" and M: "\<forall>t\<in>#M. quiet t"
    and ts: "\<And>t. t \<in> set ts \<Longrightarrow> quiet t \<and> thread_ok s t"
  shows "vault_inv (put_threads T ts s)"
proof -
  have q: "\<forall>t\<in>#mset ts. quiet t" using ts by simp
  note n = quiet_msets[OF M] quiet_msets[OF q]
  have tk: "thread_ok (put_threads T ts s) t = thread_ok s t" for t
    by (cases t) (simp_all add: bound_def split: restore_pc.splits)
  have "threads_ok (put_threads T ts s)" using inv ts by (auto simp: vault_inv_def threads_ok_def T tk)
  moreover have "held (put_threads T ts s) = held s" by (simp add: held_eq entry_holds_def T n)
  moreover have "entries_ok (put_threads T ts s)"
    using inv by (simp add: vault_inv_def entries_ok_def threads_put threads_split[OF T] n)
  ultimately show ?thesis using inv
    by (simp add: vault_inv_def maps_ok_def leases_ok_def bound_def open_ok_def)
qed

section \<open>Granting references\<close>

lemma revive_eq:
  assumes "i < length (vm_heap s)"
  shows "revive i s = panic_if (en_auto (ent s i) \<and> en_retired (ent s i) = None)
    (upd_ent i (\<lambda>e. if en_auto e then e\<lparr>en_draining := False, en_auto := False, en_retired := None\<rparr> else e) s)"
  using assms by (simp add: revive_def panic_if_def upd_ent_def ent_def)

lemma grant_step:
  assumes inv: "vault_inv s" and T: "vm_threads s = M + T" and M: "\<forall>t\<in>#M. quiet t"
    and ts: "\<And>t. t \<in> set ts \<Longrightarrow> quiet t \<and> thread_ok s t"
    and i: "i < length (vm_heap s)" and ok: "cur s i" "\<not> en_ready (ent s i)" "en_instance (ent s i) \<noteq> None" "en_closing (ent s i) = NoSignal" "\<not> vm_closing s"
    and dr: "en_draining (ent s i) \<Longrightarrow> en_auto (ent s i) \<and> root" and b: "bound s i b"
  shows "vault_inv (put_threads T ts (grant i root b (revive i s)))"
proof -
  have q: "\<forall>t\<in>#mset ts. quiet t" using ts by simp
  note n = quiet_msets[OF M] quiet_msets[OF q]
  note e = entries_okD[OF inv i]
  let ?rev = "\<lambda>e. if en_auto e then e\<lparr>en_draining := False, en_auto := False, en_retired := None\<rparr> else e"
  let ?e' = "addReferenceLocked root (?rev (ent s i))"
  let ?s' = "put_threads T ts (grant i root b (revive i s))"
  have np: "\<not> (en_auto (ent s i) \<and> en_retired (ent s i) = None)" using e ok by (auto simp: entry_ok_def)
  have heap: "vm_heap ?s' = (vm_heap s)[i := ?e']" using i
    by (simp add: grant_def Let_def revive_eq upd_ent_def ent_def)
  have L: "vm_leases ?s' = vm_leases s @ [\<lparr>ls_entry = i, ls_root = root, ls_released = False, ls_binding = b\<rparr>]"
    using i by (simp add: grant_def Let_def revive_eq)
  have cnt: "threads p ?s' = threads p s" if "size (filter_mset p M) = size (filter_mset p (mset ts))" for p
    using that by (simp add: threads_put threads_split[OF T])
  show ?thesis
  proof (rule bookkeeping_step[OF inv i heap])
    show "same_core (ent s i) ?e'" by (simp add: same_core_def addReferenceLocked_def)
    show "\<not> vm_panic ?s'" using inv i np by (simp add: grant_def Let_def revive_eq vault_inv_def)
    fix l assume "l \<in> set (vm_leases ?s')"
    then show "ls_released l \<and> ls_entry l < length (vm_heap s) \<or> l \<in> set (vm_leases s) \<or>
        ls_entry l < length (vm_heap s) \<and> bound s (ls_entry l) (ls_binding l)"
      using i b unfolding L by auto
  next
    show "thread_holdings (vm_threads ?s') = thread_holdings (vm_threads s)" using n by (simp add: T)
    have "threads (is_restorer i) s = 0 \<or> \<not> en_auto (ent s i) \<and> en_draining (ent s i)" using e by (auto simp: entry_ok_def)
    then have rs: "threads (is_restorer i) s = 0" "threads (is_sole i) s = 0" using dr soles_restorers[of i s] by auto
    have ll: "live_leases ?s' i = Suc (live_leases s i)" "live_roots ?s' i = live_roots s i + (if root then 1 else 0)"
      unfolding live_leases_def live_roots_def L by (simp_all add: count_where_snoc)
    show "entry_ok ?e' (cur s i) (vm_closing s) (live_leases ?s' i) (live_roots ?s' i)
      (threads (is_opener i) ?s') (threads (is_destroyer i) ?s') (threads (is_restorer i) ?s') (threads (is_sole i) ?s')"
      unfolding ll using e ok dr rs by (auto simp: cnt n entry_ok_def addReferenceLocked_def)
  next
    fix j assume "j \<noteq> i"
    then have "live_leases ?s' j = live_leases s j" "live_roots ?s' j = live_roots s j"
      unfolding live_leases_def live_roots_def L by (simp_all add: count_where_snoc)
    then show "live_leases ?s' j = live_leases s j \<and> live_roots ?s' j = live_roots s j \<and>
      threads (is_opener j) ?s' = threads (is_opener j) s \<and> threads (is_destroyer j) ?s' = threads (is_destroyer j) s \<and>
      threads (is_restorer j) ?s' = threads (is_restorer j) s \<and> threads (is_sole j) ?s' = threads (is_sole j) s"
      by (intro conjI cnt) (simp_all add: n)
  qed (use i ts in \<open>auto simp: grant_def Let_def revive_eq T\<close>)
qed

section \<open>Giving references back\<close>

lemma drop_reference_core: "same_core e (drop_reference root e)"
  by (simp add: same_core_def drop_reference_def Let_def)

text \<open>One reference fewer, from a lease or from a restorer.\<close>

lemma drop_reference_ok:
  assumes "entry_ok e c m leases roots openers destroyers restorers soles" and "en_refs e > 0"
    and "leases + restorers = Suc (leases' + restorers')" "roots = roots' + (if root then 1 else 0)"
    and "restorers' \<le> restorers" "soles' \<le> restorers'" "soles' \<le> soles"
  shows "entry_ok (drop_reference root e) c m leases' roots' openers destroyers restorers' soles'"
  using assms by (auto simp: entry_ok_def drop_reference_def Let_def)

text \<open>A step that drops one reference of entry \<open>i\<close>, with what happens to the leases and goroutines left open.\<close>

lemma release_step:
  assumes inv: "vault_inv s" and i: "i < length (vm_heap s)" and pos: "en_refs (ent s i) > 0"
    and run: "release_reference i root s0 = (ts, s1)"
    and s0: "s0 = s\<lparr>vm_leases := L\<rparr>" and s': "s' = put_threads T ts' s1"
    and L: "\<And>l. l \<in> set L \<Longrightarrow> ls_released l \<and> ls_entry l < length (vm_heap s) \<or> l \<in> set (vm_leases s)"
    and T: "vm_threads s = M + T" and M: "thread_holdings M = {}"
    and ts': "mset ts' = mset ts + mset us" and us: "\<And>t. t \<in> set us \<Longrightarrow> quiet t \<and> thread_ok s t"
    and cnt: "\<And>j. filter_mset (is_opener j) M = {#}" "\<And>j. filter_mset (is_destroyer j) M = {#}"
    and other: "\<And>j. j \<noteq> i \<Longrightarrow> live_leases s0 j = live_leases s j \<and> live_roots s0 j = live_roots s j \<and>
      filter_mset (is_restorer j) M = {#} \<and> filter_mset (is_sole j) M = {#}"
    and refs: "live_leases s i + size (filter_mset (is_restorer i) M) = Suc (live_leases s0 i)"
      "live_roots s i = live_roots s0 i + (if root then 1 else 0)"
  shows "vault_inv s'"
proof -
  note e = entries_okD[OF inv i]
  have cur: "cur s0 i = cur s i" "ent s0 i = ent s i" unfolding s0 by (simp_all add: cur_def ent_def)
  have c: "cur s i" and io: "en_idle_open (ent s i)" using e pos by (auto simp: entry_ok_def)
  have s1: "s1 = panic_if (en_refs (drop_reference root (ent s i)) = 0 \<and> \<not> en_idle_open (ent s i)) (upd_ent i (drop_reference root) s0)"
    and tsq: "\<And>t. t \<in> set ts \<Longrightarrow> quiet t \<and> thread_ok s t"
    using run c pos i by (auto simp: release_reference_def cur Let_def split: if_splits)
  have q: "\<forall>t\<in>#mset ts'. quiet t" using tsq us unfolding ts' by auto
  note n = quiet_msets[OF q]
  have th: "threads p s' = threads p s - size (filter_mset p M)" if "filter_mset p (mset ts') = {#}" for p
    using that by (simp add: s' threads_put threads_split[OF T])
  have rs: "threads (is_restorer i) s = size (filter_mset (is_restorer i) M) + threads (is_restorer i) s'"
    using n by (simp add: s' threads_put threads_split[OF T])
  have ll: "live_leases s' = live_leases s0" "live_roots s' = live_roots s0"
    unfolding live_leases_def live_roots_def s' s1 by simp_all
  show ?thesis
  proof (rule bookkeeping_step[OF inv i, where e' = "drop_reference root (ent s i)"])
    show "vm_heap s' = (vm_heap s)[i := drop_reference root (ent s i)]"
      by (simp add: s' s1 s0 upd_ent_def ent_def)
    show "same_core (ent s i) (drop_reference root (ent s i))" by (rule drop_reference_core)
    show "\<not> vm_panic s'" using inv io by (simp add: s' s1 s0 vault_inv_def)
    show "thread_holdings (vm_threads s') = thread_holdings (vm_threads s)" using n by (simp add: s' T M)
    show "entry_ok (drop_reference root (ent s i)) (cur s i) (vm_closing s) (live_leases s' i) (live_roots s' i)
      (threads (is_opener i) s') (threads (is_destroyer i) s') (threads (is_restorer i) s') (threads (is_sole i) s')"
      unfolding th[OF n(1)] th[OF n(2)] cnt
      by (simp, rule drop_reference_ok[OF e pos]) (use refs rs soles_restorers[of i s'] in \<open>simp_all add: ll th n\<close>)
  next
    fix j assume "j \<noteq> i"
    then show "live_leases s' j = live_leases s j \<and> live_roots s' j = live_roots s j \<and>
      threads (is_opener j) s' = threads (is_opener j) s \<and> threads (is_destroyer j) s' = threads (is_destroyer j) s \<and>
      threads (is_restorer j) s' = threads (is_restorer j) s \<and> threads (is_sole j) s' = threads (is_sole j) s"
      using other[OF \<open>j \<noteq> i\<close>] by (simp only: ll th n cnt size_empty diff_zero simp_thms)
  qed (use L us tsq in \<open>auto simp: s' s1 s0 T ts'\<close>)
qed

section \<open>Steps on one entry without leases\<close>

lemma entry_step:
  assumes inv: "vault_inv s" and i: "i < length (vm_heap s)" and T: "vm_threads s = M + T"
    and core: "same_core (ent s i) (f (ent s i))" and new: "\<And>t. t \<in> set ts \<Longrightarrow> thread_ok s t"
    and holds: "thread_holdings (mset ts) = thread_holdings M"
    and others: "\<And>j. j \<noteq> i \<Longrightarrow> size (filter_mset (is_opener j) M) = size (filter_mset (is_opener j) (mset ts)) \<and>
      size (filter_mset (is_destroyer j) M) = size (filter_mset (is_destroyer j) (mset ts)) \<and>
      size (filter_mset (is_restorer j) M) = size (filter_mset (is_restorer j) (mset ts)) \<and>
      size (filter_mset (is_sole j) M) = size (filter_mset (is_sole j) (mset ts))"
    and mine: "entry_ok (f (ent s i)) (cur s i) (vm_closing s) (live_leases s i) (live_roots s i)
      (threads (is_opener i) (put_threads T ts s)) (threads (is_destroyer i) (put_threads T ts s))
      (threads (is_restorer i) (put_threads T ts s)) (threads (is_sole i) (put_threads T ts s))"
  shows "vault_inv (put_threads T ts (upd_ent i f s))"
proof -
  let ?s' = "put_threads T ts (upd_ent i f s)"
  have ll: "live_leases ?s' = live_leases s" "live_roots ?s' = live_roots s"
    unfolding live_leases_def live_roots_def by simp_all
  have th: "threads p ?s' = threads p (put_threads T ts s)" for p by (simp add: threads_def)
  show ?thesis
  proof (rule bookkeeping_step[OF inv i, where e' = "f (ent s i)"])
    show "vm_heap ?s' = (vm_heap s)[i := f (ent s i)]" by (simp add: upd_ent_def ent_def)
    show "\<not> vm_panic ?s'" using inv by (simp add: vault_inv_def)
    show "entry_ok (f (ent s i)) (cur s i) (vm_closing s) (live_leases ?s' i) (live_roots ?s' i)
      (threads (is_opener i) ?s') (threads (is_destroyer i) ?s') (threads (is_restorer i) ?s') (threads (is_sole i) ?s')"
      unfolding ll th by (rule mine)
    fix j assume "j \<noteq> i"
    then show "live_leases ?s' j = live_leases s j \<and> live_roots ?s' j = live_roots s j \<and>
      threads (is_opener j) ?s' = threads (is_opener j) s \<and> threads (is_destroyer j) ?s' = threads (is_destroyer j) s \<and>
      threads (is_restorer j) ?s' = threads (is_restorer j) s \<and> threads (is_sole j) ?s' = threads (is_sole j) s"
      unfolding ll th threads_put threads_split[OF T] using others by simp
  qed (use core new holds in \<open>auto simp: T\<close>)
qed

lemma drain_step:
  assumes inv: "vault_inv s" and i: "i < length (vm_heap s)"
  shows "vault_inv (put_threads (vm_threads s) [Closer c i [] Top] (upd_ent i start_drain s))"
proof (rule entry_step[OF inv i, where M = "{#}"])
  show "entry_ok (start_drain (ent s i)) (cur s i) (vm_closing s) (live_leases s i) (live_roots s i)
      (threads (is_opener i) (put_threads (vm_threads s) [Closer c i [] Top] s)) (threads (is_destroyer i) (put_threads (vm_threads s) [Closer c i [] Top] s))
      (threads (is_restorer i) (put_threads (vm_threads s) [Closer c i [] Top] s)) (threads (is_sole i) (put_threads (vm_threads s) [Closer c i [] Top] s))"
    using entries_okD[OF inv i] by (auto simp: threads_put_all entry_ok_def start_drain_def)
qed (use i in \<open>auto simp: same_core_def start_drain_def\<close>)

lemma begin_restore_step:
  assumes inv: "vault_inv s" and run: "BeginRestore l s = (Inr t, s')"
  shows "vault_inv (put_threads (vm_threads s) [t] s')"
proof -
  let ?i = "ls_entry (lease s l)"
  have ok: "\<not> vm_closing s" "cur s ?i" "\<not> en_ready (ent s ?i)" "en_instance (ent s ?i) \<noteq> None" "\<not> en_draining (ent s ?i)"
    and l: "l < length (vm_leases s)"
    and t: "t = Restoring ?i RTop" and s': "s' = upd_ent ?i (\<lambda>e. addReferenceLocked False (e\<lparr>en_draining := True\<rparr>)) s"
    using run by (auto simp: BeginRestore_def Let_def root_live_def split: if_splits)
  have i: "?i < length (vm_heap s)" using inv l by (auto simp: vault_inv_def leases_ok_def lease_def)
  have rs: "threads (is_restorer ?i) s = 0" "threads (is_sole ?i) s = 0"
    using entries_okD[OF inv i] ok soles_restorers[of ?i s] by (auto simp: entry_ok_def)
  show ?thesis unfolding s' t
  proof (rule entry_step[OF inv i, where M = "{#}"])
    let ?s' = "put_threads (vm_threads s) [Restoring ?i RTop] s"
    show "entry_ok (addReferenceLocked False (ent s ?i\<lparr>en_draining := True\<rparr>)) (cur s ?i) (vm_closing s) (live_leases s ?i) (live_roots s ?i)
      (threads (is_opener ?i) ?s') (threads (is_destroyer ?i) ?s') (threads (is_restorer ?i) ?s') (threads (is_sole ?i) ?s')"
      using entries_okD[OF inv i] ok rs by (cases "en_closing (ent s ?i)") (auto simp: threads_put_all entry_ok_def addReferenceLocked_def)
  qed (use i in \<open>auto simp: same_core_def addReferenceLocked_def\<close>)
qed

lemma restorer_entry:
  assumes inv: "vault_inv s" and t: "Restoring i pc \<in># vm_threads s"
  shows "i < length (vm_heap s) \<and> cur s i \<and> en_refs (ent s i) > 0 \<and> en_draining (ent s i) \<and> \<not> en_auto (ent s i)"
proof -
  have i: "i < length (vm_heap s)" using inv t by (auto simp: vault_inv_def threads_ok_def)
  have "threads (is_restorer i) s > 0" by (rule threads_pos[OF t]) simp
  then show ?thesis using entries_okD[OF inv i] i by (auto simp: entry_ok_def)
qed

lemma entry_ok_sole:
  assumes "entry_ok e c m leases roots openers destroyers restorers soles" and "soles' > 0 \<Longrightarrow> en_refs e = 1"
  shows "entry_ok e c m leases roots openers destroyers restorers soles'"
  using assms unfolding entry_ok_def by blast

lemma restore_pc_step:
  assumes inv: "vault_inv s" and T: "vm_threads s = add_mset (Restoring i pc) T"
    and ok: "thread_ok s (Restoring i pc')" and sole: "is_sole i (Restoring i pc') \<Longrightarrow> en_refs (ent s i) = 1"
  shows "vault_inv (put_threads T [Restoring i pc'] s)"
proof -
  have i: "i < length (vm_heap s)" using restorer_entry[OF inv, of i pc] T by simp
  have upd: "upd_ent i (\<lambda>e. e) s = s" by (simp add: upd_ent_def)
  have pcs: "size (filter_mset (is_sole i) T) \<le> threads (is_sole i) s" using T by (simp add: threads_def)
  have "vault_inv (put_threads T [Restoring i pc'] (upd_ent i (\<lambda>e. e) s))"
  proof (rule entry_step[OF inv i, where M = "{#Restoring i pc#}"])
    let ?s' = "put_threads T [Restoring i pc'] s"
    note e = entries_okD[OF inv i]
    have o: "threads (is_opener i) ?s' = threads (is_opener i) s" "threads (is_destroyer i) ?s' = threads (is_destroyer i) s"
      "threads (is_restorer i) ?s' = threads (is_restorer i) s" by (simp_all add: threads_put threads_def T)
    have "en_refs (ent s i) = 1" if "threads (is_sole i) ?s' > 0"
    proof (cases "is_sole i (Restoring i pc')")
      case False
      then have "threads (is_sole i) s > 0" using that pcs by (simp add: threads_put)
      then show ?thesis using e by (simp add: entry_ok_def)
    qed (rule sole)
    then show "entry_ok (ent s i) (cur s i) (vm_closing s) (live_leases s i) (live_roots s i)
      (threads (is_opener i) ?s') (threads (is_destroyer i) ?s') (threads (is_restorer i) ?s') (threads (is_sole i) ?s')"
      unfolding o by (rule entry_ok_sole[OF e])
    have "\<not> is_sole j (Restoring i x)" if "j \<noteq> i" for j x using that by (cases x) auto
    then show "\<And>j. j \<noteq> i \<Longrightarrow> size (filter_mset (is_opener j) {#Restoring i pc#}) = size (filter_mset (is_opener j) (mset [Restoring i pc'])) \<and>
      size (filter_mset (is_destroyer j) {#Restoring i pc#}) = size (filter_mset (is_destroyer j) (mset [Restoring i pc'])) \<and>
      size (filter_mset (is_restorer j) {#Restoring i pc#}) = size (filter_mset (is_restorer j) (mset [Restoring i pc'])) \<and>
      size (filter_mset (is_sole j) {#Restoring i pc#}) = size (filter_mset (is_sole j) (mset [Restoring i pc']))" by simp
  qed (use T ok in \<open>simp_all add: same_core_def\<close>)
  then show ?thesis by (simp add: upd)
qed

section \<open>Steps on the file of one entry\<close>

lemma held_at:
  assumes "i < length (vm_heap s)"
  shows "held s = {p. \<exists>j < length (vm_heap s). j \<noteq> i \<and> p \<in> set (entry_holds s j)} \<union> set (entry_holds s i) \<union> thread_holdings (vm_threads s)"
  using assms by (auto simp: held_eq)

lemma holds_kind:
  assumes "p \<in> set (thread_holds t)"
  shows "is_opener (snd p) t \<or> is_destroyer (snd p) t"
  using assms by (cases t rule: thread_holds.cases) auto

lemma no_holdings:
  assumes "size (filter_mset (is_opener i) T) = 0" and "size (filter_mset (is_destroyer i) T) = 0"
  shows "(n, i) \<notin> thread_holdings T"
  using assms holds_kind by (fastforce simp: thread_holdings_def filter_mset_eq_conv)

lemma roots_le: "live_roots s i \<le> live_leases s i"
  unfolding live_roots_def live_leases_def count_where_def by (simp add: filter_conj_length)

text \<open>A step that changes the instance, the key or the readiness of one current entry nobody refers to.\<close>

lemma core_step:
  assumes inv: "vault_inv s" and i: "i < length (vm_heap s)" and c: "cur s i" and idle: "en_refs (ent s i) = 0"
    and heap: "vm_heap s' = (vm_heap s)[i := e']" and id: "en_user e' = en_user (ent s i)" "en_vault e' = en_vault (ent s i)"
    and key: "en_openErr (ent s i) \<longrightarrow> en_openErr e'" "en_key e' = en_key (ent s i) \<or> en_openErr e' \<or> \<not> en_ready e' \<and> \<not> cur s' i"
    and maps: "maps_ok s'" and other_cur: "\<And>j. j \<noteq> i \<Longrightarrow> j < length (vm_heap s) \<Longrightarrow> cur s' j = cur s j"
    and same: "vm_closing s' = vm_closing s" "vm_leases s' = vm_leases s" "\<not> vm_panic s'"
    and T: "vm_threads s = add_mset t T" "vm_threads s' = add_mset t' T" and t': "thread_ok s' t'"
    and op: "size (filter_mset (is_opener i) T) = 0"
    and others: "\<And>j. j \<noteq> i \<Longrightarrow> (is_opener j t \<longleftrightarrow> is_opener j t') \<and> (is_destroyer j t \<longleftrightarrow> is_destroyer j t') \<and>
      (is_restorer j t \<longleftrightarrow> is_restorer j t') \<and> (is_sole j t \<longleftrightarrow> is_sole j t')"
    and opn: "open_ok s'"
    and mine: "entry_ok e' (cur s' i) (vm_closing s) 0 0 (if is_opener i t' then 1 else 0)
      (size (filter_mset (is_destroyer i) T) + (if is_destroyer i t' then 1 else 0)) 0 0"
    and quiet: "\<not> is_restorer i t'" "\<not> is_sole i t'"
  shows "vault_inv s'"
proof -
  note e = entries_okD[OF inv i]
  have zero: "live_leases s i = 0" "threads (is_restorer i) s = 0" "threads (is_sole i) s = 0"
    using e idle soles_restorers[of i s] by (auto simp: entry_ok_def)
  have zr: "live_roots s i = 0" using zero roots_le[of s i] by simp
  have len: "length (vm_heap s') = length (vm_heap s)" by (simp add: heap)
  have en: "ent s' j = (if j = i then e' else ent s j)" if "j < length (vm_heap s)" for j using that by (simp add: ent_def heap)
  have ll: "live_leases s' = live_leases s" "live_roots s' = live_roots s" unfolding live_leases_def live_roots_def same by simp_all
  have zT: "size (filter_mset (is_restorer i) T) = 0" "size (filter_mset (is_sole i) T) = 0"
    using zero by (simp_all add: threads_def T del: size_eq_0_iff_empty split: if_splits)
  have "entries_ok s'" unfolding entries_ok_def len same ll
  proof (intro allI impI)
    fix j assume j: "j < length (vm_heap s)"
    show "entry_ok (ent s' j) (cur s' j) (vm_closing s) (live_leases s j) (live_roots s j)
      (threads (is_opener j) s') (threads (is_destroyer j) s') (threads (is_restorer j) s') (threads (is_sole j) s')"
    proof (cases "j = i")
      case True
      then show ?thesis using mine quiet by (auto simp: en i zero zr threads_def T op zT simp del: size_eq_0_iff_empty split: if_splits)
    next
      case False
      have "threads p s' = threads p s" if "p t = p t'" for p using that by (simp add: threads_def T)
      then show ?thesis using entries_okD[OF inv j] others[OF False] by (simp add: en j False other_cur)
    qed
  qed
  moreover have "leases_ok s'" unfolding leases_ok_def len same
  proof (intro ballI conjI impI)
    fix l assume l: "l \<in> set (vm_leases s)"
    then have lk: "ls_entry l < length (vm_heap s)" "\<not> ls_released l \<longrightarrow> bound s (ls_entry l) (ls_binding l)"
      using inv by (auto simp: vault_inv_def leases_ok_def)
    show "ls_entry l < length (vm_heap s)" by (rule lk)
    assume a: "\<not> ls_released l"
    then have "ls_entry l \<noteq> i" using zero l by (auto simp: live_leases_def count_where_eq_0)
    then show "bound s' (ls_entry l) (ls_binding l)" using lk a by (simp add: bound_def en)
  qed
  moreover have "thread_ok s' x" if x: "x \<in># T" for x
  proof -
    have ok: "thread_ok s x" using inv x by (auto simp: vault_inv_def threads_ok_def T)
    have no: "\<not> is_opener i x" "\<not> is_restorer i x" using op zT x by (auto simp: filter_mset_eq_conv)
    show ?thesis
    proof (cases x)
      case (WaitReady u v k j)
      then show ?thesis using ok key c id i by (cases "j = i") (auto simp: len en bound_def other_cur)
    qed (use ok no in \<open>auto simp: len en bound_def split: restore_pc.splits\<close>)
  qed
  then have "threads_ok s'" using t' by (auto simp: threads_ok_def T)
  ultimately show ?thesis using maps opn same by (simp add: vault_inv_def)
qed

lemma ready_entry:
  assumes "entry_ok e c m leases roots openers destroyers restorers soles" and "en_ready e"
  shows "c" "en_refs e = 0" "en_instance e = None" "\<not> en_auto e" "en_closing e = NoSignal" "\<not> en_openErr e"
    "en_retired e = None" "destroyers = 0" "restorers = 0" "\<not> en_idle_open e" "en_roots e = roots" "leases = 0"
  using assms unfolding entry_ok_def by (blast | simp)+

lemma opener_entry:
  assumes inv: "vault_inv s" and T: "vm_threads s = add_mset t T" and t: "is_opener i t" and ok: "i < length (vm_heap s)"
  shows "cur s i" "en_refs (ent s i) = 0" "en_ready (ent s i)" "en_instance (ent s i) = None" "\<not> en_auto (ent s i)"
    "en_closing (ent s i) = NoSignal" "\<not> en_openErr (ent s i)" "en_retired (ent s i) = None"
    "size (filter_mset (is_opener i) T) = 0" "size (filter_mset (is_destroyer i) T) = 0" "threads (is_restorer i) s = 0"
    "en_roots (ent s i) = 0" "\<not> en_idle_open (ent s i)"
proof -
  note e = entries_okD[OF inv ok]
  have "threads (is_opener i) s = Suc (size (filter_mset (is_opener i) T))" using t by (simp add: threads_def T)
  then have r: "en_ready (ent s i)" "size (filter_mset (is_opener i) T) = 0" using e by (auto simp: entry_ok_def split: if_splits)
  have nd: "\<not> is_destroyer i t" using t by (cases t) auto
  then have "threads (is_destroyer i) s = size (filter_mset (is_destroyer i) T)" by (simp add: threads_def T)
  then show "cur s i" "en_refs (ent s i) = 0" "en_ready (ent s i)" "en_instance (ent s i) = None" "\<not> en_auto (ent s i)"
    "en_closing (ent s i) = NoSignal" "\<not> en_openErr (ent s i)" "en_retired (ent s i) = None"
    "size (filter_mset (is_opener i) T) = 0" "size (filter_mset (is_destroyer i) T) = 0" "threads (is_restorer i) s = 0"
    "en_roots (ent s i) = 0" "\<not> en_idle_open (ent s i)"
    using ready_entry[OF e r(1)] r roots_le[of s i] by simp_all
qed

lemma held_frame:
  assumes i: "i < length (vm_heap s)" and len: "length (vm_heap s') = length (vm_heap s)"
    and same: "\<And>j. j \<noteq> i \<Longrightarrow> j < length (vm_heap s) \<Longrightarrow> en_instance (ent s' j) = en_instance (ent s j)"
    and T: "vm_threads s = add_mset t T" "vm_threads s' = add_mset t' T"
  shows "held s' \<union> set (entry_holds s i) \<union> set (thread_holds t) = held s \<union> set (entry_holds s' i) \<union> set (thread_holds t')"
proof -
  define A where "A = {p. \<exists>j < length (vm_heap s). j \<noteq> i \<and> p \<in> set (entry_holds s j)}"
  have A': "{p. \<exists>j < length (vm_heap s). j \<noteq> i \<and> p \<in> set (entry_holds s' j)} = A"
    using same by (auto simp: A_def entry_holds_def)
  have "held s = A \<union> set (entry_holds s i) \<union> (set (thread_holds t) \<union> thread_holdings T)"
    using held_at[OF i] by (simp add: A_def T)
  moreover have "held s' = A \<union> set (entry_holds s' i) \<union> (set (thread_holds t') \<union> thread_holdings T)"
    using held_at[of i s'] i by (simp add: A' len T)
  ultimately show ?thesis by (simp add: Un_ac)
qed

lemma held_move:
  assumes i: "i < length (vm_heap s)" and len: "length (vm_heap s') = length (vm_heap s)"
    and same: "\<And>j. j \<noteq> i \<Longrightarrow> j < length (vm_heap s) \<Longrightarrow> en_instance (ent s' j) = en_instance (ent s j)"
    and T: "vm_threads s = add_mset t T" "vm_threads s' = add_mset t' T"
    and mv: "set (entry_holds s' i) \<union> set (thread_holds t') = set (entry_holds s i) \<union> set (thread_holds t)"
  shows "held s' = held s"
proof -
  have "set (entry_holds s i) \<union> set (thread_holds t) \<subseteq> held s" using held_at[OF i] by (auto simp: T)
  moreover have "set (entry_holds s' i) \<union> set (thread_holds t') \<subseteq> held s'" using held_at[of i s'] i by (auto simp: T len)
  ultimately show ?thesis using held_frame[OF i len same T] mv by blast
qed

lemma heap_id [simp]: "(vm_heap s)[i := ent s i] = vm_heap s"
  by (simp add: ent_def)

lemma opened_step:
  assumes inv: "vault_inv s" and T: "vm_threads s = add_mset (Opening u v k i) T"
  shows "vault_inv (put_threads T [Opened u v k i (vm_next s)] (s\<lparr>vm_open := (vm_next s, i) # vm_open s, vm_next := vm_next s + 1\<rparr>))"
    (is "vault_inv ?s'")
proof -
  have tk: "thread_ok s (Opening u v k i)" using inv by (simp add: vault_inv_def threads_ok_def T)
  then have i: "i < length (vm_heap s)" by simp
  note o = opener_entry[OF inv T _ i, simplified]
  have e: "ent ?s' = ent s" "cur ?s' = cur s" by simp_all
  have "snd p \<noteq> i" if "p \<in> held s" for p
    using that held_at[OF i] o(4) no_holdings[of i T "fst p"] o(9,10)
    by (cases p) (auto simp: T entry_holds_def split: option.splits)
  then have fresh: "i \<notin> snd ` set (vm_open s)" using inv by (auto simp: vault_inv_def open_ok_def)
  have "held ?s' = insert (vm_next s, i) (held s)"
    using held_frame[OF i, of ?s' "Opening u v k i" T "Opened u v k i (vm_next s)"] o(4) T by (simp add: e entry_holds_def)
  then have opn: "open_ok ?s'" using inv fresh by (fastforce simp: vault_inv_def open_ok_def)
  show ?thesis
  proof (rule core_step[OF inv i o(1,2), where e' = "ent s i"])
    show "maps_ok ?s'" using inv by (simp add: vault_inv_def maps_ok_def e)
    show "thread_ok ?s' (Opened u v k i (vm_next s))" using tk by (simp add: bound_def e)
    show "entry_ok (ent s i) (cur ?s' i) (vm_closing s) 0 0 (if is_opener i (Opened u v k i (vm_next s)) then 1 else 0)
      (size (filter_mset (is_destroyer i) T) + (if is_destroyer i (Opened u v k i (vm_next s)) then 1 else 0)) 0 0"
      using entries_okD[OF inv i] o by (auto simp: entry_ok_def e)
  qed (use inv i T o opn in \<open>auto simp: e ent_def[symmetric] vault_inv_def list_update_id simp flip: ent_def\<close>)
qed

lemma unlink_fields [simp]:
  "vm_heap (unlink i s) = vm_heap s" "vm_closing (unlink i s) = vm_closing s" "vm_leases (unlink i s) = vm_leases s"
  "vm_threads (unlink i s) = vm_threads s" "vm_open (unlink i s) = vm_open s" "vm_next (unlink i s) = vm_next s"
  "vm_panic (unlink i s) = vm_panic s" "ent (unlink i s) = ent s"
  by (simp_all add: unlink_def Let_def)

lemma unlink_cur: "cur (unlink i s) j \<longleftrightarrow> cur s j \<and> j \<noteq> i"
  by (auto simp: cur_def unlink_def Let_def)

lemma unlink_maps: "maps_ok s \<Longrightarrow> cur s i \<Longrightarrow> i < length (vm_heap s) \<Longrightarrow> maps_ok (unlink i s)"
proof -
  assume m: "maps_ok s" and c: "cur s i" and i: "i < length (vm_heap s)"
  have v: "vm_byVault s (en_vault (ent s i)) = Some i" using maps_okD(1)[OF m c[unfolded cur_def]] by simp
  have E: "vm_entries (unlink i s) = (vm_entries s)(en_user (ent s i) := None)"
    and B: "vm_byVault (unlink i s) = (vm_byVault s)(en_vault (ent s i) := None)"
    using c v by (simp_all add: unlink_def Let_def cur_def)
  show ?thesis unfolding maps_ok_def E B unlink_fields
  proof (intro conjI allI impI)
    fix u j assume a: "((vm_entries s)(en_user (ent s i) := None)) u = Some j"
    then have a1: "vm_entries s u = Some j" and "u \<noteq> en_user (ent s i)" by (auto split: if_splits)
    then have d: "j < length (vm_heap s) \<and> en_user (ent s j) = u \<and> vm_byVault s (en_vault (ent s j)) = Some j" "j \<noteq> i"
      using maps_okD(1)[OF m a1] by auto
    show "j < length (vm_heap s)" "en_user (ent s j) = u" using d by simp_all
    show "((vm_byVault s)(en_vault (ent s i) := None)) (en_vault (ent s j)) = Some j" using d v by auto
  next
    fix w j assume a: "((vm_byVault s)(en_vault (ent s i) := None)) w = Some j"
    then have a1: "vm_byVault s w = Some j" and "w \<noteq> en_vault (ent s i)" by (auto split: if_splits)
    then have d: "j < length (vm_heap s) \<and> en_vault (ent s j) = w \<and> vm_entries s (en_user (ent s j)) = Some j" "j \<noteq> i"
      using maps_okD(2)[OF m a1] by auto
    show "j < length (vm_heap s)" "en_vault (ent s j) = w" using d by simp_all
    show "((vm_entries s)(en_user (ent s i) := None)) (en_user (ent s j)) = Some j" using d c by (auto simp: cur_def)
  qed
qed

text \<open>An opener that fails: \<open>opened\<close> are the instances left open.\<close>

lemma open_failed_step:
  assumes inv: "vault_inv s" and T: "vm_threads s = add_mset t T" and t: "is_opener i t" and i: "i < length (vm_heap s)"
    and run: "finishOpening i None True b (s\<lparr>vm_open := opened\<rparr>) = (t', s1)"
    and opened: "set opened = held s - set (thread_holds t)" "distinct (map snd opened)"
    and mine: "\<And>p. p \<in> set (thread_holds t) \<Longrightarrow> snd p = i" and alone: "\<And>j. j \<noteq> i \<Longrightarrow> \<not> is_opener j t"
  shows "vault_inv (put_threads T [t'] s1)"
proof -
  note o = opener_entry[OF inv T t i]
  let ?terminal = "en_draining (ent s i) \<or> vm_closing s"
  let ?e' = "(ent s i)\<lparr>en_instance := None, en_openErr := True, en_ready := False, en_key := zeroFingerprint\<rparr>"
  let ?s' = "put_threads T [t'] s1"
  have te: "?terminal \<longleftrightarrow> en_draining (ent s i)" using entries_okD[OF inv i] o(1) by (auto simp: entry_ok_def)
  have s1: "s1 = upd_ent i (\<lambda>e. e\<lparr>en_key := zeroFingerprint\<rparr>)
      ((if ?terminal then (\<lambda>x. x) else unlink i) (upd_ent i (\<lambda>e. e\<lparr>en_instance := None, en_openErr := True, en_ready := False\<rparr>) (s\<lparr>vm_open := opened\<rparr>)))"
    and t': "t' = (if ?terminal then Closer False i [] Top else Ended (Some ErrOpen))"
    using run by (auto simp: finishOpening_def Let_def)
  have heap: "vm_heap s1 = (vm_heap s)[i := ?e']" using i by (simp add: s1 upd_ent_def ent_def)
  have e: "ent s1 j = (if j = i then ?e' else ent s j)" if "j < length (vm_heap s)" for j
    using that i unfolding ent_def heap by (simp add: nth_list_update)
  let ?m = "upd_ent i (\<lambda>e. e\<lparr>en_instance := None, en_openErr := True, en_ready := False\<rparr>) (s\<lparr>vm_open := opened\<rparr>)"
  have m1: "maps_ok ?m" by (rule maps_frame[of s]) (use inv i in \<open>simp_all add: vault_inv_def\<close>)
  have c1: "cur ?m j = cur s j" for j using i by (cases "j < length (vm_heap s)") (auto simp: cur_def ent_def upd_ent_def nth_list_update)
  have cu: "cur s1 j \<longleftrightarrow> cur ((if ?terminal then (\<lambda>x. x) else unlink i) ?m) j" for j
    using i by (simp add: cur_def s1)
  have maps: "maps_ok ?s'"
  proof (rule maps_frame[of "(if ?terminal then (\<lambda>x. x) else unlink i) ?m"])
    show "maps_ok ((if ?terminal then (\<lambda>x. x) else unlink i) ?m)" using unlink_maps[OF m1] m1 c1 o(1) i by simp
  qed (use i in \<open>simp_all add: s1\<close>)
  have hf: "held ?s' \<union> set (thread_holds t) = held s \<union> set (thread_holds t')"
    using held_frame[OF i _ _ T, of ?s' t'] o(4) by (simp add: heap e entry_holds_def i)
  have nt': "thread_holds t' = []" by (simp add: t')
  have "p \<notin> held ?s'" if "p \<in> set (thread_holds t)" for p
    using mine[OF that] held_at[of i ?s'] i no_holdings[OF o(9,10)] nt'
    by (cases p) (auto simp: heap e entry_holds_def split: option.splits)
  then have hs: "held ?s' = set opened" using hf nt' opened(1) by auto
  have opn: "open_ok ?s'" unfolding open_ok_def hs using inv opened by (auto simp: s1 vault_inv_def open_ok_def)
  show ?thesis
  proof (rule core_step[OF inv i o(1,2), where e' = ?e'])
    show "cur ?s' j = cur s j" if "j \<noteq> i" for j using that by (simp add: cu unlink_cur c1)
    show "thread_ok ?s' t'" using i by (simp add: t' heap)
    have "cur ?s' i \<longleftrightarrow> ?terminal" using o(1) by (simp add: cu unlink_cur c1)
    then show "entry_ok ?e' (cur ?s' i) (vm_closing s) 0 0 (if is_opener i t' then 1 else 0)
      (size (filter_mset (is_destroyer i) T) + (if is_destroyer i t' then 1 else 0)) 0 0"
      using o te by (auto simp: entry_ok_def t')
    have "is_opener j t \<longleftrightarrow> False" "is_destroyer j t \<longleftrightarrow> False" "is_restorer j t \<longleftrightarrow> False" "is_sole j t \<longleftrightarrow> False" if "j \<noteq> i" for j
      using t alone[OF that] by (cases t; simp)+
    then show "(is_opener j t \<longleftrightarrow> is_opener j t') \<and> (is_destroyer j t \<longleftrightarrow> is_destroyer j t') \<and>
      (is_restorer j t \<longleftrightarrow> is_restorer j t') \<and> (is_sole j t \<longleftrightarrow> is_sole j t')" if "j \<noteq> i" for j using that by (simp add: t')
    show "vm_heap ?s' = (vm_heap s)[i := ?e']" by (simp add: heap)
  qed (use inv i T o opn maps in \<open>auto simp: s1 t' vault_inv_def\<close>)
qed

text \<open>An opener that succeeds while nobody drains: the entry appears as if it had been retiring and the opener
  adopted it.\<close>

lemma accepted_step:
  assumes inv: "vault_inv s" and T: "vm_threads s = add_mset (Opened u v k i n) T"
    and run: "finishOpening i (Some n) False (u, v, k) s = (t', s1)"
  shows "vault_inv (put_threads T [t'] s1)"
proof -
  have tk: "thread_ok s (Opened u v k i n)" using inv by (simp add: vault_inv_def threads_ok_def T)
  then have i: "i < length (vm_heap s)" and b: "bound s i (u, v, k)" by simp_all
  note o = opener_entry[OF inv T _ i, simplified]
  note e = entries_okD[OF inv i]
  let ?terminal = "vm_closing s \<or> en_draining (ent s i)"
  let ?e' = "if ?terminal then (ent s i)\<lparr>en_instance := Some n, en_openErr := False, en_ready := False\<rparr>
    else (ent s i)\<lparr>en_instance := Some n, en_openErr := False, en_ready := False, en_draining := True, en_auto := True, en_retired := Some 0\<rparr>"
  let ?t = "if ?terminal then Closer False i [] Top else Ended None"
  let ?s2 = "put_threads T [?t] (upd_ent i (\<lambda>_. ?e') s)"
  have c2: "cur ?s2 j = cur s j" for j using i by (auto simp: cur_def)
  have hf: "held ?s2 = held s"
    by (rule held_move[OF i _ _ T, where t' = ?t]) (use i o(4) in \<open>auto simp: entry_holds_def\<close>)
  have mid: "vault_inv ?s2"
  proof (rule core_step[OF inv i o(1,2), where e' = ?e' and t' = ?t and t = "Opened u v k i n" and T = T])
    show "vm_heap ?s2 = (vm_heap s)[i := ?e']" by (simp add: upd_ent_def)
    show "maps_ok ?s2" by (rule maps_frame[of s]) (use inv i in \<open>simp_all add: vault_inv_def\<close>)
    show "open_ok ?s2" unfolding open_ok_def hf using inv by (simp add: vault_inv_def open_ok_def)
    show "thread_ok ?s2 ?t" using i by simp
    show "entry_ok ?e' (cur ?s2 i) (vm_closing s) 0 0 (if is_opener i ?t then 1 else 0)
      (size (filter_mset (is_destroyer i) T) + (if is_destroyer i ?t then 1 else 0)) 0 0"
      unfolding c2 using o e by (auto simp: entry_ok_def)
    show "cur ?s2 j = cur s j" for j by (rule c2)
  qed (use inv T o in \<open>auto simp: vault_inv_def\<close>)
  show ?thesis
  proof (cases ?terminal)
    case True
    have "s1 = upd_ent i (\<lambda>_. ?e') s" "t' = ?t"
      using run True o(7) by (auto simp: finishOpening_def Let_def upd_ent_def ent_def)
    then show ?thesis using mid by simp
  next
    case False
    have "vault_inv (put_threads T [Ended None] (grant i True (u, v, k) (revive i ?s2)))"
    proof (rule grant_step[OF mid, where M = "{#?t#}"])
      show "cur ?s2 i" unfolding c2 by (rule o(1))
    qed (use False i b o in \<open>auto simp: bound_def\<close>)
    moreover have "put_threads T [Ended None] (grant i True (u, v, k) (revive i ?s2)) = put_threads T [t'] s1"
      using run False o i
      by (cases "vm_heap s ! i") (auto simp: finishOpening_def Let_def grant_def revive_def panic_if_def upd_ent_def ent_def put_threads_def)
    ultimately show ?thesis by simp
  qed
qed

section \<open>Closing an entry\<close>

lemma destroy_holds: "set (thread_holds (Closer c i rest (Destroy inst))) = (case inst of None \<Rightarrow> {} | Some n \<Rightarrow> {(n, i)})"
  by (cases inst) auto

lemma destroy_step:
  assumes inv: "vault_inv s" and T: "vm_threads s = add_mset (Closer c i rest (Final r a)) T"
    and run: "close_final i r a s = (Some (Destroy inst), s1)"
  shows "vault_inv (put_threads T [Closer c i rest (Destroy inst)] s1)"
proof -
  have tk: "thread_ok s (Closer c i rest (Final r a))" using inv by (simp add: vault_inv_def threads_ok_def T)
  then have i: "i < length (vm_heap s)" by simp
  note e = entries_okD[OF inv i]
  have g: "cur s i" "en_draining (ent s i)" "\<not> en_ready (ent s i)" "en_refs (ent s i) = 0" "en_closing (ent s i) = NoSignal"
    and inst: "inst = en_instance (ent s i)" and s1: "s1 = upd_ent i (\<lambda>e. e\<lparr>en_closing := SigOpen, en_instance := None\<rparr>) s"
    using run by (auto simp: close_final_def Let_def split: if_splits)
  have z: "size (filter_mset (is_opener i) T) = 0" "size (filter_mset (is_destroyer i) T) = 0"
    using e g by (auto simp: entry_ok_def threads_def T simp del: size_eq_0_iff_empty)
  let ?s' = "put_threads T [Closer c i rest (Destroy inst)] s1"
  have hs: "held ?s' = held s"
    by (rule held_move[OF i _ _ T, where t' = "Closer c i rest (Destroy inst)"])
      (use i inst in \<open>auto simp: s1 entry_holds_def destroy_holds split: option.splits\<close>)
  have cu: "cur s1 j = cur s j" for j using i by (simp add: s1 cur_def)
  show ?thesis
  proof (rule core_step[OF inv i g(1,4), where e' = "(ent s i)\<lparr>en_closing := SigOpen, en_instance := None\<rparr>" and T = T
        and t = "Closer c i rest (Final r a)" and t' = "Closer c i rest (Destroy inst)"])
    show "vm_heap ?s' = (vm_heap s)[i := (ent s i)\<lparr>en_closing := SigOpen, en_instance := None\<rparr>]" by (simp add: s1 upd_ent_def ent_def)
    show "maps_ok ?s'" by (rule maps_frame[of s]) (use inv i in \<open>simp_all add: vault_inv_def s1\<close>)
    show "open_ok ?s'" unfolding open_ok_def hs using inv by (simp add: vault_inv_def open_ok_def s1)
    show "thread_ok ?s' (Closer c i rest (Destroy inst))" using tk by (simp add: s1)
    have "live_leases s i = 0" "live_roots s i = 0" "threads (is_restorer i) s = 0" "en_roots (ent s i) = 0" "\<not> en_idle_open (ent s i)"
      using e g roots_le[of s i] by (auto simp: entry_ok_def)
    then show "entry_ok ((ent s i)\<lparr>en_closing := SigOpen, en_instance := None\<rparr>) (cur ?s' i) (vm_closing s) 0 0
      (if is_opener i (Closer c i rest (Destroy inst)) then 1 else 0)
      (size (filter_mset (is_destroyer i) T) + (if is_destroyer i (Closer c i rest (Destroy inst)) then 1 else 0)) 0 0"
      using e g z by (auto simp: entry_ok_def cu)
  qed (use inv T z in \<open>auto simp: s1 vault_inv_def cu[unfolded s1]\<close>)
qed

lemma destroyer_entry:
  assumes inv: "vault_inv s" and T: "vm_threads s = add_mset t T" and t: "is_destroyer i t" and i: "i < length (vm_heap s)"
  shows "en_closing (ent s i) = SigOpen" "cur s i" "en_instance (ent s i) = None" "en_draining (ent s i)" "en_refs (ent s i) = 0"
    "size (filter_mset (is_destroyer i) T) = 0" "size (filter_mset (is_opener i) T) = 0" "\<not> en_ready (ent s i)"
    "\<not> en_idle_open (ent s i)" "en_roots (ent s i) = 0"
proof -
  note e = entries_okD[OF inv i]
  have "threads (is_destroyer i) s = Suc (size (filter_mset (is_destroyer i) T))" using t by (simp add: threads_def T)
  then have r: "en_closing (ent s i) = SigOpen" "size (filter_mset (is_destroyer i) T) = 0" using e by (auto simp: entry_ok_def split: if_splits)
  have "\<not> en_ready (ent s i)" "en_refs (ent s i) = 0" using e r(1) by (auto simp: entry_ok_def)
  moreover have "\<not> is_opener i t" using t by (cases t) auto
  then have "threads (is_opener i) s = size (filter_mset (is_opener i) T)" by (simp add: threads_def T)
  ultimately show "en_closing (ent s i) = SigOpen" "cur s i" "en_instance (ent s i) = None" "en_draining (ent s i)" "en_refs (ent s i) = 0"
    "size (filter_mset (is_destroyer i) T) = 0" "size (filter_mset (is_opener i) T) = 0" "\<not> en_ready (ent s i)"
    "\<not> en_idle_open (ent s i)" "en_roots (ent s i) = 0"
    using e r roots_le[of s i] unfolding entry_ok_def by simp_all
qed

text \<open>Closing an instance: \<open>del_where\<close> takes exactly what the goroutine held.\<close>

lemma open_removed:
  assumes "vault_inv s" and i: "i < length (vm_heap s)" and T: "vm_threads s = add_mset t T" and "en_instance (ent s i) = None"
    and z: "size (filter_mset (is_opener i) T) = 0" "size (filter_mset (is_destroyer i) T) = 0"
    and p: "thread_holds t = [(n, i)]"
  shows "set (del_where (\<lambda>p. p = (n, i)) (vm_open s)) = held s - {(n, i)}" "distinct (map snd (del_where (\<lambda>p. p = (n, i)) (vm_open s)))"
  using assms by (auto simp: vault_inv_def open_ok_def table_simps distinct_del_where)

lemma destroyed_step:
  assumes inv: "vault_inv s" and T: "vm_threads s = add_mset (Closer c i rest (Destroy inst)) T"
  shows "vault_inv (put_threads T [Closer c i rest (Publish err)] (close_destroy i inst s))"
proof -
  have tk: "thread_ok s (Closer c i rest (Destroy inst))" using inv by (simp add: vault_inv_def threads_ok_def T)
  then have i: "i < length (vm_heap s)" by simp
  have "is_destroyer i (Closer c i rest (Destroy inst))" by simp
  note d = destroyer_entry[OF inv T this i]
  let ?s' = "put_threads T [Closer c i rest (Publish err)] (close_destroy i inst s)"
  have f: "vm_heap ?s' = vm_heap s" "ent ?s' = ent s" "cur ?s' = cur s" "vm_closing ?s' = vm_closing s" "vm_leases ?s' = vm_leases s"
    "vm_panic ?s' = vm_panic s" "vm_entries ?s' = vm_entries s" "vm_byVault ?s' = vm_byVault s" "vm_next ?s' = vm_next s"
    by (simp_all add: close_destroy_def split: option.split)
  have hf: "held ?s' \<union> set (thread_holds (Closer c i rest (Destroy inst))) = held s"
    using held_frame[OF i _ _ T, of ?s' "Closer c i rest (Publish err)"] f d(3) by (simp add: entry_holds_def)
  have "(n, i) \<notin> held ?s'" for n
    using held_at[of i ?s'] i f d(3) no_holdings[OF d(7,6), of n] by (auto simp: entry_holds_def split: option.splits)
  then have hs: "held ?s' = held s - set (thread_holds (Closer c i rest (Destroy inst)))" using hf by (cases inst) auto
  have opn: "open_ok ?s'"
  proof (cases inst)
    case None
    then show ?thesis using inv hs f by (simp add: vault_inv_def open_ok_def close_destroy_def)
  next
    case (Some n)
    then show ?thesis using open_removed[OF inv i T d(3,7,6), of n] hs inv
      by (auto simp: open_ok_def close_destroy_def vault_inv_def)
  qed
  show ?thesis
  proof (rule core_step[OF inv i d(2,5), where e' = "ent s i" and T = T and t = "Closer c i rest (Destroy inst)"
        and t' = "Closer c i rest (Publish err)"])
    show "maps_ok ?s'" by (rule maps_frame[of s]) (use inv f in \<open>simp_all add: vault_inv_def\<close>)
    show "thread_ok ?s' (Closer c i rest (Publish err))" using tk by (simp add: f(1)[simplified])
    have "live_leases s i = 0" "live_roots s i = 0" "threads (is_restorer i) s = 0"
      using entries_okD[OF inv i] d roots_le[of s i] by (auto simp: entry_ok_def)
    then show "entry_ok (ent s i) (cur ?s' i) (vm_closing s) 0 0 (if is_opener i (Closer c i rest (Publish err)) then 1 else 0)
      (size (filter_mset (is_destroyer i) T) + (if is_destroyer i (Closer c i rest (Publish err)) then 1 else 0)) 0 0"
      using entries_okD[OF inv i] d unfolding f by (auto simp: entry_ok_def)
    show "open_ok ?s'" by (rule opn)
    show "vm_heap ?s' = (vm_heap s)[i := ent s i]" unfolding f by simp
    show "\<not> vm_panic ?s'" unfolding f using inv by (simp add: vault_inv_def)
  qed (use T d f in \<open>auto\<close>)
qed

lemma return_quiet: "quiet (close_return c rest)" "thread_ok s (close_return c rest) \<longleftrightarrow> (\<forall>j\<in>set rest. j < length (vm_heap s))"
  by (auto simp: close_return_def split: list.splits)

lemma published_step:
  assumes inv: "vault_inv s" and T: "vm_threads s = add_mset (Closer c i rest (Publish err)) T"
  shows "vault_inv (put_threads T [close_return c rest] (close_publish i err s))"
proof -
  have tk: "thread_ok s (Closer c i rest (Publish err))" using inv by (simp add: vault_inv_def threads_ok_def T)
  then have i: "i < length (vm_heap s)" by simp
  have "is_destroyer i (Closer c i rest (Publish err))" by simp
  note d = destroyer_entry[OF inv T this i]
  let ?e' = "(ent s i)\<lparr>en_closeErr := err, en_key := zeroFingerprint, en_closing := SigClosed, en_retired := None\<rparr>"
  let ?m = "upd_ent i (\<lambda>e. e\<lparr>en_closeErr := err\<rparr>) s"
  let ?s1 = "close_publish i err s"
  let ?s' = "put_threads T [close_return c rest] ?s1"
  have m1: "maps_ok ?m" by (rule maps_frame[of s]) (use inv i in \<open>simp_all add: vault_inv_def\<close>)
  have c1: "cur ?m j = cur s j" for j using i by (simp add: cur_def)
  have f: "vm_heap ?s1 = (vm_heap s)[i := ?e']" "vm_closing ?s1 = vm_closing s" "vm_leases ?s1 = vm_leases s" "vm_next ?s1 = vm_next s"
    "vm_open ?s1 = vm_open s" "vm_entries ?s1 = vm_entries (unlink i ?m)" "vm_byVault ?s1 = vm_byVault (unlink i ?m)"
    "vm_panic ?s1 = vm_panic s"
    using i d(1) by (simp_all add: close_publish_def Let_def upd_ent_def ent_def)
  have e: "ent ?s1 j = (if j = i then ?e' else ent s j)" if "j < length (vm_heap s)" for j
    using that by (simp add: ent_def f)
  have cu: "cur ?s1 j \<longleftrightarrow> cur s j \<and> j \<noteq> i" if "j < length (vm_heap s)" for j
    using that unlink_cur[of i ?m j] i by (cases "j = i") (simp_all add: cur_def f e)
  have hs: "held ?s' = held s"
    by (rule held_move[OF i _ _ T, where t' = "close_return c rest"])
      (use i d(3) in \<open>simp_all add: f e entry_holds_def quiet_simps return_quiet\<close>)
  note q = return_quiet(1)[of c rest]
  show ?thesis
  proof (rule core_step[OF inv i d(2,5), where e' = ?e' and T = T and t = "Closer c i rest (Publish err)" and t' = "close_return c rest"])
    show "maps_ok ?s'"
      by (rule maps_frame[of "unlink i ?m"]) (use unlink_maps[OF m1] c1 d(2) i e in \<open>simp_all add: f\<close>)
    show "open_ok ?s'" unfolding open_ok_def hs using inv by (simp add: vault_inv_def open_ok_def f)
    show "thread_ok ?s' (close_return c rest)" using tk by (simp add: return_quiet f)
    have "live_leases s i = 0" "live_roots s i = 0" "threads (is_restorer i) s = 0"
      using entries_okD[OF inv i] d roots_le[of s i] by (auto simp: entry_ok_def)
    then show "entry_ok ?e' (cur ?s' i) (vm_closing s) 0 0 (if is_opener i (close_return c rest) then 1 else 0)
      (size (filter_mset (is_destroyer i) T) + (if is_destroyer i (close_return c rest) then 1 else 0)) 0 0"
      using entries_okD[OF inv i] d q cu[OF i] by (auto simp: entry_ok_def quiet_simps)
    show "\<not> vm_panic ?s'" using inv by (simp add: vault_inv_def f)
  qed (use T d q cu i in \<open>auto simp: f quiet_simps\<close>)
qed

section \<open>New entries\<close>

lemma thread_index:
  assumes "thread_ok s t"
  shows "is_opener i t \<Longrightarrow> i < length (vm_heap s)" "is_destroyer i t \<Longrightarrow> i < length (vm_heap s)"
    "is_restorer i t \<Longrightarrow> i < length (vm_heap s)" "is_sole i t \<Longrightarrow> i < length (vm_heap s)"
proof -
  show "is_opener i t \<Longrightarrow> i < length (vm_heap s)" "is_restorer i t \<Longrightarrow> i < length (vm_heap s)" using assms by (cases t; simp)+
  show "is_destroyer i t \<Longrightarrow> i < length (vm_heap s)"
  proof (cases t)
    case (Closer c j rest pc)
    then show "is_destroyer i t \<Longrightarrow> i < length (vm_heap s)" using assms by (cases pc) auto
  qed simp_all
  show "is_sole i t \<Longrightarrow> i < length (vm_heap s)"
  proof (cases t)
    case (Restoring j pc)
    then show "is_sole i t \<Longrightarrow> i < length (vm_heap s)" using assms by (cases pc) auto
  qed simp_all
qed

lemma reserve_step:
  assumes inv: "vault_inv s" and T: "vm_threads s = add_mset (Acquiring u v k) T"
    and free: "vm_entries s u = None" "vm_byVault s v = None" "\<not> vm_closing s"
  shows "vault_inv (put_threads T [fst (reserve u v k s)] (snd (reserve u v k s)))"
proof -
  let ?n = "length (vm_heap s)"
  let ?s1 = "snd (reserve u v k s)"
  let ?s' = "put_threads T [fst (reserve u v k s)] ?s1"
  have f: "fst (reserve u v k s) = Opening u v k ?n" "vm_heap ?s1 = vm_heap s @ [new_entry u v k]" "vm_entries ?s1 = (vm_entries s)(u \<mapsto> ?n)"
    "vm_byVault ?s1 = (vm_byVault s)(v \<mapsto> ?n)" "vm_closing ?s1 = vm_closing s" "vm_leases ?s1 = vm_leases s" "vm_open ?s1 = vm_open s"
    "vm_next ?s1 = vm_next s" "vm_panic ?s1 = vm_panic s"
    by (simp_all add: reserve_def Let_def)
  have e: "ent ?s1 j = ent s j" if "j < ?n" for j using that by (simp add: ent_def f nth_append)
  have en: "ent ?s1 ?n = new_entry u v k" by (simp add: ent_def f)
  have m: "maps_ok s" using inv by (simp add: vault_inv_def)
  have cu: "cur ?s1 j = cur s j" if "j < ?n" for j using that free by (auto simp: cur_def e f)
  have cn: "cur ?s1 ?n" by (simp add: cur_def en f new_entry_def)
  have tk: "thread_ok s t" if "t \<in># vm_threads s" for t using inv that by (simp add: vault_inv_def threads_ok_def)
  have "maps_ok ?s'" unfolding maps_ok_def
  proof (intro conjI allI impI)
    fix w j assume "vm_entries ?s' w = Some j"
    then have "w = u \<and> j = ?n \<or> w \<noteq> u \<and> vm_entries s w = Some j" by (auto simp: f split: if_splits)
    then show "j < length (vm_heap ?s')" "en_user (ent ?s' j) = w" "vm_byVault ?s' (en_vault (ent ?s' j)) = Some j"
      using maps_okD(1)[OF m, of w j] free by (auto simp: f e en new_entry_def)
  next
    fix w j assume "vm_byVault ?s' w = Some j"
    then have "w = v \<and> j = ?n \<or> w \<noteq> v \<and> vm_byVault s w = Some j" by (auto simp: f split: if_splits)
    then show "j < length (vm_heap ?s')" "en_vault (ent ?s' j) = w" "vm_entries ?s' (en_user (ent ?s' j)) = Some j"
      using maps_okD(2)[OF m, of w j] free by (auto simp: f e en new_entry_def)
  qed
  moreover have "entries_ok ?s'" unfolding entries_ok_def
  proof (intro allI impI)
    fix j assume "j < length (vm_heap ?s')"
    then consider "j < ?n" | "j = ?n" by (fastforce simp: f less_Suc_eq)
    then show "entry_ok (ent ?s' j) (cur ?s' j) (vm_closing ?s') (live_leases ?s' j) (live_roots ?s' j)
      (threads (is_opener j) ?s') (threads (is_destroyer j) ?s') (threads (is_restorer j) ?s') (threads (is_sole j) ?s')"
    proof cases
      case 1
      then show ?thesis using entries_okD[OF inv 1]
        by (simp add: e cu f threads_put threads_def T live_leases_def live_roots_def)
    next
      case 2
      have ll: "live_leases s ?n = 0" "live_roots s ?n = 0"
        using inv by (auto simp: live_leases_def live_roots_def count_where_eq_0 vault_inv_def leases_ok_def)
      have "\<not> is_opener ?n t" "\<not> is_destroyer ?n t" "\<not> is_restorer ?n t" "\<not> is_sole ?n t" if "t \<in># T" for t
        using tk[of t] that T thread_index[of s t ?n] by auto
      then have z: "filter_mset (is_opener ?n) T = {#}" "filter_mset (is_destroyer ?n) T = {#}" "filter_mset (is_restorer ?n) T = {#}"
        "filter_mset (is_sole ?n) T = {#}" by (auto simp: filter_mset_eq_conv)
      have "live_leases ?s' ?n = 0" "live_roots ?s' ?n = 0" using ll by (simp_all add: live_leases_def live_roots_def f)
      then show ?thesis using 2 cn free
        by (simp add: en threads_put f z) (simp add: entry_ok_def new_entry_def)
    qed
  qed
  moreover have "leases_ok ?s'" using inv
    by (auto simp: leases_ok_def vault_inv_def f bound_def e)
  moreover have "thread_ok ?s' t" if "thread_ok s t" for t
    using that by (cases t) (auto simp: f bound_def e cu split: restore_pc.splits)
  then have "threads_ok ?s'" using tk T by (auto simp: threads_ok_def f bound_def en new_entry_def)
  moreover have "held ?s' = held s"
    by (auto simp: held_eq f T entry_holds_def e en less_Suc_eq new_entry_def)
  then have "open_ok ?s'" using inv by (simp add: vault_inv_def open_ok_def f)
  ultimately show ?thesis using inv by (simp add: vault_inv_def f)
qed

section \<open>Closing the manager\<close>

lemma drain_all:
  assumes "\<forall>i\<in>set order. i < length (vm_heap s)"
  shows "fold (\<lambda>i. upd_ent i start_drain) order s =
    s\<lparr>vm_heap := map (\<lambda>i. if i \<in> set order then start_drain (ent s i) else ent s i) [0..<length (vm_heap s)]\<rparr>"
  using assms
proof (induction order arbitrary: s)
  case Nil
  have "map (ent s) [0..<length (vm_heap s)] = vm_heap s" by (simp add: ent_def[abs_def] map_nth)
  then show ?case by simp
next
  case (Cons i order)
  have "start_drain (start_drain e) = start_drain e" for e by (simp add: start_drain_def)
  then show ?case using Cons by (auto simp: upd_ent_def ent_def nth_list_update)
qed

lemma drain_ok:
  assumes "entry_ok e c m leases roots openers destroyers restorers soles"
  shows "entry_ok (start_drain e) c m' leases roots openers destroyers restorers soles"
    and "\<not> c \<Longrightarrow> entry_ok e c m' leases roots openers destroyers restorers soles"
proof -
  show "entry_ok (start_drain e) c m' leases roots openers destroyers restorers soles"
    using assms by (auto simp: entry_ok_def start_drain_def)
  show "\<not> c \<Longrightarrow> entry_ok e c m' leases roots openers destroyers restorers soles"
    using assms unfolding entry_ok_def by blast
qed

lemma close_all_step:
  assumes inv: "vault_inv s" and order: "set order = set (current_entries s)"
  shows "vault_inv (put_threads (vm_threads s) [fst (CloseManager order s)] (snd (CloseManager order s)))"
proof -
  have idx: "\<forall>i\<in>set order. i < length (vm_heap s)" using order by (simp add: current_entries_def)
  let ?s1 = "snd (CloseManager order s)"
  let ?s' = "put_threads (vm_threads s) [close_return True order] ?s1"
  have s1: "?s1 = s\<lparr>vm_closing := True, vm_heap := map (\<lambda>i. if i \<in> set order then start_drain (ent s i) else ent s i) [0..<length (vm_heap s)]\<rparr>"
    using drain_all[of order "s\<lparr>vm_closing := True\<rparr>"] idx by (simp add: CloseManager_def)
  have e: "ent ?s1 j = (if cur s j then start_drain (ent s j) else ent s j)" if "j < length (vm_heap s)" for j
    using that order by (simp add: s1 ent_def[of "Manager.vm_heap_update _ _"] current_entries_def)
  have fld: "en_user (ent ?s1 j) = en_user (ent s j)" "en_vault (ent ?s1 j) = en_vault (ent s j)" "en_key (ent ?s1 j) = en_key (ent s j)"
    "en_instance (ent ?s1 j) = en_instance (ent s j)" "en_ready (ent ?s1 j) = en_ready (ent s j)" "en_openErr (ent ?s1 j) = en_openErr (ent s j)"
    if "j < length (vm_heap s)" for j using e[OF that] by (auto simp: start_drain_def)
  have c: "cur ?s1 j = cur s j" if "j < length (vm_heap s)" for j using fld(1)[OF that] by (simp add: cur_def) (simp add: s1)
  note q = return_quiet(1)[of True order] return_quiet(2)[of _ True order]
  have q': "\<forall>t\<in>#mset [close_return True order]. quiet t" using q(1) by simp
  note n = quiet_msets[OF q', simplified]
  have "maps_ok ?s'" by (rule maps_frame[of s]) (use inv fld in \<open>simp_all add: vault_inv_def s1\<close>)
  moreover have ek: "entry_ok (ent ?s1 j) (cur s j) True (live_leases s j) (live_roots s j)
      (threads (is_opener j) s) (threads (is_destroyer j) s) (threads (is_restorer j) s) (threads (is_sole j) s)"
    if "j < length (vm_heap s)" for j
    unfolding e[OF that] using drain_ok[OF entries_okD[OF inv that]] by (cases "cur s j") auto
  have ll: "live_leases ?s' = live_leases s" "live_roots ?s' = live_roots s"
    unfolding live_leases_def live_roots_def by (simp_all add: s1)
  have th: "threads p ?s' = threads p s" if "\<not> p (close_return True order)" for p
    using that by (simp add: threads_put_all)
  have "entries_ok ?s'" unfolding entries_ok_def ll
  proof (intro allI impI)
    fix j assume "j < length (vm_heap ?s')"
    then have j: "j < length (vm_heap s)" by (simp add: s1)
    show "entry_ok (ent ?s' j) (cur ?s' j) (vm_closing ?s') (live_leases s j) (live_roots s j)
      (threads (is_opener j) ?s') (threads (is_destroyer j) ?s') (threads (is_restorer j) ?s') (threads (is_sole j) ?s')"
      using ek[OF j] c[OF j] q(1) by (simp add: th quiet_simps) (simp add: s1)
  qed
  moreover have "leases_ok ?s'" using inv fld by (auto simp: vault_inv_def leases_ok_def bound_def s1)
  moreover have "thread_ok ?s' t" if "thread_ok s t" for t
    using that by (cases t) (auto simp: s1 bound_def fld[unfolded s1] c[unfolded s1] split: restore_pc.splits)
  then have "threads_ok ?s'" using inv q idx by (auto simp: vault_inv_def threads_ok_def s1)
  moreover have "held ?s' = held s" using n fld by (auto simp: held_eq entry_holds_def s1)
  then have "open_ok ?s'" using inv by (simp add: vault_inv_def open_ok_def s1)
  moreover have "\<not> vm_panic ?s'" using inv by (simp add: vault_inv_def s1)
  moreover have "fst (CloseManager order s) = close_return True order" by (simp add: CloseManager_def)
  ultimately show ?thesis unfolding vault_inv_def by simp
qed

end
