(* ===== verification/VaultHistory.thy ===== *)
theory VaultHistory
  imports VaultInvariant
begin

text \<open>
  Every interleaving of the goroutines of \<open>vault/manager.go\<close> keeps the invariant; what follows for leases,
  files, restores and drains.
\<close>

section \<open>The steps of Acquire\<close>

lemma quiet_one:
  assumes "vault_inv s" and "vm_threads s = add_mset t T" and "quiet t" and "quiet t'" and "thread_ok s t'"
  shows "vault_inv (put_threads T [t'] s)"
  by (rule quiet_step[OF assms(1), where M = "{#t#}"]) (use assms in simp_all)

lemma grant_one:
  assumes "vault_inv s" and "vm_threads s = add_mset t T" and "quiet t"
    and "i < length (vm_heap s)" "cur s i" "\<not> en_ready (ent s i)" "en_instance (ent s i) \<noteq> None" "en_closing (ent s i) = NoSignal"
      "\<not> vm_closing s" "en_draining (ent s i) \<Longrightarrow> en_auto (ent s i)" "bound s i b"
  shows "vault_inv (put_threads T [Ended None] (grant i True b (revive i s)))"
  by (rule grant_step[OF assms(1), where M = "{#t#}"]) (use assms in simp_all)

lemma not_draining:
  assumes "vault_inv s" and "i < length (vm_heap s)" and "cur s i" and "\<not> en_draining (ent s i)"
  shows "en_closing (ent s i) = NoSignal" "\<not> en_auto (ent s i)"
proof -
  note e = entries_okD[OF assms(1,2)]
  show "\<not> en_auto (ent s i)" using e assms by (auto simp: entry_ok_def)
  show "en_closing (ent s i) = NoSignal" using e assms by (cases "en_closing (ent s i)") (auto simp: entry_ok_def)
qed

lemma acquire_turn_step:
  assumes inv: "vault_inv s" and T: "vm_threads s = add_mset (Acquiring u v k) T" and run: "acquire_turn u v k s = (t, s')"
  shows "vault_inv (put_threads T [t] s')"
proof -
  have m: "maps_ok s" using inv by (simp add: vault_inv_def)
  have quit: ?thesis if "s' = s" "quiet t" "thread_ok s t" using quiet_one[OF inv T] that by simp
  show ?thesis
  proof (cases "vm_closing s")
    case True
    then show ?thesis using run by (intro quit) (auto simp: acquire_turn_def)
  next
    case False
    show ?thesis
    proof (cases "vm_entries s u")
      case None
      have "vm_byVault s v = None \<or> t = Ended (Some ErrBindingMismatch) \<and> s' = s"
        using run None False maps_okD(2)[OF m, of v] by (auto simp: acquire_turn_def split: option.splits if_splits)
      then show ?thesis
      proof
        assume v: "vm_byVault s v = None"
        have "(t, s') = reserve u v k s" using run None False v by (simp add: acquire_turn_def)
        then show ?thesis using reserve_step[OF inv T None v False] by (metis fst_conv snd_conv)
      qed (use quit in simp)
    next
      case (Some i)
      let ?e = "ent s i"
      have i: "i < length (vm_heap s)" "en_user ?e = u" "cur s i" using maps_okD(1)[OF m Some] Some by (auto simp: cur_def)
      note e = entries_okD[OF inv i(1)]
      consider "s' = s" "quiet t" "thread_ok s t" | "en_vault ?e = v" "en_key ?e = k" "en_draining ?e \<longrightarrow> en_auto ?e"
        "\<not> (en_auto ?e \<and> en_closing ?e \<noteq> NoSignal)" "en_ready ?e" "t = WaitReady u v k i" "s' = revive i s"
      | "en_vault ?e = v" "en_key ?e = k" "en_draining ?e \<longrightarrow> en_auto ?e" "\<not> (en_auto ?e \<and> en_closing ?e \<noteq> NoSignal)"
        "\<not> en_ready ?e" "en_instance ?e = None" "t = Ended (Some ErrDraining)" "s' = revive i s"
      | "en_vault ?e = v" "en_key ?e = k" "en_draining ?e \<longrightarrow> en_auto ?e" "\<not> (en_auto ?e \<and> en_closing ?e \<noteq> NoSignal)"
        "\<not> en_ready ?e" "en_instance ?e \<noteq> None" "t = Ended None" "s' = grant i True (u, v, k) (revive i s)"
        using run False Some by (auto simp: acquire_turn_def Let_def split: if_splits)
      then show ?thesis
      proof cases
        case 2
        then have "\<not> en_auto ?e" using ready_entry(4)[OF e] by simp
        then show ?thesis using 2 quit i by (simp add: revive_def bound_def)
      next
        case 3
        then have "\<not> en_auto ?e" using e i(3) by (auto simp: entry_ok_def)
        then show ?thesis using 3 quit by (simp add: revive_def)
      next
        case 4
        have "en_closing ?e = NoSignal" using 4 not_draining[OF inv i(1,3)] by auto
        then show ?thesis using 4 grant_one[OF inv T, of i "(u, v, k)"] i False by (simp add: bound_def)
      qed (rule quit)
    qed
  qed
qed

lemma acquire_ready_step:
  assumes inv: "vault_inv s" and T: "vm_threads s = add_mset (WaitReady u v k i) T" and r: "\<not> en_ready (ent s i)"
    and run: "acquire_ready u v k i s = (t, s')"
  shows "vault_inv (put_threads T [t] s')"
proof (cases "s' = s")
  case True
  moreover have "quiet t" "thread_ok s t"
    using run by (auto simp: acquire_ready_def Let_def split: if_splits)
  ultimately show ?thesis using quiet_one[OF inv T] by simp
next
  case False
  have m: "maps_ok s" and tk: "thread_ok s (WaitReady u v k i)" using inv by (auto simp: vault_inv_def threads_ok_def T)
  have g: "\<not> en_openErr (ent s i)" "\<not> vm_closing s" "\<not> en_draining (ent s i)" "vm_entries s u = Some i" "en_instance (ent s i) \<noteq> None"
    "t = Ended None" "s' = grant i True (u, v, k) s"
    using run False by (auto simp: acquire_ready_def Let_def split: if_splits)
  have i: "i < length (vm_heap s)" "cur s i" using maps_okD(1)[OF m g(4)] g(4) by (auto simp: cur_def)
  note nd = not_draining[OF inv i g(3)]
  have "revive i s = s" using nd by (simp add: revive_def)
  then show ?thesis using grant_one[OF inv T, of i "(u, v, k)"] i g r nd tk by simp
qed

section \<open>Leases\<close>

lemma put_none: "put_threads (vm_threads s) [] s = s"
  by (simp add: put_threads_def)

lemma borrow_step:
  assumes inv: "vault_inv s" and run: "Borrow l s = (Inr c, s')"
  shows "vault_inv s'"
proof -
  let ?i = "ls_entry (lease s l)"
  have g: "l < length (vm_leases s)" "\<not> ls_released (lease s l)" "\<not> vm_closing s" "cur s ?i" "\<not> en_draining (ent s ?i)"
    "\<not> en_ready (ent s ?i)" "en_instance (ent s ?i) \<noteq> None" and s': "s' = grant ?i False (ls_binding (lease s l)) s"
    using run by (auto simp: Borrow_def Let_def root_live_def split: if_splits)
  have "lease s l \<in> set (vm_leases s)" using g(1) by (simp add: lease_def)
  then have i: "?i < length (vm_heap s)" and b: "bound s ?i (ls_binding (lease s l))"
    using inv g(2) by (auto simp: vault_inv_def leases_ok_def)
  note nd = not_draining[OF inv i g(4,5)]
  have "revive ?i s = s" using nd by (simp add: revive_def)
  then have "vault_inv (put_threads (vm_threads s) [] s')"
    using grant_step[OF inv, of "{#}" "vm_threads s" "[]" ?i False "ls_binding (lease s l)"] i b g nd by (simp add: s')
  moreover have "vm_threads s' = vm_threads s" by (simp add: s' grant_def Let_def)
  ultimately show ?thesis by (metis put_none)
qed

lemma release_lease_step:
  assumes inv: "vault_inv s" and l: "l < length (vm_leases s)" and run: "Release l s = (ts, s')"
  shows "vault_inv (put_threads (vm_threads s) ts s')"
proof (cases "ls_released (lease s l)")
  case True
  then show ?thesis using run inv by (simp add: Release_def put_threads_def)
next
  case False
  let ?i = "ls_entry (lease s l)" and ?root = "ls_root (lease s l)"
  let ?L = "(vm_leases s)[l := (lease s l)\<lparr>ls_released := True\<rparr>]"
  have i: "?i < length (vm_heap s)" using inv l by (auto simp: vault_inv_def leases_ok_def lease_def)
  have cl: "live_leases (s\<lparr>vm_leases := ?L\<rparr>) j + (if ?i = j then 1 else 0) = live_leases s j" for j
    using count_where_update[OF l, of "\<lambda>l. ls_entry l = j \<and> \<not> ls_released l" "(lease s l)\<lparr>ls_released := True\<rparr>"] False
    by (simp add: live_leases_def lease_def)
  have cr: "live_roots (s\<lparr>vm_leases := ?L\<rparr>) j + (if ?i = j \<and> ?root then 1 else 0) = live_roots s j" for j
    using count_where_update[OF l, of "\<lambda>l. ls_entry l = j \<and> \<not> ls_released l \<and> ls_root l" "(lease s l)\<lparr>ls_released := True\<rparr>"] False
    by (simp add: live_roots_def lease_def)
  have pos: "en_refs (ent s ?i) > 0" using entries_okD[OF inv i] cl[of ?i] by (simp add: entry_ok_def)
  have "release_reference ?i ?root (s\<lparr>vm_leases := ?L\<rparr>) = (ts, s')" using run False by (simp add: Release_def)
  then show ?thesis
  proof (rule release_step[OF inv i pos, where M = "{#}" and us = "[]" and L = ?L])
    show "ls_released x \<and> ls_entry x < length (vm_heap s) \<or> x \<in> set (vm_leases s)" if "x \<in> set ?L" for x
      using that i set_update_subset_insert[of "vm_leases s" l "(lease s l)\<lparr>ls_released := True\<rparr>"] by auto
    show "live_leases s ?i + size (filter_mset (is_restorer ?i) {#}) = Suc (live_leases (s\<lparr>vm_leases := ?L\<rparr>) ?i)" using cl[of ?i] by simp
    show "live_roots s ?i = live_roots (s\<lparr>vm_leases := ?L\<rparr>) ?i + (if ?root then 1 else 0)" using cr[of ?i] by simp
    show "live_leases (s\<lparr>vm_leases := ?L\<rparr>) j = live_leases s j \<and> live_roots (s\<lparr>vm_leases := ?L\<rparr>) j = live_roots s j \<and>
      filter_mset (is_restorer j) {#} = {#} \<and> filter_mset (is_sole j) {#} = {#}" if "j \<noteq> ?i" for j
      using cl[of j] cr[of j] that by simp
  qed simp_all
qed

lemma restore_end_step:
  assumes inv: "vault_inv s" and T: "vm_threads s = add_mset (Restoring i pc) T" and run: "release_reference i False s = (ts, s')"
  shows "vault_inv (put_threads T (Ended None # ts) s')"
proof -
  have re: "i < length (vm_heap s)" "en_refs (ent s i) > 0" using restorer_entry[OF inv, of i pc] T by simp_all
  have ns: "\<not> is_sole j (Restoring i pc)" if "j \<noteq> i" for j using that by (cases pc) auto
  have same: "s\<lparr>vm_leases := vm_leases s\<rparr> = s" by simp
  have "release_reference i False (s\<lparr>vm_leases := vm_leases s\<rparr>) = (ts, s')" using run by simp
  then show ?thesis
    by (rule release_step[OF inv re, where M = "{#Restoring i pc#}" and us = "[Ended None]" and L = "vm_leases s" and ts' = "Ended None # ts"])
      (use T ns in \<open>simp_all add: same\<close>)
qed

section \<open>All steps\<close>

lemma vault_inv_step:
  assumes inv: "vault_inv s" and "vault_step s s'"
  shows "vault_inv s'"
  using assms(2)
proof cases
  case (acquire u v k)
  then show ?thesis using quiet_step[OF inv, of "{#}" "vm_threads s" "[Acquiring u v k]"] by simp
next
  case (acquire_turn u v k T t s1)
  then show ?thesis using acquire_turn_step[OF inv] by simp
next
  case (retired u v k i r T)
  then show ?thesis using quiet_one[OF inv] by simp
next
  case (ready u v k i T t s1)
  then show ?thesis using acquire_ready_step[OF inv] by simp
next
  case (opened u v k i T)
  then show ?thesis using opened_step[OF inv] by simp
next
  case (open_failed u v k i T t s1)
  have i: "i < length (vm_heap s)" using inv open_failed(2) by (simp add: vault_inv_def threads_ok_def)
  have o: "set (vm_open s) = held s" "distinct (map snd (vm_open s))" using inv by (simp_all add: vault_inv_def open_ok_def)
  show ?thesis unfolding open_failed(1)
    by (rule open_failed_step[OF inv open_failed(2) _ i, where opened = "vm_open s"]) (use open_failed(3) o in auto)
next
  case (accepted u v k i n T t s1)
  then show ?thesis using accepted_step[OF inv] by simp
next
  case (refused u v k i n T t s1)
  have i: "i < length (vm_heap s)" using inv refused(2) by (simp add: vault_inv_def threads_ok_def)
  have "is_opener i (Opened u v k i n)" by simp
  note o = opener_entry[OF inv refused(2) this i]
  show ?thesis unfolding refused(1)
    by (rule open_failed_step[OF inv refused(2) _ i refused(3)])
      (use open_removed[OF inv i refused(2) o(4,9,10), of n] in auto)
next
  case (borrow l c)
  then show ?thesis using borrow_step[OF inv] by simp
next
  case (release l ts s1)
  then show ?thesis using release_lease_step[OF inv] by simp
next
  case (begin_restore l t s1)
  then show ?thesis using begin_restore_step[OF inv] by simp
next
  case (restore_wait i pc T pc')
  have "en_refs (ent s i) > 0" "i < length (vm_heap s)" using restorer_entry[OF inv, of i pc] restore_wait(2) by simp_all
  moreover have "pc' = RSole \<and> en_refs (ent s i) \<le> 1 \<or> (\<exists>g. pc' = RWait g)"
    using restore_wait(4) by (auto simp: restore_wait_def Let_def split: if_splits)
  ultimately show ?thesis unfolding restore_wait(1) using restore_pc_step[OF inv restore_wait(2), of pc'] by auto
next
  case (restore_open i T pc')
  have i: "i < length (vm_heap s)" using restorer_entry[OF inv, of i RSole] restore_open(2) by simp
  obtain n where pc': "pc' = RRun n" "en_instance (ent s i) = Some n" using restore_open(3) by (auto simp: restore_open_def split: if_splits)
  have "threads (is_sole i) s > 0" by (rule threads_pos[of "Restoring i RSole"]) (simp_all add: restore_open(2))
  then have "en_refs (ent s i) = 1" using entries_okD[OF inv i] by (simp add: entry_ok_def)
  then show ?thesis unfolding restore_open(1) using restore_pc_step[OF inv restore_open(2), of pc'] pc' i by simp
next
  case (restore_end i pc T ts s1)
  then show ?thesis using restore_end_step[OF inv] by simp
next
  case (drain u ts s1)
  have m: "maps_ok s" using inv by (simp add: vault_inv_def)
  show ?thesis
  proof (cases "vm_entries s u")
    case None
    then show ?thesis using drain inv by (simp add: BeginUserDrain_def put_threads_def)
  next
    case (Some i)
    then show ?thesis using drain drain_step[OF inv] maps_okD(1)[OF m Some] by (auto simp: BeginUserDrain_def)
  qed
next
  case (close_all order t s1)
  then show ?thesis using close_all_step[OF inv close_all(3)] by simp
next
  case (close_top c i rest T)
  have "thread_ok s (Closer c i rest Top)" using inv close_top(2) by (simp add: vault_inv_def threads_ok_def)
  then show ?thesis using close_top quiet_one[OF inv close_top(2), of "close_goto c i rest (close_top i s)"] return_quiet
    by (auto simp: close_goto_def close_top_def Let_def split: option.splits if_splits)
next
  case (close_ready c i rest T)
  have "thread_ok s (Closer c i rest AwaitReady)" using inv close_ready(2) by (simp add: vault_inv_def threads_ok_def)
  then show ?thesis using close_ready quiet_one[OF inv close_ready(2)] by simp
next
  case (close_closed c i rest T)
  have "thread_ok s (Closer c i rest AwaitClosing)" using inv close_closed(2) by (simp add: vault_inv_def threads_ok_def)
  then show ?thesis using close_closed quiet_one[OF inv close_closed(2)] return_quiet by simp
next
  case (close_idle c i rest g T)
  have "thread_ok s (Closer c i rest (AwaitIdle g))" using inv close_idle(2) by (simp add: vault_inv_def threads_ok_def)
  then show ?thesis using close_idle quiet_one[OF inv close_idle(2)] by simp
next
  case (close_draining c i rest T)
  have "thread_ok s (Closer c i rest Draining)" using inv close_draining(2) by (simp add: vault_inv_def threads_ok_def)
  then show ?thesis using close_draining quiet_one[OF inv close_draining(2)] by (simp add: close_draining_def Let_def)
next
  case (close_final c i rest r a T "next" s1)
  have tk: "thread_ok s (Closer c i rest (Final r a))" using inv close_final(2) by (simp add: vault_inv_def threads_ok_def)
  show ?thesis
  proof (cases "\<exists>inst. next = Some (Destroy inst)")
    case True
    then show ?thesis using close_final destroy_step[OF inv close_final(2)] by (auto simp: close_goto_def)
  next
    case False
    then have "s1 = s" "next = None \<or> next = Some Top" using close_final(3) by (auto simp: close_final_def Let_def split: if_splits)
    then show ?thesis using close_final(1) tk quiet_one[OF inv close_final(2), of "close_goto c i rest next"] return_quiet
      by (auto simp: close_goto_def)
  qed
next
  case (close_destroy c i rest inst T err)
  then show ?thesis using destroyed_step[OF inv] by simp
next
  case (close_publish c i rest err T)
  then show ?thesis using published_step[OF inv] by simp
qed

lemma vault_inv_cancel:
  assumes inv: "vault_inv s" and "vault_cancel s s'"
  shows "vault_inv s'"
  using assms(2)
proof cases
  case (cancel i rest pc T)
  have "quiet (Closer True i rest pc)" using cancel(3) by (cases pc) (auto simp: cancel_point_def)
  then show ?thesis using cancel quiet_one[OF inv cancel(2)] by simp
qed

lemma vault_inv_init: "vault_inv newManager"
  by (simp add: vault_inv_def newManager_def maps_ok_def entries_ok_def leases_ok_def threads_ok_def open_ok_def held_def)

definition vault_any :: "Manager \<Rightarrow> Manager \<Rightarrow> bool" where
  "vault_any s s' \<longleftrightarrow> vault_step s s' \<or> vault_cancel s s'"

interpretation vault: step_machine "\<lambda>s. s = newManager" vault_any vault_inv
  by unfold_locales (auto simp: vault_any_def intro: vault_inv_init vault_inv_step vault_inv_cancel)

end
