(* ===== verification/VaultProperties.thy ===== *)
theory VaultProperties
  imports VaultHistory
begin

text \<open>
  What the vault manager promises its users: live leases have an open ledger of the right binding and no ledger
  file is open twice; a restore has the ledger for itself; an explicit drain excludes every new user of the
  entry; and an idle, draining entry is not forgotten unless a request is cancelled.
\<close>

section \<open>Sample histories\<close>

definition sv_key :: string where "sv_key = replicate 32 (CHR ''k'')"
definition sv_vault :: string where "sv_vault = ''vault-0123456789''"

text \<open>A login opens the ledger of \<open>alice\<close>.\<close>

definition sv1 :: Manager where "sv1 = put_threads {#} [Acquiring ''alice-0123456789'' sv_vault sv_key] newManager"
definition sv2 :: Manager where
  "sv2 = (case acquire_turn ''alice-0123456789'' sv_vault sv_key sv1 of (t, s) \<Rightarrow> put_threads {#} [t] s)"
definition sv3 :: Manager where
  "sv3 = put_threads {#} [Opened ''alice-0123456789'' sv_vault sv_key 0 (vm_next sv2)]
     (sv2\<lparr>vm_open := (vm_next sv2, 0) # vm_open sv2, vm_next := vm_next sv2 + 1\<rparr>)"
definition sv4 :: Manager where
  "sv4 = (case finishOpening 0 (Some 0) False (''alice-0123456789'', sv_vault, sv_key) sv3 of (t, s) \<Rightarrow> put_threads {#} [t] s)"

lemma sv_step: "vault_step s s' \<Longrightarrow> vault_any s s'"
  by (simp add: vault_any_def)

lemma cancel_any: "vault_cancel s s' \<Longrightarrow> vault_any s s'"
  by (simp add: vault_any_def)

lemma sv4_steps: "vault_step\<^sup>*\<^sup>* newManager sv4"
proof -
  have "validateUserID ''alice-0123456789'' = Inr ()" "validateVaultID sv_vault = Inr ()" by code_simp+
  then have "vault_step newManager sv1"
    using vault_step.acquire[of "''alice-0123456789''" sv_vault newManager sv_key] by (simp add: sv1_def newManager_def)
  moreover have "vault_step sv1 sv2" unfolding sv2_def
    by (cases "acquire_turn ''alice-0123456789'' sv_vault sv_key sv1") (auto intro!: vault_step.acquire_turn simp: sv1_def)
  moreover have "vm_threads sv2 = {#Opening ''alice-0123456789'' sv_vault sv_key 0#}" by code_simp
  then have "vault_step sv2 sv3" using vault_step.opened[of sv2 "''alice-0123456789''" sv_vault sv_key 0 "{#}"] by (simp add: sv3_def)
  moreover have "vm_threads sv3 = {#Opened ''alice-0123456789'' sv_vault sv_key 0 0#}" by code_simp
  then have "vault_step sv3 sv4" unfolding sv4_def
    by (cases "finishOpening 0 (Some 0) False (''alice-0123456789'', sv_vault, sv_key) sv3") (auto intro: vault_step.accepted)
  ultimately show ?thesis by (meson converse_rtranclp_into_rtranclp rtranclp.rtrancl_refl)
qed

lemma steps_any: "vault_step\<^sup>*\<^sup>* s s' \<Longrightarrow> vault_any\<^sup>*\<^sup>* s s'"
  by (metis (mono_tags, lifting) mono_rtranclp sv_step)

lemmas sv4_reach = steps_any[OF sv4_steps]

section \<open>Leases and files\<close>

lemma busy_current:
  assumes "entry_ok e c m leases roots openers destroyers restorers soles" and "openers > 0 \<or> destroyers > 0"
  shows c
proof (cases "en_ready e")
  case False
  then have "openers = 0" using assms(1) by (simp add: entry_ok_def)
  then have "en_closing e = SigOpen" using assms unfolding entry_ok_def by (metis less_numeral_extra(3))
  then show ?thesis using assms(1) by (simp add: entry_ok_def)
qed (rule ready_entry(1)[OF assms(1)])

lemma instance_current:
  assumes "entry_ok e c m leases roots openers destroyers restorers soles" and "en_instance e \<noteq> None"
  shows c
  using assms unfolding entry_ok_def by blast

lemma held_current:
  assumes inv: "vault_inv s" and "(n, i) \<in> set (vm_open s)"
  shows "i < length (vm_heap s) \<and> cur s i"
proof -
  have "(n, i) \<in> held s" using assms by (simp add: vault_inv_def open_ok_def)
  then consider j where "j < length (vm_heap s)" "(n, i) \<in> set (entry_holds s j)" | t where "t \<in># vm_threads s" "(n, i) \<in> set (thread_holds t)"
    by (auto simp: held_def)
  then show ?thesis
  proof cases
    case 1
    then have "j = i" "en_instance (ent s i) = Some n" by (auto simp: entry_holds_def split: option.splits)
    then show ?thesis using 1 instance_current[OF entries_okD[OF inv, of i]] by simp
  next
    case 2
    then have k: "is_opener i t \<or> is_destroyer i t" using holds_kind by fastforce
    have "thread_ok s t" using inv 2 by (simp add: vault_inv_def threads_ok_def)
    then have i: "i < length (vm_heap s)" using k thread_index by blast
    have "threads (is_opener i) s > 0 \<or> threads (is_destroyer i) s > 0" using k threads_pos[OF 2(1), of "is_opener i"] threads_pos[OF 2(1), of "is_destroyer i"] by auto
    then show ?thesis using busy_current[OF entries_okD[OF inv i]] i by blast
  qed
qed

lemma open_files_distinct:
  assumes inv: "vault_inv s"
  shows "distinct (map (\<lambda>(n, i). en_vault (ent s i)) (vm_open s))"
proof -
  have d: "distinct (map snd (vm_open s))" using inv by (simp add: vault_inv_def open_ok_def)
  have "i = j" if "(n, i) \<in> set (vm_open s)" "(m, j) \<in> set (vm_open s)" "en_vault (ent s i) = en_vault (ent s j)" for n i m j
  proof -
    have m: "maps_ok s" using inv by (simp add: vault_inv_def)
    have c: "cur s i" "cur s j" using held_current[OF inv that(1)] held_current[OF inv that(2)] by simp_all
    have "vm_byVault s (en_vault (ent s i)) = Some i" "vm_byVault s (en_vault (ent s j)) = Some j"
      using maps_okD(1)[OF m c(1)[unfolded cur_def]] maps_okD(1)[OF m c(2)[unfolded cur_def]] by simp_all
    then have "Some i = Some j" unfolding that(3) by (rule trans[OF sym])
    then show ?thesis by (rule option.inject[THEN iffD1])
  qed
  then have "inj_on (\<lambda>i. en_vault (ent s i)) (snd ` set (vm_open s))" by (auto simp: inj_on_def)
  then have "distinct (map (\<lambda>i. en_vault (ent s i)) (map snd (vm_open s)))" using d by (simp add: distinct_map comp_inj_on)
  then show ?thesis by (simp add: comp_def case_prod_unfold)
qed

lemma lease_open:
  assumes inv: "vault_inv s" and l: "l \<in> set (vm_leases s)" "\<not> ls_released l"
  shows "\<exists>n. en_instance (ent s (ls_entry l)) = Some n \<and> (n, ls_entry l) \<in> set (vm_open s)" and "cur s (ls_entry l)"
    and "bound s (ls_entry l) (ls_binding l)"
proof -
  let ?i = "ls_entry l"
  have i: "?i < length (vm_heap s)" and b: "bound s ?i (ls_binding l)" using inv l by (auto simp: vault_inv_def leases_ok_def)
  have "0 < live_leases s ?i" using l by (auto simp: live_leases_def count_where_pos)
  then have "cur s ?i" "en_instance (ent s ?i) \<noteq> None" using entries_okD[OF inv i] by (auto simp: entry_ok_def)
  moreover have "set (vm_open s) = held s" using inv by (simp add: vault_inv_def open_ok_def)
  ultimately show "\<exists>n. en_instance (ent s ?i) = Some n \<and> (n, ?i) \<in> set (vm_open s)" "cur s ?i" "bound s ?i (ls_binding l)"
    using i b by (auto simp: held_at[OF i] entry_holds_def)
qed

text \<open>C3: whatever the goroutines of the manager do, and in whatever order, cancelled requests included: every lease
  that has not been released belongs to the current entry of the user, vault and key it was asked for and that
  entry has an open database; no ledger file is ever open twice; and no channel is closed twice, which would
  bring the server down.\<close>

theorem vault_leases_safe:
  assumes "vault_any\<^sup>*\<^sup>* newManager s"
  shows "(\<forall>l\<in>set (vm_leases s). \<not> ls_released l \<longrightarrow>
      (\<exists>n. en_instance (ent s (ls_entry l)) = Some n \<and> (n, ls_entry l) \<in> set (vm_open s)) \<and>
      vm_entries s (fst (ls_binding l)) = Some (ls_entry l) \<and>
      ls_binding l = (en_user (ent s (ls_entry l)), en_vault (ent s (ls_entry l)), en_key (ent s (ls_entry l)))) \<and>
    distinct (map (\<lambda>(n, i). en_vault (ent s i)) (vm_open s)) \<and> \<not> vm_panic s"
proof -
  have inv: "vault_inv s" using vault.inv_reachable assms by blast
  show ?thesis using lease_open[OF inv] open_files_distinct[OF inv] inv
    by (auto simp: vault_inv_def bound_def cur_def)
qed

theorem vault_leases_safe_witness:
  "vm_entries sv4 ''alice-0123456789'' = Some 0 \<and> length (vm_open sv4) = 1 \<and> \<not> vm_panic sv4"
proof -
  have "vm_leases sv4 = [\<lparr>ls_entry = 0, ls_root = True, ls_released = False, ls_binding = (''alice-0123456789'', sv_vault, sv_key)\<rparr>]"
    and "length (vm_open sv4) = 1" by code_simp+
  then show ?thesis using vault_leases_safe[OF sv4_reach] by auto
qed

text \<open>C20: a goroutine that runs a restore has the ledger to itself: the database it works on is open, no lease of the
  entry is alive, no second restore is under way, and no login or request can get a lease of it.\<close>

theorem restore_is_exclusive:
  assumes "vault_any\<^sup>*\<^sup>* newManager s" and "Restoring i (RRun n) \<in># vm_threads s"
  shows "(n, i) \<in> set (vm_open s) \<and> (\<forall>l\<in>set (vm_leases s). ls_entry l = i \<longrightarrow> ls_released l) \<and>
    {#t \<in># vm_threads s. is_restorer i t#} = {#Restoring i (RRun n)#} \<and>
    (\<forall>v k. acquire_turn (en_user (ent s i)) v k s \<in> {(Ended (Some ErrClosed), s), (Ended (Some ErrDraining), s)})"
proof -
  have inv: "vault_inv s" using vault.inv_reachable assms(1) by blast
  have re: "i < length (vm_heap s)" "cur s i" "en_draining (ent s i)" "\<not> en_auto (ent s i)" using restorer_entry[OF inv assms(2)] by simp_all
  note e = entries_okD[OF inv re(1)]
  have "threads (is_sole i) s > 0" by (rule threads_pos[OF assms(2)]) simp
  then have "live_leases s i + threads (is_restorer i) s = 1" using e by (simp add: entry_ok_def)
  moreover have "threads (is_restorer i) s > 0" by (rule threads_pos[OF assms(2)]) simp
  ultimately have z: "live_leases s i = 0" "threads (is_restorer i) s = 1" by simp_all
  have "\<forall>l\<in>set (vm_leases s). ls_entry l = i \<longrightarrow> ls_released l" using z(1) by (auto simp: live_leases_def count_where_eq_0)
  moreover obtain t where "{#t \<in># vm_threads s. is_restorer i t#} = {#t#}" using z(2) size_1_singleton_mset by (metis threads_def)
  moreover have "Restoring i (RRun n) \<in># {#t \<in># vm_threads s. is_restorer i t#}" using assms(2) by simp
  moreover have "thread_ok s (Restoring i (RRun n))" using inv assms(2) by (auto simp: vault_inv_def threads_ok_def)
  then have "(n, i) \<in> held s" using held_at[OF re(1)] by (simp add: entry_holds_def)
  then have "(n, i) \<in> set (vm_open s)" using inv by (simp add: vault_inv_def open_ok_def)
  moreover have "acquire_turn (en_user (ent s i)) v k s \<in> {(Ended (Some ErrClosed), s), (Ended (Some ErrDraining), s)}" for v k
    using re(2-4) by (simp add: acquire_turn_def cur_def)
  ultimately show ?thesis by auto
qed

definition sv5 :: Manager where
  "sv5 = (case BeginRestore 0 sv4 of (Inr t, s) \<Rightarrow> put_threads (vm_threads sv4) [t] s | _ \<Rightarrow> sv4)"
definition sv6 :: Manager where
  "sv6 = (case Release 0 sv5 of (ts, s) \<Rightarrow> put_threads (vm_threads sv5) ts s)"
definition sv7 :: Manager where "sv7 = put_threads {#Ended None#} [Restoring 0 RSole] sv6"
definition sv8 :: Manager where "sv8 = put_threads {#Ended None#} [Restoring 0 (RRun 0)] sv7"

lemma sv8_reach: "vault_any\<^sup>*\<^sup>* newManager sv8"
proof -
  have b: "fst (BeginRestore 0 sv4) = Inr (Restoring 0 RTop)" by code_simp
  then have "vault_step sv4 sv5" using vault_step.begin_restore[of 0 sv4] by (cases "BeginRestore 0 sv4") (auto simp: sv5_def)
  moreover have "0 < length (vm_leases sv5)" by code_simp
  then have "vault_step sv5 sv6" using vault_step.release[of 0 sv5] by (cases "Release 0 sv5") (auto simp: sv6_def)
  moreover have t6: "vm_threads sv6 = add_mset (Restoring 0 RTop) {#Ended None#}" and w: "restore_wait 0 sv6 = Some RSole" by code_simp+
  then have "vault_step sv6 sv7" using vault_step.restore_wait[OF t6 _ w] by (simp add: sv7_def)
  moreover have o: "restore_open 0 sv7 = Some (RRun 0)" by code_simp
  have "vault_step sv7 sv8" unfolding sv8_def by (rule vault_step.restore_open[OF _ o]) (simp add: sv7_def add_mset_commute)
  ultimately show ?thesis using sv4_reach by (meson sv_step rtranclp.rtrancl_into_rtrancl)
qed

theorem restore_is_exclusive_witness:
  "acquire_turn ''alice-0123456789'' sv_vault sv_key sv8 = (Ended (Some ErrDraining), sv8) \<and> (0, 0) \<in> set (vm_open sv8)"
proof -
  have "Restoring 0 (RRun 0) \<in># vm_threads sv8" by (simp add: sv8_def)
  moreover have "en_user (ent sv8 0) = ''alice-0123456789''" "\<not> vm_closing sv8" by code_simp+
  then have "acquire_turn ''alice-0123456789'' sv_vault sv_key sv8 \<noteq> (Ended (Some ErrClosed), sv8)"
    by (auto simp: acquire_turn_def Let_def reserve_def split: option.splits if_splits)
  ultimately show ?thesis using restore_is_exclusive[OF sv8_reach, of 0 0] \<open>en_user (ent sv8 0) = ''alice-0123456789''\<close> by auto
qed

section \<open>Explicit drains\<close>

definition explicit :: "entry \<Rightarrow> bool" where
  "explicit e \<longleftrightarrow> en_draining e \<and> \<not> en_auto e"

lemma explicit_keeps:
  "explicit e \<Longrightarrow> explicit (addReferenceLocked root e)" "explicit e \<Longrightarrow> explicit (drop_reference root e)" "explicit (start_drain e)"
  by (auto simp: explicit_def addReferenceLocked_def drop_reference_def start_drain_def Let_def)

text \<open>Every entry keeps its drain: \<open>drains s s'\<close>.\<close>

definition drains :: "Manager \<Rightarrow> Manager \<Rightarrow> bool" where
  "drains s s' \<longleftrightarrow> length (vm_heap s) \<le> length (vm_heap s') \<and>
     (\<forall>i < length (vm_heap s). explicit (ent s i) \<longrightarrow> explicit (ent s' i)) \<and>
     (\<forall>i < length (vm_heap s). en_user (ent s' i) = en_user (ent s i))"

lemma drains_same: "vm_heap s' = vm_heap s \<Longrightarrow> drains s s'"
  by (simp add: drains_def ent_def)

lemma drains_trans: "drains s t \<Longrightarrow> drains t u \<Longrightarrow> drains s u"
  unfolding drains_def by (metis order_trans less_le_trans)

lemma drains_upd:
  assumes "\<And>e. explicit e \<Longrightarrow> explicit (f e)" and "\<And>e. en_user (f e) = en_user e"
  shows "drains s (upd_ent i f s)"
proof (cases "i < length (vm_heap s)")
  case False
  then show ?thesis by (intro drains_same) (simp add: upd_ent_def not_less list_update_beyond)
qed (use assms in \<open>auto simp: drains_def\<close>)

lemma drains_put: "drains s s' \<Longrightarrow> drains s (put_threads T ts s')"
  by (simp add: drains_def)

lemma drains_grant: "drains s (grant i root b s)"
proof -
  have "drains s (upd_ent i (addReferenceLocked root) s)" by (rule drains_upd[OF explicit_keeps(1)]) (simp_all add: addReferenceLocked_def)
  then show ?thesis by (simp add: grant_def Let_def drains_def)
qed

lemma drains_revive: "drains s (revive i s)"
proof (cases "i < length (vm_heap s)")
  case True
  have "drains s (upd_ent i (\<lambda>e. if en_auto e then e\<lparr>en_draining := False, en_auto := False, en_retired := None\<rparr> else e) s)"
    by (rule drains_upd) (auto simp: explicit_def)
  then show ?thesis by (simp add: revive_eq[OF True] drains_def)
next
  case False
  then show ?thesis unfolding revive_def by (intro drains_same) (simp add: upd_ent_def not_less list_update_beyond)
qed

lemma drains_release: "release_reference i root s = (ts, s') \<Longrightarrow> drains s s'"
proof -
  assume run: "release_reference i root s = (ts, s')"
  have "drains s (upd_ent i (drop_reference root) s)" by (rule drains_upd[OF explicit_keeps(2)]) (simp_all add: drop_reference_def Let_def)
  then show ?thesis using run by (auto simp: release_reference_def Let_def drains_def split: if_splits)
qed

lemma drains_turn: "acquire_turn u v k s = (t, s') \<Longrightarrow> drains s s'"
proof -
  assume run: "acquire_turn u v k s = (t, s')"
  have r: "drains s (snd (reserve u v k s))" by (simp add: reserve_def Let_def drains_def ent_def nth_append)
  have g: "drains s (grant i True b (revive i s))" for i b by (rule drains_trans[OF drains_revive drains_grant])
  show ?thesis using run r g drains_revive[of s] drains_same[of s s]
    by (auto simp: acquire_turn_def Let_def split: if_splits option.splits prod.splits)
qed

lemma drains_finish: "finishOpening i n err b s = (t, s') \<Longrightarrow> drains s s'"
proof -
  assume run: "finishOpening i n err b s = (t, s')"
  let ?s1 = "upd_ent i (\<lambda>e. e\<lparr>en_instance := n, en_openErr := err, en_ready := False\<rparr>) s"
  let ?f = "upd_ent i (\<lambda>e. e\<lparr>en_key := zeroFingerprint\<rparr>)"
  have u: "drains s ?s1" by (rule drains_upd) (auto simp: explicit_def)
  have k: "drains x (?f x)" for x by (rule drains_upd) (auto simp: explicit_def)
  have l: "drains ?s1 (unlink i ?s1)" by (rule drains_same) simp
  have "drains s (?f ?s1)" "drains s (?f (unlink i ?s1))" "drains s (grant i True b ?s1)"
    using u l k drains_grant[of ?s1] by (meson drains_trans)+
  then show ?thesis using run u by (auto simp: finishOpening_def Let_def split: if_splits)
qed

lemma drains_publish: "drains s (close_publish i err s)"
proof -
  let ?s1 = "upd_ent i (\<lambda>e. e\<lparr>en_closeErr := err\<rparr>) s"
  let ?s2 = "upd_ent i (\<lambda>e. e\<lparr>en_key := zeroFingerprint, en_closing := SigClosed\<rparr>) (unlink i ?s1)"
  have "drains s ?s1" by (rule drains_upd) (auto simp: explicit_def)
  moreover have "drains ?s1 (unlink i ?s1)" by (rule drains_same) simp
  moreover have "drains (unlink i ?s1) ?s2" by (rule drains_upd) (auto simp: explicit_def)
  moreover have "drains ?s2 (panic_if b ?s2)" for b by (rule drains_same) simp
  moreover have "drains x (upd_ent i (\<lambda>e. e\<lparr>en_retired := None\<rparr>) x)" for x by (rule drains_upd) (auto simp: explicit_def)
  ultimately show ?thesis unfolding close_publish_def Let_def by (meson drains_trans)
qed

lemma drains_all: "drains s (fold (\<lambda>i. upd_ent i start_drain) order s)"
proof (induction order arbitrary: s)
  case (Cons i order)
  have "drains s (upd_ent i start_drain s)" by (rule drains_upd[OF explicit_keeps(3)]) (simp add: start_drain_def)
  then show ?case using Cons drains_trans by fastforce
qed (simp add: drains_same)

lemma drains_step: "vault_step s s' \<Longrightarrow> drains s s'"
proof (induction rule: vault_step.induct)
  case (release l s ts s')
  have a: "drains s (s\<lparr>vm_leases := x\<rparr>)" for x by (simp add: drains_same)
  show ?case
  proof (cases "ls_released (lease s l)")
    case False
    then have "release_reference (ls_entry (lease s l)) (ls_root (lease s l))
        (s\<lparr>vm_leases := (vm_leases s)[l := (lease s l)\<lparr>ls_released := True\<rparr>]\<rparr>) = (ts, s')"
      using release by (simp add: Release_def)
    from drains_put[OF drains_trans[OF a drains_release[OF this]]] show ?thesis .
  qed (use release in \<open>simp add: Release_def drains_put drains_same\<close>)
next
  case (borrow l s c s')
  then show ?case by (auto simp: Borrow_def Let_def split: if_splits intro!: drains_grant)
next
  case (begin_restore l s t s')
  have "drains s (upd_ent i (\<lambda>e. addReferenceLocked False (e\<lparr>en_draining := True\<rparr>)) s)" for i
    by (rule drains_upd) (auto simp: explicit_def addReferenceLocked_def)
  then show ?case using begin_restore by (auto simp: BeginRestore_def Let_def intro!: drains_put split: if_splits)
next
  case (drain u s ts s')
  have "drains s (upd_ent i start_drain s)" for i by (rule drains_upd[OF explicit_keeps(3)]) (simp add: start_drain_def)
  then show ?case using drain by (auto simp: BeginUserDrain_def drains_same intro!: drains_put split: option.splits)
next
  case (close_all order s t s')
  have "drains s (s\<lparr>vm_closing := True\<rparr>)" by (simp add: drains_same)
  note a = drains_trans[OF this drains_all[of "s\<lparr>vm_closing := True\<rparr>" order]]
  then show ?case using close_all by (auto simp: CloseManager_def intro!: drains_put)
next
  case (close_final s c i rest r a T "next" s')
  have "drains s (upd_ent i (\<lambda>e. e\<lparr>en_closing := SigOpen, en_instance := None\<rparr>) s)" by (rule drains_upd) (auto simp: explicit_def)
  then show ?case using close_final by (auto simp: close_final_def Let_def drains_same intro!: drains_put split: if_splits)
next
  case (close_destroy s c i rest inst T err)
  then show ?case by (auto simp: close_destroy_def drains_same intro!: drains_put split: option.splits)
next
  case (refused s u v k i n T t s')
  have a: "drains s (s\<lparr>vm_open := x\<rparr>)" for x by (simp add: drains_same)
  show ?case by (rule drains_put[OF drains_trans[OF a drains_finish[OF refused(2)]]])
next
  case (ready s u v k i T t s')
  then show ?case using drains_grant by (auto simp: acquire_ready_def Let_def drains_same intro!: drains_put split: if_splits)
qed (auto intro!: drains_put simp: drains_same dest: drains_turn drains_finish drains_release intro: drains_publish)

lemma drains_any: "vault_any\<^sup>*\<^sup>* s s' \<Longrightarrow> drains s s'"
proof (induction rule: rtranclp_induct)
  case (step t u)
  have "drains t u" using step(2) drains_step
    by (auto simp: vault_any_def drains_same elim!: vault_cancel.cases)
  then show ?case using step(3) drains_trans by blast
qed (simp add: drains_same)


definition sv9 :: Manager where
  "sv9 = (case BeginUserDrain ''alice-0123456789'' sv4 of (ts, s) \<Rightarrow> put_threads (vm_threads sv4) ts s)"


section \<open>Entries that wait to be closed\<close>

text \<open>An idle, draining entry that nobody is closing yet; and the goroutines that will still try to.\<close>

definition idle_draining :: "Manager \<Rightarrow> nat \<Rightarrow> bool" where
  "idle_draining s i \<longleftrightarrow> i < length (vm_heap s) \<and> cur s i \<and> en_draining (ent s i) \<and> en_refs (ent s i) = 0 \<and> \<not> en_ready (ent s i) \<and>
     en_closing (ent s i) = NoSignal"

fun will_close :: "entry \<Rightarrow> nat \<Rightarrow> vault_thread \<Rightarrow> bool" where
  "will_close e i (Closer c j rest pc) \<longleftrightarrow> i \<in> set rest \<or> i = j \<and>
     (case pc of AwaitClosing \<Rightarrow> False | Destroy _ \<Rightarrow> False | Publish _ \<Rightarrow> False
      | Final r a \<Rightarrow> a \<longrightarrow> en_retired e = r \<and> en_auto e | _ \<Rightarrow> True)"
| "will_close e i _ \<longleftrightarrow> False"

definition not_forgotten :: "Manager \<Rightarrow> bool" where
  "not_forgotten s \<longleftrightarrow> (\<forall>i. idle_draining s i \<longrightarrow> (\<exists>t\<in>#vm_threads s. will_close (ent s i) i t))"

lemma will_close_cong:
  "en_retired e' = en_retired e \<Longrightarrow> en_auto e' = en_auto e \<Longrightarrow> will_close e' i t = will_close e i t"
  by (cases t) (auto split: close_pc.splits)

lemma not_forgotten_step:
  assumes nf: "not_forgotten s" and T: "vm_threads s = M + T" and T': "vm_threads s' = T + mset ts"
    and new: "\<And>i. idle_draining s' i \<Longrightarrow> (\<exists>t\<in>set ts. will_close (ent s' i) i t) \<or>
      idle_draining s i \<and> en_retired (ent s' i) = en_retired (ent s i) \<and> en_auto (ent s' i) = en_auto (ent s i) \<and>
      (\<forall>t\<in>#M. will_close (ent s i) i t \<longrightarrow> (\<exists>t'\<in>set ts. will_close (ent s i) i t'))"
  shows "not_forgotten s'"
  unfolding not_forgotten_def
proof (intro allI impI)
  fix i assume i: "idle_draining s' i"
  from new[OF i] show "\<exists>t\<in>#vm_threads s'. will_close (ent s' i) i t"
  proof
    assume a: "idle_draining s i \<and> en_retired (ent s' i) = en_retired (ent s i) \<and> en_auto (ent s' i) = en_auto (ent s i) \<and>
      (\<forall>t\<in>#M. will_close (ent s i) i t \<longrightarrow> (\<exists>t'\<in>set ts. will_close (ent s i) i t'))"
    then have w: "will_close (ent s' i) i t = will_close (ent s i) i t" for t by (intro will_close_cong) simp_all
    obtain t where t: "t \<in># vm_threads s" "will_close (ent s i) i t" using nf a by (auto simp: not_forgotten_def)
    then consider "t \<in># T" | t' where "t' \<in> set ts" "will_close (ent s i) i t'" using a unfolding T by auto
    then show ?thesis using t(2) unfolding w T' by cases auto
  qed (auto simp: T')
qed

text \<open>A step on one entry and one goroutine.\<close>

lemma not_forgotten_one:
  assumes nf: "not_forgotten s" and T: "vm_threads s = add_mset t T" and T': "vm_threads s' = add_mset t' T"
    and len: "length (vm_heap s') = length (vm_heap s)"
    and other: "\<And>j. j \<noteq> i \<Longrightarrow> j < length (vm_heap s) \<Longrightarrow> ent s' j = ent s j \<and> (cur s' j \<longrightarrow> cur s j) \<and>
      (will_close (ent s j) j t \<longrightarrow> will_close (ent s j) j t')"
    and mine: "idle_draining s' i \<Longrightarrow> will_close (ent s' i) i t' \<or> idle_draining s i \<and> en_retired (ent s' i) = en_retired (ent s i) \<and>
      en_auto (ent s' i) = en_auto (ent s i) \<and> (will_close (ent s i) i t \<longrightarrow> will_close (ent s i) i t')"
  shows "not_forgotten s'"
proof (rule not_forgotten_step[OF nf, where M = "{#t#}" and ts = "[t']"])
  fix j assume j: "idle_draining s' j"
  show "(\<exists>t\<in>set [t']. will_close (ent s' j) j t) \<or> idle_draining s j \<and> en_retired (ent s' j) = en_retired (ent s j) \<and>
      en_auto (ent s' j) = en_auto (ent s j) \<and> (\<forall>x\<in>#{#t#}. will_close (ent s j) j x \<longrightarrow> (\<exists>t'\<in>set [t']. will_close (ent s j) j t'))"
  proof (cases "j = i")
    case True
    then show ?thesis using mine j by auto
  next
    case False
    then show ?thesis using other[OF False] j len by (auto simp: idle_draining_def)
  qed
qed (simp_all add: T T')

lemma quiet_not_forgotten:
  assumes nf: "not_forgotten s" and T: "vm_threads s = add_mset t T"
    and keep: "\<And>i. idle_draining s i \<Longrightarrow> will_close (ent s i) i t \<Longrightarrow> will_close (ent s i) i t'"
  shows "not_forgotten (put_threads T [t'] s)"
  by (rule not_forgotten_step[OF nf, where M = "{#t#}" and ts = "[t']"]) (use T keep in \<open>auto simp: idle_draining_def\<close>)

lemma return_closes: "i \<in> set rest \<Longrightarrow> will_close e i (close_return c rest)"
  by (cases rest) (auto simp: close_return_def)

lemma cur_upd: "(\<And>e. en_user (f e) = en_user e) \<Longrightarrow> i < length (vm_heap s) \<Longrightarrow> cur (upd_ent i f s) j = cur s j"
  by (simp add: cur_def)

lemma grant_fields:
  assumes "i < length (vm_heap s)"
  shows "length (vm_heap (grant i root b s)) = length (vm_heap s)" "ent (grant i root b s) j = (if j = i then addReferenceLocked root (ent s i) else ent s j)"
    "cur (grant i root b s) j = cur s j" "vm_threads (grant i root b s) = vm_threads s"
  using assms by (simp_all add: grant_def Let_def cur_upd addReferenceLocked_def)

lemma referenced_not_idle: "0 < en_refs (ent s i) \<Longrightarrow> \<not> idle_draining s i"
  by (simp add: idle_draining_def)

text \<open>Steps that give entry \<open>i\<close> a reference, and goroutines that are no closers.\<close>

lemma grant_not_forgotten:
  assumes nf: "not_forgotten s" and T: "vm_threads s = M + T" and M: "\<And>t e j. t \<in># M \<Longrightarrow> \<not> will_close e j t"
    and heap: "length (vm_heap s') = length (vm_heap s)" and pos: "0 < en_refs (ent s' i)"
    and other: "\<And>j. j \<noteq> i \<Longrightarrow> j < length (vm_heap s) \<Longrightarrow> ent s' j = ent s j \<and> cur s' j = cur s j"
  shows "not_forgotten (put_threads T ts s')"
proof (rule not_forgotten_step[OF nf T])
  fix j assume j: "idle_draining (put_threads T ts s') j"
  then have "j \<noteq> i" using pos by (auto simp: idle_draining_def)
  then show "(\<exists>t\<in>set ts. will_close (ent (put_threads T ts s') j) j t) \<or> idle_draining s j \<and> en_retired (ent (put_threads T ts s') j) = en_retired (ent s j) \<and>
      en_auto (ent (put_threads T ts s') j) = en_auto (ent s j) \<and> (\<forall>t\<in>#M. will_close (ent s j) j t \<longrightarrow> (\<exists>t'\<in>set ts. will_close (ent s j) j t'))"
    using other[of j] j M heap by (auto simp: idle_draining_def)
qed simp

text \<open>Steps that leave the entries alone.\<close>

lemma look_not_forgotten:
  assumes nf: "not_forgotten s" and T: "vm_threads s = M + T" and same: "vm_heap s' = vm_heap s" "vm_entries s' = vm_entries s"
    and keep: "\<And>i t. idle_draining s i \<Longrightarrow> t \<in># M \<Longrightarrow> will_close (ent s i) i t \<Longrightarrow> \<exists>t'\<in>set ts. will_close (ent s i) i t'"
  shows "not_forgotten (put_threads T ts s')"
proof (rule not_forgotten_step[OF nf T])
  have e: "ent s' = ent s" "cur s' = cur s" by (simp_all add: ent_def cur_def same fun_eq_iff)
  fix j assume j: "idle_draining (put_threads T ts s') j"
  then have "idle_draining s j" by (simp add: idle_draining_def e same)
  then show "(\<exists>t\<in>set ts. will_close (ent (put_threads T ts s') j) j t) \<or> idle_draining s j \<and> en_retired (ent (put_threads T ts s') j) = en_retired (ent s j) \<and>
      en_auto (ent (put_threads T ts s') j) = en_auto (ent s j) \<and> (\<forall>t\<in>#M. will_close (ent s j) j t \<longrightarrow> (\<exists>t'\<in>set ts. will_close (ent s j) j t'))"
    using keep by (simp add: e)
qed simp

lemma turn_not_forgotten:
  assumes inv: "vault_inv s" and nf: "not_forgotten s" and T: "vm_threads s = add_mset (Acquiring u v k) T" and run: "acquire_turn u v k s = (t, s')"
  shows "not_forgotten (put_threads T [t] s')"
proof -
  have m: "maps_ok s" using inv by (simp add: vault_inv_def)
  have quit: ?thesis if "s' = s" using look_not_forgotten[OF nf, of "{#Acquiring u v k#}" T s "[t]"] T that by simp
  show ?thesis
  proof (cases "vm_entries s u")
    case None
    have "s' = s \<or> (t, s') = reserve u v k s" using run None by (auto simp: acquire_turn_def split: if_splits option.splits)
    then show ?thesis
    proof
      assume r: "(t, s') = reserve u v k s"
      have f: "vm_heap s' = vm_heap s @ [new_entry u v k]" "vm_entries s' = (vm_entries s)(u \<mapsto> length (vm_heap s))"
        using r by (simp_all add: reserve_def Let_def)
      have e: "ent s' j = ent s j" if "j < length (vm_heap s)" for j using that by (simp add: ent_def f nth_append)
      show ?thesis
      proof (rule not_forgotten_step[OF nf, where M = "{#Acquiring u v k#}" and T = T and ts = "[t]"])
        fix j assume j: "idle_draining (put_threads T [t] s') j"
        have "j \<noteq> length (vm_heap s)" using j by (auto simp: idle_draining_def ent_def f new_entry_def)
        then have jl: "j < length (vm_heap s)" using j by (simp add: idle_draining_def f)
        have "cur s j" using j None jl by (auto simp: idle_draining_def cur_def f e split: if_splits)
        then have "idle_draining s j" using j jl by (simp add: idle_draining_def e)
        then show "(\<exists>x\<in>set [t]. will_close (ent (put_threads T [t] s') j) j x) \<or> idle_draining s j \<and>
          en_retired (ent (put_threads T [t] s') j) = en_retired (ent s j) \<and> en_auto (ent (put_threads T [t] s') j) = en_auto (ent s j) \<and>
          (\<forall>x\<in>#{#Acquiring u v k#}. will_close (ent s j) j x \<longrightarrow> (\<exists>t'\<in>set [t]. will_close (ent s j) j t'))"
          by (simp add: e jl)
      qed (simp_all add: T)
    qed (rule quit)
  next
    case (Some i)
    have i: "i < length (vm_heap s)" "cur s i" using maps_okD(1)[OF m Some] Some by (auto simp: cur_def)
    note e = entries_okD[OF inv i(1)]
    consider "s' = s" | "s' = revive i s" "en_ready (ent s i)"
      | "s' = revive i s" "en_instance (ent s i) = None" "\<not> (en_auto (ent s i) \<and> en_closing (ent s i) \<noteq> NoSignal)"
      | "s' = grant i True (u, v, k) (revive i s)"
      using run Some by (auto simp: acquire_turn_def Let_def split: if_splits)
    then show ?thesis
    proof cases
      case 2
      then show ?thesis using quit ready_entry(4)[OF e] by (simp add: revive_def)
    next
      case 3
      have "\<not> en_auto (ent s i)" using e i(2) 3 by (auto simp: entry_ok_def)
      then show ?thesis using 3 quit by (simp add: revive_def)
    next
      case 4
      show ?thesis
        by (rule grant_not_forgotten[OF nf, where M = "{#Acquiring u v k#}" and i = i])
          (use 4 i T in \<open>auto simp: grant_fields revive_eq cur_upd addReferenceLocked_def\<close>)
    qed (rule quit)
  qed
qed

lemma release_not_forgotten:
  assumes nf: "not_forgotten s" and T: "vm_threads s = M + T" and M: "\<And>t e j. t \<in># M \<Longrightarrow> \<not> will_close e j t"
    and same: "vm_heap s0 = vm_heap s" "vm_entries s0 = vm_entries s"
    and i: "i < length (vm_heap s)" and run: "release_reference i root s0 = (ts, s')"
  shows "not_forgotten (put_threads T (us @ ts) s')"
proof -
  have e0: "ent s0 = ent s" "cur s0 = cur s" by (simp_all add: ent_def cur_def same fun_eq_iff)
  show ?thesis
  proof (cases "cur s i \<and> en_refs (ent s i) > 0")
    case True
    let ?e = "drop_reference root (ent s i)"
    have s': "s' = panic_if (en_refs ?e = 0 \<and> \<not> en_idle_open (ent s i)) (upd_ent i (drop_reference root) s0)"
      and ts: "ts = (if en_refs ?e = 0 \<and> en_draining ?e then [Closer False i [] Top] else [])"
      using run True by (auto simp: release_reference_def e0 Let_def)
    have f: "ent s' j = (if j = i then ?e else ent s j)" "cur s' j = cur s j" "length (vm_heap s') = length (vm_heap s)" for j
      using i by (simp_all add: s' same e0 cur_upd[of "drop_reference root"] drop_reference_def Let_def)
    show ?thesis
    proof (rule not_forgotten_step[OF nf T])
      fix j assume j: "idle_draining (put_threads T (us @ ts) s') j"
      show "(\<exists>t\<in>set (us @ ts). will_close (ent (put_threads T (us @ ts) s') j) j t) \<or> idle_draining s j \<and>
        en_retired (ent (put_threads T (us @ ts) s') j) = en_retired (ent s j) \<and> en_auto (ent (put_threads T (us @ ts) s') j) = en_auto (ent s j) \<and>
        (\<forall>t\<in>#M. will_close (ent s j) j t \<longrightarrow> (\<exists>t'\<in>set (us @ ts). will_close (ent s j) j t'))"
      proof (cases "j = i")
        case True
        then have "en_refs ?e = 0" "en_draining ?e" using j by (auto simp: idle_draining_def f)
        then show ?thesis using True by (simp add: ts)
      next
        case False
        then show ?thesis using j M by (auto simp: idle_draining_def f)
      qed
    qed simp
  next
    case False
    then have "s' = s0" "ts = []" using run by (auto simp: release_reference_def e0)
    then show ?thesis using look_not_forgotten[OF nf T same] M by auto
  qed
qed

lemma finish_not_forgotten:
  assumes inv: "vault_inv s" and nf: "not_forgotten s" and T: "vm_threads s = add_mset t T" and t: "is_opener i t" and i: "i < length (vm_heap s)"
    and run: "finishOpening i n err b (s\<lparr>vm_open := opened\<rparr>) = (t', s')"
  shows "not_forgotten (put_threads T [t'] s')"
proof (rule not_forgotten_one[OF nf T, where i = i and t' = t'])
  note o = opener_entry[OF inv T t i]
  let ?s1 = "upd_ent i (\<lambda>e. e\<lparr>en_instance := n, en_openErr := err, en_ready := False\<rparr>) (s\<lparr>vm_open := opened\<rparr>)"
  let ?terminal = "en_draining (ent s i) \<or> vm_closing s"
  have c1: "cur ?s1 j = cur s j" for j using i by (simp add: cur_upd)
  have s': "s' = (if err then upd_ent i (\<lambda>e. e\<lparr>en_key := zeroFingerprint\<rparr>) ((if ?terminal then (\<lambda>x. x) else unlink i) ?s1)
      else if ?terminal then ?s1 else grant i True b ?s1)"
    and t': "t' = (if ?terminal then Closer False i [] Top else if err then Ended (Some ErrOpen) else Ended None)"
    using run by (auto simp: finishOpening_def Let_def split: if_splits)
  show "length (vm_heap (put_threads T [t'] s')) = length (vm_heap s)" using i by (simp add: s' grant_fields)
  have nt: "\<not> will_close e j t" for e j using t by (cases t) auto
  have cu: "cur s' j \<longrightarrow> cur s j" for j using i by (auto simp: s' cur_upd c1 unlink_cur grant_fields)
  have en: "ent s' j = ent s j" if "j \<noteq> i" for j using that i by (simp add: s' grant_fields)
  show "ent (put_threads T [t'] s') j = ent s j \<and> (cur (put_threads T [t'] s') j \<longrightarrow> cur s j) \<and> (will_close (ent s j) j t \<longrightarrow> will_close (ent s j) j t')"
    if "j \<noteq> i" for j using cu en[OF that] nt by simp
  have "\<not> idle_draining (put_threads T [t'] s') i" if "\<not> ?terminal"
    using that i by (auto simp: idle_draining_def s' cur_upd unlink_cur grant_fields addReferenceLocked_def)
  then show "will_close (ent (put_threads T [t'] s') i) i t' \<or> idle_draining s i \<and> en_retired (ent (put_threads T [t'] s') i) = en_retired (ent s i) \<and>
    en_auto (ent (put_threads T [t'] s') i) = en_auto (ent s i) \<and> (will_close (ent s i) i t \<longrightarrow> will_close (ent s i) i t')"
    if "idle_draining (put_threads T [t'] s') i" using that by (auto simp: t')
qed simp

lemma closer_not_forgotten:
  assumes nf: "not_forgotten s" and T: "vm_threads s = add_mset (Closer c i rest pc) T"
    and mine: "idle_draining s i \<Longrightarrow> will_close (ent s i) i (Closer c i [] pc) \<Longrightarrow> will_close (ent s i) i t'"
    and rest: "\<And>e j. j \<in> set rest \<Longrightarrow> will_close e j t'"
  shows "not_forgotten (put_threads T [t'] s)"
proof (rule look_not_forgotten[OF nf, where M = "{#Closer c i rest pc#}"])
  fix j t assume "idle_draining s j" "t \<in># {#Closer c i rest pc#}" "will_close (ent s j) j t"
  then show "\<exists>t'\<in>set [t']. will_close (ent s j) j t'" using mine rest by (cases "j = i") auto
qed (simp_all add: T)

lemma goto_rest: "j \<in> set rest \<Longrightarrow> will_close e j (close_goto c i rest next)"
  by (auto simp: close_goto_def return_closes split: option.splits)

lemma not_forgotten_vault_step:
  assumes inv: "vault_inv s" and nf: "not_forgotten s" and "vault_step s s'"
  shows "not_forgotten s'"
  using assms(3)
proof cases
  case (acquire u v k)
  then show ?thesis using look_not_forgotten[OF nf, of "{#}" "vm_threads s" s "[Acquiring u v k]"] by simp
next
  case (acquire_turn u v k T t s1)
  then show ?thesis using turn_not_forgotten[OF inv nf] by simp
next
  case (retired u v k i r T)
  then show ?thesis using quiet_not_forgotten[OF nf retired(2)] by simp
next
  case (ready u v k i T t s1)
  have i: "i < length (vm_heap s)" using inv ready(2) by (simp add: vault_inv_def threads_ok_def)
  have "s1 = s \<or> s1 = grant i True (u, v, k) s" using ready(4) by (auto simp: acquire_ready_def Let_def split: if_splits)
  then show ?thesis
  proof
    assume g: "s1 = grant i True (u, v, k) s"
    show ?thesis unfolding ready(1)
      by (rule grant_not_forgotten[OF nf, where M = "{#WaitReady u v k i#}" and i = i])
        (use g i ready(2) in \<open>auto simp: grant_fields addReferenceLocked_def\<close>)
  qed (use ready quiet_not_forgotten[OF nf ready(2)] in simp)
next
  case (opened u v k i T)
  then show ?thesis using look_not_forgotten[OF nf, of "{#Opening u v k i#}" T] by simp
next
  case (open_failed u v k i T t s1)
  have i: "i < length (vm_heap s)" using inv open_failed(2) by (simp add: vault_inv_def threads_ok_def)
  show ?thesis unfolding open_failed(1)
    by (rule finish_not_forgotten[OF inv nf open_failed(2) _ i, where opened = "vm_open s"]) (use open_failed(3) in auto)
next
  case (accepted u v k i n T t s1)
  have i: "i < length (vm_heap s)" using inv accepted(2) by (simp add: vault_inv_def threads_ok_def)
  show ?thesis unfolding accepted(1)
    by (rule finish_not_forgotten[OF inv nf accepted(2) _ i, where opened = "vm_open s"]) (use accepted(3) in auto)
next
  case (refused u v k i n T t s1)
  have i: "i < length (vm_heap s)" using inv refused(2) by (simp add: vault_inv_def threads_ok_def)
  show ?thesis unfolding refused(1) by (rule finish_not_forgotten[OF inv nf refused(2) _ i refused(3)]) simp
next
  case (borrow l c)
  let ?i = "ls_entry (lease s l)"
  have g: "l < length (vm_leases s)" "s' = grant ?i False (ls_binding (lease s l)) s"
    using borrow by (auto simp: Borrow_def Let_def root_live_def split: if_splits)
  have i: "?i < length (vm_heap s)" using inv g(1) by (auto simp: vault_inv_def leases_ok_def lease_def)
  have "not_forgotten (put_threads (vm_threads s) [] s')"
    by (rule grant_not_forgotten[OF nf, where M = "{#}" and i = ?i]) (use g i in \<open>auto simp: grant_fields addReferenceLocked_def\<close>)
  then show ?thesis using g i by (metis put_none grant_fields(4))
next
  case (release l ts s1)
  show ?thesis
  proof (cases "ls_released (lease s l)")
    case False
    have i: "ls_entry (lease s l) < length (vm_heap s)" using inv release(2) by (auto simp: vault_inv_def leases_ok_def lease_def)
    have "release_reference (ls_entry (lease s l)) (ls_root (lease s l))
        (s\<lparr>vm_leases := (vm_leases s)[l := (lease s l)\<lparr>ls_released := True\<rparr>]\<rparr>) = (ts, s1)"
      using release False by (simp add: Release_def)
    from release_not_forgotten[OF nf _ _ _ _ i this, where M = "{#}" and us = "[]" and T = "vm_threads s"]
    show ?thesis by (simp add: release(1))
  qed (use release nf in \<open>simp add: Release_def put_none\<close>)
next
  case (begin_restore l t s1)
  let ?i = "ls_entry (lease s l)"
  have g: "l < length (vm_leases s)" "s1 = upd_ent ?i (\<lambda>e. addReferenceLocked False (e\<lparr>en_draining := True\<rparr>)) s"
    using begin_restore by (auto simp: BeginRestore_def Let_def root_live_def split: if_splits)
  have i: "?i < length (vm_heap s)" using inv g(1) by (auto simp: vault_inv_def leases_ok_def lease_def)
  show ?thesis unfolding begin_restore(1)
    by (rule grant_not_forgotten[OF nf, where M = "{#}" and i = ?i]) (use g i in \<open>auto simp: cur_upd addReferenceLocked_def\<close>)
next
  case (restore_wait i pc T pc')
  then show ?thesis using quiet_not_forgotten[OF nf restore_wait(2)] by simp
next
  case (restore_open i T pc')
  then show ?thesis using quiet_not_forgotten[OF nf restore_open(2)] by simp
next
  case (restore_end i pc T ts s1)
  have i: "i < length (vm_heap s)" using restorer_entry[OF inv, of i pc] restore_end(2) by simp
  from release_not_forgotten[OF nf _ _ refl refl i restore_end(3), where M = "{#Restoring i pc#}" and us = "[Ended None]" and T = T]
  show ?thesis using restore_end(1,2) by simp
next
  case (drain u ts s1)
  have m: "maps_ok s" using inv by (simp add: vault_inv_def)
  show ?thesis
  proof (cases "vm_entries s u")
    case None
    then show ?thesis using drain nf by (simp add: BeginUserDrain_def put_none)
  next
    case (Some i)
    have i: "i < length (vm_heap s)" using maps_okD(1)[OF m Some] by simp
    have g: "ts = [Closer True i [] Top]" "s1 = upd_ent i start_drain s" using drain Some by (simp_all add: BeginUserDrain_def)
    have "not_forgotten (put_threads (vm_threads s) ts s1)"
    proof (rule not_forgotten_step[OF nf, where M = "{#}" and T = "vm_threads s" and ts = ts])
      fix j assume "idle_draining (put_threads (vm_threads s) ts s1) j"
      then show "(\<exists>t\<in>set ts. will_close (ent (put_threads (vm_threads s) ts s1) j) j t) \<or> idle_draining s j \<and>
        en_retired (ent (put_threads (vm_threads s) ts s1) j) = en_retired (ent s j) \<and>
        en_auto (ent (put_threads (vm_threads s) ts s1) j) = en_auto (ent s j) \<and>
        (\<forall>t\<in>#{#}. will_close (ent s j) j t \<longrightarrow> (\<exists>t'\<in>set ts. will_close (ent s j) j t'))"
        using i by (cases "j = i") (auto simp: g idle_draining_def cur_upd start_drain_def)
    qed simp_all
    then show ?thesis by (simp add: drain(1))
  qed
next
  case (close_all order t s1)
  have idx: "\<forall>i\<in>set order. i < length (vm_heap s)" using close_all(3) by (simp add: current_entries_def)
  have s1: "s1 = s\<lparr>vm_closing := True, vm_heap := map (\<lambda>i. if i \<in> set order then start_drain (ent s i) else ent s i) [0..<length (vm_heap s)]\<rparr>"
    and t: "t = close_return True order"
    using close_all(4) idx by (auto simp: CloseManager_def drain_all)
  show ?thesis unfolding close_all(1)
  proof (rule not_forgotten_step[OF nf, where M = "{#}" and T = "vm_threads s" and ts = "[t]"])
    fix j assume j: "idle_draining (put_threads (vm_threads s) [t] s1) j"
    then have jl: "j < length (vm_heap s)" by (simp add: idle_draining_def s1)
    have "en_user (ent s1 j) = en_user (ent s j)" using jl by (simp add: s1 ent_def start_drain_def)
    then have "cur s j" using j by (simp add: idle_draining_def cur_def) (simp add: s1)
    then have "j \<in> set order" using close_all(3) jl by (simp add: current_entries_def)
    then show "(\<exists>x\<in>set [t]. will_close (ent (put_threads (vm_threads s) [t] s1) j) j x) \<or> idle_draining s j \<and>
        en_retired (ent (put_threads (vm_threads s) [t] s1) j) = en_retired (ent s j) \<and>
        en_auto (ent (put_threads (vm_threads s) [t] s1) j) = en_auto (ent s j) \<and>
        (\<forall>x\<in>#{#}. will_close (ent s j) j x \<longrightarrow> (\<exists>t'\<in>set [t]. will_close (ent s j) j t'))"
      by (simp add: t return_closes)
  qed simp_all
next
  case (close_top c i rest T)
  show ?thesis unfolding close_top(1)
    by (rule closer_not_forgotten[OF nf close_top(2) _ goto_rest]) (auto simp: close_goto_def close_top_def idle_draining_def)
next
  case (close_ready c i rest T)
  then show ?thesis using closer_not_forgotten[OF nf close_ready(2)] by simp
next
  case (close_closed c i rest T)
  show ?thesis unfolding close_closed(1) by (rule closer_not_forgotten[OF nf close_closed(2) _ return_closes]) simp_all
next
  case (close_idle c i rest g T)
  then show ?thesis using closer_not_forgotten[OF nf close_idle(2)] by simp
next
  case (close_draining c i rest T)
  then show ?thesis using closer_not_forgotten[OF nf close_draining(2)] by (simp add: close_draining_def Let_def)
next
  case (close_final c i rest r a T "next" s1)
  show ?thesis
  proof (cases "\<exists>inst. next = Some (Destroy inst)")
    case False
    then have s1: "s1 = s" "next = None \<and> a \<and> (en_retired (ent s i) \<noteq> r \<or> \<not> en_auto (ent s i)) \<or> next = Some Top"
      using close_final(3) by (auto simp: close_final_def Let_def split: if_splits)
    show ?thesis unfolding close_final(1) s1(1)
      by (rule closer_not_forgotten[OF nf close_final(2) _ goto_rest]) (use s1(2) in \<open>auto simp: close_goto_def\<close>)
  next
    case True
    have i: "i < length (vm_heap s)" using inv close_final(2) by (simp add: vault_inv_def threads_ok_def)
    have s1: "s1 = upd_ent i (\<lambda>e. e\<lparr>en_closing := SigOpen, en_instance := None\<rparr>) s"
      using close_final(3) True by (auto simp: close_final_def Let_def split: if_splits)
    show ?thesis unfolding close_final(1)
      by (rule not_forgotten_one[OF nf close_final(2), where i = i]) (use i True in \<open>auto simp: s1 cur_upd idle_draining_def close_goto_def\<close>)
  qed
next
  case (close_destroy c i rest inst T err)
  show ?thesis unfolding close_destroy(1)
    by (rule look_not_forgotten[OF nf, where M = "{#Closer c i rest (Destroy inst)#}"])
      (use close_destroy(2) in \<open>auto simp: close_destroy_def split: option.splits\<close>)
next
  case (close_publish c i rest err T)
  have i: "i < length (vm_heap s)" using inv close_publish(2) by (simp add: vault_inv_def threads_ok_def)
  let ?m = "upd_ent i (\<lambda>e. e\<lparr>en_closeErr := err\<rparr>) s"
  have e: "ent (close_publish i err s) j = ent s j" if "j \<noteq> i" for j using that i by (simp add: close_publish_def Let_def)
  have cu: "cur (close_publish i err s) j \<longleftrightarrow> cur s j \<and> j \<noteq> i" for j
    using i by (simp add: close_publish_def Let_def cur_upd unlink_cur)
  have len: "length (vm_heap (close_publish i err s)) = length (vm_heap s)" by (simp add: close_publish_def Let_def)
  show ?thesis unfolding close_publish(1)
    by (rule not_forgotten_one[OF nf close_publish(2), where i = i]) (use e cu len in \<open>auto simp: idle_draining_def return_closes\<close>)
qed

interpretation closing: step_machine "\<lambda>s. s = newManager" vault_step "\<lambda>s. vault_inv s \<and> not_forgotten s"
proof
  have "not_forgotten newManager" by (simp add: not_forgotten_def idle_draining_def newManager_def)
  then show "s = newManager \<Longrightarrow> vault_inv s \<and> not_forgotten s" for s by (simp add: vault_inv_init)
  show "vault_inv s \<and> not_forgotten s \<Longrightarrow> vault_step s t \<Longrightarrow> vault_inv t \<and> not_forgotten t" for s t
    using vault_inv_step not_forgotten_vault_step by blast
qed

text \<open>C21: without cancellation no vault is left open: whenever an entry is draining and nobody refers to it, either a
  goroutine is already closing it, or one is on its way to do so.\<close>

theorem drained_vault_gets_closed:
  assumes "vault_step\<^sup>*\<^sup>* newManager s" and "vm_entries s u = Some i" and "en_draining (ent s i)" and "en_refs (ent s i) = 0"
    and "\<not> en_ready (ent s i)"
  shows "\<exists>t\<in>#vm_threads s. is_destroyer i t \<or> will_close (ent s i) i t"
proof -
  have inv: "vault_inv s" "not_forgotten s" using closing.inv_reachable assms(1) by blast+
  have i: "i < length (vm_heap s)" "cur s i"
    using maps_okD(1) inv(1) assms(2) by (auto simp: vault_inv_def cur_def)
  show ?thesis
  proof (cases "en_closing (ent s i)")
    case NoSignal
    then have "idle_draining s i" using i assms by (simp add: idle_draining_def)
    then show ?thesis using inv(2) by (auto simp: not_forgotten_def)
  next
    case SigOpen
    then have "threads (is_destroyer i) s = 1" using entries_okD[OF inv(1) i(1)] by (simp add: entry_ok_def)
    then have "{#t \<in># vm_threads s. is_destroyer i t#} \<noteq> {#}" by (metis size_empty threads_def zero_neq_one)
    then obtain t where "t \<in># {#t \<in># vm_threads s. is_destroyer i t#}" by (meson multiset_nonemptyE)
    then show ?thesis by auto
  next
    case SigClosed
    then show ?thesis using entries_okD[OF inv(1) i(1)] i(2) by (simp add: entry_ok_def)
  qed
qed

text \<open>The session of \<open>alice\<close> ends: the last release starts to close the vault.\<close>

definition sw5 :: Manager where "sw5 = (case Release 0 sv4 of (ts, s) \<Rightarrow> put_threads (vm_threads sv4) ts s)"

lemma sw5_steps: "vault_step\<^sup>*\<^sup>* newManager sw5"
proof -
  have "0 < length (vm_leases sv4)" by code_simp
  then have "vault_step sv4 sw5" using vault_step.release[of 0 sv4] by (cases "Release 0 sv4") (auto simp: sw5_def)
  then show ?thesis using sv4_steps by (rule rtranclp.rtrancl_into_rtrancl[rotated])
qed

theorem drained_vault_gets_closed_witness:
  "\<exists>t\<in>#vm_threads sw5. is_destroyer 0 t \<or> will_close (ent sw5 0) 0 t"
proof -
  have "vm_entries sw5 ''alice-0123456789'' = Some 0" "en_draining (ent sw5 0)" "en_refs (ent sw5 0) = 0" "\<not> en_ready (ent sw5 0)" by code_simp+
  then show ?thesis using drained_vault_gets_closed[OF sw5_steps] by blast
qed

section \<open>A drain that is lost\<close>

text \<open>The goroutine that ended the session of \<open>alice\<close> waits for the ledger's background work. An administrator disables
  the account: \<open>BeginUserDrain\<close> takes the entry over and waits with the context of the request, which is cancelled. The
  first goroutine finds that the entry is no longer retiring and returns.\<close>

definition sw6 :: Manager where
  "sw6 = put_threads {#Ended None#} [close_goto False 0 [] (close_top 0 sw5)] sw5"
definition sw7 :: Manager where "sw7 = put_threads {#Ended None#} [Closer False 0 [] Draining] sw6"
definition sw8 :: Manager where "sw8 = put_threads {#Ended None#} [Closer False 0 [] (close_draining 0 sw7)] sw7"
definition sw9 :: Manager where
  "sw9 = (case BeginUserDrain ''alice-0123456789'' sw8 of (ts, s) \<Rightarrow> put_threads (vm_threads sw8) ts s)"
definition sw10 :: Manager where
  "sw10 = put_threads {#Ended None, Closer False 0 [] (Final (Some 0) True)#} [close_goto True 0 [] (close_top 0 sw9)] sw9"
definition sw11 :: Manager where
  "sw11 = put_threads {#Ended None, Closer False 0 [] (Final (Some 0) True)#} [Ended None] sw10"
definition sw12 :: Manager where
  "sw12 = (case close_final 0 (Some 0) True sw11 of (n, s) \<Rightarrow> put_threads {#Ended None, Ended None#} [close_goto False 0 [] n] s)"

lemma sw12_reach: "vault_any\<^sup>*\<^sup>* newManager sw12"
proof -
  have "vault_step sw5 sw6" unfolding sw6_def by (rule vault_step.close_top) code_simp
  moreover have "vault_step sw6 sw7" unfolding sw7_def by (rule vault_step.close_idle[where g = 1]) code_simp+
  moreover have "vault_step sw7 sw8" unfolding sw8_def by (rule vault_step.close_draining) code_simp
  moreover have "validateUserID ''alice-0123456789'' = Inr ()" by code_simp
  then have "vault_step sw8 sw9" using vault_step.drain[of "''alice-0123456789''" sw8] by (cases "BeginUserDrain ''alice-0123456789'' sw8") (auto simp: sw9_def)
  moreover have "vault_step sw9 sw10" unfolding sw10_def by (rule vault_step.close_top) code_simp
  moreover have "vault_cancel sw10 sw11" unfolding sw11_def by (rule vault_cancel.cancel[where i = 0 and rest = "[]" and pc = "AwaitIdle 1"]) code_simp+
  moreover have "vm_threads sw11 = add_mset (Closer False 0 [] (Final (Some 0) True)) {#Ended None, Ended None#}" by code_simp
  then have "vault_step sw11 sw12" unfolding sw12_def
    by (cases "close_final 0 (Some 0) True sw11") (auto intro: vault_step.close_final)
  moreover have "vault_any\<^sup>*\<^sup>* newManager sw5"
    by (rule steps_any[OF sw5_steps])
  ultimately show ?thesis by (meson sv_step cancel_any rtranclp.rtrancl_into_rtrancl)
qed

text \<open>C40: with cancellation a vault can be left behind for ever: a state is reachable in which the entry of a user is
  draining with its database and key still open, no lease refers to it, every goroutine has ended, and every
  login of the user is refused as draining.\<close>

theorem cancelled_drain_is_lost:
  "\<exists>s. vault_any\<^sup>*\<^sup>* newManager s \<and> set_mset (vm_threads s) = {Ended None} \<and> list_all ls_released (vm_leases s) \<and>
    vm_open s = [(0, 0)] \<and> (\<forall>v k. acquire_turn ''alice-0123456789'' v k s = (Ended (Some ErrDraining), s))"
proof (rule exI[of _ sw12], intro conjI)
  have e5: "vm_entries sw5 ''alice-0123456789'' = Some 0" "length (vm_heap sw5) = 1" "\<not> vm_closing sw5"
    "\<forall>l\<in>set (vm_leases sw5). ls_released l" "vm_open sw5 = [(0, 0)]" by code_simp+
  have e9: "vm_entries sw9 ''alice-0123456789'' = Some 0" "en_draining (ent sw9 0)" "\<not> en_auto (ent sw9 0)" "\<not> vm_closing sw9"
    "\<forall>l\<in>set (vm_leases sw9). ls_released l" "vm_open sw9 = [(0, 0)]"
    using e5 by (simp_all add: sw9_def BeginUserDrain_def sw8_def sw7_def sw6_def start_drain_def)
  then have s12: "sw12 = put_threads {#Ended None, Ended None#} [Ended None] sw11"
    by (simp add: sw12_def close_final_def sw11_def sw10_def close_goto_def close_return_def)
  show "vault_any\<^sup>*\<^sup>* newManager sw12" by (rule sw12_reach)
  show "set_mset (vm_threads sw12) = {Ended None}" by (simp add: s12)
  show "list_all ls_released (vm_leases sw12)" "vm_open sw12 = [(0, 0)]"
    using e9 by (simp_all add: s12 sw11_def sw10_def list_all_iff)
  show "\<forall>v k. acquire_turn ''alice-0123456789'' v k sw12 = (Ended (Some ErrDraining), sw12)"
    using e9 by (simp add: acquire_turn_def s12 sw11_def sw10_def)
qed

end
