(* ===== verification/Sessions.thy ===== *)
theory Sessions
  imports Control VaultManager
begin

text \<open>
  The session manager of \<open>middleware/session.go\<close>. Its map from session ids to records is an association list
  with distinct keys; every method holds the manager's one mutex, so it is one step. A session of the
  multi-user server owns a root lease of the vault manager, named by its index; a method that removes a
  session hands its root to the caller, who releases it after the mutex. Times and durations are in
  nanoseconds. The random identifiers are arguments.
\<close>

section \<open>Configuration\<close>

definition ns_second :: int where "ns_second = 10 ^ 9"
definition ns_minute :: int where "ns_minute = 60 * ns_second"
definition ns_hour :: int where "ns_hour = 60 * ns_minute"

record SessionConfig =
  MaxAge :: int
  IdleTimeout :: int
  RecentAuthAge :: int
  MaxConcurrent :: int

definition DefaultSessionConfig :: SessionConfig where
  "DefaultSessionConfig = \<lparr>MaxAge = 8 * ns_hour, IdleTimeout = 15 * ns_minute, RecentAuthAge = 5 * ns_minute, MaxConcurrent = 3\<rparr>"

text \<open>\<open>strconv.ParseInt(s, 10, bits)\<close>.\<close>

fun digits_value :: "int \<Rightarrow> string \<Rightarrow> int option" where
  "digits_value n [] = Some n"
| "digits_value n (c # cs) =
     (if 48 \<le> (of_char c :: int) \<and> (of_char c :: int) \<le> 57 then digits_value (10 * n + ((of_char c :: int) - 48)) cs else None)"

definition ParseInt10 :: "nat \<Rightarrow> string \<Rightarrow> int option" where
  "ParseInt10 bits s =
     (let neg = (s \<noteq> [] \<and> hd s = CHR ''-'');
          ds = (if s \<noteq> [] \<and> (hd s = CHR ''-'' \<or> hd s = CHR ''+'') then tl s else s) in
      if ds = [] then None
      else case digits_value 0 ds of
        None \<Rightarrow> None
      | Some n \<Rightarrow> let v = (if neg then - n else n) in if - (2 ^ (bits - 1)) \<le> v \<and> v < 2 ^ (bits - 1) then Some v else None)"

definition durationEnv :: "string \<Rightarrow> int \<Rightarrow> int \<Rightarrow> int \<Rightarrow> int \<Rightarrow> int option" where
  "durationEnv value unit fallback minimum maximum =
     (let raw = TrimSpace value in
      if raw = [] then Some fallback
      else case ParseInt10 32 raw of
        None \<Rightarrow> None
      | Some v \<Rightarrow> if v \<le> 0 then None else
          let duration = v * unit in if duration < minimum \<or> duration > maximum then None else Some duration)"

text \<open>The environment is a function from names to values; \<open>None\<close> is a start-up error.\<close>

definition SessionConfigFromEnv :: "(string \<Rightarrow> string) \<Rightarrow> SessionConfig option" where
  "SessionConfigFromEnv env =
     (let cfg = DefaultSessionConfig in
      case durationEnv (env ''SESSION_MAX_AGE_HOURS'') ns_hour (MaxAge cfg) ns_hour (7 * 24 * ns_hour) of None \<Rightarrow> None | Some age \<Rightarrow>
      case durationEnv (env ''SESSION_IDLE_TIMEOUT_MINUTES'') ns_minute (IdleTimeout cfg) (5 * ns_minute) (2 * ns_hour) of None \<Rightarrow> None | Some idle \<Rightarrow>
      case durationEnv (env ''SESSION_REAUTH_MAX_AGE_MINUTES'') ns_minute (RecentAuthAge cfg) ns_minute (30 * ns_minute) of None \<Rightarrow> None | Some recent \<Rightarrow>
      let raw = TrimSpace (env ''SESSION_MAX_CONCURRENT'') in
      case (if raw = [] then Some (MaxConcurrent cfg)
            else case ParseInt10 64 raw of None \<Rightarrow> None | Some v \<Rightarrow> if v < 1 \<or> v > 10 then None else Some v) of None \<Rightarrow> None | Some conc \<Rightarrow>
      if idle > age then None
      else if recent > idle then None
      else Some \<lparr>MaxAge = age, IdleTimeout = idle, RecentAuthAge = recent, MaxConcurrent = conc\<rparr>)"

definition minDuration :: "int \<Rightarrow> int \<Rightarrow> int" where
  "minDuration a b = (if a < b then a else b)"

section \<open>State\<close>

record Session =
  ss_family :: string
  ss_id :: string
  ss_username :: string
  ss_user :: string
  ss_email :: string
  ss_display :: string
  ss_role :: Role
  ss_created :: int
  ss_seen :: int
  ss_expires :: int
  ss_reauth :: int
  ss_csrf :: string

record sessionRecord =
  sr_session :: Session
  sr_root :: "nat option"

record SessionManager =
  sm_config :: SessionConfig
  sm_sessions :: "(string \<times> sessionRecord) list"
  sm_closed :: bool

datatype session_error = ErrSessionNotFound | ErrSessionManagerClosed | ErrInvalidVaultSession | ErrVault vault_error

definition NewSessionManagerWithConfig :: "SessionConfig \<Rightarrow> SessionManager" where
  "NewSessionManagerWithConfig c0 =
     (let d = DefaultSessionConfig;
          c1 = (if MaxAge c0 \<le> 0 then c0\<lparr>MaxAge := MaxAge d\<rparr> else c0);
          c2 = (if IdleTimeout c1 \<le> 0 \<or> IdleTimeout c1 > MaxAge c1 then c1\<lparr>IdleTimeout := minDuration (IdleTimeout d) (MaxAge c1)\<rparr> else c1);
          c3 = (if RecentAuthAge c2 \<le> 0 \<or> RecentAuthAge c2 > IdleTimeout c2
                then c2\<lparr>RecentAuthAge := minDuration (RecentAuthAge d) (IdleTimeout c2)\<rparr> else c2);
          c4 = (if MaxConcurrent c3 \<le> 0 then c3\<lparr>MaxConcurrent := MaxConcurrent d\<rparr> else c3) in
      \<lparr>sm_config = c4, sm_sessions = [], sm_closed = False\<rparr>)"

definition isCanonicalSessionSecret :: "string \<Rightarrow> bool" where
  "isCanonicalSessionSecret value \<longleftrightarrow> length value = 64 \<and>
     list_all (\<lambda>c. 48 \<le> (of_char c :: int) \<and> (of_char c :: int) \<le> 57 \<or> 97 \<le> (of_char c :: int) \<and> (of_char c :: int) \<le> 102) value"

definition sessionOwnerKey :: "Session \<Rightarrow> string" where
  "sessionOwnerKey s = (if ss_user s \<noteq> [] then ''user-id'' @ char_of (0 :: nat) # ss_user s else ''username'' @ char_of (0 :: nat) # ss_username s)"

section \<open>Removing sessions\<close>

definition expiredLocked :: "SessionConfig \<Rightarrow> sessionRecord \<Rightarrow> int \<Rightarrow> bool" where
  "expiredLocked c r now \<longleftrightarrow> \<not> now < ss_expires (sr_session r) \<or> now - ss_seen (sr_session r) \<ge> IdleTimeout c"

text \<open>Deleting the records that satisfy a condition; the roots they owned go to the caller.\<close>

definition roots_of :: "(string \<times> sessionRecord) list \<Rightarrow> nat list" where
  "roots_of rs = List.map_filter (\<lambda>(_, r). sr_root r) rs"

definition delete_where :: "(string \<Rightarrow> sessionRecord \<Rightarrow> bool) \<Rightarrow> SessionManager \<Rightarrow> nat list \<times> SessionManager" where
  "delete_where p m =
     (roots_of (filter (\<lambda>(i, r). p i r) (sm_sessions m)),
      m\<lparr>sm_sessions := del_where (\<lambda>(i, r). p i r) (sm_sessions m)\<rparr>)"

definition deleteRecordLocked :: "string \<Rightarrow> SessionManager \<Rightarrow> nat list \<times> SessionManager" where
  "deleteRecordLocked sid m = delete_where (\<lambda>i r. i = sid) m"

definition purgeExpiredLocked :: "int \<Rightarrow> SessionManager \<Rightarrow> nat list \<times> SessionManager" where
  "purgeExpiredLocked now m = delete_where (\<lambda>i r. expiredLocked (sm_config m) r now) m"

text \<open>The oldest session of an owner, the first in iteration order among equals.\<close>

fun oldestOf :: "string \<Rightarrow> (string \<times> sessionRecord) list \<Rightarrow> (string \<times> int) option \<Rightarrow> (string \<times> int) option" where
  "oldestOf owner [] best = best"
| "oldestOf owner ((i, r) # rs) best =
     (if sessionOwnerKey (sr_session r) \<noteq> owner then oldestOf owner rs best
      else case best of
        None \<Rightarrow> oldestOf owner rs (Some (i, ss_created (sr_session r)))
      | Some (j, t) \<Rightarrow> oldestOf owner rs (if ss_created (sr_session r) < t then Some (i, ss_created (sr_session r)) else Some (j, t)))"

definition ownerCount :: "string \<Rightarrow> SessionManager \<Rightarrow> nat" where
  "ownerCount owner m = count_where (\<lambda>(i, r). sessionOwnerKey (sr_session r) = owner) (sm_sessions m)"

lemma oldestOf_in:
  "oldestOf owner rs best = Some b \<Longrightarrow> best = Some b \<or> (\<exists>r. (fst b, r) \<in> set rs \<and> sessionOwnerKey (sr_session r) = owner)"
proof (induction rs arbitrary: best)
  case (Cons x rs)
  obtain i r where x: "x = (i, r)" by force
  show ?case
  proof (cases "sessionOwnerKey (sr_session r) = owner")
    case True
    then obtain c where "oldestOf owner rs (Some c) = Some b" and c: "Some c = best \<or> fst c = i"
      using Cons.prems unfolding x by (auto split: option.splits if_splits)
    from Cons.IH[OF this(1)] c True show ?thesis unfolding x by auto
  next
    case False
    then show ?thesis using Cons.IH[of best] Cons.prems unfolding x by auto
  qed
qed simp

function evictOldestForOwnerLocked :: "string \<Rightarrow> SessionManager \<Rightarrow> nat list \<times> SessionManager" where
  "evictOldestForOwnerLocked owner m =
     (if int (ownerCount owner m) < MaxConcurrent (sm_config m) then ([], m)
      else case oldestOf owner (sm_sessions m) None of
        None \<Rightarrow> ([], m)
      | Some (sid, _) \<Rightarrow>
          let (roots, m1) = deleteRecordLocked sid m; (evicted, m2) = evictOldestForOwnerLocked owner m1 in (roots @ evicted, m2))"
  by auto

termination
proof (relation "measure (\<lambda>(owner, m). length (sm_sessions m))")
  fix owner m a sid b x roots m1
  assume "oldestOf owner (sm_sessions m) None = Some a" and "(sid, b) = a" and x: "x = deleteRecordLocked sid m" "(roots, m1) = x"
  then obtain r where "(sid, r) \<in> set (sm_sessions m)" using oldestOf_in by fastforce
  moreover have "sm_sessions m1 = del_where (\<lambda>(i, r). i = sid) (sm_sessions m)"
    using x by (simp add: deleteRecordLocked_def delete_where_def)
  ultimately show "((owner, m1), owner, m) \<in> measure (\<lambda>(owner, m). length (sm_sessions m))"
    by (auto simp: del_where_def intro: length_filter_less)
qed simp

section \<open>Methods\<close>

text \<open>\<open>createSession\<close>: the roots handed out are those of expired and evicted sessions. The root of the new session is
  validated against the vault manager \<open>v\<close> under the session mutex.\<close>

definition new_session :: "SessionConfig \<Rightarrow> int \<Rightarrow> string \<Rightarrow> string \<Rightarrow> string \<Rightarrow> UserSummary option \<Rightarrow> Session" where
  "new_session c now sid csrf username user =
     \<lparr>ss_family = sid, ss_id = sid, ss_username = username,
      ss_user = (case user of None \<Rightarrow> [] | Some u \<Rightarrow> us_id u), ss_email = (case user of None \<Rightarrow> [] | Some u \<Rightarrow> us_email u),
      ss_display = (case user of None \<Rightarrow> [] | Some u \<Rightarrow> us_display u), ss_role = (case user of None \<Rightarrow> RoleOther [] | Some u \<Rightarrow> us_role u),
      ss_created = now, ss_seen = now, ss_expires = now + MaxAge c, ss_reauth = now, ss_csrf = csrf\<rparr>"

text \<open>Storing a record under a key replaces what the map had there.\<close>

definition put_session :: "string \<Rightarrow> sessionRecord \<Rightarrow> (string \<times> sessionRecord) list \<Rightarrow> (string \<times> sessionRecord) list" where
  "put_session sid r rs = del_where (\<lambda>(i, _). i = sid) rs @ [(sid, r)]"

definition createSession ::
  "int \<Rightarrow> string \<Rightarrow> string \<Rightarrow> string \<Rightarrow> UserSummary option \<Rightarrow> nat option \<Rightarrow> Manager \<Rightarrow> SessionManager \<Rightarrow>
     (session_error, Session) result \<times> nat list \<times> SessionManager" where
  "createSession now sid csrf username user root v m =
     (let session = new_session (sm_config m) now sid csrf username user in
      if sm_closed m then (Inl ErrSessionManagerClosed, [], m)
      else case (case root of None \<Rightarrow> Inr () | Some l \<Rightarrow> ValidateSessionRoot v l) of
        Inl e \<Rightarrow> (Inl (ErrVault e), [], m)
      | Inr _ \<Rightarrow>
          let (expired, m1) = purgeExpiredLocked now m;
              (evicted, m2) = evictOldestForOwnerLocked (sessionOwnerKey session) m1 in
          (Inr session, expired @ evicted,
           m2\<lparr>sm_sessions := put_session sid \<lparr>sr_session = session, sr_root = root\<rparr> (sm_sessions m2)\<rparr>))"

definition CreateSession ::
  "int \<Rightarrow> string \<Rightarrow> string \<Rightarrow> string \<Rightarrow> Manager \<Rightarrow> SessionManager \<Rightarrow> (session_error, Session) result \<times> nat list \<times> SessionManager" where
  "CreateSession now sid csrf username v m = createSession now sid csrf username None None v m"

text \<open>\<open>CreateVaultSession\<close>, with the checks of \<open>newSessionVaultRoot\<close> on the lease.\<close>

definition root_usable :: "Manager \<Rightarrow> nat \<Rightarrow> bool" where
  "root_usable v l \<longleftrightarrow> l < length (vm_leases v) \<and> en_user (ent v (ls_entry (lease v l))) \<noteq> [] \<and> en_vault (ent v (ls_entry (lease v l))) \<noteq> [] \<and>
     \<not> ls_released (lease v l) \<and> en_instance (ent v (ls_entry (lease v l))) \<noteq> None"

definition CreateVaultSession ::
  "int \<Rightarrow> string \<Rightarrow> string \<Rightarrow> UserSummary \<Rightarrow> nat \<Rightarrow> Manager \<Rightarrow> SessionManager \<Rightarrow>
     (session_error, Session) result \<times> nat list \<times> SessionManager" where
  "CreateVaultSession now sid csrf user l v m =
     (if \<not> root_usable v l then (Inl ErrInvalidVaultSession, [], m)
      else if us_id user = [] \<or> us_email user = [] \<or> us_state user \<noteq> UserActive \<or>
        (us_role user \<noteq> RoleAdmin \<and> us_role user \<noteq> RoleUser) \<or> en_user (ent v (ls_entry (lease v l))) \<noteq> us_id user
      then (Inl ErrInvalidVaultSession, [], m)
      else createSession now sid csrf (us_email user) (Some user) (Some l) v m)"

definition find_session :: "string \<Rightarrow> SessionManager \<Rightarrow> sessionRecord option" where
  "find_session sid m = map_of (sm_sessions m) sid"

text \<open>The record of a live session, or the manager without a record that has expired.\<close>

definition live_session :: "int \<Rightarrow> string \<Rightarrow> SessionManager \<Rightarrow> sessionRecord option" where
  "live_session now sid m =
     (case find_session sid m of None \<Rightarrow> None | Some r \<Rightarrow> if expiredLocked (sm_config m) r now then None else Some r)"

definition set_session :: "string \<Rightarrow> (Session \<Rightarrow> Session) \<Rightarrow> SessionManager \<Rightarrow> SessionManager" where
  "set_session sid f m =
     m\<lparr>sm_sessions := upd_where (\<lambda>(i, _). i = sid) (\<lambda>(i, r). (i, r\<lparr>sr_session := f (sr_session r)\<rparr>)) (sm_sessions m)\<rparr>"

definition GetSession :: "int \<Rightarrow> string \<Rightarrow> SessionManager \<Rightarrow> Session option \<times> nat list \<times> SessionManager" where
  "GetSession now sid m =
     (if \<not> isCanonicalSessionSecret sid then (None, [], m)
      else if sm_closed m then (None, [], m)
      else case live_session now sid m of
        None \<Rightarrow> let (roots, m') = deleteRecordLocked sid m in (None, roots, m')
      | Some r \<Rightarrow> (Some ((sr_session r)\<lparr>ss_seen := now\<rparr>), [], set_session sid (\<lambda>s. s\<lparr>ss_seen := now\<rparr>) m))"

definition DeleteSession :: "string \<Rightarrow> SessionManager \<Rightarrow> nat list \<times> SessionManager" where
  "DeleteSession sid m = (if \<not> isCanonicalSessionSecret sid then ([], m) else deleteRecordLocked sid m)"

definition RevokeSession :: "Session \<Rightarrow> SessionManager \<Rightarrow> nat list \<times> SessionManager" where
  "RevokeSession session m =
     (if \<not> isCanonicalSessionSecret (ss_id session) then ([], m)
      else delete_where (\<lambda>i r. i = ss_id session \<or> ss_family session \<noteq> [] \<and> ss_family (sr_session r) = ss_family session) m)"

text \<open>Both return the number of sessions deleted first.\<close>

definition DeleteAllSessions :: "string \<Rightarrow> SessionManager \<Rightarrow> nat \<times> nat list \<times> SessionManager" where
  "DeleteAllSessions username m =
     (count_where (\<lambda>(i, r). ss_username (sr_session r) = username) (sm_sessions m), delete_where (\<lambda>i r. ss_username (sr_session r) = username) m)"

definition DeleteAllSessionsForUser :: "string \<Rightarrow> SessionManager \<Rightarrow> nat \<times> nat list \<times> SessionManager" where
  "DeleteAllSessionsForUser user m =
     (if user = [] then (0, [], m)
      else (count_where (\<lambda>(i, r). ss_user (sr_session r) = user) (sm_sessions m), delete_where (\<lambda>i r. ss_user (sr_session r) = user) m))"

definition sessionBeginRestore ::
  "int \<Rightarrow> string \<Rightarrow> Manager \<Rightarrow> SessionManager \<Rightarrow> (session_error, vault_thread \<times> string) result \<times> Manager" where
  "sessionBeginRestore now sid v m =
     (if \<not> isCanonicalSessionSecret sid \<or> sm_closed m then (Inl ErrSessionNotFound, v)
      else case live_session now sid m of
        None \<Rightarrow> (Inl ErrSessionNotFound, v)
      | Some r \<Rightarrow>
          if ss_user (sr_session r) = [] then (Inl ErrSessionNotFound, v)
          else case sr_root r of
            None \<Rightarrow> (Inl ErrSessionNotFound, v)
          | Some l \<Rightarrow> (case BeginRestore l v of
              (Inl e, v') \<Rightarrow> (Inl (ErrVault e), v')
            | (Inr t, v') \<Rightarrow> (Inr (t, ss_user (sr_session r)), v')))"

definition RotateAfterReauthentication ::
  "int \<Rightarrow> string \<Rightarrow> string \<Rightarrow> string \<Rightarrow> SessionManager \<Rightarrow> (session_error, Session) result \<times> nat list \<times> SessionManager" where
  "RotateAfterReauthentication now newID newCSRF oldID m =
     (if \<not> isCanonicalSessionSecret oldID \<or> sm_closed m then (Inl ErrSessionNotFound, [], m)
      else case live_session now oldID m of
        None \<Rightarrow> let (roots, m') = deleteRecordLocked oldID m in (Inl ErrSessionNotFound, roots, m')
      | Some r \<Rightarrow>
          let rotated = (sr_session r)\<lparr>ss_id := newID, ss_csrf := newCSRF, ss_seen := now, ss_reauth := now\<rparr> in
          (Inr rotated, [], m\<lparr>sm_sessions := put_session newID (r\<lparr>sr_session := rotated\<rparr>) (del_where (\<lambda>(i, _). i = oldID) (sm_sessions m))\<rparr>))"

definition ValidateCSRF :: "int \<Rightarrow> string \<Rightarrow> string \<Rightarrow> SessionManager \<Rightarrow> bool \<times> nat list \<times> SessionManager" where
  "ValidateCSRF now sid token m =
     (if \<not> isCanonicalSessionSecret sid \<or> \<not> isCanonicalSessionSecret token \<or> sm_closed m then (False, [], m)
      else case live_session now sid m of
        None \<Rightarrow> let (roots, m') = deleteRecordLocked sid m in (False, roots, m')
      | Some r \<Rightarrow> (ss_csrf (sr_session r) = token, [], m))"

definition IsRecent :: "int \<Rightarrow> string \<Rightarrow> SessionManager \<Rightarrow> bool \<times> nat list \<times> SessionManager" where
  "IsRecent now sid m =
     (if \<not> isCanonicalSessionSecret sid \<or> sm_closed m then (False, [], m)
      else case live_session now sid m of
        None \<Rightarrow> let (roots, m') = deleteRecordLocked sid m in (False, roots, m')
      | Some r \<Rightarrow> (now - ss_reauth (sr_session r) \<le> RecentAuthAge (sm_config m), [], m))"

text \<open>\<open>borrowVaultSessionFromRequest\<close> after the cookie was read: a child lease of the session's root.\<close>

definition borrowVaultSession ::
  "int \<Rightarrow> string \<Rightarrow> Manager \<Rightarrow> SessionManager \<Rightarrow> (Session \<times> nat) option \<times> nat list \<times> Manager \<times> SessionManager" where
  "borrowVaultSession now sid v m =
     (if \<not> isCanonicalSessionSecret sid \<or> sm_closed m then (None, [], v, m)
      else case live_session now sid m of
        None \<Rightarrow> let (roots, m') = deleteRecordLocked sid m in (None, roots, v, m')
      | Some r \<Rightarrow>
          if ss_user (sr_session r) = [] then (None, [], v, m)
          else case sr_root r of
            None \<Rightarrow> (None, [], v, m)
          | Some l \<Rightarrow> (case Borrow l v of
              (Inl _, v') \<Rightarrow> let (roots, m') = deleteRecordLocked sid m in (None, roots, v', m')
            | (Inr child, v') \<Rightarrow> (Some ((sr_session r)\<lparr>ss_seen := now\<rparr>, child), [], v', set_session sid (\<lambda>s. s\<lparr>ss_seen := now\<rparr>) m)))"

definition CloseSessions :: "SessionManager \<Rightarrow> nat list \<times> SessionManager" where
  "CloseSessions m = (case delete_where (\<lambda>i r. True) m of (roots, m') \<Rightarrow> (roots, m'\<lparr>sm_closed := True\<rparr>))"

end
