(* ===== verification/SessionInvariant.thy ===== *)
theory SessionInvariant
  imports Sessions VaultProperties
begin

text \<open>
  The session manager and the vault manager together: the goroutines of the server call the methods of both in any
  order, and the roots a method hands out are released later. The invariant says who owns which lease.
\<close>

section \<open>Removal of records\<close>

text \<open>A method that only removes records, and hands their roots to its caller.\<close>

definition removes :: "SessionManager \<Rightarrow> nat list \<Rightarrow> SessionManager \<Rightarrow> bool" where
  "removes m roots m' \<longleftrightarrow> (\<exists>p. sm_sessions m' = filter p (sm_sessions m)) \<and>
     mset (roots_of (sm_sessions m)) = mset roots + mset (roots_of (sm_sessions m')) \<and>
     sm_config m' = sm_config m \<and> sm_closed m' = sm_closed m"

lemma roots_of_simps [simp]:
  "roots_of [] = []" "roots_of ((i, r) # rs) = (case sr_root r of None \<Rightarrow> [] | Some l \<Rightarrow> [l]) @ roots_of rs"
  "roots_of (rs @ rs') = roots_of rs @ roots_of rs'"
  by (simp_all add: roots_of_def map_filter_def split: option.splits)

lemma roots_of_mem: "l \<in> set (roots_of rs) \<longleftrightarrow> (\<exists>i r. (i, r) \<in> set rs \<and> sr_root r = Some l)"
proof (induction rs)
  case (Cons x rs)
  obtain i r where x: "x = (i, r)" by force
  show ?case using Cons.IH unfolding x by (cases "sr_root r") auto
qed simp

lemma roots_of_split: "mset (roots_of rs) = mset (roots_of (filter p rs)) + mset (roots_of (filter (\<lambda>x. \<not> p x) rs))"
  by (induction rs) (auto split: option.splits)

lemma removes_refl [simp]: "removes m [] m"
  by (auto simp: removes_def intro: exI[of _ "\<lambda>_. True"])

lemma removes_trans:
  assumes "removes m roots m1" and "removes m1 roots' m2"
  shows "removes m (roots @ roots') m2"
  using assms unfolding removes_def by (auto simp: filter_filter)

lemma removes_delete_where: "delete_where p m = (roots, m') \<Longrightarrow> removes m roots m'"
  using roots_of_split[of "sm_sessions m" "\<lambda>(i, r). p i r"] by (auto simp: removes_def delete_where_def del_where_def)

lemma removes_delete: "deleteRecordLocked sid m = (roots, m') \<Longrightarrow> removes m roots m'"
  unfolding deleteRecordLocked_def by (rule removes_delete_where)

lemma removes_purge: "purgeExpiredLocked now m = (roots, m') \<Longrightarrow> removes m roots m'"
  unfolding purgeExpiredLocked_def by (rule removes_delete_where)

declare evictOldestForOwnerLocked.simps [simp del]

lemma evict_cases:
  assumes "evictOldestForOwnerLocked owner m = (roots, m')"
  obtains (stop) "roots = []" "m' = m" "int (ownerCount owner m) < MaxConcurrent (sm_config m) \<or> oldestOf owner (sm_sessions m) None = None"
  | (turn) sid t r1 m1 r2 where "\<not> int (ownerCount owner m) < MaxConcurrent (sm_config m)" "oldestOf owner (sm_sessions m) None = Some (sid, t)"
      "deleteRecordLocked sid m = (r1, m1)" "evictOldestForOwnerLocked owner m1 = (r2, m')" "roots = r1 @ r2"
proof (cases "int (ownerCount owner m) < MaxConcurrent (sm_config m)")
  case True
  then show ?thesis using assms stop by (simp add: evictOldestForOwnerLocked.simps[of owner m])
next
  case False
  show ?thesis
  proof (cases "oldestOf owner (sm_sessions m) None")
    case None
    then show ?thesis using assms stop False by (simp add: evictOldestForOwnerLocked.simps[of owner m])
  next
    case (Some x)
    obtain sid t where x: "x = (sid, t)" by force
    obtain r1 m1 where d: "deleteRecordLocked sid m = (r1, m1)" by force
    obtain r2 m2 where e: "evictOldestForOwnerLocked owner m1 = (r2, m2)" by force
    have "roots = r1 @ r2" "m2 = m'" using assms False Some x d e by (simp_all add: evictOldestForOwnerLocked.simps[of owner m])
    then show ?thesis using turn False Some x d e by blast
  qed
qed

lemma removes_evict: "evictOldestForOwnerLocked owner m = (roots, m') \<Longrightarrow> removes m roots m'"
proof (induction owner m arbitrary: roots m' rule: evictOldestForOwnerLocked.induct)
  case (1 owner m)
  from 1(2) show ?case
  proof (cases rule: evict_cases)
    case (turn sid t r1 m1 r2)
    from 1(1)[OF turn(1,2) refl turn(3)[symmetric] refl turn(4)] show ?thesis
      unfolding turn(5) by (rule removes_trans[OF removes_delete[OF turn(3)]])
  qed simp
qed

lemma oldestOf_none: "oldestOf owner rs best = None \<Longrightarrow> best = None \<and> (\<forall>(i, r)\<in>set rs. sessionOwnerKey (sr_session r) \<noteq> owner)"
proof (induction rs arbitrary: best)
  case (Cons x rs)
  obtain i r where x: "x = (i, r)" by force
  show ?case
  proof (cases "sessionOwnerKey (sr_session r) = owner")
    case True
    then obtain b where "oldestOf owner rs (Some b) = None" using Cons.prems unfolding x by (cases best) (auto split: if_splits)
    from Cons.IH[OF this] show ?thesis by simp
  next
    case False
    then show ?thesis using Cons.IH[of best] Cons.prems unfolding x by simp
  qed
qed simp

lemma evict_makes_room:
  assumes "MaxConcurrent (sm_config m) \<ge> 1" and "evictOldestForOwnerLocked owner m = (roots, m')"
  shows "int (ownerCount owner m') < MaxConcurrent (sm_config m)"
  using assms
proof (induction owner m arbitrary: roots m' rule: evictOldestForOwnerLocked.induct)
  case (1 owner m)
  from 1(3) show ?case
  proof (cases rule: evict_cases)
    case stop
    have "ownerCount owner m = 0" if "oldestOf owner (sm_sessions m) None = None"
      using oldestOf_none[OF that] by (auto simp: ownerCount_def count_where_eq_0)
    then show ?thesis using stop "1.prems"(1) by auto
  next
    case (turn sid t r1 m1 r2)
    have "sm_config m1 = sm_config m" using removes_delete[OF turn(3)] by (simp add: removes_def)
    then show ?thesis using 1(1)[OF turn(1,2) refl turn(3)[symmetric] refl _ turn(4)] "1.prems"(1) by simp
  qed
qed

lemma removes_subset: "removes m roots m' \<Longrightarrow> set (sm_sessions m') \<subseteq> set (sm_sessions m)"
  by (auto simp: removes_def)

lemma count_filter_le: "count_where q (filter p xs) \<le> count_where q xs"
  by (induction xs) (auto simp: count_where_def)

section \<open>The server\<close>

text \<open>The two managers, the roots whose release is under way, and every identifier drawn so far.\<close>

record server =
  srv_vault :: Manager
  srv_sessions :: SessionManager
  srv_owed :: "nat multiset"
  srv_used :: "string set"

definition settle :: "server \<Rightarrow> nat list \<Rightarrow> SessionManager \<Rightarrow> server" where
  "settle s roots m = s\<lparr>srv_sessions := m, srv_owed := srv_owed s + mset roots\<rparr>"

definition owned :: "server \<Rightarrow> nat multiset" where
  "owned s = mset (roots_of (sm_sessions (srv_sessions s))) + srv_owed s"

text \<open>Every method of the session manager, and every step of the vault manager that leaves the leases it does not own
  alone. New identifiers are 64 hexadecimal digits that were never drawn before.\<close>

definition new_secret :: "server \<Rightarrow> string \<Rightarrow> bool" where
  "new_secret s sid \<longleftrightarrow> isCanonicalSessionSecret sid \<and> sid \<notin> srv_used s"

inductive server_step :: "server \<Rightarrow> server \<Rightarrow> bool" where
  login: "new_secret s sid \<Longrightarrow> l \<notin># owned s \<Longrightarrow> CreateVaultSession now sid csrf user l (srv_vault s) (srv_sessions s) = (r, roots, m) \<Longrightarrow>
    server_step s ((settle s roots m)\<lparr>srv_used := insert sid (srv_used s)\<rparr>)"
| login_legacy: "new_secret s sid \<Longrightarrow> CreateSession now sid csrf username (srv_vault s) (srv_sessions s) = (r, roots, m) \<Longrightarrow>
    server_step s ((settle s roots m)\<lparr>srv_used := insert sid (srv_used s)\<rparr>)"
| get: "GetSession now sid (srv_sessions s) = (ses, roots, m) \<Longrightarrow> server_step s (settle s roots m)"
| delete: "DeleteSession sid (srv_sessions s) = (roots, m) \<Longrightarrow> server_step s (settle s roots m)"
| revoke: "RevokeSession session (srv_sessions s) = (roots, m) \<Longrightarrow> server_step s (settle s roots m)"
| delete_name: "DeleteAllSessions username (srv_sessions s) = (n, roots, m) \<Longrightarrow> server_step s (settle s roots m)"
| delete_user: "DeleteAllSessionsForUser user (srv_sessions s) = (n, roots, m) \<Longrightarrow> server_step s (settle s roots m)"
| rotate: "new_secret s sid \<Longrightarrow> RotateAfterReauthentication now sid csrf old (srv_sessions s) = (r, roots, m) \<Longrightarrow>
    server_step s ((settle s roots m)\<lparr>srv_used := insert sid (srv_used s)\<rparr>)"
| csrf: "ValidateCSRF now sid token (srv_sessions s) = (b, roots, m) \<Longrightarrow> server_step s (settle s roots m)"
| recent: "IsRecent now sid (srv_sessions s) = (b, roots, m) \<Longrightarrow> server_step s (settle s roots m)"
| cleanup: "purgeExpiredLocked now (srv_sessions s) = (roots, m) \<Longrightarrow> server_step s (settle s roots m)"
| shutdown: "CloseSessions (srv_sessions s) = (roots, m) \<Longrightarrow> server_step s (settle s roots m)"
| borrow: "borrowVaultSession now sid (srv_vault s) (srv_sessions s) = (r, roots, v, m) \<Longrightarrow>
    server_step s ((settle s roots m)\<lparr>srv_vault := v\<rparr>)"
| restore: "sessionBeginRestore now sid (srv_vault s) (srv_sessions s) = (Inr (t, user), v) \<Longrightarrow>
    server_step s (s\<lparr>srv_vault := put_threads (vm_threads (srv_vault s)) [t] v\<rparr>)"
| release: "srv_owed s = add_mset l owed \<Longrightarrow> Release l (srv_vault s) = (ts, v) \<Longrightarrow>
    server_step s (s\<lparr>srv_vault := put_threads (vm_threads (srv_vault s)) ts v, srv_owed := owed\<rparr>)"
| vault: "vault_any (srv_vault s) v \<Longrightarrow> \<forall>l\<in>#owned s. \<not> ls_released (lease v l) \<Longrightarrow> server_step s (s\<lparr>srv_vault := v\<rparr>)"

definition server_start :: "SessionConfig \<Rightarrow> server" where
  "server_start c = \<lparr>srv_vault = newManager, srv_sessions = NewSessionManagerWithConfig c, srv_owed = {#}, srv_used = {}\<rparr>"

section \<open>Invariant\<close>

definition record_ok :: "SessionConfig \<Rightarrow> string set \<Rightarrow> string \<times> sessionRecord \<Rightarrow> bool" where
  "record_ok c used x = (case x of (i, r) \<Rightarrow>
     ss_id (sr_session r) = i \<and> isCanonicalSessionSecret i \<and> i \<in> used \<and> ss_family (sr_session r) \<in> used \<and>
     ss_expires (sr_session r) = ss_created (sr_session r) + MaxAge c)"

definition sessions_ok :: "SessionManager \<Rightarrow> string set \<Rightarrow> bool" where
  "sessions_ok m used \<longleftrightarrow> distinct (map fst (sm_sessions m)) \<and> (\<forall>x\<in>set (sm_sessions m). record_ok (sm_config m) used x) \<and>
     MaxConcurrent (sm_config m) \<ge> 1 \<and> (\<forall>owner. int (ownerCount owner m) \<le> MaxConcurrent (sm_config m)) \<and>
     (sm_closed m \<longrightarrow> sm_sessions m = [])"

definition root_of_user :: "Manager \<Rightarrow> string \<times> sessionRecord \<Rightarrow> bool" where
  "root_of_user v x = (case x of (i, r) \<Rightarrow> case sr_root r of None \<Rightarrow> True | Some l \<Rightarrow>
     ss_user (sr_session r) \<noteq> [] \<and> fst (ls_binding (lease v l)) = ss_user (sr_session r))"

definition server_inv :: "server \<Rightarrow> bool" where
  "server_inv s \<longleftrightarrow> vault_inv (srv_vault s) \<and> sessions_ok (srv_sessions s) (srv_used s) \<and> (\<forall>l. count (owned s) l \<le> 1) \<and>
     (\<forall>l\<in>#owned s. root_live (srv_vault s) l) \<and> (\<forall>x\<in>set (sm_sessions (srv_sessions s)). root_of_user (srv_vault s) x)"

section \<open>Leases only grow\<close>

definition leases_grow :: "Manager \<Rightarrow> Manager \<Rightarrow> bool" where
  "leases_grow v v' \<longleftrightarrow> length (vm_leases v) \<le> length (vm_leases v') \<and>
     (\<forall>l < length (vm_leases v). ls_root (lease v' l) = ls_root (lease v l) \<and> ls_binding (lease v' l) = ls_binding (lease v l))"

lemma leases_grow_same: "vm_leases v' = vm_leases v \<Longrightarrow> leases_grow v v'"
  by (simp add: leases_grow_def lease_def)

lemma grant_leases: "vm_leases (grant i root b s) = vm_leases s @ [\<lparr>ls_entry = i, ls_root = root, ls_released = False, ls_binding = b\<rparr>]"
  by (simp add: grant_def Let_def)

lemma leases_grow_append: "vm_leases v' = vm_leases v @ [x] \<Longrightarrow> leases_grow v v'"
  by (simp add: leases_grow_def lease_def nth_append)

lemma leases_grow_cases: "vm_leases v' = vm_leases v \<or> (\<exists>x. vm_leases v' = vm_leases v @ [x]) \<Longrightarrow> leases_grow v v'"
  using leases_grow_same leases_grow_append by blast

lemma frame_leases [simp]:
  "vm_leases (revive i s) = vm_leases s" "vm_leases (unlink i s) = vm_leases s"
  "vm_leases (snd (reserve u v k s)) = vm_leases s" "vm_leases (close_publish i err s) = vm_leases s"
  "vm_leases (close_destroy i inst s) = vm_leases s" "vm_leases (snd (close_final i r a s)) = vm_leases s"
  "vm_leases (snd (BeginUserDrain u s)) = vm_leases s" "vm_leases (snd (BeginRestore l s)) = vm_leases s"
  by (auto simp: revive_def unlink_def reserve_def close_publish_def close_destroy_def close_final_def BeginUserDrain_def
      BeginRestore_def Let_def split: option.splits)

lemma release_reference_leases [simp]: "release_reference i root s = (ts, s') \<Longrightarrow> vm_leases s' = vm_leases s"
  by (auto simp: release_reference_def Let_def split: if_splits)

lemma drain_all_leases [simp]: "vm_leases (fold (\<lambda>i. upd_ent i start_drain) order s) = vm_leases s"
  by (induction order arbitrary: s) simp_all

lemma acquire_leases: "leases_grow s (snd (acquire_turn u v k s))" "leases_grow s (snd (acquire_ready u v k i s))"
  "leases_grow s (snd (finishOpening i inst err b s))"
  by (rule leases_grow_cases, simp add: acquire_turn_def acquire_ready_def finishOpening_def Let_def grant_leases reserve_def split: option.splits)+

lemma Release_leases:
  "Release l s = (ts, s') \<Longrightarrow> vm_leases s' = (if ls_released (lease s l) then vm_leases s else (vm_leases s)[l := (lease s l)\<lparr>ls_released := True\<rparr>])"
  by (auto simp: Release_def split: if_splits dest: release_reference_leases)

lemma nth_list_update': "i < length xs \<Longrightarrow> xs[j := x] ! i = (if i = j then x else xs ! i)"
  by (simp add: nth_list_update)

lemma Release_grow: "Release l s = (ts, s') \<Longrightarrow> leases_grow s s'"
  by (drule Release_leases) (simp add: leases_grow_def lease_def nth_list_update')

lemma leases_grow_put [simp]: "leases_grow s (put_threads T ts s') = leases_grow s s'"
  by (simp add: leases_grow_def lease_def)

lemma leases_grow_step: "vault_step s s' \<Longrightarrow> leases_grow s s'"
proof (induction rule: vault_step.induct)
  case (acquire_turn s u v k T t s')
  then show ?case using acquire_leases(1)[of s u v k] by simp
next
  case (ready s u v k i T t s')
  then show ?case using acquire_leases(2)[of s u v k i] by simp
next
  case (open_failed s u v k i T t s')
  then show ?case using acquire_leases(3)[of s i None True "(u, v, k)"] by simp
next
  case (accepted s u v k i n T t s')
  then show ?case using acquire_leases(3)[of s i "Some n" False "(u, v, k)"] by simp
next
  case (refused s u v k i n T t s')
  then show ?case using acquire_leases(3)[of "s\<lparr>vm_open := del_where (\<lambda>p. p = (n, i)) (vm_open s)\<rparr>" i None True "(u, v, k)"]
    by (simp add: leases_grow_def lease_def)
next
  case (borrow l s c s')
  then show ?case by (auto simp: Borrow_def Let_def grant_leases split: if_splits intro!: leases_grow_append)
next
  case (release l s ts s')
  then show ?case using Release_grow by simp
next
  case (close_final s c i rest r a T n s')
  then show ?case using frame_leases(6)[of i r a s] by (simp add: leases_grow_same)
next
  case (drain u s ts s')
  then show ?case using frame_leases(7)[of u s] by (simp add: leases_grow_same)
next
  case (begin_restore l s t s')
  then show ?case using frame_leases(8)[of l s] by (simp add: leases_grow_same)
next
  case (close_all order s t s')
  then show ?case by (auto simp: CloseManager_def intro!: leases_grow_same)
next
  case (restore_end s i pc T ts s')
  then show ?case by (auto intro: leases_grow_same dest: release_reference_leases)
qed (auto intro: leases_grow_same)

lemma leases_grow_any: "vault_any s s' \<Longrightarrow> leases_grow s s'"
  using leases_grow_step by (auto simp: vault_any_def elim!: vault_cancel.cases intro: leases_grow_same)

section \<open>Methods keep the invariant\<close>

lemma sessions_ok_removes:
  assumes "sessions_ok m used" and "removes m roots m'"
  shows "sessions_ok m' used"
proof -
  obtain p where p: "sm_sessions m' = filter p (sm_sessions m)" and c: "sm_config m' = sm_config m" "sm_closed m' = sm_closed m"
    using assms(2) by (auto simp: removes_def)
  have "int (ownerCount owner m') \<le> MaxConcurrent (sm_config m)" for owner
  proof -
    have "ownerCount owner m' \<le> ownerCount owner m" by (simp add: ownerCount_def p count_filter_le)
    also have "int (ownerCount owner m) \<le> MaxConcurrent (sm_config m)" using assms(1) by (simp add: sessions_ok_def)
    finally show ?thesis by simp
  qed
  then show ?thesis using assms(1) by (auto simp: sessions_ok_def p c distinct_map_filter)
qed

lemma owned_settle: "removes (srv_sessions s) roots m \<Longrightarrow> owned (settle s roots m) = owned s"
  by (simp add: owned_def settle_def removes_def)

lemma settle_fields [simp]:
  "srv_vault (settle s roots m) = srv_vault s" "srv_sessions (settle s roots m) = m" "srv_used (settle s roots m) = srv_used s"
  "srv_owed (settle s roots m) = srv_owed s + mset roots"
  by (simp_all add: settle_def)

lemma owned_frames [simp]: "owned (s\<lparr>srv_vault := v\<rparr>) = owned s" "owned (s\<lparr>srv_used := u\<rparr>) = owned s"
  by (simp_all add: owned_def)

lemma inv_removes:
  assumes "server_inv s" and "removes (srv_sessions s) roots m"
  shows "server_inv (settle s roots m)"
  using assms sessions_ok_removes[OF _ assms(2)] removes_subset[OF assms(2)]
  by (auto simp: server_inv_def owned_settle)

text \<open>Setting the time a session was last seen.\<close>

lemma touch_sessions: "sm_sessions (set_session sid f m) = map (\<lambda>(i, r). (i, if i = sid then r\<lparr>sr_session := f (sr_session r)\<rparr> else r)) (sm_sessions m)"
  by (auto simp: set_session_def upd_where_def)

lemma touch_roots: "roots_of (map (\<lambda>(i, r). (i, if i = sid then r\<lparr>sr_session := f (sr_session r)\<rparr> else r)) rs) = roots_of rs"
  by (induction rs) auto

lemma inv_touch:
  assumes "server_inv s"
  shows "server_inv (settle s [] (set_session sid (\<lambda>x. x\<lparr>ss_seen := now\<rparr>) (srv_sessions s)))"
proof -
  let ?m = "srv_sessions s" and ?m' = "set_session sid (\<lambda>x. x\<lparr>ss_seen := now\<rparr>) (srv_sessions s)"
  have c: "sm_config ?m' = sm_config ?m" "sm_closed ?m' = sm_closed ?m" by (simp_all add: set_session_def)
  have "ownerCount owner ?m' = ownerCount owner ?m" for owner
    by (auto simp: ownerCount_def touch_sessions count_where_def filter_map comp_def case_prod_unfold sessionOwnerKey_def intro!: arg_cong[of _ _ length] filter_cong)
  moreover have "distinct (map fst (sm_sessions ?m'))" using assms
    by (simp add: touch_sessions case_prod_unfold comp_def server_inv_def sessions_ok_def)
  moreover have "record_ok c used x" if "x \<in> set (sm_sessions ?m')" "\<forall>x\<in>set (sm_sessions ?m). record_ok c used x" for c used x
    using that by (auto simp: touch_sessions record_ok_def split: if_splits)
  moreover have "sm_sessions ?m' = [] \<longleftrightarrow> sm_sessions ?m = []" by (simp add: touch_sessions)
  ultimately have "sessions_ok ?m' (srv_used s)" using assms by (simp add: server_inv_def sessions_ok_def c)
  moreover have "root_of_user v x" if "x \<in> set (sm_sessions ?m')" "\<forall>x\<in>set (sm_sessions ?m). root_of_user v x" for v x
    using that by (auto simp: touch_sessions root_of_user_def split: option.splits if_splits)
  ultimately show ?thesis using assms by (auto simp: server_inv_def owned_def touch_sessions touch_roots)
qed

text \<open>A method that finds no live session deletes what is left of it.\<close>

lemma inv_dead:
  assumes "server_inv s" and "(case deleteRecordLocked sid (srv_sessions s) of (roots, m') \<Rightarrow> (r, roots, m')) = (r', roots, m)"
  shows "server_inv (settle s roots m)"
proof -
  have "deleteRecordLocked sid (srv_sessions s) = (roots, m)" using assms(2) by (auto split: prod.splits)
  then show ?thesis using inv_removes[OF assms(1) removes_delete] by simp
qed

lemma settle_sessions: "(settle s roots m)\<lparr>srv_sessions := m'\<rparr> = settle s roots m'"
  by (cases s) (simp add: settle_def)

lemma settle_same: "settle s [] (srv_sessions s) = s"
  by (simp add: settle_def)

lemma inv_get: "server_inv s \<Longrightarrow> GetSession now sid (srv_sessions s) = (r, roots, m) \<Longrightarrow> server_inv (settle s roots m)"
  by (auto simp: GetSession_def settle_same inv_touch intro: inv_dead split: if_splits option.splits)

lemma inv_csrf: "server_inv s \<Longrightarrow> ValidateCSRF now sid token (srv_sessions s) = (r, roots, m) \<Longrightarrow> server_inv (settle s roots m)"
  by (auto simp: ValidateCSRF_def settle_same intro: inv_dead split: if_splits option.splits)

lemma inv_recent: "server_inv s \<Longrightarrow> IsRecent now sid (srv_sessions s) = (r, roots, m) \<Longrightarrow> server_inv (settle s roots m)"
  by (auto simp: IsRecent_def settle_same intro: inv_dead split: if_splits option.splits)

lemma removes_methods:
  "DeleteSession sid m = (roots, m') \<Longrightarrow> removes m roots m'" "RevokeSession ses m = (roots, m') \<Longrightarrow> removes m roots m'"
  "DeleteAllSessions name m = (n, roots, m') \<Longrightarrow> removes m roots m'" "DeleteAllSessionsForUser user m = (n, roots, m') \<Longrightarrow> removes m roots m'"
  by (auto simp: DeleteSession_def RevokeSession_def DeleteAllSessions_def DeleteAllSessionsForUser_def
      intro: removes_delete removes_delete_where split: if_splits)

lemma inv_close:
  assumes "server_inv s" and "CloseSessions (srv_sessions s) = (roots, m)"
  shows "server_inv (settle s roots m)"
proof -
  obtain m' where d: "delete_where (\<lambda>i r. True) (srv_sessions s) = (roots, m')" and m: "m = m'\<lparr>sm_closed := True\<rparr>"
    using assms(2) by (auto simp: CloseSessions_def split: prod.splits)
  have "server_inv (settle s roots m')" using inv_removes[OF assms(1) removes_delete_where[OF d]] .
  moreover have "sm_sessions m' = []" using d by (auto simp: delete_where_def del_where_def)
  ultimately show ?thesis by (simp add: m server_inv_def owned_def sessions_ok_def ownerCount_def)
qed

section \<open>New records\<close>

lemma put_fresh: "sid \<notin> fst ` set rs \<Longrightarrow> put_session sid r rs = rs @ [(sid, r)]"
  by (force simp: put_session_def del_where_def intro: filter_True)

definition root_granted :: "server \<Rightarrow> sessionRecord \<Rightarrow> bool" where
  "root_granted s r = (case sr_root r of None \<Rightarrow> True | Some l \<Rightarrow> l \<notin># owned s \<and> root_live (srv_vault s) l)"

lemma inv_put:
  assumes inv: "server_inv s" and new: "sid \<notin> srv_used s" and op: "\<not> sm_closed (srv_sessions s)"
    and room: "int (ownerCount (sessionOwnerKey (sr_session r)) (srv_sessions s)) < MaxConcurrent (sm_config (srv_sessions s))"
    and ok: "record_ok (sm_config (srv_sessions s)) (insert sid (srv_used s)) (sid, r)"
    and root: "root_granted s r" "root_of_user (srv_vault s) (sid, r)"
  shows "server_inv (s\<lparr>srv_sessions := (srv_sessions s)\<lparr>sm_sessions := put_session sid r (sm_sessions (srv_sessions s))\<rparr>,
    srv_used := insert sid (srv_used s)\<rparr>)"
proof -
  let ?m = "srv_sessions s"
  have so: "sessions_ok ?m (srv_used s)" using inv by (simp add: server_inv_def)
  have keys: "sid \<notin> fst ` set (sm_sessions ?m)" using so new by (force simp: sessions_ok_def record_ok_def)
  have more: "record_ok c (insert sid u) x" if "record_ok c u x" for c u x using that by (auto simp: record_ok_def split: prod.splits)
  let ?m' = "?m\<lparr>sm_sessions := sm_sessions ?m @ [(sid, r)]\<rparr>"
  have cnt: "ownerCount owner ?m' = ownerCount owner ?m + (if sessionOwnerKey (sr_session r) = owner then 1 else 0)" for owner
    by (simp add: ownerCount_def count_where_snoc)
  have "int (ownerCount owner ?m') \<le> MaxConcurrent (sm_config ?m)" for owner
    using so room unfolding cnt by (auto simp: sessions_ok_def)
  then have "sessions_ok ?m' (insert sid (srv_used s))" using so keys ok op more by (auto simp: sessions_ok_def)
  moreover have "count (owned (s\<lparr>srv_sessions := ?m'\<rparr>)) l \<le> 1 \<and> (l \<in># owned (s\<lparr>srv_sessions := ?m'\<rparr>) \<longrightarrow> root_live (srv_vault s) l)" for l
  proof (cases "sr_root r")
    case None
    then show ?thesis using inv by (simp add: server_inv_def owned_def)
  next
    case (Some k)
    have "owned (s\<lparr>srv_sessions := ?m'\<rparr>) = add_mset k (owned s)" using Some by (simp add: owned_def)
    moreover have "count (owned s) k = 0" "root_live (srv_vault s) k" using root(1) Some by (simp_all add: root_granted_def count_eq_zero_iff)
    ultimately show ?thesis using inv by (auto simp: server_inv_def)
  qed
  ultimately show ?thesis using inv root(2) unfolding put_fresh[OF keys] by (simp add: server_inv_def)
qed

lemma inv_use: "server_inv s \<Longrightarrow> server_inv (s\<lparr>srv_used := insert sid (srv_used s)\<rparr>)"
  by (auto simp: server_inv_def sessions_ok_def record_ok_def split: prod.splits)

text \<open>Creating a session: expired records go, then the oldest of the owner, then the record is stored.\<close>

lemma inv_create:
  assumes inv: "server_inv s" and new: "new_secret s sid"
    and run: "createSession now sid csrf username user root (srv_vault s) (srv_sessions s) = (r, roots, m)"
    and root: "\<And>l. root = Some l \<Longrightarrow> l \<notin># owned s \<and> (\<exists>u. user = Some u \<and> us_id u \<noteq> [] \<and> (root_live (srv_vault s) l \<longrightarrow> fst (ls_binding (lease (srv_vault s) l)) = us_id u))"
  shows "server_inv ((settle s roots m)\<lparr>srv_used := insert sid (srv_used s)\<rparr>)"
proof (cases "sm_closed (srv_sessions s) \<or> (\<exists>l. root = Some l \<and> \<not> okE (ValidateSessionRoot (srv_vault s) l))")
  case True
  then have "roots = []" "m = srv_sessions s" using run by (auto simp: createSession_def Let_def okE_iff split: if_splits sum.splits option.splits)
  then show ?thesis using inv_use[OF inv] by (simp add: settle_same)
next
  case False
  let ?m = "srv_sessions s"
  let ?ses = "new_session (sm_config ?m) now sid csrf username user"
  obtain r1 m1 where p: "purgeExpiredLocked now ?m = (r1, m1)" by force
  obtain r2 m2 where e: "evictOldestForOwnerLocked (sessionOwnerKey ?ses) m1 = (r2, m2)" by force
  have rm: "roots = r1 @ r2" "m = m2\<lparr>sm_sessions := put_session sid \<lparr>sr_session = ?ses, sr_root = root\<rparr> (sm_sessions m2)\<rparr>"
    using run False p e by (auto simp: createSession_def Let_def okE_iff split: if_splits sum.splits option.splits)
  have rem: "removes ?m roots m2" unfolding rm(1) by (rule removes_trans[OF removes_purge[OF p] removes_evict[OF e]])
  define s2 where "s2 = settle s roots m2"
  have inv2: "server_inv s2" unfolding s2_def by (rule inv_removes[OF inv rem])
  have cfg: "sm_config m2 = sm_config ?m" "sm_closed m2 = sm_closed ?m" "sm_config m1 = sm_config ?m" using rem removes_purge[OF p] by (simp_all add: removes_def)
  have "MaxConcurrent (sm_config m1) \<ge> 1" using inv cfg(3) by (simp add: server_inv_def sessions_ok_def)
  note room = evict_makes_room[OF this e]
  have live: "root_live (srv_vault s) l" if "root = Some l" for l
    using False that by (auto simp: ValidateSessionRoot_def bindE_def guardE_def okE_def split: if_splits)
  have "server_inv (s2\<lparr>srv_sessions := (srv_sessions s2)\<lparr>sm_sessions := put_session sid \<lparr>sr_session = ?ses, sr_root = root\<rparr> (sm_sessions (srv_sessions s2))\<rparr>,
      srv_used := insert sid (srv_used s2)\<rparr>)"
  proof (rule inv_put[OF inv2])
    show "sid \<notin> srv_used s2" using new by (simp add: s2_def new_secret_def)
    show "\<not> sm_closed (srv_sessions s2)" using False by (simp add: s2_def cfg)
    show "int (ownerCount (sessionOwnerKey (sr_session \<lparr>sr_session = ?ses, sr_root = root\<rparr>)) (srv_sessions s2)) < MaxConcurrent (sm_config (srv_sessions s2))"
      using room by (simp add: s2_def cfg)
    show "record_ok (sm_config (srv_sessions s2)) (insert sid (srv_used s2)) (sid, \<lparr>sr_session = ?ses, sr_root = root\<rparr>)"
      using new by (simp add: s2_def cfg record_ok_def new_session_def new_secret_def)
    show "root_granted s2 \<lparr>sr_session = ?ses, sr_root = root\<rparr>"
      using root live owned_settle[OF rem] by (auto simp: root_granted_def s2_def split: option.splits)
    show "root_of_user (srv_vault s2) (sid, \<lparr>sr_session = ?ses, sr_root = root\<rparr>)"
      using root live by (fastforce simp: root_of_user_def s2_def new_session_def split: option.splits)
  qed
  then show ?thesis by (simp add: s2_def rm(2) settle_sessions)
qed

lemma inv_login:
  assumes inv: "server_inv s" and new: "new_secret s sid" and l: "l \<notin># owned s"
    and run: "CreateVaultSession now sid csrf user l (srv_vault s) (srv_sessions s) = (r, roots, m)"
  shows "server_inv ((settle s roots m)\<lparr>srv_used := insert sid (srv_used s)\<rparr>)"
proof (cases "roots = [] \<and> m = srv_sessions s")
  case True
  then show ?thesis using inv_use[OF inv] by (simp add: settle_same)
next
  case False
  let ?v = "srv_vault s"
  have c: "createSession now sid csrf (us_email user) (Some user) (Some l) ?v (srv_sessions s) = (r, roots, m)" "us_id user \<noteq> []"
    "en_user (ent ?v (ls_entry (lease ?v l))) = us_id user"
    using run False by (auto simp: CreateVaultSession_def split: if_splits)
  have "fst (ls_binding (lease ?v l)) = us_id user" if "root_live ?v l"
  proof -
    have "lease ?v l \<in> set (vm_leases ?v)" "\<not> ls_released (lease ?v l)" using that by (auto simp: root_live_def lease_def)
    then have "bound ?v (ls_entry (lease ?v l)) (ls_binding (lease ?v l))" using inv by (auto simp: server_inv_def vault_inv_def leases_ok_def)
    then show ?thesis using c(3) by (simp add: bound_def)
  qed
  then show ?thesis using inv_create[OF inv new c(1)] l c(2) by auto
qed

text \<open>Rotation moves the record to its new identifier; its root stays with it.\<close>

lemma live_in: "live_session now sid m = Some r \<Longrightarrow> (sid, r) \<in> set (sm_sessions m)"
  by (auto simp: live_session_def find_session_def dest: map_of_SomeD split: option.splits if_splits)

lemma single_record:
  assumes "distinct (map fst rs)" and "(i, r) \<in> set rs"
  shows "filter (\<lambda>(j, _). j = i) rs = [(i, r)]"
  using assms
proof (induction rs)
  case (Cons x rs)
  have "filter (\<lambda>(j, _). j = i) rs = []" if "fst x = i" using Cons.prems(1) that by (auto simp: filter_empty_conv rev_image_eqI)
  then show ?case using Cons by (cases x) (auto simp: rev_image_eqI)
qed simp

lemma count_drop: "x \<in> set xs \<Longrightarrow> \<not> p x \<Longrightarrow> q x \<Longrightarrow> count_where q (filter p xs) < count_where q xs"
proof (induction xs)
  case (Cons y xs)
  show ?case
  proof (cases "y = x")
    case True
    then show ?thesis using Cons.prems count_filter_le[of q p xs] by (simp add: count_where_Cons)
  next
    case False
    then show ?thesis using Cons by (simp add: count_where_Cons)
  qed
qed simp

lemma inv_drop:
  assumes "server_inv s" and "removes (srv_sessions s) roots m"
  shows "server_inv (s\<lparr>srv_sessions := m\<rparr>)"
proof -
  have o: "owned s = owned (s\<lparr>srv_sessions := m\<rparr>) + mset roots" using assms(2) by (simp add: owned_def removes_def)
  have "count (owned (s\<lparr>srv_sessions := m\<rparr>)) l \<le> 1" for l
    using assms(1) unfolding server_inv_def o by (metis add_leE count_union)
  moreover have "l \<in># owned (s\<lparr>srv_sessions := m\<rparr>) \<Longrightarrow> l \<in># owned s" for l by (simp add: o)
  ultimately show ?thesis using assms sessions_ok_removes[OF _ assms(2)] removes_subset[OF assms(2)] by (auto simp: server_inv_def)
qed

lemma inv_rotated:
  assumes inv: "server_inv s" and new: "new_secret s sid" and op: "\<not> sm_closed (srv_sessions s)" and r: "(old, r) \<in> set (sm_sessions (srv_sessions s))"
    and m1: "m1 = (srv_sessions s)\<lparr>sm_sessions := del_where (\<lambda>(i, _). i = old) (sm_sessions (srv_sessions s))\<rparr>"
    and r': "r' = r\<lparr>sr_session := (sr_session r)\<lparr>ss_id := sid, ss_csrf := csrf, ss_seen := now, ss_reauth := now\<rparr>\<rparr>"
  shows "server_inv (s\<lparr>srv_sessions := m1\<lparr>sm_sessions := put_session sid r' (sm_sessions m1)\<rparr>, srv_used := insert sid (srv_used s)\<rparr>)"
proof -
  let ?m = "srv_sessions s" and ?o = "sessionOwnerKey (sr_session r)"
  have d: "deleteRecordLocked old ?m = (roots_of [(old, r)], m1)"
    using single_record[OF _ r] inv by (auto simp: deleteRecordLocked_def delete_where_def server_inv_def sessions_ok_def m1)
  define s1 where "s1 = s\<lparr>srv_sessions := m1\<rparr>"
  have inv1: "server_inv s1" unfolding s1_def by (rule inv_drop[OF inv removes_delete[OF d]])
  have ok: "record_ok (sm_config ?m) (srv_used s) (old, r)" "root_of_user (srv_vault s) (old, r)"
    using inv r by (auto simp: server_inv_def sessions_ok_def)
  have key: "sessionOwnerKey (sr_session r') = ?o" by (simp add: r' sessionOwnerKey_def)
  have "int (ownerCount ?o m1) < int (ownerCount ?o ?m)"
    using count_drop[OF r, of "\<lambda>(i, _). i \<noteq> old" "\<lambda>(i, r). sessionOwnerKey (sr_session r) = ?o"]
    by (simp add: m1 ownerCount_def del_where_def case_prod_unfold)
  also have "\<dots> \<le> MaxConcurrent (sm_config ?m)" using inv by (simp add: server_inv_def sessions_ok_def)
  finally have room: "int (ownerCount (sessionOwnerKey (sr_session r')) (srv_sessions s1)) < MaxConcurrent (sm_config (srv_sessions s1))"
    by (simp add: s1_def key) (simp add: m1)
  have root: "root_granted s1 r'"
  proof (cases "sr_root r")
    case (Some l)
    have o: "owned s = add_mset l (owned s1)" using removes_delete[OF d] Some by (simp add: owned_def removes_def s1_def)
    have "count (owned s) l \<le> 1" "l \<in># owned s" using inv by (simp add: server_inv_def) (simp add: o)
    moreover have "root_live (srv_vault s) l" using inv calculation(2) by (simp add: server_inv_def)
    ultimately have "count (owned s1) l = 0" "root_live (srv_vault s) l" by (simp_all add: o)
    then show ?thesis using Some by (simp add: root_granted_def r' s1_def count_eq_zero_iff)
  qed (simp add: root_granted_def r')
  have "server_inv (s1\<lparr>srv_sessions := (srv_sessions s1)\<lparr>sm_sessions := put_session sid r' (sm_sessions (srv_sessions s1))\<rparr>,
      srv_used := insert sid (srv_used s1)\<rparr>)"
    by (rule inv_put[OF inv1 _ _ room _ root])
      (use new op ok in \<open>simp_all add: s1_def m1 new_secret_def record_ok_def root_of_user_def r' split: option.splits\<close>)
  then show ?thesis by (simp add: s1_def)
qed

lemma inv_rotate:
  assumes inv: "server_inv s" and new: "new_secret s sid"
    and run: "RotateAfterReauthentication now sid csrf old (srv_sessions s) = (res, roots, m)"
  shows "server_inv ((settle s roots m)\<lparr>srv_used := insert sid (srv_used s)\<rparr>)"
proof -
  let ?m = "srv_sessions s"
  consider "roots = []" "m = ?m" | "deleteRecordLocked old ?m = (roots, m)"
    | r where "\<not> sm_closed ?m" "live_session now old ?m = Some r" "isCanonicalSessionSecret old"
    using run by (auto simp: RotateAfterReauthentication_def split: if_splits option.splits prod.splits)
  then show ?thesis
  proof cases
    case 1
    then show ?thesis using inv_use[OF inv] by (simp add: settle_same)
  next
    case 2
    then show ?thesis using inv_use[OF inv_removes[OF inv removes_delete[OF 2]]] by simp
  next
    case (3 r)
    then show ?thesis using run inv_rotated[OF inv new 3(1) live_in[OF 3(2)] refl refl]
      by (auto simp: RotateAfterReauthentication_def Let_def settle_def)
  qed
qed

section \<open>Steps of the vault\<close>

lemma inv_vault:
  assumes inv: "server_inv s" and v: "vault_inv v" "leases_grow (srv_vault s) v" and kept: "\<forall>l\<in>#owned s. \<not> ls_released (lease v l)"
  shows "server_inv (s\<lparr>srv_vault := v\<rparr>)"
proof -
  have live: "root_live (srv_vault s) l" if "l \<in># owned s" for l using inv that by (simp add: server_inv_def)
  then have "root_live v l" if "l \<in># owned s" for l using that v(2) kept by (force simp: root_live_def leases_grow_def)
  moreover have "root_of_user v x" if "x \<in> set (sm_sessions (srv_sessions s))" for x
  proof (cases x)
    case (Pair i r)
    have "l \<in># owned s" if "sr_root r = Some l" for l
      using that \<open>x \<in> _\<close> Pair by (auto simp: owned_def roots_of_mem)
    then have "ls_binding (lease v l) = ls_binding (lease (srv_vault s) l)" if "sr_root r = Some l" for l
      using that live v(2) by (auto simp: leases_grow_def root_live_def)
    then show ?thesis using inv \<open>x \<in> _\<close> Pair by (fastforce simp: server_inv_def root_of_user_def split: option.splits)
  qed
  ultimately show ?thesis using inv v(1) by (simp add: server_inv_def)
qed

lemma inv_borrow:
  assumes inv: "server_inv s" and run: "borrowVaultSession now sid (srv_vault s) (srv_sessions s) = (r, roots, v, m)"
  shows "server_inv ((settle s roots m)\<lparr>srv_vault := v\<rparr>)"
proof -
  let ?v = "srv_vault s" and ?m = "srv_sessions s"
  have err: "v' = ?v" if "Borrow l ?v = (Inl e, v')" for l e v' using that by (auto simp: Borrow_def Let_def split: if_splits)
  consider "roots = []" "m = ?m" "v = ?v" | "deleteRecordLocked sid ?m = (roots, m)" "v = ?v"
    | l c where "Borrow l ?v = (Inr c, v)" "roots = []" "m = set_session sid (\<lambda>x. x\<lparr>ss_seen := now\<rparr>) ?m"
    using run err by (auto simp: borrowVaultSession_def split: if_splits option.splits prod.splits sum.splits)
  then show ?thesis
  proof cases
    case 1
    then show ?thesis using inv by (simp add: settle_same)
  next
    case 2
    then show ?thesis using inv_removes[OF inv removes_delete[OF 2(1)]] by (simp add: settle_def)
  next
    case (3 l c)
    define s1 where "s1 = settle s [] m"
    have inv1: "server_inv s1" unfolding s1_def 3(3) by (rule inv_touch[OF inv])
    obtain x where x: "vm_leases v = vm_leases ?v @ [x]" "\<not> ls_released x"
      using 3(1) by (auto simp: Borrow_def Let_def grant_leases split: if_splits)
    have "vault_inv v" using borrow_step[OF _ 3(1)] inv by (simp add: server_inv_def)
    moreover have "leases_grow (srv_vault s1) v" using x by (auto simp: s1_def intro: leases_grow_append)
    moreover have "\<not> ls_released (lease v k)" if "k \<in># owned s1" for k
      using inv1 that x by (auto simp: server_inv_def root_live_def s1_def lease_def nth_append)
    ultimately have "server_inv (s1\<lparr>srv_vault := v\<rparr>)" by (intro inv_vault[OF inv1]) simp_all
    then show ?thesis by (simp add: s1_def 3(2))
  qed
qed

lemma inv_restore:
  assumes inv: "server_inv s" and run: "sessionBeginRestore now sid (srv_vault s) (srv_sessions s) = (Inr (t, user), v)"
  shows "server_inv (s\<lparr>srv_vault := put_threads (vm_threads (srv_vault s)) [t] v\<rparr>)"
proof -
  let ?v = "srv_vault s"
  obtain l where b: "BeginRestore l ?v = (Inr t, v)"
    using run by (auto simp: sessionBeginRestore_def split: if_splits option.splits prod.splits sum.splits)
  have le: "vm_leases v = vm_leases ?v" using frame_leases(8)[of l ?v] b by simp
  show ?thesis
  proof (rule inv_vault[OF inv])
    show "vault_inv (put_threads (vm_threads ?v) [t] v)" using begin_restore_step[OF _ b] inv by (simp add: server_inv_def)
    show "leases_grow ?v (put_threads (vm_threads ?v) [t] v)" using le by (simp add: leases_grow_same)
    show "\<forall>l\<in>#owned s. \<not> ls_released (lease (put_threads (vm_threads ?v) [t] v) l)"
      using inv le by (simp add: server_inv_def root_live_def lease_def)
  qed
qed

lemma inv_release:
  assumes inv: "server_inv s" and owed: "srv_owed s = add_mset l owed" and run: "Release l (srv_vault s) = (ts, v)"
  shows "server_inv (s\<lparr>srv_vault := put_threads (vm_threads (srv_vault s)) ts v, srv_owed := owed\<rparr>)"
proof -
  let ?v = "srv_vault s"
  define s1 where "s1 = s\<lparr>srv_owed := owed\<rparr>"
  have o: "owned s = add_mset l (owned s1)" by (simp add: owned_def s1_def owed)
  have cnt: "count (owned s1) k + (if k = l then 1 else 0) \<le> 1" for k
  proof -
    have "count (owned s) k \<le> 1" using inv by (simp add: server_inv_def)
    then show ?thesis by (simp add: o split: if_splits)
  qed
  have "count (owned s1) k \<le> 1" for k using cnt[of k] by simp
  then have inv1: "server_inv s1" using inv by (simp add: server_inv_def o s1_def)
  have l: "l < length (vm_leases ?v)" using inv by (simp add: server_inv_def o root_live_def)
  have nl: "k \<noteq> l" if "k \<in># owned s1" for k using that cnt[of l] by (auto simp: count_eq_zero_iff)
  have le: "lease v k = lease ?v k" if "k \<noteq> l" for k using Release_leases[OF run] that by (simp add: lease_def split: if_splits)
  have "server_inv (s1\<lparr>srv_vault := put_threads (vm_threads ?v) ts v\<rparr>)"
  proof (rule inv_vault[OF inv1])
    show "vault_inv (put_threads (vm_threads ?v) ts v)" using release_lease_step[OF _ l run] inv by (simp add: server_inv_def)
    show "leases_grow (srv_vault s1) (put_threads (vm_threads ?v) ts v)" using Release_grow[OF run] by (simp add: s1_def)
    show "\<forall>k\<in>#owned s1. \<not> ls_released (lease (put_threads (vm_threads ?v) ts v) k)"
    proof
      fix k assume k: "k \<in># owned s1"
      have "\<not> ls_released (lease ?v k)" using inv1 k by (simp add: server_inv_def root_live_def s1_def)
      then show "\<not> ls_released (lease (put_threads (vm_threads ?v) ts v) k)" using le[OF nl[OF k]] by (simp add: lease_def)
    qed
  qed
  then show ?thesis by (cases s) (simp add: s1_def)
qed

lemma server_inv_step: "server_step s s' \<Longrightarrow> server_inv s \<Longrightarrow> server_inv s'"
proof (induction rule: server_step.induct)
  case (login_legacy s sid now csrf username r roots m)
  then show ?case using inv_create[of s sid now csrf username None None] by (simp add: CreateSession_def)
next
  case (vault s v)
  then show ?case using inv_vault[of s v] leases_grow_any vault.inv_step by (auto simp: server_inv_def)
qed (simp_all add: inv_login inv_get inv_removes[OF _ removes_methods(1)] inv_removes[OF _ removes_methods(2)] inv_removes[OF _ removes_methods(3)]
    inv_removes[OF _ removes_methods(4)] inv_rotate inv_csrf inv_recent inv_removes[OF _ removes_purge] inv_close inv_borrow inv_restore inv_release)

lemma server_inv_start: "server_inv (server_start c)"
  using vault_inv_init
  by (simp add: server_inv_def server_start_def NewSessionManagerWithConfig_def DefaultSessionConfig_def sessions_ok_def owned_def
      ownerCount_def count_where_def Let_def)

interpretation sessions: step_machine "\<lambda>s. \<exists>c. s = server_start c" server_step server_inv
  by unfold_locales (auto intro: server_inv_start server_inv_step)

end
