(* ===== verification/Requests.thy ===== *)
theory Requests
  imports SessionInvariant ControlReads GoJSON RateLimit
begin

text \<open>
  The request guards of the multi-user server, in the order \<open>api/server_router.go\<close> stacks them: session
  authentication with a borrowed vault lease (\<open>middleware/session.go\<close>), the cross-site check and the recent
  authentication check (\<open>middleware/csrf.go\<close>). A guard answers with an HTTP status or passes the request on
  with what it learnt. Between two guards other goroutines may run.
\<close>

section \<open>Requests\<close>

text \<open>What the guards read of a request. The header function gives the values of a header; \<open>rq_proto\<close>
  is the protocol the proxy layer resolved, if any.\<close>

record Request =
  rq_method :: string
  rq_path :: string
  rq_host :: string
  rq_proto :: "string option"
  rq_tls :: bool
  rq_cookies :: "(string \<times> string) list"
  rq_header :: "string \<Rightarrow> string list"

text \<open>Library functions whose rules are tables or differ between releases: \<open>strings.ToLower\<close>, \<open>strings.EqualFold\<close> and the
  host syntax of \<open>net/url\<close>.\<close>

record web_env =
  we_lower :: "string \<Rightarrow> string"
  we_fold :: "string \<Rightarrow> string \<Rightarrow> bool"
  we_host :: "string \<Rightarrow> string option"

definition HasPrefix :: "string \<Rightarrow> string \<Rightarrow> bool" where
  "HasPrefix s p \<longleftrightarrow> take (length p) s = p"

definition RequestProto :: "Request \<Rightarrow> string" where
  "RequestProto r = (case rq_proto r of
      Some p \<Rightarrow> if p = ''http'' \<or> p = ''https'' then p else if rq_tls r then ''https'' else ''http''
    | None \<Rightarrow> if rq_tls r then ''https'' else ''http'')"

definition SessionCookieName :: string where "SessionCookieName = ''omni_money_session''"
definition SecureSessionCookieName :: string where "SecureSessionCookieName = ''__Host-omni_money_session''"
definition CSRFHeaderName :: string where "CSRFHeaderName = ''X-CSRF-Token''"

definition session_cookie :: "Request \<Rightarrow> string" where
  "session_cookie r = (if RequestProto r = ''https'' then SecureSessionCookieName else SessionCookieName)"

definition sessionIDFromRequest :: "Request \<Rightarrow> string option" where
  "sessionIDFromRequest r =
     (let hits = filter (\<lambda>(n, v). n = session_cookie r) (rq_cookies r) in
      if length hits \<noteq> 1 \<or> snd (last hits) = [] then None else Some (snd (last hits)))"

section \<open>Which requests are guarded\<close>

definition requiresSessionAuth :: "Request \<Rightarrow> bool" where
  "requiresSessionAuth r = (if \<not> HasPrefix (rq_path r) ''/api/'' then False else if isPublicServerAuthRequest (rq_method r) (rq_path r) then False else True)"

definition isSnapshotRestoreRequest :: "Request \<Rightarrow> bool" where
  "isSnapshotRestoreRequest r \<longleftrightarrow> rq_path r = ''/api/snapshots/restore'' \<and> rq_method r = ''POST''"

definition isLogoutRequest :: "Request \<Rightarrow> bool" where
  "isLogoutRequest r \<longleftrightarrow> rq_path r = ''/api/auth/logout'' \<and> rq_method r = ''POST''"

definition isUnsafeMethod :: "string \<Rightarrow> bool" where
  "isUnsafeMethod method \<longleftrightarrow> method \<notin> {''GET'', ''HEAD'', ''OPTIONS''}"

definition requiresRecentAuthentication :: "Request \<Rightarrow> bool" where
  "requiresRecentAuthentication r \<longleftrightarrow> (let path = rq_path r; method = rq_method r in
     path = ''/api/backup_csv'' \<and> method = ''GET'' \<or>
     path = ''/api/import_csv'' \<and> method = ''POST'' \<or>
     path = ''/api/snapshots/restore'' \<and> method = ''POST'' \<or>
     path = ''/api/snapshots'' \<and> method = ''POST'' \<or>
     path = ''/api/auth/logout-all'' \<and> method = ''POST'' \<or>
     (path = ''/api/auth/password'' \<or> path = ''/api/auth/recovery-code'') \<and> method = ''POST'' \<or>
     HasPrefix path ''/api/auth/passkeys/'' \<and> method = ''DELETE'' \<or>
     HasPrefix path ''/api/admin/'' \<and> isUnsafeMethod method \<or>
     (path = ''/api/ai-console/transactions'' \<or> path = ''/api/ai-console/analysis'') \<and> method = ''POST'')"

section \<open>Session authentication\<close>

text \<open>What the handler finds in the context of the request.\<close>

record req_context =
  cx_session :: "Session option"
  cx_user :: "UserSummary option"
  cx_lease :: "nat option"

datatype verdict = Answer nat | Pass req_context

definition no_context :: req_context where
  "no_context = \<lparr>cx_session = None, cx_user = None, cx_lease = None\<rparr>"

definition GetSessionFromRequest :: "int \<Rightarrow> Request \<Rightarrow> SessionManager \<Rightarrow> Session option \<times> nat list \<times> SessionManager" where
  "GetSessionFromRequest now r m = (case sessionIDFromRequest r of None \<Rightarrow> (None, [], m) | Some sid \<Rightarrow> GetSession now sid m)"

definition sessionForVaultRequest :: "int \<Rightarrow> Request \<Rightarrow> SessionManager \<Rightarrow> Session option \<times> nat list \<times> SessionManager" where
  "sessionForVaultRequest now r m =
     (case GetSessionFromRequest now r m of
        (Some s, roots, m') \<Rightarrow> (if ss_user s = [] then None else Some s, roots, m')
      | (None, roots, m') \<Rightarrow> (None, roots, m'))"

definition borrowVaultSessionFromRequest ::
  "int \<Rightarrow> Request \<Rightarrow> Manager \<Rightarrow> SessionManager \<Rightarrow> (Session \<times> nat) option \<times> nat list \<times> Manager \<times> SessionManager" where
  "borrowVaultSessionFromRequest now r v m =
     (case sessionIDFromRequest r of None \<Rightarrow> (None, [], v, m) | Some sid \<Rightarrow> borrowVaultSession now sid v m)"

text \<open>The account as the control store has it now; a session of an account that is gone, disabled or without a known
  role ends with all the sessions of that account.\<close>

definition currentVaultUser ::
  "store option \<Rightarrow> string \<Rightarrow> SessionManager \<Rightarrow> (nat, UserSummary) result \<times> nat list \<times> SessionManager" where
  "currentVaultUser accounts userID m =
     (case accounts of None \<Rightarrow> (Inl 503, [], m)
      | Some S \<Rightarrow> (case GetUser userID S of
          Inl e \<Rightarrow> (if e = ErrNotFound then (Inl 401, snd (DeleteAllSessionsForUser userID m)) else (Inl 503, [], m))
        | Inr u \<Rightarrow>
            if us_id u \<noteq> userID \<or> us_state u \<noteq> UserActive \<or> (us_role u \<noteq> RoleAdmin \<and> us_role u \<noteq> RoleUser)
            then (Inl 401, snd (DeleteAllSessionsForUser userID m))
            else (Inr u, [], m)))"

text \<open>The guard returns its verdict, the roots to release, the child lease the deferred call releases at the end of the
  request, and the two managers.\<close>

definition VaultSessionAuthMiddleware ::
  "int \<Rightarrow> Request \<Rightarrow> store option \<Rightarrow> Manager \<Rightarrow> SessionManager \<Rightarrow> verdict \<times> nat list \<times> nat option \<times> Manager \<times> SessionManager" where
  "VaultSessionAuthMiddleware now r accounts v m =
     (if \<not> requiresSessionAuth r then (Pass no_context, [], None, v, m)
      else if isLogoutRequest r then
        (case sessionForVaultRequest now r m of
           (None, roots, m') \<Rightarrow> (Answer 401, roots, None, v, m')
         | (Some s, roots, m') \<Rightarrow> (Pass (no_context\<lparr>cx_session := Some s\<rparr>), roots, None, v, m'))
      else if isSnapshotRestoreRequest r then
        (case sessionForVaultRequest now r m of
           (None, roots, m') \<Rightarrow> (Answer 401, roots, None, v, m')
         | (Some s, roots, m') \<Rightarrow> (case currentVaultUser accounts (ss_user s) m' of
             (Inl status, ended, m'') \<Rightarrow> (Answer status, roots @ ended, None, v, m'')
           | (Inr u, ended, m'') \<Rightarrow> (Pass (no_context\<lparr>cx_session := Some s, cx_user := Some u\<rparr>), roots @ ended, None, v, m'')))
      else
        (case borrowVaultSessionFromRequest now r v m of
           (None, roots, v', m') \<Rightarrow> (Answer 401, roots, None, v', m')
         | (Some (s, child), roots, v', m') \<Rightarrow> (case currentVaultUser accounts (ss_user s) m' of
             (Inl status, ended, m'') \<Rightarrow> (Answer status, roots @ ended, Some child, v', m'')
           | (Inr u, ended, m'') \<Rightarrow>
               if \<not> isLive v' child then
                 (case DeleteAllSessionsForUser (ss_user s) m'' of
                    (_, rest, m3) \<Rightarrow> (Answer 503, roots @ ended @ rest, Some child, v', m3))
               else
                 (Pass \<lparr>cx_session = Some (s\<lparr>ss_username := us_email u, ss_email := us_email u, ss_display := us_display u, ss_role := us_role u\<rparr>),
                        cx_user = Some u, cx_lease = Some child\<rparr>, roots @ ended, Some child, v', m''))))"

section \<open>Cross-site requests\<close>

text \<open>\<open>net/url.Parse\<close>, as far as an origin tells its results apart: path, query and fragment are kept undecoded, and of
  the user information only whether there is any.\<close>

record URL =
  url_scheme :: string
  url_opaque :: string
  url_user :: bool
  url_host :: string
  url_path :: string
  url_query :: string
  url_force :: bool
  url_fragment :: string

definition ctl_byte :: "char \<Rightarrow> bool" where
  "ctl_byte c \<longleftrightarrow> (of_char c :: nat) < 32 \<or> (of_char c :: nat) = 127"

definition letter :: "char \<Rightarrow> bool" where
  "letter c \<longleftrightarrow> 97 \<le> (of_char c :: nat) \<and> (of_char c :: nat) \<le> 122 \<or> 65 \<le> (of_char c :: nat) \<and> (of_char c :: nat) \<le> 90"

definition scheme_rest :: "char \<Rightarrow> bool" where
  "scheme_rest c \<longleftrightarrow> 48 \<le> (of_char c :: nat) \<and> (of_char c :: nat) \<le> 57 \<or> c = CHR ''+'' \<or> c = CHR ''-'' \<or> c = CHR ''.''"

fun getScheme :: "string \<Rightarrow> string \<Rightarrow> string \<Rightarrow> (string \<times> string) option" where
  "getScheme raw done [] = Some ([], raw)"
| "getScheme raw done (c # cs) =
     (if letter c then getScheme raw (done @ [c]) cs
      else if scheme_rest c then (if done = [] then Some ([], raw) else getScheme raw (done @ [c]) cs)
      else if c = CHR '':'' then (if done = [] then None else Some (done, cs))
      else Some ([], raw))"

definition Cut :: "char \<Rightarrow> string \<Rightarrow> string \<times> string" where
  "Cut c s = (takeWhile (\<lambda>x. x \<noteq> c) s, tl (dropWhile (\<lambda>x. x \<noteq> c) s))"

text \<open>Every \<open>%\<close> of a path or fragment is followed by two hexadecimal digits.\<close>

fun escapes_ok :: "string \<Rightarrow> bool" where
  "escapes_ok [] = True"
| "escapes_ok (c # cs) =
     (if c = CHR ''%'' then (case cs of a # b # rest \<Rightarrow> hex_val a \<noteq> None \<and> hex_val b \<noteq> None \<and> escapes_ok rest | _ \<Rightarrow> False)
      else escapes_ok cs)"

definition url_authority :: "web_env \<Rightarrow> string \<Rightarrow> (bool \<times> string) option" where
  "url_authority env authority =
     (let host = rev (takeWhile (\<lambda>c. c \<noteq> CHR ''@'') (rev authority)) in
      map_option (\<lambda>h. (CHR ''@'' \<in> set authority, h)) (we_host env host))"

text \<open>What follows the scheme and precedes the query: opaque data, an authority with a path, or a path.\<close>

definition url_rest :: "web_env \<Rightarrow> string \<Rightarrow> string \<Rightarrow> URL \<Rightarrow> URL option" where
  "url_rest env scheme rest url =
     (if \<not> HasPrefix rest ''/'' \<and> scheme \<noteq> [] then Some (url\<lparr>url_opaque := rest\<rparr>)
      else if \<not> HasPrefix rest ''/'' \<and> CHR '':'' \<in> set (fst (Cut (CHR ''/'') rest)) then None
      else if (scheme \<noteq> [] \<or> \<not> HasPrefix rest ''///'') \<and> HasPrefix rest ''//'' then
        (let authority = takeWhile (\<lambda>c. c \<noteq> CHR ''/'') (drop 2 rest); path = dropWhile (\<lambda>c. c \<noteq> CHR ''/'') (drop 2 rest) in
         case url_authority env authority of None \<Rightarrow> None
         | Some (user, host) \<Rightarrow> if escapes_ok path then Some (url\<lparr>url_user := user, url_host := host, url_path := path\<rparr>) else None)
      else if escapes_ok rest then Some (url\<lparr>url_path := rest\<rparr>) else None)"

definition url_Parse :: "web_env \<Rightarrow> string \<Rightarrow> URL option" where
  "url_Parse env raw =
     (let (u, frag) = Cut (CHR ''#'') raw in
      if list_ex ctl_byte u then None
      else if u = ''*'' then (if escapes_ok frag then Some \<lparr>url_scheme = [], url_opaque = [], url_user = False, url_host = [], url_path = ''*'', url_query = [], url_force = False, url_fragment = frag\<rparr> else None)
      else case getScheme u [] u of None \<Rightarrow> None
      | Some (scheme, rest0) \<Rightarrow>
          let force = (rest0 \<noteq> [] \<and> last rest0 = CHR ''?'' \<and> count_where (\<lambda>c. c = CHR ''?'') rest0 = 1);
              (rest, query) = (if force then (butlast rest0, []) else Cut (CHR ''?'') rest0);
              url = \<lparr>url_scheme = nocase scheme, url_opaque = [], url_user = False, url_host = [], url_path = [], url_query = query, url_force = force, url_fragment = frag\<rparr> in
          if \<not> escapes_ok frag then None
          else url_rest env scheme rest url)"

definition validBrowserRequestBoundary :: "web_env \<Rightarrow> Request \<Rightarrow> bool" where
  "validBrowserRequestBoundary env r =
     (let fetchSite = rq_header r ''Sec-Fetch-Site''; origins = rq_header r ''Origin'' in
      if length fetchSite > 1 then False
      else if length fetchSite = 1 \<and> we_lower env (TrimSpace (hd fetchSite)) \<notin> {''same-origin'', ''none''} then False
      else if origins = [] then True
      else if length origins \<noteq> 1 \<or> CHR '','' \<in> set (hd origins) then False
      else case url_Parse env (TrimSpace (hd origins)) of None \<Rightarrow> False
      | Some origin \<Rightarrow>
          if url_scheme origin = [] \<or> url_host origin = [] \<or> url_user origin \<or> url_opaque origin \<noteq> [] \<or> url_path origin \<noteq> [] \<or>
             url_query origin \<noteq> [] \<or> url_force origin \<or> url_fragment origin \<noteq> [] then False
          else we_fold env (url_scheme origin) (RequestProto r) \<and> we_fold env (url_host origin) (rq_host r))"

definition CSRFMiddleware ::
  "web_env \<Rightarrow> int \<Rightarrow> Request \<Rightarrow> req_context \<Rightarrow> SessionManager \<Rightarrow> verdict \<times> nat list \<times> SessionManager" where
  "CSRFMiddleware env now r cx m =
     (if \<not> isUnsafeMethod (rq_method r) \<or> \<not> HasPrefix (rq_path r) ''/api/'' then (Pass cx, [], m)
      else if \<not> validBrowserRequestBoundary env r then (Answer 403, [], m)
      else if isPublicServerAuthRequest (rq_method r) (rq_path r) then (Pass cx, [], m)
      else case cx_session cx of None \<Rightarrow> (Answer 403, [], m)
      | Some s \<Rightarrow>
          let values = rq_header r CSRFHeaderName in
          if length values \<noteq> 1 \<or> CHR '','' \<in> set (hd values) then (Answer 403, [], m)
          else case ValidateCSRF now (ss_id s) (hd values) m of
            (valid, roots, m') \<Rightarrow> (if valid then Pass cx else Answer 403, roots, m'))"

section \<open>Recent authentication\<close>

definition RecentAuthMiddleware :: "int \<Rightarrow> Request \<Rightarrow> req_context \<Rightarrow> SessionManager \<Rightarrow> verdict \<times> nat list \<times> SessionManager" where
  "RecentAuthMiddleware now r cx m =
     (if \<not> requiresRecentAuthentication r then (Pass cx, [], m)
      else case cx_session cx of None \<Rightarrow> (Answer 428, [], m)
      | Some s \<Rightarrow> (case IsRecent now (ss_id s) m of (fresh, roots, m') \<Rightarrow> (if fresh then Pass cx else Answer 428, roots, m')))"

end
