(* ===== verification/SessionProperties.thy ===== *)
theory SessionProperties
  imports SessionInvariant
begin

text \<open>
  What the session manager promises: the configured limits are sane, every session owns an open vault of its own
  user, and a session that was revoked or rotated away never comes back.
\<close>

section \<open>Limits\<close>

lemma durationEnv_bounds:
  "durationEnv value unit fallback lo hi = Some d \<Longrightarrow> lo \<le> fallback \<Longrightarrow> fallback \<le> hi \<Longrightarrow> lo \<le> d \<and> d \<le> hi"
  by (auto simp: durationEnv_def Let_def split: if_splits option.splits)

lemmas session_units = ns_hour_def ns_minute_def ns_second_def

lemma config_cases:
  assumes "SessionConfigFromEnv env = Some c"
  shows "ns_hour \<le> MaxAge c \<and> MaxAge c \<le> 7 * 24 * ns_hour" "5 * ns_minute \<le> IdleTimeout c \<and> IdleTimeout c \<le> 2 * ns_hour"
    "ns_minute \<le> RecentAuthAge c \<and> RecentAuthAge c \<le> 30 * ns_minute" "1 \<le> MaxConcurrent c \<and> MaxConcurrent c \<le> 10"
    "IdleTimeout c \<le> MaxAge c" "RecentAuthAge c \<le> IdleTimeout c"
proof -
  let ?d = DefaultSessionConfig
  obtain age idle recent conc where
    d: "durationEnv (env ''SESSION_MAX_AGE_HOURS'') ns_hour (MaxAge ?d) ns_hour (7 * 24 * ns_hour) = Some age"
      "durationEnv (env ''SESSION_IDLE_TIMEOUT_MINUTES'') ns_minute (IdleTimeout ?d) (5 * ns_minute) (2 * ns_hour) = Some idle"
      "durationEnv (env ''SESSION_REAUTH_MAX_AGE_MINUTES'') ns_minute (RecentAuthAge ?d) ns_minute (30 * ns_minute) = Some recent"
    and conc: "1 \<le> conc" "conc \<le> 10"
    and c: "c = \<lparr>MaxAge = age, IdleTimeout = idle, RecentAuthAge = recent, MaxConcurrent = conc\<rparr>" "idle \<le> age" "recent \<le> idle"
    using assms by (auto simp: SessionConfigFromEnv_def Let_def DefaultSessionConfig_def split: option.splits if_splits)
  show "ns_hour \<le> MaxAge c \<and> MaxAge c \<le> 7 * 24 * ns_hour" using durationEnv_bounds[OF d(1)] by (simp add: c DefaultSessionConfig_def session_units)
  show "5 * ns_minute \<le> IdleTimeout c \<and> IdleTimeout c \<le> 2 * ns_hour" using durationEnv_bounds[OF d(2)] by (simp add: c DefaultSessionConfig_def session_units)
  show "ns_minute \<le> RecentAuthAge c \<and> RecentAuthAge c \<le> 30 * ns_minute" using durationEnv_bounds[OF d(3)] by (simp add: c DefaultSessionConfig_def session_units)
  show "1 \<le> MaxConcurrent c \<and> MaxConcurrent c \<le> 10" "IdleTimeout c \<le> MaxAge c" "RecentAuthAge c \<le> IdleTimeout c" using c conc by simp_all
qed

text \<open>C19: a configuration the server starts with has a lifetime between an hour and a week, an idle time-out between five
  minutes and two hours, a re-authentication window between one and thirty minutes, each within the one before, and
  one to ten sessions per owner; the session manager uses exactly these values.\<close>

theorem session_limits_bounded:
  assumes "SessionConfigFromEnv env = Some c"
  shows "ns_hour \<le> MaxAge c \<and> MaxAge c \<le> 7 * 24 * ns_hour \<and> 5 * ns_minute \<le> IdleTimeout c \<and> IdleTimeout c \<le> 2 * ns_hour \<and>
    ns_minute \<le> RecentAuthAge c \<and> RecentAuthAge c \<le> 30 * ns_minute \<and> RecentAuthAge c \<le> IdleTimeout c \<and> IdleTimeout c \<le> MaxAge c \<and>
    1 \<le> MaxConcurrent c \<and> MaxConcurrent c \<le> 10 \<and> sm_config (NewSessionManagerWithConfig c) = c"
  using config_cases[OF assms] by (simp add: NewSessionManagerWithConfig_def Let_def session_units)

definition sc_env :: "string \<Rightarrow> string" where
  "sc_env name = (if name = ''SESSION_MAX_AGE_HOURS'' then '' 24 '' else if name = ''SESSION_MAX_CONCURRENT'' then ''+7'' else [])"

definition sc_config :: SessionConfig where
  "sc_config = \<lparr>MaxAge = 24 * ns_hour, IdleTimeout = 15 * ns_minute, RecentAuthAge = 5 * ns_minute, MaxConcurrent = 7\<rparr>"

theorem session_limits_bounded_witness:
  "SessionConfigFromEnv sc_env = Some sc_config \<and> sm_config (NewSessionManagerWithConfig sc_config) = sc_config"
proof -
  have "SessionConfigFromEnv sc_env = Some sc_config" by code_simp
  then show ?thesis using session_limits_bounded by blast
qed

section \<open>Sessions and vaults\<close>


section \<open>Sample server\<close>

definition sx_id :: string where "sx_id = replicate 64 (CHR ''a'')"
definition sx_id2 :: string where "sx_id2 = replicate 64 (CHR ''b'')"
definition sx_csrf :: string where "sx_csrf = replicate 64 (CHR ''c'')"
definition sx_csrf2 :: string where "sx_csrf2 = replicate 64 (CHR ''d'')"

definition sx_user :: UserSummary where
  "sx_user = \<lparr>us_id = ''alice-0123456789'', us_email = ''alice@example.com'', us_display = ''Alice'', us_role = RoleUser, us_state = UserActive,
     us_created = 0, us_updated = 0, us_login = None\<rparr>"

text \<open>Alice's vault is open and she has just logged in.\<close>

definition sx0 :: server where "sx0 = (server_start DefaultSessionConfig)\<lparr>srv_vault := sv4\<rparr>"

definition sx_session :: Session where "sx_session = new_session DefaultSessionConfig 1000 sx_id sx_csrf (us_email sx_user) (Some sx_user)"

definition sx_manager :: SessionManager where
  "sx_manager = (NewSessionManagerWithConfig DefaultSessionConfig)\<lparr>sm_sessions := [(sx_id, \<lparr>sr_session = sx_session, sr_root = Some 0\<rparr>)]\<rparr>"

definition sx1 :: server where "sx1 = (settle sx0 [] sx_manager)\<lparr>srv_used := {sx_id}\<rparr>"

lemma sx0_owned: "owned sx0 = {#}"
  by (simp add: sx0_def server_start_def owned_def NewSessionManagerWithConfig_def Let_def)

lemma vault_steps_server:
  assumes "vault_any\<^sup>*\<^sup>* v v'" and "owned s = {#}" and "srv_vault s = v"
  shows "server_step\<^sup>*\<^sup>* s (s\<lparr>srv_vault := v'\<rparr>)"
  using assms(1)
proof (induction rule: rtranclp_induct)
  case base
  then show ?case using assms(3) by auto
next
  case (step x y)
  have "server_step (s\<lparr>srv_vault := x\<rparr>) (s\<lparr>srv_vault := y\<rparr>)"
    using server_step.vault[of "s\<lparr>srv_vault := x\<rparr>" y] step(2) assms(2) by simp
  then show ?case using step(3) by (rule rtranclp.rtrancl_into_rtrancl[rotated])
qed

lemma sx0_reach: "server_step\<^sup>*\<^sup>* (server_start DefaultSessionConfig) sx0"
  unfolding sx0_def by (rule vault_steps_server[OF sv4_reach])
    (simp_all add: server_start_def owned_def NewSessionManagerWithConfig_def Let_def)

lemma sx_login: "CreateVaultSession 1000 sx_id sx_csrf sx_user 0 sv4 (NewSessionManagerWithConfig DefaultSessionConfig) = (Inr sx_session, [], sx_manager)"
proof -
  have usable: "root_usable sv4 0" "ValidateSessionRoot sv4 0 = Inr ()" "en_user (ent sv4 (ls_entry (lease sv4 0))) = ''alice-0123456789''" by code_simp+
  have cfg: "sm_config (NewSessionManagerWithConfig DefaultSessionConfig) = DefaultSessionConfig" "sm_sessions (NewSessionManagerWithConfig c) = []"
    "sm_closed (NewSessionManagerWithConfig c) = False" "MaxConcurrent DefaultSessionConfig = 3" for c
    by (simp_all add: NewSessionManagerWithConfig_def DefaultSessionConfig_def session_units Let_def)
  show ?thesis using usable
    by (simp add: CreateVaultSession_def sx_user_def createSession_def cfg purgeExpiredLocked_def delete_where_def del_where_def
        evictOldestForOwnerLocked.simps ownerCount_def count_where_def put_session_def sx_manager_def sx_session_def Let_def)
qed

lemma sx1_reach: "server_step\<^sup>*\<^sup>* (server_start DefaultSessionConfig) sx1"
proof -
  have "isCanonicalSessionSecret sx_id" by code_simp
  then have new: "new_secret sx0 sx_id" by (simp add: new_secret_def sx0_def server_start_def)
  have v: "srv_vault sx0 = sv4" "srv_sessions sx0 = NewSessionManagerWithConfig DefaultSessionConfig" "srv_used sx0 = {}" by (simp_all add: sx0_def server_start_def)
  have "server_step sx0 ((settle sx0 [] sx_manager)\<lparr>srv_used := insert sx_id (srv_used sx0)\<rparr>)"
    by (rule server_step.login[OF new, of 0]) (use sx_login v sx0_owned in simp_all)
  then have "server_step sx0 sx1" by (simp add: sx1_def v)
  then show ?thesis using sx0_reach by (rule rtranclp.rtrancl_into_rtrancl[rotated])
qed


section \<open>Sessions that are gone\<close>

abbreviation "fam r \<equiv> ss_family (sr_session r)"

text \<open>Where the records of the next state come from.\<close>

definition traced :: "string set \<Rightarrow> SessionManager \<Rightarrow> SessionManager \<Rightarrow> bool" where
  "traced used m m' \<longleftrightarrow> (\<forall>(j, x)\<in>set (sm_sessions m').
     (\<exists>y. (j, y) \<in> set (sm_sessions m) \<and> fam x = fam y) \<or>
     j \<notin> used \<and> (fam x = j \<or> (\<exists>i y. (i, y) \<in> set (sm_sessions m) \<and> fam x = fam y)))"

lemma traced_subset: "set (sm_sessions m') \<subseteq> set (sm_sessions m) \<Longrightarrow> traced used m m'"
  by (fastforce simp: traced_def)

lemma traced_removes: "removes m roots m' \<Longrightarrow> traced used m m'"
  using traced_subset removes_subset by blast

lemma traced_touch: "traced used m (set_session sid (\<lambda>x. x\<lparr>ss_seen := now\<rparr>) m)"
  by (fastforce simp: traced_def touch_sessions)

lemma traced_dead:
  "(case deleteRecordLocked sid m of (roots, m') \<Rightarrow> (r, roots, m')) = (r', roots, m') \<Longrightarrow> traced used m m'"
  by (auto split: prod.splits intro: traced_removes[OF removes_delete])

lemma traced_put:
  assumes "set (sm_sessions m1) \<subseteq> set (sm_sessions m)" and "sid \<notin> used"
    and "fam r = sid \<or> (\<exists>i y. (i, y) \<in> set (sm_sessions m) \<and> fam r = fam y)"
  shows "traced used m (m1\<lparr>sm_sessions := put_session sid r (sm_sessions m1)\<rparr>)"
  using assms by (fastforce simp: traced_def put_session_def del_where_def)

lemma traced_create:
  assumes "createSession now sid csrf username user root v m = (r, roots, m')" and "sid \<notin> used"
  shows "traced used m m'"
proof (cases "m' = m")
  case False
  let ?ses = "new_session (sm_config m) now sid csrf username user"
  obtain r1 m1 where p: "purgeExpiredLocked now m = (r1, m1)" by force
  obtain r2 m2 where e: "evictOldestForOwnerLocked (sessionOwnerKey ?ses) m1 = (r2, m2)" by force
  have m': "m' = m2\<lparr>sm_sessions := put_session sid \<lparr>sr_session = ?ses, sr_root = root\<rparr> (sm_sessions m2)\<rparr>"
    using assms(1) False p e by (auto simp: createSession_def Let_def split: if_splits sum.splits option.splits)
  have "set (sm_sessions m2) \<subseteq> set (sm_sessions m)" using removes_subset[OF removes_purge[OF p]] removes_subset[OF removes_evict[OF e]] by blast
  then show ?thesis unfolding m' by (rule traced_put[OF _ assms(2)]) (simp add: new_session_def)
qed (simp add: traced_subset)

lemma traced_rotate:
  assumes "RotateAfterReauthentication now sid csrf old m = (r, roots, m')" and "sid \<notin> used"
  shows "traced used m m'"
proof -
  consider "m' = m" | "deleteRecordLocked old m = (roots, m')"
    | x where "\<not> sm_closed m" "live_session now old m = Some x" "isCanonicalSessionSecret old"
    using assms(1) by (auto simp: RotateAfterReauthentication_def split: if_splits option.splits prod.splits)
  then show ?thesis
  proof cases
    case (3 x)
    let ?m1 = "m\<lparr>sm_sessions := del_where (\<lambda>(i, _). i = old) (sm_sessions m)\<rparr>"
    let ?x = "x\<lparr>sr_session := (sr_session x)\<lparr>ss_id := sid, ss_csrf := csrf, ss_seen := now, ss_reauth := now\<rparr>\<rparr>"
    have m': "m' = ?m1\<lparr>sm_sessions := put_session sid ?x (sm_sessions ?m1)\<rparr>"
      using assms(1) 3 by (simp add: RotateAfterReauthentication_def Let_def)
    have "set (sm_sessions ?m1) \<subseteq> set (sm_sessions m)" by (auto simp: del_where_def)
    moreover have "fam ?x = fam x" by simp
    then have "\<exists>i y. (i, y) \<in> set (sm_sessions m) \<and> fam ?x = fam y" using live_in[OF 3(2)] by blast
    ultimately show ?thesis unfolding m' by (intro traced_put[OF _ assms(2)] disjI2)
  qed (simp_all add: traced_subset traced_removes[OF removes_delete])
qed

lemma traced_same [simp]: "traced used m m"
  by (simp add: traced_subset)

lemma traced_methods:
  "GetSession now sid m = (r, roots, m') \<Longrightarrow> traced used m m'" "ValidateCSRF now sid token m = (b, roots, m') \<Longrightarrow> traced used m m'"
  "IsRecent now sid m = (b, roots, m') \<Longrightarrow> traced used m m'" "CloseSessions m = (roots, m') \<Longrightarrow> traced used m m'"
  "borrowVaultSession now sid v m = (x, roots, v', m') \<Longrightarrow> traced used m m'"
  by (auto simp: GetSession_def ValidateCSRF_def IsRecent_def CloseSessions_def borrowVaultSession_def delete_where_def del_where_def
      intro: traced_touch traced_dead traced_removes[OF removes_delete] traced_subset split: if_splits option.splits prod.splits sum.splits)

lemma traced_step: "server_step s s' \<Longrightarrow> traced (srv_used s) (srv_sessions s) (srv_sessions s') \<and> srv_used s \<subseteq> srv_used s'"
proof (induction rule: server_step.induct)
  case (login s sid l now csrf user r roots m)
  then show ?case by (auto simp: CreateVaultSession_def new_secret_def intro: traced_create split: if_splits)
next
  case (login_legacy s sid now csrf username r roots m)
  then show ?case by (auto simp: CreateSession_def new_secret_def intro: traced_create)
next
  case (rotate s sid now csrf old r roots m)
  then show ?case by (auto simp: new_secret_def intro: traced_rotate)
qed (auto intro: traced_methods traced_removes[OF removes_methods(1)] traced_removes[OF removes_methods(2)] traced_removes[OF removes_methods(3)]
    traced_removes[OF removes_methods(4)] traced_removes[OF removes_purge])

text \<open>An identifier or a login that was used once and has no record left.\<close>

definition key_gone :: "server \<Rightarrow> string \<Rightarrow> bool" where
  "key_gone s i \<longleftrightarrow> i \<in> srv_used s \<and> find_session i (srv_sessions s) = None"

definition family_gone :: "server \<Rightarrow> string \<Rightarrow> bool" where
  "family_gone s f \<longleftrightarrow> f \<in> srv_used s \<and> (\<forall>(j, r)\<in>set (sm_sessions (srv_sessions s)). fam r \<noteq> f)"

lemma find_none: "find_session i m = None \<longleftrightarrow> i \<notin> fst ` set (sm_sessions m)"
  by (simp add: find_session_def map_of_eq_None_iff)

lemma gone_step:
  assumes "server_step s s'"
  shows "key_gone s i \<Longrightarrow> key_gone s' i" "family_gone s f \<Longrightarrow> family_gone s' f"
  using traced_step[OF assms] by (force simp: key_gone_def family_gone_def traced_def find_none)+

lemma gone_steps:
  assumes "server_step\<^sup>*\<^sup>* s s'"
  shows "key_gone s i \<Longrightarrow> key_gone s' i" "family_gone s f \<Longrightarrow> family_gone s' f"
  using assms by (induction rule: rtranclp_induct) (auto intro: gone_step)

lemma gone_refused:
  assumes "key_gone s i"
  shows "fst (GetSession now i (srv_sessions s)) = None" "fst (borrowVaultSession now i v (srv_sessions s)) = None"
    "fst (ValidateCSRF now i token (srv_sessions s)) = False" "\<not> okE (fst (RotateAfterReauthentication now new csrf i (srv_sessions s)))"
  using assms by (auto simp: key_gone_def GetSession_def borrowVaultSession_def ValidateCSRF_def RotateAfterReauthentication_def live_session_def
      okE_def split: prod.splits)

lemma revoke_forgets:
  assumes "RevokeSession ses m = (roots, m')" and "isCanonicalSessionSecret (ss_id ses)" and "ss_family ses \<noteq> []"
  shows "\<forall>(j, x)\<in>set (sm_sessions m'). fam x \<noteq> ss_family ses"
  using assms by (auto simp: RevokeSession_def delete_where_def del_where_def)


definition sx2 :: server where "sx2 = (case RevokeSession sx_session sx_manager of (roots, m) \<Rightarrow> settle sx1 roots m)"




end
