(* ===== verification/RequestProperties.thy ===== *)
theory RequestProperties
  imports Requests SessionProperties
begin

text \<open>
  What a handler of the multi-user server may rely on when the three guards have let a request through, while other
  requests run in between; what happens to the sessions of a disabled account; and which origins a browser's request may
  come from.
\<close>

section \<open>What each guard established\<close>

lemma getSession_some:
  assumes "GetSession now sid m = (Some s, roots, m')"
  shows "\<exists>r. live_session now sid m = Some r \<and> s = (sr_session r)\<lparr>ss_seen := now\<rparr> \<and> roots = []"
  using assms by (auto simp: GetSession_def split: if_splits option.splits prod.splits)

lemma borrow_some:
  assumes "borrowVaultSession now sid v m = (Some (s, child), roots, v', m')"
  shows "\<exists>r l. live_session now sid m = Some r \<and> s = (sr_session r)\<lparr>ss_seen := now\<rparr> \<and> roots = [] \<and> sr_root r = Some l \<and>
    Borrow l v = (Inr child, v')"
  using assms by (auto simp: borrowVaultSession_def split: if_splits option.splits prod.splits sum.splits)

lemma borrowed_child:
  assumes "Borrow l v = (Inr child, v')"
  shows "lease v' child = \<lparr>ls_entry = ls_entry (lease v l), ls_root = False, ls_released = False, ls_binding = ls_binding (lease v l)\<rparr> \<and>
    child < length (vm_leases v') \<and> vm_open v' = vm_open v"
  using assms by (auto simp: Borrow_def Let_def grant_def lease_def split: if_splits)

lemma csrf_pass:
  assumes "CSRFMiddleware env now r cx m = (Pass cx', roots, m')"
  shows "cx' = cx" and "\<lbrakk>isUnsafeMethod (rq_method r); requiresSessionAuth r\<rbrakk> \<Longrightarrow> validBrowserRequestBoundary env r \<and>
    (\<exists>s x. cx_session cx = Some s \<and> live_session now (ss_id s) m = Some x \<and> rq_header r CSRFHeaderName = [ss_csrf (sr_session x)])"
proof -
  show "cx' = cx" using assms by (auto simp: CSRFMiddleware_def Let_def split: if_splits option.splits prod.splits)
  assume u: "isUnsafeMethod (rq_method r)" "requiresSessionAuth r"
  then have p: "HasPrefix (rq_path r) ''/api/''" "\<not> isPublicServerAuthRequest (rq_method r) (rq_path r)" by (auto simp: requiresSessionAuth_def split: if_splits)
  obtain s where s: "validBrowserRequestBoundary env r" "cx_session cx = Some s" "length (rq_header r CSRFHeaderName) = 1"
    "fst (ValidateCSRF now (ss_id s) (hd (rq_header r CSRFHeaderName)) m)"
    using assms u(1) p by (auto simp: CSRFMiddleware_def Let_def split: if_splits option.splits prod.splits)
  obtain token where t: "rq_header r CSRFHeaderName = [token]" using s(3) by (auto simp: length_Suc_conv)
  obtain x where "live_session now (ss_id s) m = Some x" "ss_csrf (sr_session x) = token"
    using s(4) by (auto simp: ValidateCSRF_def t split: if_splits option.splits prod.splits)
  then show "validBrowserRequestBoundary env r \<and>
    (\<exists>s x. cx_session cx = Some s \<and> live_session now (ss_id s) m = Some x \<and> rq_header r CSRFHeaderName = [ss_csrf (sr_session x)])"
    using s(1,2) t by auto
qed

lemma recent_pass:
  assumes "RecentAuthMiddleware now r cx m = (Pass cx', roots, m')" and "requiresRecentAuthentication r"
  shows "\<exists>s x. cx_session cx = Some s \<and> live_session now (ss_id s) m = Some x \<and> now - ss_reauth (sr_session x) \<le> RecentAuthAge (sm_config m)"
  using assms by (auto simp: RecentAuthMiddleware_def IsRecent_def split: if_splits option.splits prod.splits)

lemma currentVaultUser_ok:
  assumes "currentVaultUser accounts userID m = (Inr u, roots, m')"
  shows "roots = [] \<and> m' = m \<and> us_id u = userID \<and> us_state u = UserActive \<and> us_role u \<in> {RoleAdmin, RoleUser} \<and>
    (\<exists>S. accounts = Some S \<and> GetUser userID S = Inr u)"
  using assms by (auto simp: currentVaultUser_def split: if_splits option.splits sum.splits)

lemma auth_pass_session:
  assumes "VaultSessionAuthMiddleware now r accounts v m = (Pass cx, roots, child, v', m')" and "requiresSessionAuth r"
    and "isLogoutRequest r \<or> isSnapshotRestoreRequest r"
  shows "\<exists>sid s. sessionIDFromRequest r = Some sid \<and> GetSession now sid m = (Some s, roots, m') \<and> v' = v \<and> cx_session cx = Some s \<and> ss_user s \<noteq> [] \<and>
    (\<not> isLogoutRequest r \<longrightarrow> (\<exists>S u. accounts = Some S \<and> GetUser (ss_user s) S = Inr u \<and> us_id u = ss_user s \<and>
        us_state u = UserActive \<and> us_role u \<in> {RoleAdmin, RoleUser} \<and> cx_user cx = Some u))"
proof -
  obtain s roots1 m1 where f: "sessionForVaultRequest now r m = (Some s, roots1, m1)"
    using assms by (auto simp: VaultSessionAuthMiddleware_def split: if_splits option.splits prod.splits)
  then have us: "ss_user s \<noteq> []" by (auto simp: sessionForVaultRequest_def split: option.splits prod.splits if_splits)
  obtain sid where sid: "sessionIDFromRequest r = Some sid" "GetSession now sid m = (Some s, roots1, m1)"
    using f by (auto simp: sessionForVaultRequest_def GetSessionFromRequest_def split: option.splits prod.splits if_splits)
  show ?thesis
  proof (cases "isLogoutRequest r")
    case True
    then show ?thesis using assms(1,2) f sid us by (auto simp: VaultSessionAuthMiddleware_def no_context_def)
  next
    case False
    then obtain u roots2 where u: "currentVaultUser accounts (ss_user s) m1 = (Inr u, roots2, m')" "roots = roots1 @ roots2" "v' = v"
      "cx_session cx = Some s" "cx_user cx = Some u"
      using assms f by (auto simp: VaultSessionAuthMiddleware_def no_context_def split: sum.splits prod.splits)
    then show ?thesis using currentVaultUser_ok[OF u(1)] sid us by auto
  qed
qed

lemma auth_pass_borrow:
  assumes "VaultSessionAuthMiddleware now r accounts v m = (Pass cx, roots, child, v', m')" and "requiresSessionAuth r"
    and "\<not> isLogoutRequest r" "\<not> isSnapshotRestoreRequest r"
  shows "\<exists>sid s l S u. sessionIDFromRequest r = Some sid \<and> borrowVaultSession now sid v m = (Some (s, l), roots, v', m') \<and>
    accounts = Some S \<and> GetUser (ss_user s) S = Inr u \<and> us_id u = ss_user s \<and> us_state u = UserActive \<and> us_role u \<in> {RoleAdmin, RoleUser} \<and>
    cx = \<lparr>cx_session = Some (s\<lparr>ss_username := us_email u, ss_email := us_email u, ss_display := us_display u, ss_role := us_role u\<rparr>),
      cx_user = Some u, cx_lease = Some l\<rparr> \<and> child = Some l"
proof -
  obtain s l roots1 m1 where f: "borrowVaultSessionFromRequest now r v m = (Some (s, l), roots1, v', m1)"
    using assms by (auto simp: VaultSessionAuthMiddleware_def split: if_splits option.splits prod.splits sum.splits)
  obtain sid where sid: "sessionIDFromRequest r = Some sid" "borrowVaultSession now sid v m = (Some (s, l), roots1, v', m1)"
    using f by (auto simp: borrowVaultSessionFromRequest_def split: option.splits)
  have "\<exists>u roots2. currentVaultUser accounts (ss_user s) m1 = (Inr u, roots2, m') \<and> roots = roots1 @ roots2 \<and>
    cx = \<lparr>cx_session = Some (s\<lparr>ss_username := us_email u, ss_email := us_email u, ss_display := us_display u, ss_role := us_role u\<rparr>),
      cx_user = Some u, cx_lease = Some l\<rparr> \<and> child = Some l"
  proof (cases "currentVaultUser accounts (ss_user s) m1")
    case (fields res roots2 m2)
    note run = assms(1)[unfolded VaultSessionAuthMiddleware_def] 
    show ?thesis
    proof (cases res)
      case (Inl status)
      then show ?thesis using run assms(2-4) f fields by simp
    next
      case (Inr u)
      then have "isLive v' l" using run assms(2-4) f fields by (cases "isLive v' l") (simp_all split: prod.splits)
      then show ?thesis using run assms(2-4) f fields Inr by auto
    qed
  qed
  then show ?thesis using currentVaultUser_ok sid by fastforce
qed

section \<open>A guarded request\<close>

text \<open>What holds of a request that passed authentication in the server \<open>s\<close> and left the server \<open>s1\<close>.\<close>

definition authenticated :: "int \<Rightarrow> Request \<Rightarrow> store option \<Rightarrow> server \<Rightarrow> server \<Rightarrow> req_context \<Rightarrow> bool" where
  "authenticated now r accounts s s1 cx \<longleftrightarrow> (\<exists>sid ses x. sessionIDFromRequest r = Some sid \<and> cx_session cx = Some ses \<and> ss_id ses = sid \<and>
     live_session now sid (srv_sessions s) = Some x \<and> ss_user ses = ss_user (sr_session x) \<and>
     (\<not> isLogoutRequest r \<longrightarrow> (\<exists>S u. accounts = Some S \<and> GetUser (ss_user ses) S = Inr u \<and> us_id u = ss_user ses \<and>
        us_state u = UserActive \<and> us_role u \<in> {RoleAdmin, RoleUser} \<and> cx_user cx = Some u)) \<and>
     (\<not> isLogoutRequest r \<and> \<not> isSnapshotRestoreRequest r \<longrightarrow> (\<exists>l. cx_lease cx = Some l \<and> l \<notin># owned s \<and>
        \<not> ls_released (lease (srv_vault s1) l) \<and> fst (ls_binding (lease (srv_vault s1) l)) = ss_user ses \<and>
        (\<exists>n. (n, ls_entry (lease (srv_vault s1) l)) \<in> set (vm_open (srv_vault s1))))))"

lemma live_id:
  assumes "server_inv s" and "live_session now sid (srv_sessions s) = Some x"
  shows "ss_id (sr_session x) = sid"
  using live_in[OF assms(2)] assms(1) by (auto simp: server_inv_def sessions_ok_def record_ok_def)

lemma auth_authenticated:
  assumes inv: "server_inv s" and need: "requiresSessionAuth r"
    and run: "VaultSessionAuthMiddleware now r accounts (srv_vault s) (srv_sessions s) = (Pass cx, roots, child, v, m)"
  shows "authenticated now r accounts s ((settle s roots m)\<lparr>srv_vault := v\<rparr>) cx"
proof (cases "isLogoutRequest r \<or> isSnapshotRestoreRequest r")
  case True
  obtain sid ses where g: "sessionIDFromRequest r = Some sid" "GetSession now sid (srv_sessions s) = (Some ses, roots, m)" "cx_session cx = Some ses"
    and u: "\<not> isLogoutRequest r \<longrightarrow> (\<exists>S u. accounts = Some S \<and> GetUser (ss_user ses) S = Inr u \<and> us_id u = ss_user ses \<and>
        us_state u = UserActive \<and> us_role u \<in> {RoleAdmin, RoleUser} \<and> cx_user cx = Some u)"
    using auth_pass_session[OF run need True] by blast
  obtain x where x: "live_session now sid (srv_sessions s) = Some x" "ses = (sr_session x)\<lparr>ss_seen := now\<rparr>" using getSession_some[OF g(2)] by blast
  have "ss_id ses = sid" "ss_user ses = ss_user (sr_session x)" using live_id[OF inv x(1)] x(2) by simp_all
  then show ?thesis unfolding authenticated_def using g(1,3) x(1) u True by blast
next
  case False
  then have nl: "\<not> isLogoutRequest r" "\<not> isSnapshotRestoreRequest r" by simp_all
  obtain sid ses l S u where g: "sessionIDFromRequest r = Some sid" "borrowVaultSession now sid (srv_vault s) (srv_sessions s) = (Some (ses, l), roots, v, m)"
    and u: "accounts = Some S" "GetUser (ss_user ses) S = Inr u" "us_id u = ss_user ses" "us_state u = UserActive" "us_role u \<in> {RoleAdmin, RoleUser}"
    and cx: "cx = \<lparr>cx_session = Some (ses\<lparr>ss_username := us_email u, ss_email := us_email u, ss_display := us_display u, ss_role := us_role u\<rparr>),
      cx_user = Some u, cx_lease = Some l\<rparr>"
    using auth_pass_borrow[OF run need nl] by blast
  obtain x root where x: "live_session now sid (srv_sessions s) = Some x" "ses = (sr_session x)\<lparr>ss_seen := now\<rparr>" "sr_root x = Some root"
    "Borrow root (srv_vault s) = (Inr l, v)" using borrow_some[OF g(2)] by blast
  note child = borrowed_child[OF x(4)]
  have ou: "root \<in># owned s" using live_in[OF x(1)] x(3) by (auto simp: owned_def roots_of_mem)
  then have live: "root_live (srv_vault s) root" using inv by (simp add: server_inv_def)
  have "root_of_user (srv_vault s) (sid, x)" using inv live_in[OF x(1)] by (simp add: server_inv_def)
  then have b: "fst (ls_binding (lease v l)) = ss_user ses" using child x(2,3) by (simp add: root_of_user_def)
  have vi: "vault_inv (srv_vault s)" using inv by (simp add: server_inv_def)
  have "lease (srv_vault s) root \<in> set (vm_leases (srv_vault s))" "\<not> ls_released (lease (srv_vault s) root)" using live by (auto simp: root_live_def lease_def)
  then obtain n where n: "(n, ls_entry (lease v l)) \<in> set (vm_open v)" using lease_open(1)[OF vi] child by auto
  have "l \<notin># owned s"
  proof
    assume "l \<in># owned s"
    then have "l < length (vm_leases (srv_vault s))" using inv by (auto simp: server_inv_def root_live_def)
    moreover have "l = length (vm_leases (srv_vault s))" using x(4) by (auto simp: Borrow_def Let_def split: if_splits)
    ultimately show False by simp
  qed
  moreover have "ss_id ses = sid" "ss_user ses = ss_user (sr_session x)" using live_id[OF inv x(1)] x(2) by simp_all
  ultimately show ?thesis unfolding authenticated_def using g(1) x(1) u cx b n child by auto
qed

lemma auth_steps:
  assumes "requiresSessionAuth r" and "VaultSessionAuthMiddleware now r accounts (srv_vault s) (srv_sessions s) = (Pass cx, roots, child, v, m)"
  shows "server_step s ((settle s roots m)\<lparr>srv_vault := v\<rparr>)"
proof (cases "isLogoutRequest r \<or> isSnapshotRestoreRequest r")
  case True
  from auth_pass_session[OF assms(2,1) True] obtain sid ses where "GetSession now sid (srv_sessions s) = (Some ses, roots, m)" "v = srv_vault s" by blast
  moreover have "(settle s roots m)\<lparr>srv_vault := srv_vault s\<rparr> = settle s roots m" by (cases s) (simp add: settle_def)
  ultimately show ?thesis using server_step.get by metis
next
  case False
  then show ?thesis using auth_pass_borrow[OF assms(2,1)] server_step.borrow by blast
qed

text \<open>C4: a request for a protected path reaches its handler only if, in this order and however other requests run in
  between: its one session cookie named a live session; the account of that session, read from the control store, is
  active with a known role (logout apart); the handler got a lease, of its own and not released, of an open vault of
  that very user (logout and restore apart); for a method that changes something, the request came from the
  server's own origin and carried the token the session had at that moment; and, for the sensitive operations, the
  user had confirmed the credentials within the configured time.\<close>

theorem handler_guarded:
  assumes "server_step\<^sup>*\<^sup>* (server_start c) s" and "requiresSessionAuth r"
    and "VaultSessionAuthMiddleware t1 r accounts (srv_vault s) (srv_sessions s) = (Pass cx, roots, child, v, m)"
    and "s1 = (settle s roots m)\<lparr>srv_vault := v\<rparr>" and "server_step\<^sup>*\<^sup>* s1 s2"
    and "CSRFMiddleware env t2 r cx (srv_sessions s2) = (Pass cx2, roots2, m2)"
    and "server_step\<^sup>*\<^sup>* (settle s2 roots2 m2) s3" and "RecentAuthMiddleware t3 r cx2 (srv_sessions s3) = (Pass cx3, roots3, m3)"
  shows "authenticated t1 r accounts s s1 cx3 \<and>
    (isUnsafeMethod (rq_method r) \<longrightarrow> validBrowserRequestBoundary env r \<and> (\<exists>ses x. cx_session cx3 = Some ses \<and>
       live_session t2 (ss_id ses) (srv_sessions s2) = Some x \<and> rq_header r CSRFHeaderName = [ss_csrf (sr_session x)])) \<and>
    (requiresRecentAuthentication r \<longrightarrow> (\<exists>ses x. cx_session cx3 = Some ses \<and> live_session t3 (ss_id ses) (srv_sessions s3) = Some x \<and>
       t3 - ss_reauth (sr_session x) \<le> RecentAuthAge (sm_config (srv_sessions s3)))) \<and>
    server_inv s1"
proof -
  have inv: "server_inv s" using sessions.inv_reachable assms(1) by blast
  have c2: "cx2 = cx" by (rule csrf_pass(1)[OF assms(6)])
  have c3: "cx3 = cx" using assms(8) c2 by (auto simp: RecentAuthMiddleware_def split: if_splits option.splits prod.splits)
  have "server_inv s1" unfolding assms(4) by (rule server_inv_step[OF auth_steps[OF assms(2,3)] inv])
  moreover have "authenticated t1 r accounts s s1 cx3" unfolding assms(4) c3 by (rule auth_authenticated[OF inv assms(2,3)])
  ultimately show ?thesis using csrf_pass(2)[OF assms(6) _ assms(2)] recent_pass[OF assms(8)] by (simp add: c2 c3)
qed

section \<open>A sample request\<close>

text \<open>Alice imports a CSV file, with her session cookie and request token.\<close>

definition rx_request :: Request where
  "rx_request = \<lparr>rq_method = ''POST'', rq_path = ''/api/import_csv'', rq_host = ''money.example'', rq_proto = None, rq_tls = False,
     rq_cookies = [(''omni_money_session'', sx_id)], rq_header = (\<lambda>h. if h = ''X-CSRF-Token'' then [sx_csrf] else [])\<rparr>"

definition rx_row :: user_row where
  "rx_row = \<lparr>u_id = ''alice-0123456789'', u_email = ''alice@example.com'', u_display = ''Alice'', u_role = RoleUser, u_state = UserActive,
     u_vault = sv_vault, u_created = 1, u_updated = 1, u_login = None\<rparr>"

definition rx_store :: store where
  "rx_store = \<lparr>st_db = Some \<lparr>users = [rx_row], passwords = [], recoveries = [], invitations = [], tickets = [], passkeys = []\<rparr>, st_closed = False\<rparr>"

definition rx_env :: web_env where
  "rx_env = \<lparr>we_lower = nocase, we_fold = (\<lambda>a b. nocase a = nocase b), we_host = Some\<rparr>"

definition rx_record :: sessionRecord where "rx_record = \<lparr>sr_session = sx_session, sr_root = Some 0\<rparr>"

lemma rx_routes: "requiresSessionAuth rx_request" "\<not> isLogoutRequest rx_request" "\<not> isSnapshotRestoreRequest rx_request"
  "isUnsafeMethod (rq_method rx_request)" "requiresRecentAuthentication rx_request" "sessionIDFromRequest rx_request = Some sx_id"
  "isCanonicalSessionSecret sx_id" "isCanonicalSessionSecret sx_csrf" "GetUser ''alice-0123456789'' rx_store = Inr (scanUserSummary rx_row)"
  "validBrowserRequestBoundary rx_env rx_request" "rq_header rx_request CSRFHeaderName = [sx_csrf]" "CHR '','' \<notin> set sx_csrf"
  by code_simp+

lemma rx_live:
  assumes "now = 2000 \<or> now = 3000" and "find_session sx_id m = Some \<lparr>sr_session = sx_session\<lparr>ss_seen := seen\<rparr>, sr_root = Some 0\<rparr>"
    and "seen = 1000 \<or> seen = 2000" and "sm_config m = DefaultSessionConfig"
  shows "live_session now sx_id m = Some \<lparr>sr_session = sx_session\<lparr>ss_seen := seen\<rparr>, sr_root = Some 0\<rparr>"
  using assms by (auto simp: live_session_def expiredLocked_def sx_session_def new_session_def DefaultSessionConfig_def session_units)

lemma sx_session_seen: "sx_session\<lparr>ss_seen := 1000\<rparr> = sx_session"
  by (simp add: sx_session_def new_session_def)

lemma sx_manager_fields [simp]: "sm_config sx_manager = DefaultSessionConfig" "sm_closed sx_manager = False"
  "find_session sx_id sx_manager = Some \<lparr>sr_session = sx_session, sr_root = Some 0\<rparr>"
  by (simp_all add: sx_manager_def NewSessionManagerWithConfig_def DefaultSessionConfig_def session_units find_session_def Let_def)

definition rx_manager :: SessionManager where "rx_manager = set_session sx_id (\<lambda>s. s\<lparr>ss_seen := 2000\<rparr>) sx_manager"
definition rx_vault :: Manager where "rx_vault = snd (Borrow 0 sv4)"

definition rx_context :: req_context where
  "rx_context = \<lparr>cx_session = Some (sx_session\<lparr>ss_seen := 2000, ss_username := ''alice@example.com'', ss_email := ''alice@example.com'', ss_display := ''Alice'', ss_role := RoleUser\<rparr>),
     cx_user = Some (scanUserSummary rx_row), cx_lease = Some 1\<rparr>"

lemma rx_manager_fields: "sm_config rx_manager = DefaultSessionConfig" "sm_closed rx_manager = False"
  "find_session sx_id rx_manager = Some \<lparr>sr_session = sx_session\<lparr>ss_seen := 2000\<rparr>, sr_root = Some 0\<rparr>"
  unfolding rx_manager_def by (simp_all add: set_session_def find_session_def upd_where_def) (simp add: sx_manager_def)

lemma rx_auth: "VaultSessionAuthMiddleware 2000 rx_request (Some rx_store) sv4 sx_manager = (Pass rx_context, [], Some 1, rx_vault, rx_manager)"
proof -
  have "fst (Borrow 0 sv4) = Inr 1" "isLive (snd (Borrow 0 sv4)) 1" by code_simp+
  then have b: "Borrow 0 sv4 = (Inr 1, rx_vault)" "isLive rx_vault 1" by (simp_all add: rx_vault_def prod_eq_iff)
  have l: "live_session 2000 sx_id sx_manager = Some \<lparr>sr_session = sx_session, sr_root = Some 0\<rparr>"
    using rx_live[of 2000 sx_manager 1000] by (simp add: sx_session_seen)
  have u: "ss_user sx_session = ''alice-0123456789''" by (simp add: sx_session_def new_session_def sx_user_def)
  have "borrowVaultSessionFromRequest 2000 rx_request sv4 sx_manager = (Some (sx_session\<lparr>ss_seen := 2000\<rparr>, 1), [], rx_vault, rx_manager)"
    using b l rx_routes u by (simp add: borrowVaultSessionFromRequest_def borrowVaultSession_def rx_manager_def)
  moreover have "currentVaultUser (Some rx_store) ''alice-0123456789'' rx_manager = (Inr (scanUserSummary rx_row), [], rx_manager)"
    using rx_routes(9) by (simp add: currentVaultUser_def scanUserSummary_def rx_row_def)
  ultimately show ?thesis using rx_routes b u by (simp add: VaultSessionAuthMiddleware_def rx_context_def scanUserSummary_def rx_row_def)
qed

lemma rx_csrf: "CSRFMiddleware rx_env 2000 rx_request rx_context rx_manager = (Pass rx_context, [], rx_manager)"
proof -
  have l: "live_session 2000 sx_id rx_manager = Some \<lparr>sr_session = sx_session\<lparr>ss_seen := 2000\<rparr>, sr_root = Some 0\<rparr>"
    using rx_live[of 2000 rx_manager 2000] rx_manager_fields by simp
  have f: "ss_id sx_session = sx_id" "ss_csrf sx_session = sx_csrf" by (simp_all add: sx_session_def new_session_def)
  have "HasPrefix (rq_path rx_request) ''/api/''" "\<not> isPublicServerAuthRequest (rq_method rx_request) (rq_path rx_request)" by code_simp+
  moreover have "ValidateCSRF 2000 sx_id sx_csrf rx_manager = (True, [], rx_manager)"
    using l f rx_routes rx_manager_fields by (simp add: ValidateCSRF_def)
  moreover have "cx_session rx_context = Some (sx_session\<lparr>ss_seen := 2000, ss_username := ''alice@example.com'', ss_email := ''alice@example.com'', ss_display := ''Alice'', ss_role := RoleUser\<rparr>)"
    by (simp add: rx_context_def)
  ultimately show ?thesis using rx_routes f by (simp add: CSRFMiddleware_def)
qed

lemma rx_recent: "RecentAuthMiddleware 3000 rx_request rx_context rx_manager = (Pass rx_context, [], rx_manager)"
proof -
  have l: "live_session 3000 sx_id rx_manager = Some \<lparr>sr_session = sx_session\<lparr>ss_seen := 2000\<rparr>, sr_root = Some 0\<rparr>"
    using rx_live[of 3000 rx_manager 2000] rx_manager_fields by simp
  have f: "ss_id sx_session = sx_id" "ss_reauth sx_session = 1000" by (simp_all add: sx_session_def new_session_def)
  show ?thesis using rx_routes f l rx_manager_fields
    by (simp add: RecentAuthMiddleware_def rx_context_def IsRecent_def DefaultSessionConfig_def session_units)
qed

theorem handler_guarded_witness:
  "\<exists>s1. authenticated 2000 rx_request (Some rx_store) sx1 s1 rx_context \<and> server_inv s1"
proof -
  have f: "srv_vault sx1 = sv4" "srv_sessions sx1 = sx_manager" by (simp_all add: sx1_def sx0_def)
  let ?s1 = "(settle sx1 [] rx_manager)\<lparr>srv_vault := rx_vault\<rparr>"
  have auth: "VaultSessionAuthMiddleware 2000 rx_request (Some rx_store) (srv_vault sx1) (srv_sessions sx1) = (Pass rx_context, [], Some 1, rx_vault, rx_manager)"
    unfolding f by (rule rx_auth)
  have csrf: "CSRFMiddleware rx_env 2000 rx_request rx_context (srv_sessions ?s1) = (Pass rx_context, [], rx_manager)" using rx_csrf by simp
  have recent: "RecentAuthMiddleware 3000 rx_request rx_context (srv_sessions (settle ?s1 [] rx_manager)) = (Pass rx_context, [], rx_manager)"
    using rx_recent by simp
  from handler_guarded[OF sx1_reach rx_routes(1) auth refl rtranclp.rtrancl_refl csrf rtranclp.rtrancl_refl recent]
  show ?thesis by blast
qed

section \<open>Disabled accounts\<close>

lemma find_upd: "List.find (\<lambda>u. u_id u = i) us = Some u \<Longrightarrow> (\<And>u. u_id (f u) = u_id u) \<Longrightarrow>
    List.find (\<lambda>u. u_id u = i) (upd_where (\<lambda>u. u_id u = i) f us) = Some (f u)"
  by (induction us) (auto simp: upd_where_def split: if_splits)

lemma revoke_users: "revokePendingCapabilities i now db = Inr db' \<Longrightarrow> users db' = users db"
  by (auto simp: revokePendingCapabilities_def bindE_def split: sum.splits dest!: update_invitations_frame update_tickets_frame)

lemma disable_core:
  assumes "bindE (requireActiveAdmin a db) (\<lambda>_. bindE (loadRoleAndState t db) (\<lambda>(role, state).
      if state = UserDisabled then bindE (revokePendingCapabilities t now db) (\<lambda>db'. Inr (db', Inr ()))
      else bindE (if role = RoleAdmin then requireAnotherActiveAdmin t db else Inr ()) (\<lambda>_.
           bindE (update_user t (\<lambda>u. u\<lparr>u_state := UserDisabled, u_updated := now\<rparr>) db) (\<lambda>db1.
           bindE (revokePendingCapabilities t now db1) (\<lambda>db2. Inr (db2, Inr ())))))) = Inr (db', answer)"
  shows "\<exists>u. List.find (\<lambda>u. u_id u = t) (users db') = Some u \<and> u_state u = UserDisabled"
proof -
  obtain u where u: "List.find (\<lambda>u. u_id u = t) (users db) = Some u"
    using assms by (auto simp: bindE_def loadRoleAndState_def ofOption_def split: sum.splits option.splits)
  let ?f = "\<lambda>u. u\<lparr>u_state := UserDisabled, u_updated := now\<rparr>"
  consider "u_state u = UserDisabled" "users db' = users db" | "users db' = upd_where (\<lambda>u. u_id u = t) ?f (users db)"
  proof (cases "u_state u = UserDisabled")
    case True
    then have "users db' = users db" using assms u by (auto simp: bindE_def loadRoleAndState_def ofOption_def split: sum.splits dest: revoke_users)
    then show ?thesis using that True by blast
  next
    case False
    then obtain db1 where "update_user t ?f db = Inr db1" "revokePendingCapabilities t now db1 = Inr db'"
      using assms u by (auto simp: bindE_def loadRoleAndState_def ofOption_def split: sum.splits)
    then have "users db' = upd_where (\<lambda>u. u_id u = t) ?f (users db)" by (auto simp: update_user_def dest: revoke_users split: if_splits)
    then show ?thesis using that by blast
  qed
  then show ?thesis using u find_upd[OF u, of ?f] by cases auto
qed

lemma immediate_some:
  "withImmediate operation S = (Inr x, S') \<Longrightarrow>
    \<exists>db db'. st_db S = Some db \<and> \<not> st_closed S \<and> operation db = Inr (db', Inr x) \<and> S' = S\<lparr>st_db := Some db'\<rparr>"
  by (auto simp: withImmediate_def split: bool.splits option.splits sum.splits)

lemma disabled_user_read:
  assumes "DisableUser actor target time S = (Inr (), S')"
  shows "\<exists>u. GetUser target S' = Inr u \<and> us_state u = UserDisabled"
proof -
  obtain a t now where v: "validateUserMutation actor target time = Inr (a, t, now)"
    using assms by (cases "validateUserMutation actor target time") (auto simp: DisableUser_def bindE_def)
  then have n: "normalizeID target = Inr t" by (auto simp: validateUserMutation_def bindE_def split: sum.splits)
  have at: "a \<noteq> t" using assms v by (auto simp: DisableUser_def bindE_def)
  define op where "op = (\<lambda>db. bindE (requireActiveAdmin a db) (\<lambda>_. bindE (loadRoleAndState t db) (\<lambda>(role, state).
      if state = UserDisabled then bindE (revokePendingCapabilities t now db) (\<lambda>db'. Inr (db', Inr ()))
      else bindE (if role = RoleAdmin then requireAnotherActiveAdmin t db else Inr ()) (\<lambda>_.
           bindE (update_user t (\<lambda>u. u\<lparr>u_state := UserDisabled, u_updated := now\<rparr>) db) (\<lambda>db1.
           bindE (revokePendingCapabilities t now db1) (\<lambda>db2. Inr (db2, (Inr () :: (cerr, unit) result))))))))"
  have "withImmediate op S = (Inr (), S')" using assms v at by (simp add: DisableUser_def op_def)
  from immediate_some[OF this] obtain db db' where db: "st_db S = Some db" "\<not> st_closed S" "S' = S\<lparr>st_db := Some db'\<rparr>"
    and core: "op db = Inr (db', Inr ())" by blast
  show ?thesis using disable_core[OF core[unfolded op_def]] n db by (auto simp: GetUser_def control_database_def ofOption_def scanUserSummary_def)
qed

lemma deleteAll_forgets: "user \<noteq> [] \<Longrightarrow> \<forall>(i, y)\<in>set (sm_sessions (snd (snd (DeleteAllSessionsForUser user m)))). ss_user (sr_session y) \<noteq> user"
  by (auto simp: DeleteAllSessionsForUser_def delete_where_def del_where_def)

lemma deleteAll_touched:
  assumes so: "sessions_ok m used" and x: "(sid, x) \<in> set (sm_sessions m)" "ss_user (sr_session x) = user" "user \<noteq> []"
  shows "find_session sid (snd (snd (DeleteAllSessionsForUser user (set_session sid (\<lambda>s. s\<lparr>ss_seen := now\<rparr>) m)))) = None"
proof -
  let ?m1 = "set_session sid (\<lambda>s. s\<lparr>ss_seen := now\<rparr>) m" and ?x = "x\<lparr>sr_session := (sr_session x)\<lparr>ss_seen := now\<rparr>\<rparr>"
  let ?after = "snd (snd (DeleteAllSessionsForUser user ?m1))"
  have x1: "(sid, ?x) \<in> set (sm_sessions ?m1)" using x(1) by (auto simp: touch_sessions intro!: image_eqI[where x = "(sid, x)"])
  have keys: "distinct (map fst (sm_sessions ?m1))" using so by (simp add: touch_sessions case_prod_unfold comp_def sessions_ok_def)
  have "set (sm_sessions ?after) \<subseteq> set (sm_sessions ?m1)" by (auto simp: DeleteAllSessionsForUser_def delete_where_def del_where_def)
  then have "y = ?x" if "(sid, y) \<in> set (sm_sessions ?after)" for y using that x1 keys by (meson eq_key_imp_eq_value subsetD)
  then show ?thesis using deleteAll_forgets[OF x(3), of ?m1] x(2) unfolding find_none by fastforce
qed

lemma inactive_refused:
  assumes "GetUser user S = Inr u" and "us_state u \<noteq> UserActive"
  shows "currentVaultUser (Some S) user m = (Inl 401, snd (DeleteAllSessionsForUser user m))"
  using assms by (simp add: currentVaultUser_def)

text \<open>C22: when an administrator has disabled an account, no session of it is of any use: a request with one, other than
  logging out, is answered as unauthenticated and the session is gone afterwards; if its vault was still usable, or
  the request was for a restore, every other session of the account is gone as well.\<close>

theorem disabled_account_is_shut_out:
  assumes "server_step\<^sup>*\<^sup>* (server_start c) s" and "DisableUser actor target time S = (Inr (), S')"
    and "requiresSessionAuth r" and "\<not> isLogoutRequest r" and "sessionIDFromRequest r = Some sid"
    and "live_session now sid (srv_sessions s) = Some x" and "ss_user (sr_session x) = target" and "sr_root x = Some l"
    and "VaultSessionAuthMiddleware now r (Some S') (srv_vault s) (srv_sessions s) = (verdict, roots, child, v', m')"
  shows "verdict = Answer 401 \<and> find_session sid m' = None \<and>
    (okE (fst (Borrow l (srv_vault s))) \<or> isSnapshotRestoreRequest r \<longrightarrow> (\<forall>(i, y)\<in>set (sm_sessions m'). ss_user (sr_session y) \<noteq> target))"
proof -
  let ?m = "srv_sessions s" and ?v = "srv_vault s"
  have inv: "server_inv s" using sessions.inv_reachable assms(1) by blast
  note inx = live_in[OF assms(6)]
  have so: "sessions_ok ?m (srv_used s)" using inv by (simp add: server_inv_def)
  then have c: "isCanonicalSessionSecret sid" "\<not> sm_closed ?m" using inx by (auto simp: sessions_ok_def record_ok_def)
  have "root_of_user ?v (sid, x)" using inv inx by (simp add: server_inv_def)
  then have t: "target \<noteq> []" using assms(7,8) by (simp add: root_of_user_def)
  obtain u where "GetUser target S' = Inr u" "us_state u \<noteq> UserActive" using disabled_user_read[OF assms(2)] by auto
  note no = inactive_refused[OF this]
  let ?s = "(sr_session x)\<lparr>ss_seen := now\<rparr>"
  define m1 where "m1 = set_session sid (\<lambda>s. s\<lparr>ss_seen := now\<rparr>) ?m"
  let ?after = "snd (snd (DeleteAllSessionsForUser target m1))"
  note gone = deleteAll_forgets[OF t, of m1]
  have out: "find_session sid ?after = None" unfolding m1_def by (rule deleteAll_touched[OF so inx assms(7) t])
  show ?thesis
  proof (cases "isSnapshotRestoreRequest r")
    case True
    have "sessionForVaultRequest now r ?m = (Some ?s, [], m1)"
      using assms(5-7) c t by (simp add: sessionForVaultRequest_def GetSessionFromRequest_def GetSession_def m1_def)
    then have "verdict = Answer 401" "m' = ?after" using assms(3,4,7,9) True no by (auto simp: VaultSessionAuthMiddleware_def split: prod.splits)
    then show ?thesis using gone out by simp
  next
    case False
    obtain res v1 where b: "Borrow l ?v = (res, v1)" by force
    show ?thesis
    proof (cases res)
      case (Inl e)
      obtain roots1 m2 where d: "deleteRecordLocked sid ?m = (roots1, m2)" by force
      have "borrowVaultSessionFromRequest now r ?v ?m = (None, roots1, v1, m2)"
        using assms(5-8) c t b Inl d by (simp add: borrowVaultSessionFromRequest_def borrowVaultSession_def)
      then have "verdict = Answer 401" "m' = m2" using assms(3,4,9) False by (auto simp: VaultSessionAuthMiddleware_def)
      moreover have "find_session sid m2 = None" using d by (auto simp: find_none deleteRecordLocked_def delete_where_def del_where_def)
      ultimately show ?thesis using False b Inl by (simp add: okE_def)
    next
      case (Inr child1)
      have "borrowVaultSessionFromRequest now r ?v ?m = (Some (?s, child1), [], v1, m1)"
        using assms(5-8) c t b Inr by (simp add: borrowVaultSessionFromRequest_def borrowVaultSession_def m1_def)
      then have "verdict = Answer 401" "m' = ?after" using assms(3,4,7,9) False no by (auto simp: VaultSessionAuthMiddleware_def split: prod.splits)
      then show ?thesis using gone out by simp
    qed
  qed
qed

definition rx_admin :: user_row where
  "rx_admin = rx_row\<lparr>u_id := ''admin-0123456789'', u_email := ''admin@example.com'', u_role := RoleAdmin, u_vault := ''admins-vault-0001''\<rparr>"

definition rx_store2 :: store where
  "rx_store2 = \<lparr>st_db = Some \<lparr>users = [rx_admin, rx_row], passwords = [], recoveries = [], invitations = [], tickets = [], passkeys = []\<rparr>, st_closed = False\<rparr>"

theorem disabled_account_is_shut_out_witness:
  "fst (VaultSessionAuthMiddleware 2000 rx_request (Some (snd (DisableUser ''admin-0123456789'' ''alice-0123456789'' 1000000000000 rx_store2)))
      (srv_vault sx1) (srv_sessions sx1)) = Answer 401"
proof -
  have "fst (DisableUser ''admin-0123456789'' ''alice-0123456789'' 1000000000000 rx_store2) = Inr ()" by code_simp
  then obtain S' where S': "DisableUser ''admin-0123456789'' ''alice-0123456789'' 1000000000000 rx_store2 = (Inr (), S')" by (metis prod.collapse)
  have live: "live_session 2000 sx_id (srv_sessions sx1) = Some \<lparr>sr_session = sx_session, sr_root = Some 0\<rparr>"
    using rx_live[of 2000 sx_manager 1000] by (simp add: sx_session_seen sx1_def)
  have u: "ss_user (sr_session \<lparr>sr_session = sx_session, sr_root = Some 0\<rparr>) = ''alice-0123456789''" by (simp add: sx_session_def new_session_def sx_user_def)
  obtain verdict roots child v' m' where run: "VaultSessionAuthMiddleware 2000 rx_request (Some S') (srv_vault sx1) (srv_sessions sx1) = (verdict, roots, child, v', m')"
    by (metis prod_cases5)
  have "sr_root \<lparr>sr_session = sx_session, sr_root = Some 0\<rparr> = Some 0" by simp
  from disabled_account_is_shut_out[OF sx1_reach S' rx_routes(1,2,6) live u this run] show ?thesis by (simp add: S' run)
qed

section \<open>Origins\<close>

lemma Cut_parts:
  assumes "Cut c s = (a, b)"
  shows "c \<notin> set a \<and> (s = a \<and> b = [] \<or> s = a @ c # b)"
proof -
  let ?d = "dropWhile (\<lambda>x. x \<noteq> c) s"
  have ab: "a = takeWhile (\<lambda>x. x \<noteq> c) s" "b = tl ?d" using assms by (simp_all add: Cut_def)
  have "c \<notin> set a" unfolding ab by (auto dest: set_takeWhileD)
  moreover have s: "s = a @ ?d" by (simp add: ab)
  moreover have "?d = [] \<or> ?d = c # b"
  proof (cases ?d)
    case (Cons x d)
    then have "hd ?d = c" using hd_dropWhile[of "\<lambda>x. x \<noteq> c" s] by (metis list.distinct(1))
    then show ?thesis using Cons ab(2) by simp
  qed simp
  ultimately show ?thesis using ab(2) by (metis append_Nil2 list.sel(2))
qed

lemma getScheme_parts:
  "getScheme (pre @ cs) pre cs = Some (sch, rest) \<Longrightarrow> sch = [] \<and> rest = pre @ cs \<or> pre @ cs = sch @ CHR '':'' # rest"
proof (induction cs arbitrary: pre)
  case (Cons c cs)
  have IH: "getScheme (pre @ c # cs) (pre @ [c]) cs = Some (sch, rest) \<Longrightarrow> sch = [] \<and> rest = pre @ c # cs \<or> pre @ c # cs = sch @ CHR '':'' # rest"
    using Cons.IH[of "pre @ [c]"] by simp
  consider "letter c \<or> scheme_rest c \<and> pre \<noteq> []" | "\<not> letter c" "\<not> scheme_rest c" "c = CHR '':''" "pre \<noteq> []"
    | "\<not> letter c" "scheme_rest c \<and> pre = [] \<or> \<not> scheme_rest c \<and> c \<noteq> CHR '':''" | "\<not> letter c" "\<not> scheme_rest c" "c = CHR '':''" "pre = []" by blast
  then show ?case
  proof cases
    case 1
    then have "getScheme (pre @ c # cs) (pre @ [c]) cs = Some (sch, rest)" using Cons.prems by (cases "letter c") simp_all
    then show ?thesis by (rule IH)
  next
    case 2
    then show ?thesis using Cons.prems by simp
  next
    case 3
    then show ?thesis using Cons.prems by (cases "scheme_rest c") simp_all
  next
    case 4
    then show ?thesis using Cons.prems by simp
  qed
qed simp

lemma prefix_split: "HasPrefix s p \<Longrightarrow> s = p @ drop (length p) s"
  unfolding HasPrefix_def by (metis append_take_drop_id)

lemma url_authority_plain:
  assumes "url_authority env a = Some (False, host)"
  shows "CHR ''@'' \<notin> set a \<and> we_host env a = Some host"
proof -
  have n: "CHR ''@'' \<notin> set a" using assms by (auto simp: url_authority_def Let_def)
  then have tw: "takeWhile (\<lambda>c. c \<noteq> CHR ''@'') (rev a) = rev a" by (auto simp: takeWhile_eq_all_conv)
  have "map_option (\<lambda>h. (CHR ''@'' \<in> set a, h)) (we_host env a) = Some (False, host)"
    using assms unfolding url_authority_def Let_def tw by simp
  then show ?thesis using n by (cases "we_host env a") simp_all
qed

text \<open>The text of an accepted origin: a scheme, the authority, and at most a bare fragment mark.\<close>

definition bare_origin :: "URL \<Rightarrow> bool" where
  "bare_origin x \<longleftrightarrow> url_scheme x \<noteq> [] \<and> url_host x \<noteq> [] \<and> \<not> url_user x \<and> url_opaque x = [] \<and> url_path x = [] \<and> url_query x = [] \<and>
     \<not> url_force x \<and> url_fragment x = []"

lemma bare_rest:
  assumes "url_rest env scheme rest url = Some x" and "bare_origin x" and "scheme \<noteq> []" and "url_host url = []"
  shows "\<exists>h. rest = ''//'' @ h \<and> CHR ''/'' \<notin> set h \<and> CHR ''@'' \<notin> set h \<and> we_host env h = Some (url_host x)"
proof -
  have p: "HasPrefix rest ''//''" using assms by (auto simp: url_rest_def bare_origin_def split: if_splits)
  let ?h = "drop 2 rest"
  have rest: "rest = ''//'' @ ?h" using prefix_split[OF p] by (simp add: numeral_2_eq_2)
  have "HasPrefix (''//'' @ h) ''/''" for h by (simp add: HasPrefix_def)
  from this[of ?h] have "HasPrefix rest ''/''" unfolding rest[symmetric] .
  then obtain user where a: "url_authority env (takeWhile (\<lambda>c. c \<noteq> CHR ''/'') ?h) = Some (user, url_host x)" "user = url_user x"
    and path: "url_path x = dropWhile (\<lambda>c. c \<noteq> CHR ''/'') ?h"
    using assms(1,3) p by (auto simp: url_rest_def Let_def split: option.splits if_splits)
  have n: "CHR ''/'' \<notin> set ?h" using path assms(2) by (auto simp: bare_origin_def)
  then have tw: "takeWhile (\<lambda>c. c \<noteq> CHR ''/'') ?h = ?h" by (auto simp: takeWhile_eq_all_conv)
  have "url_authority env ?h = Some (False, url_host x)" using a assms(2) unfolding tw by (simp add: bare_origin_def)
  from url_authority_plain[OF this] show ?thesis using n rest by blast
qed

text \<open>Without a query the rest of the text is the rest of the URL.\<close>

lemma no_query:
  assumes "force = (rest0 \<noteq> [] \<and> last rest0 = CHR ''?'' \<and> count_where (\<lambda>c. c = CHR ''?'') rest0 = 1)"
    and "(rest, query) = (if force then (butlast rest0, []) else Cut (CHR ''?'') rest0)" and "\<not> force" and "query = []"
  shows "rest0 = rest"
proof -
  have c: "Cut (CHR ''?'') rest0 = (rest, [])" using assms by simp
  from Cut_parts[OF this] have "rest0 = rest \<or> rest0 = rest @ ''?''" and n: "CHR ''?'' \<notin> set rest" by auto
  moreover have "rest0 \<noteq> rest @ ''?''"
  proof
    assume r: "rest0 = rest @ ''?''"
    have "count_where (\<lambda>c. c = CHR ''?'') rest = 0" using n by (auto simp: count_where_eq_0)
    then have force using assms(1) r by (simp add: count_where_snoc)
    then show False using assms(3) by simp
  qed
  ultimately show ?thesis by blast
qed

lemma url_rest_keeps:
  assumes "url_rest env scheme rest url = Some x"
  shows "url_scheme x = url_scheme url" "url_query x = url_query url" "url_force x = url_force url" "url_fragment x = url_fragment url"
  using assms by (auto simp: url_rest_def Let_def split: if_splits option.splits)

lemma bare_parse:
  assumes "url_Parse env raw = Some x" and "bare_origin x"
  shows "\<exists>sch h. (raw = sch @ ''://'' @ h \<or> raw = sch @ ''://'' @ h @ ''#'') \<and> url_scheme x = nocase sch \<and> we_host env h = Some (url_host x) \<and>
    CHR ''/'' \<notin> set h \<and> CHR ''@'' \<notin> set h"
proof -
  obtain u frag where c: "Cut (CHR ''#'') raw = (u, frag)" by force
  have star: "u \<noteq> ''*''" using assms by (auto simp: url_Parse_def c bare_origin_def split: if_splits)
  then obtain scheme rest0 where g: "getScheme u [] u = Some (scheme, rest0)"
    using assms(1) by (auto simp: url_Parse_def c split: if_splits option.splits)
  define force where "force = (rest0 \<noteq> [] \<and> last rest0 = CHR ''?'' \<and> count_where (\<lambda>c. c = CHR ''?'') rest0 = 1)"
  obtain rest query where rq: "(rest, query) = (if force then (butlast rest0, []) else Cut (CHR ''?'') rest0)" by (metis prod.collapse)
  define url where "url = \<lparr>url_scheme = nocase scheme, url_opaque = [], url_user = False, url_host = [], url_path = [], url_query = query, url_force = force, url_fragment = frag\<rparr>"
  have r: "url_rest env scheme rest url = Some x"
  proof -
    have "\<not> list_ex ctl_byte u" "escapes_ok frag" using assms(1) star g by (auto simp: url_Parse_def c Let_def split: if_splits prod.splits)
    then have "(case if force then (butlast rest0, []) else Cut (CHR ''?'') rest0 of (rest, query) \<Rightarrow> url_rest env scheme rest
        \<lparr>url_scheme = nocase scheme, url_opaque = [], url_user = False, url_host = [], url_path = [], url_query = query, url_force = force, url_fragment = frag\<rparr>) = Some x"
      using assms(1) star g unfolding force_def by (simp add: url_Parse_def c Let_def)
    then show ?thesis unfolding rq[symmetric] by (simp add: url_def)
  qed
  note k = url_rest_keeps[OF r]
  have f: "frag = []" "query = []" "\<not> force" "nocase scheme \<noteq> []" using k assms(2) by (simp_all add: url_def bare_origin_def)
  then have sch: "scheme \<noteq> []" by (auto simp: nocase_def)
  have r0: "rest0 = rest" by (rule no_query[OF force_def rq f(3,2)])
  from bare_rest[OF r assms(2) sch] obtain h where h: "rest = ''//'' @ h" "CHR ''/'' \<notin> set h" "CHR ''@'' \<notin> set h" "we_host env h = Some (url_host x)"
    by (auto simp: url_def)
  have "u = scheme @ CHR '':'' # rest" using getScheme_parts[of "[]" u scheme rest0] g sch r0 by simp
  then have "raw = scheme @ ''://'' @ h \<or> raw = scheme @ ''://'' @ h @ ''#''" using Cut_parts[OF c] f(1) h(1) by auto
  moreover have "url_scheme x = nocase scheme" using k(1) by (simp add: url_def)
  ultimately show ?thesis using h(2-4) by blast
qed

text \<open>C24: a browser's request that changes something is let through only from the server's own pages: if it carries an
  \<open>Origin\<close> header, there is one, it consists of a scheme and an authority without user, path or query (a bare
  fragment mark apart), and both agree with the protocol and the host the request came in for; and a
  \<open>Sec-Fetch-Site\<close> header says \<open>same-origin\<close> or \<open>none\<close>.\<close>

theorem browser_request_same_origin:
  assumes "validBrowserRequestBoundary env r"
  shows "(\<forall>site\<in>set (rq_header r ''Sec-Fetch-Site''). rq_header r ''Sec-Fetch-Site'' = [site] \<and> we_lower env (TrimSpace site) \<in> {''same-origin'', ''none''}) \<and>
    (\<forall>orig\<in>set (rq_header r ''Origin''). rq_header r ''Origin'' = [orig] \<and>
      (\<exists>sch h host. (TrimSpace orig = sch @ ''://'' @ h \<or> TrimSpace orig = sch @ ''://'' @ h @ ''#'') \<and> CHR ''/'' \<notin> set h \<and> CHR ''@'' \<notin> set h \<and>
        we_fold env (nocase sch) (RequestProto r) \<and> we_host env h = Some host \<and> we_fold env host (rq_host r)))"
proof -
  have site: "length (rq_header r ''Sec-Fetch-Site'') \<le> 1"
    "length (rq_header r ''Sec-Fetch-Site'') = 1 \<longrightarrow> we_lower env (TrimSpace (hd (rq_header r ''Sec-Fetch-Site''))) \<in> {''same-origin'', ''none''}"
    using assms by (auto simp: validBrowserRequestBoundary_def Let_def split: if_splits)
  have "rq_header r ''Sec-Fetch-Site'' = [x] \<and> we_lower env (TrimSpace x) \<in> {''same-origin'', ''none''}" if "x \<in> set (rq_header r ''Sec-Fetch-Site'')" for x
    using site that by (cases "rq_header r ''Sec-Fetch-Site''") auto
  moreover have "rq_header r ''Origin'' = [o'] \<and>
      (\<exists>sch h host. (TrimSpace o' = sch @ ''://'' @ h \<or> TrimSpace o' = sch @ ''://'' @ h @ ''#'') \<and> CHR ''/'' \<notin> set h \<and> CHR ''@'' \<notin> set h \<and>
        we_fold env (nocase sch) (RequestProto r) \<and> we_host env h = Some host \<and> we_fold env host (rq_host r))" if o: "o' \<in> set (rq_header r ''Origin'')" for o'
  proof -
    have "length (rq_header r ''Origin'') = 1" using assms o by (auto simp: validBrowserRequestBoundary_def Let_def split: if_splits)
    then have h: "rq_header r ''Origin'' = [o']" using o by (cases "rq_header r ''Origin''") auto
    obtain x where x: "url_Parse env (TrimSpace o') = Some x" "bare_origin x" "we_fold env (url_scheme x) (RequestProto r)" "we_fold env (url_host x) (rq_host r)"
      using assms by (auto simp: validBrowserRequestBoundary_def Let_def h bare_origin_def split: if_splits option.splits)
    show ?thesis using bare_parse[OF x(1,2)] x(3,4) h by metis
  qed
  ultimately show ?thesis by blast
qed

definition rx_origin :: Request where
  "rx_origin = rx_request\<lparr>rq_header := (\<lambda>h. if h = ''Origin'' then ['' HTTP://Money.example'']
     else if h = ''Sec-Fetch-Site'' then [''Same-Origin''] else [])\<rparr>"

theorem browser_request_same_origin_witness:
  "\<exists>sch h host. (TrimSpace '' HTTP://Money.example'' = sch @ ''://'' @ h \<or> TrimSpace '' HTTP://Money.example'' = sch @ ''://'' @ h @ ''#'') \<and>
     we_host rx_env h = Some host \<and> we_fold rx_env host ''money.example''"
proof -
  have v: "validBrowserRequestBoundary rx_env rx_origin" by code_simp
  have "rq_header rx_origin ''Origin'' = ['' HTTP://Money.example'']" "rq_host rx_origin = ''money.example''" by (simp_all add: rx_origin_def rx_request_def)
  then show ?thesis using browser_request_same_origin[OF v] by (metis list.set_intros(1))
qed

end
