(* ===== verification/KeyEnvelope.thy ===== *)
theory KeyEnvelope
  imports ControlReads
begin

text \<open>
  The key envelopes of \<open>backend/keyenvelope\<close>: the data-encryption key of a vault, wrapped for a password, a
  recovery secret, a passkey with the PRF extension, or the custody key of the server. Argon2id, HKDF,
  HMAC-SHA-256 and AES-GCM are the parameters of a record; \<open>crypto_ok\<close> states what their documentation promises:
  output lengths, and that opening inverts sealing. The random source is the list of bytes it still delivers, after
  which it fails. The clearing of buffers has no counterpart here.
\<close>

unbundle bit_operations_syntax

section \<open>Parameters and data\<close>

record crypto =
  cr_argon :: "bytes \<Rightarrow> bytes \<Rightarrow> nat \<Rightarrow> nat \<Rightarrow> nat \<Rightarrow> nat \<Rightarrow> bytes"
  cr_hkdf :: "bytes \<Rightarrow> bytes \<Rightarrow> bytes \<Rightarrow> nat \<Rightarrow> bytes"
  cr_hmac :: "bytes \<Rightarrow> bytes \<Rightarrow> bytes"
  cr_seal :: "bytes \<Rightarrow> bytes \<Rightarrow> bytes \<Rightarrow> bytes \<Rightarrow> bytes"
  cr_open :: "bytes \<Rightarrow> bytes \<Rightarrow> bytes \<Rightarrow> bytes \<Rightarrow> bytes option"

record Context =
  cx_user :: string
  cx_vault :: string

datatype kerr = ErrAuthentication | ErrInvalidContext | ErrInvalidDEK | ErrInvalidEnvelope | ErrInvalidPassword
  | ErrInvalidRecoverySecret | ErrInvalidPasskeySecret | ErrRandomBytes | ErrDeriveKey | ErrNewCipher

definition DEKSize :: nat where "DEKSize = 32"
definition SaltSize :: nat where "SaltSize = 32"
definition VerifierSize :: nat where "VerifierSize = 32"
definition nonceSize :: nat where "nonceSize = 12"
definition gcmTagSize :: nat where "gcmTagSize = 16"
definition maxPasswordSize :: nat where "maxPasswordSize = 1024 * 1024"
definition maxContextIDSize :: nat where "maxContextIDSize = 4096"
definition passwordKDF :: string where "passwordKDF = ''argon2id-hkdf-sha256''"
definition recoveryKDF :: string where "recoveryKDF = ''hkdf-sha256''"
definition passkeyKDF :: string where "passkeyKDF = ''hkdf-sha256''"

lemmas size_defs = DEKSize_def SaltSize_def VerifierSize_def nonceSize_def gcmTagSize_def maxContextIDSize_def
  maxPasswordSize_def
lemmas kdf_defs = passwordKDF_def recoveryKDF_def passkeyKDF_def

fun kind_text :: "Kind \<Rightarrow> string" where
  "kind_text KindPassword = ''password''"
| "kind_text KindRecovery = ''recovery''"
| "kind_text KindPasskey = ''passkey-prf''"
| "kind_text KindServerPasskey = ''passkey-server''"
| "kind_text (KindOther s) = s"

definition text_bytes :: "string \<Rightarrow> bytes" where
  "text_bytes s = map (\<lambda>c. word_of_nat (of_char c)) s"

section \<open>Random bytes and the key schedule\<close>

definition randomBytes :: "nat \<Rightarrow> bytes \<Rightarrow> (kerr, bytes \<times> bytes) result" where
  "randomBytes n source = (if length source < n then Inl ErrRandomBytes else Inr (take n source, drop n source))"

definition GenerateDEK :: "bytes \<Rightarrow> (kerr, bytes \<times> bytes) result" where
  "GenerateDEK = randomBytes DEKSize"

definition GenerateRecoverySecret :: "bytes \<Rightarrow> (kerr, bytes \<times> bytes) result" where
  "GenerateRecoverySecret = randomBytes 32"

definition deriveKey :: "crypto \<Rightarrow> bytes \<Rightarrow> bytes \<Rightarrow> bytes \<Rightarrow> (kerr, bytes) result" where
  "deriveKey cr secret salt info =
     (let key = cr_hkdf cr secret salt info DEKSize in if length key < DEKSize then Inl ErrDeriveKey else Inr key)"

definition newGCM :: "bytes \<Rightarrow> (kerr, unit) result" where
  "newGCM key = guardE (length key = 16 \<or> length key = 24 \<or> length key = 32) ErrNewCipher"

definition seal :: "crypto \<Rightarrow> bytes \<Rightarrow> bytes \<Rightarrow> bytes \<Rightarrow> bytes \<Rightarrow> (kerr, (bytes \<times> bytes) \<times> bytes) result" where
  "seal cr key plaintext aad source =
     bindE (newGCM key) (\<lambda>_.
     bindE (randomBytes nonceSize source) (\<lambda>(nonce, rest).
     Inr ((nonce, cr_seal cr key nonce plaintext aad), rest)))"

definition open_envelope :: "crypto \<Rightarrow> bytes \<Rightarrow> bytes \<Rightarrow> bytes \<Rightarrow> bytes \<Rightarrow> (kerr, bytes) result" where
  "open_envelope cr key nonce ciphertext aad =
     bindE (newGCM key) (\<lambda>_. ofOption ErrAuthentication (cr_open cr key nonce ciphertext aad))"

section \<open>What is authenticated\<close>

definition put_uint32 :: "32 word \<Rightarrow> bytes" where
  "put_uint32 w = [ucast (drop_bit 24 w), ucast (drop_bit 16 w), ucast (drop_bit 8 w), ucast w]"

definition appendLengthPrefixed :: "bytes \<Rightarrow> bytes \<Rightarrow> bytes" where
  "appendLengthPrefixed destination value = destination @ put_uint32 (word_of_nat (length value)) @ value"

definition authenticatedData :: "Context \<Rightarrow> Kind \<Rightarrow> nat \<Rightarrow> bytes" where
  "authenticatedData ctx kind version =
     (let result = text_bytes ''omni-money/key-envelope/aad'' @ [0] @ [word_of_nat version];
          result = appendLengthPrefixed result (text_bytes (kind_text kind));
          result = appendLengthPrefixed result (text_bytes (cx_user ctx))
      in appendLengthPrefixed result (text_bytes (cx_vault ctx)))"

definition hkdfInfo :: "Kind \<Rightarrow> string \<Rightarrow> bytes" where
  "hkdfInfo kind purpose = text_bytes (''omni-money/key-envelope/v1/'' @ kind_text kind @ ''/'' @ purpose)"

definition passwordVerifier :: "crypto \<Rightarrow> bytes \<Rightarrow> bytes \<Rightarrow> bytes" where
  "passwordVerifier cr key aad =
     cr_hmac cr key (text_bytes ''omni-money/key-envelope/password-verifier/v1'' @ [0] @ aad)"

section \<open>Checks\<close>

definition validateDEK :: "bytes \<Rightarrow> (kerr, unit) result" where
  "validateDEK dek = guardE (length dek = DEKSize) ErrInvalidDEK"

definition validatePassword :: "bytes \<Rightarrow> (kerr, unit) result" where
  "validatePassword password = guardE (password \<noteq> [] \<and> length password \<le> maxPasswordSize) ErrInvalidPassword"

definition validateRecoverySecret :: "bytes \<Rightarrow> (kerr, unit) result" where
  "validateRecoverySecret secret = guardE (length secret = 32) ErrInvalidRecoverySecret"

definition validatePasskeySecret :: "bytes \<Rightarrow> (kerr, unit) result" where
  "validatePasskeySecret secret = guardE (length secret = 32) ErrInvalidPasskeySecret"

definition validateContext :: "Context \<Rightarrow> (kerr, unit) result" where
  "validateContext ctx =
     guardE (cx_user ctx \<noteq> [] \<and> length (cx_user ctx) \<le> maxContextIDSize
           \<and> cx_vault ctx \<noteq> [] \<and> length (cx_vault ctx) \<le> maxContextIDSize) ErrInvalidContext"

text \<open>A pointer to an envelope is an \<open>option\<close>; a successful check yields the envelope it points to.\<close>

definition validateCommonEnvelope :: "Envelope option \<Rightarrow> Kind \<Rightarrow> string \<Rightarrow> (kerr, Envelope) result" where
  "validateCommonEnvelope envelope kind kdf =
     bindE (ofOption ErrInvalidEnvelope envelope) (\<lambda>e.
     bindE (guardE (ev_version e = 1 \<and> ev_kind e = kind \<and> ev_kdf e = kdf) ErrInvalidEnvelope) (\<lambda>_.
     bindE (guardE (length (ev_salt e) = SaltSize \<and> length (ev_nonce e) = nonceSize
                    \<and> length (ev_ciphertext e) = DEKSize + gcmTagSize) ErrInvalidEnvelope) (\<lambda>_. Inr e)))"

definition validatePasswordEnvelope :: "Envelope option \<Rightarrow> (kerr, Envelope) result" where
  "validatePasswordEnvelope envelope =
     bindE (validateCommonEnvelope envelope KindPassword passwordKDF) (\<lambda>e.
     bindE (guardE (ev_profile e = DefaultProfile) ErrInvalidEnvelope) (\<lambda>_.
     bindE (guardE (length (ev_verifier e) = VerifierSize) ErrInvalidEnvelope) (\<lambda>_. Inr e)))"

definition no_password_metadata :: "Envelope \<Rightarrow> (kerr, Envelope) result" where
  "no_password_metadata e = bindE (guardE (ev_profile e = (0, 0, 0) \<and> ev_verifier e = []) ErrInvalidEnvelope) (\<lambda>_. Inr e)"

definition validateRecoveryEnvelope :: "Envelope option \<Rightarrow> (kerr, Envelope) result" where
  "validateRecoveryEnvelope envelope =
     bindE (validateCommonEnvelope envelope KindRecovery recoveryKDF) no_password_metadata"

definition validatePasskeyEnvelope :: "Envelope option \<Rightarrow> (kerr, Envelope) result" where
  "validatePasskeyEnvelope envelope =
     bindE (validateCommonEnvelope envelope KindPasskey passkeyKDF) no_password_metadata"

section \<open>Wrapping and unwrapping\<close>

definition argon_root :: "crypto \<Rightarrow> bytes \<Rightarrow> bytes \<Rightarrow> nat \<times> nat \<times> nat \<Rightarrow> bytes" where
  "argon_root cr password salt profile =
     (case profile of (memory, iterations, parallelism) \<Rightarrow> cr_argon cr password salt iterations memory parallelism DEKSize)"

text \<open>The end of every unwrapping function; only the password has a verifier that can mismatch.\<close>

definition open_dek :: "crypto \<Rightarrow> bytes \<Rightarrow> Envelope \<Rightarrow> bytes \<Rightarrow> bool \<Rightarrow> (kerr, bytes) result" where
  "open_dek cr key e aad verifierOK =
     (case open_envelope cr key (ev_nonce e) (ev_ciphertext e) aad of
        Inl _ \<Rightarrow> Inl ErrAuthentication
      | Inr dek \<Rightarrow> if \<not> verifierOK then Inl ErrAuthentication
          else if length dek \<noteq> DEKSize then Inl ErrAuthentication else Inr dek)"

definition WrapWithPassword :: "crypto \<Rightarrow> bytes \<Rightarrow> bytes \<Rightarrow> Context \<Rightarrow> bytes \<Rightarrow> (kerr, Envelope \<times> bytes) result" where
  "WrapWithPassword cr dek password ctx source =
     bindE (validateDEK dek) (\<lambda>_.
     bindE (validatePassword password) (\<lambda>_.
     bindE (validateContext ctx) (\<lambda>_.
     bindE (randomBytes SaltSize source) (\<lambda>(salt, source1).
     let root = argon_root cr password salt DefaultProfile in
     bindE (deriveKey cr root salt (hkdfInfo KindPassword ''aead'')) (\<lambda>wrappingKey.
     bindE (deriveKey cr root salt (hkdfInfo KindPassword ''verifier'')) (\<lambda>verifierKey.
     let aad = authenticatedData ctx KindPassword 1 in
     bindE (seal cr wrappingKey dek aad source1) (\<lambda>((nonce, ciphertext), source2).
     Inr (\<lparr>ev_version = 1, ev_kind = KindPassword, ev_kdf = passwordKDF, ev_profile = DefaultProfile, ev_salt = salt,
           ev_nonce = nonce, ev_ciphertext = ciphertext, ev_verifier = passwordVerifier cr verifierKey aad\<rparr>, source2))))))))"

definition UnwrapWithPassword :: "crypto \<Rightarrow> Envelope option \<Rightarrow> bytes \<Rightarrow> Context \<Rightarrow> (kerr, bytes) result" where
  "UnwrapWithPassword cr envelope password ctx =
     bindE (validatePasswordEnvelope envelope) (\<lambda>e.
     bindE (mapErr (\<lambda>_. ErrAuthentication) (validatePassword password)) (\<lambda>_.
     bindE (validateContext ctx) (\<lambda>_.
     let root = argon_root cr password (ev_salt e) (ev_profile e) in
     bindE (deriveKey cr root (ev_salt e) (hkdfInfo KindPassword ''aead'')) (\<lambda>wrappingKey.
     bindE (deriveKey cr root (ev_salt e) (hkdfInfo KindPassword ''verifier'')) (\<lambda>verifierKey.
     let aad = authenticatedData ctx (ev_kind e) (ev_version e);
         verifierOK = (passwordVerifier cr verifierKey aad = ev_verifier e)
     in open_dek cr wrappingKey e aad verifierOK)))))"

definition VerifyPassword :: "crypto \<Rightarrow> Envelope option \<Rightarrow> bytes \<Rightarrow> Context \<Rightarrow> (kerr, bool) result" where
  "VerifyPassword cr envelope password ctx =
     bindE (validatePasswordEnvelope envelope) (\<lambda>e.
     if \<not> okE (validatePassword password) then Inr False else
     bindE (validateContext ctx) (\<lambda>_.
     let root = argon_root cr password (ev_salt e) (ev_profile e) in
     bindE (deriveKey cr root (ev_salt e) (hkdfInfo KindPassword ''verifier'')) (\<lambda>verifierKey.
     let aad = authenticatedData ctx (ev_kind e) (ev_version e)
     in Inr (passwordVerifier cr verifierKey aad = ev_verifier e))))"

definition WrapWithRecovery :: "crypto \<Rightarrow> bytes \<Rightarrow> bytes \<Rightarrow> Context \<Rightarrow> bytes \<Rightarrow> (kerr, Envelope \<times> bytes) result" where
  "WrapWithRecovery cr dek recoverySecret ctx source =
     bindE (validateDEK dek) (\<lambda>_.
     bindE (validateRecoverySecret recoverySecret) (\<lambda>_.
     bindE (validateContext ctx) (\<lambda>_.
     bindE (randomBytes SaltSize source) (\<lambda>(salt, source1).
     bindE (deriveKey cr recoverySecret salt (hkdfInfo KindRecovery ''aead'')) (\<lambda>wrappingKey.
     bindE (seal cr wrappingKey dek (authenticatedData ctx KindRecovery 1) source1) (\<lambda>((nonce, ciphertext), source2).
     Inr (\<lparr>ev_version = 1, ev_kind = KindRecovery, ev_kdf = recoveryKDF, ev_profile = (0, 0, 0), ev_salt = salt,
           ev_nonce = nonce, ev_ciphertext = ciphertext, ev_verifier = []\<rparr>, source2)))))))"

definition UnwrapWithRecovery :: "crypto \<Rightarrow> Envelope option \<Rightarrow> bytes \<Rightarrow> Context \<Rightarrow> (kerr, bytes) result" where
  "UnwrapWithRecovery cr envelope recoverySecret ctx =
     bindE (validateRecoveryEnvelope envelope) (\<lambda>e.
     bindE (mapErr (\<lambda>_. ErrAuthentication) (validateRecoverySecret recoverySecret)) (\<lambda>_.
     bindE (validateContext ctx) (\<lambda>_.
     bindE (deriveKey cr recoverySecret (ev_salt e) (hkdfInfo KindRecovery ''aead'')) (\<lambda>wrappingKey.
     open_dek cr wrappingKey e (authenticatedData ctx (ev_kind e) (ev_version e)) True))))"

definition WrapWithPasskey :: "crypto \<Rightarrow> bytes \<Rightarrow> bytes \<Rightarrow> Context \<Rightarrow> bytes \<Rightarrow> (kerr, Envelope \<times> bytes) result" where
  "WrapWithPasskey cr dek prfSecret ctx source =
     bindE (validateDEK dek) (\<lambda>_.
     bindE (validatePasskeySecret prfSecret) (\<lambda>_.
     bindE (validateContext ctx) (\<lambda>_.
     bindE (randomBytes SaltSize source) (\<lambda>(salt, source1).
     bindE (deriveKey cr prfSecret salt (hkdfInfo KindPasskey ''aead'')) (\<lambda>wrappingKey.
     bindE (seal cr wrappingKey dek (authenticatedData ctx KindPasskey 1) source1) (\<lambda>((nonce, ciphertext), source2).
     Inr (\<lparr>ev_version = 1, ev_kind = KindPasskey, ev_kdf = passkeyKDF, ev_profile = (0, 0, 0), ev_salt = salt,
           ev_nonce = nonce, ev_ciphertext = ciphertext, ev_verifier = []\<rparr>, source2)))))))"

definition UnwrapWithPasskey :: "crypto \<Rightarrow> Envelope option \<Rightarrow> bytes \<Rightarrow> Context \<Rightarrow> (kerr, bytes) result" where
  "UnwrapWithPasskey cr envelope prfSecret ctx =
     bindE (validatePasskeyEnvelope envelope) (\<lambda>e.
     bindE (mapErr (\<lambda>_. ErrAuthentication) (validatePasskeySecret prfSecret)) (\<lambda>_.
     bindE (validateContext ctx) (\<lambda>_.
     bindE (deriveKey cr prfSecret (ev_salt e) (hkdfInfo KindPasskey ''aead'')) (\<lambda>wrappingKey.
     open_dek cr wrappingKey e (authenticatedData ctx KindPasskey (ev_version e)) True))))"

definition serverPasskeyAAD :: "Context \<Rightarrow> bytes \<Rightarrow> (kerr, bytes) result" where
  "serverPasskeyAAD ctx credentialID =
     bindE (validateContext ctx) (\<lambda>_.
     bindE (guardE (16 \<le> length credentialID \<and> length credentialID \<le> 1024) ErrInvalidContext) (\<lambda>_.
     Inr (authenticatedData ctx KindServerPasskey 1 @ put_uint32 (word_of_nat (length credentialID)) @ credentialID)))"

definition WrapWithServerPasskey ::
  "crypto \<Rightarrow> bytes \<Rightarrow> bytes \<Rightarrow> Context \<Rightarrow> bytes \<Rightarrow> bytes \<Rightarrow> (kerr, Envelope \<times> bytes) result" where
  "WrapWithServerPasskey cr dek custodyKey ctx credentialID source =
     bindE (validateDEK dek) (\<lambda>_.
     bindE (validatePasskeySecret custodyKey) (\<lambda>_.
     bindE (serverPasskeyAAD ctx credentialID) (\<lambda>aad.
     bindE (randomBytes SaltSize source) (\<lambda>(salt, source1).
     bindE (deriveKey cr custodyKey salt (hkdfInfo KindServerPasskey ''aead'')) (\<lambda>key.
     bindE (seal cr key dek aad source1) (\<lambda>((nonce, ciphertext), source2).
     Inr (\<lparr>ev_version = 1, ev_kind = KindServerPasskey, ev_kdf = passkeyKDF, ev_profile = (0, 0, 0), ev_salt = salt,
           ev_nonce = nonce, ev_ciphertext = ciphertext, ev_verifier = []\<rparr>, source2)))))))"

definition UnwrapWithServerPasskey ::
  "crypto \<Rightarrow> Envelope option \<Rightarrow> bytes \<Rightarrow> Context \<Rightarrow> bytes \<Rightarrow> (kerr, bytes) result" where
  "UnwrapWithServerPasskey cr envelope custodyKey ctx credentialID =
     bindE (validateCommonEnvelope envelope KindServerPasskey passkeyKDF) (\<lambda>e0.
     bindE (no_password_metadata e0) (\<lambda>e.
     bindE (mapErr (\<lambda>_. ErrAuthentication) (validatePasskeySecret custodyKey)) (\<lambda>_.
     bindE (serverPasskeyAAD ctx credentialID) (\<lambda>aad.
     bindE (deriveKey cr custodyKey (ev_salt e) (hkdfInfo KindServerPasskey ''aead'')) (\<lambda>key.
     open_dek cr key e aad True)))))"

section \<open>The promise of the cryptographic parameters\<close>

definition crypto_ok :: "crypto \<Rightarrow> bool" where
  "crypto_ok cr \<longleftrightarrow>
     (\<forall>secret salt info n. n \<le> 255 * 32 \<longrightarrow> length (cr_hkdf cr secret salt info n) = n)
   \<and> (\<forall>key message. length (cr_hmac cr key message) = 32)
   \<and> (\<forall>key nonce plain aad. length (cr_seal cr key nonce plain aad) = length plain + 16)
   \<and> (\<forall>key nonce plain aad cipher. length key = 32 \<longrightarrow> length nonce = 12 \<longrightarrow>
        (cr_open cr key nonce cipher aad = Some plain \<longleftrightarrow> cipher = cr_seal cr key nonce plain aad))"

lemma crypto_okD:
  assumes "crypto_ok cr"
  shows "length (cr_hkdf cr secret salt info 32) = 32"
    and "length (cr_hmac cr key message) = 32"
    and "length (cr_seal cr key nonce plain aad) = length plain + 16"
    and "length key = 32 \<Longrightarrow> length nonce = 12 \<Longrightarrow>
      cr_open cr key nonce cipher aad = Some plain \<longleftrightarrow> cipher = cr_seal cr key nonce plain aad"
  using assms by (simp_all add: crypto_ok_def)

lemma deriveKey_ok: "crypto_ok cr \<Longrightarrow> deriveKey cr secret salt info = Inr (cr_hkdf cr secret salt info 32)"
  by (simp add: deriveKey_def crypto_okD Let_def DEKSize_def)

lemma seal_iff:
  "length key = 32 \<Longrightarrow> seal cr key plain aad source = Inr ((nonce, cipher), rest) \<longleftrightarrow>
     12 \<le> length source \<and> nonce = take 12 source \<and> rest = drop 12 source \<and> cipher = cr_seal cr key nonce plain aad"
  by (auto simp: seal_def newGCM_def randomBytes_def nonceSize_def)

lemma randomBytes_iff:
  "randomBytes n source = Inr (value, rest) \<longleftrightarrow> n \<le> length source \<and> value = take n source \<and> rest = drop n source"
  by (auto simp: randomBytes_def)

lemma open_envelope_iff:
  assumes "crypto_ok cr" "length key = 32" "length nonce = 12"
  shows "open_envelope cr key nonce cipher aad = Inr plain \<longleftrightarrow> cipher = cr_seal cr key nonce plain aad"
  using assms by (simp add: open_envelope_def newGCM_def res_simps crypto_okD(4))

lemma open_dek_iff:
  assumes "crypto_ok cr" "length key = 32" "length (ev_nonce e) = 12"
  shows "open_dek cr key e aad ok = Inr dek \<longleftrightarrow>
    ok \<and> length dek = 32 \<and> ev_ciphertext e = cr_seal cr key (ev_nonce e) dek aad"
proof (cases "open_envelope cr key (ev_nonce e) (ev_ciphertext e) aad")
  case (Inl err)
  then have "ev_ciphertext e \<noteq> cr_seal cr key (ev_nonce e) dek aad"
    using open_envelope_iff [OF assms, of "ev_ciphertext e" aad dek] by simp
  with Inl show ?thesis by (simp add: open_dek_def)
next
  case (Inr plain)
  then have "plain = dek \<longleftrightarrow> ev_ciphertext e = cr_seal cr key (ev_nonce e) dek aad"
    using open_envelope_iff [OF assms, of "ev_ciphertext e" aad dek] by auto
  with Inr show ?thesis by (auto simp: open_dek_def DEKSize_def)
qed

lemma open_dek_error: "open_dek cr key e aad ok = Inl err \<Longrightarrow> err = ErrAuthentication"
  by (auto simp: open_dek_def split: sum.splits if_splits)

lemma open_dek_verified: "open_dek cr key e aad ok = Inr dek \<Longrightarrow> ok"
  by (auto simp: open_dek_def split: sum.splits if_splits)

section \<open>The contract of a way to hold the key\<close>

text \<open>
  What the four pairs of functions share: the wrapped form of a key is determined by the credential with its context
  (\<open>'s\<close>), the salt and the nonce; wrapping draws salt and nonce from the source, and unwrapping accepts exactly the wrapped
  forms.
\<close>

locale key_custody =
  fixes wrap :: "crypto \<Rightarrow> bytes \<Rightarrow> 's \<Rightarrow> bytes \<Rightarrow> (kerr, Envelope \<times> bytes) result"
    and unwrap :: "crypto \<Rightarrow> Envelope option \<Rightarrow> 's \<Rightarrow> (kerr, bytes) result"
    and sealed :: "crypto \<Rightarrow> bytes \<Rightarrow> 's \<Rightarrow> bytes \<Rightarrow> bytes \<Rightarrow> Envelope"
    and valid :: "'s \<Rightarrow> bool"
  assumes wrap_law: "crypto_ok cr \<Longrightarrow> wrap cr dek s source = Inr (e, rest) \<longleftrightarrow>
      length dek = 32 \<and> valid s \<and> 44 \<le> length source \<and> rest = drop 44 source
      \<and> e = sealed cr dek s (take 32 source) (take 12 (drop 32 source))"
    and unwrap_law: "crypto_ok cr \<Longrightarrow> unwrap cr (Some e) s = Inr dek \<longleftrightarrow>
      length dek = 32 \<and> valid s \<and> length (ev_salt e) = 32 \<and> length (ev_nonce e) = 12
      \<and> e = sealed cr dek s (ev_salt e) (ev_nonce e)"
    and sealed_fields: "ev_salt (sealed cr dek s salt nonce) = salt" "ev_nonce (sealed cr dek s salt nonce) = nonce"
begin

lemma unwrap_exact:
  assumes "crypto_ok cr"
  shows "unwrap cr (Some e) s = Inr dek \<longleftrightarrow> (\<exists>source rest. wrap cr dek s source = Inr (e, rest))"
proof
  assume "unwrap cr (Some e) s = Inr dek"
  then have "length dek = 32" "valid s" "length (ev_salt e) = 32" "length (ev_nonce e) = 12"
    and e: "e = sealed cr dek s (ev_salt e) (ev_nonce e)" by (simp_all add: unwrap_law [OF assms])
  then have "wrap cr dek s (ev_salt e @ ev_nonce e) = Inr (e, [])" by (simp add: wrap_law [OF assms])
  then show "\<exists>source rest. wrap cr dek s source = Inr (e, rest)" by blast
next
  assume "\<exists>source rest. wrap cr dek s source = Inr (e, rest)"
  then show "unwrap cr (Some e) s = Inr dek" by (auto simp: wrap_law unwrap_law assms sealed_fields)
qed

lemma wrap_ok:
  "crypto_ok cr \<Longrightarrow> okE (wrap cr dek s source) \<longleftrightarrow> length dek = 32 \<and> valid s \<and> 44 \<le> length source"
  using wrap_law [of cr dek s source] by (cases "wrap cr dek s source") auto

end

section \<open>The four interpretations\<close>

definition context_ok :: "Context \<Rightarrow> bool" where
  "context_ok ctx \<longleftrightarrow> okE (validateContext ctx)"

lemma validateContext_iff [simp]: "validateContext ctx = Inr u \<longleftrightarrow> context_ok ctx"
  by (cases "validateContext ctx") (auto simp: context_ok_def)

definition hkdf_sealed ::
  "crypto \<Rightarrow> bytes \<Rightarrow> Kind \<Rightarrow> bytes \<Rightarrow> bytes \<Rightarrow> bytes \<Rightarrow> bytes \<Rightarrow> Envelope" where
  "hkdf_sealed cr dek kind secret aad salt nonce =
     \<lparr>ev_version = 1, ev_kind = kind, ev_kdf = ''hkdf-sha256'', ev_profile = (0, 0, 0), ev_salt = salt, ev_nonce = nonce,
      ev_ciphertext = cr_seal cr (cr_hkdf cr secret salt (hkdfInfo kind ''aead'') 32) nonce dek aad, ev_verifier = []\<rparr>"

definition password_sealed :: "crypto \<Rightarrow> bytes \<Rightarrow> bytes \<Rightarrow> bytes \<Rightarrow> bytes \<Rightarrow> bytes \<Rightarrow> Envelope" where
  "password_sealed cr dek password aad salt nonce =
     (let key = (\<lambda>purpose. cr_hkdf cr (argon_root cr password salt DefaultProfile) salt (hkdfInfo KindPassword purpose) 32) in
      \<lparr>ev_version = 1, ev_kind = KindPassword, ev_kdf = passwordKDF, ev_profile = DefaultProfile, ev_salt = salt,
       ev_nonce = nonce, ev_ciphertext = cr_seal cr (key ''aead'') nonce dek aad,
       ev_verifier = passwordVerifier cr (key ''verifier'') aad\<rparr>)"

lemmas custody_simps = res_simps randomBytes_iff deriveKey_ok crypto_okD size_defs

interpretation recovery: key_custody
  "\<lambda>cr dek (secret, ctx). WrapWithRecovery cr dek secret ctx"
  "\<lambda>cr e (secret, ctx). UnwrapWithRecovery cr e secret ctx"
  "\<lambda>cr dek (secret, ctx). hkdf_sealed cr dek KindRecovery secret (authenticatedData ctx KindRecovery 1)"
  "\<lambda>(secret, ctx). length secret = 32 \<and> context_ok ctx"
proof (unfold_locales, goal_cases)
  case (1 cr dek s source e rest)
  then show ?case
    by (cases s) (auto simp: WrapWithRecovery_def custody_simps validateDEK_def validateRecoverySecret_def seal_iff
        hkdf_sealed_def kdf_defs)
next
  case (2 cr e s dek)
  then show ?case
    by (cases s; cases e) (auto simp: UnwrapWithRecovery_def validateRecoveryEnvelope_def validateCommonEnvelope_def custody_simps
        no_password_metadata_def validateRecoverySecret_def open_dek_iff hkdf_sealed_def kdf_defs)
qed (auto simp: hkdf_sealed_def split: prod.splits)

interpretation passkey: key_custody
  "\<lambda>cr dek (secret, ctx). WrapWithPasskey cr dek secret ctx"
  "\<lambda>cr e (secret, ctx). UnwrapWithPasskey cr e secret ctx"
  "\<lambda>cr dek (secret, ctx). hkdf_sealed cr dek KindPasskey secret (authenticatedData ctx KindPasskey 1)"
  "\<lambda>(secret, ctx). length secret = 32 \<and> context_ok ctx"
proof (unfold_locales, goal_cases)
  case (1 cr dek s source e rest)
  then show ?case
    by (cases s) (auto simp: WrapWithPasskey_def custody_simps validateDEK_def validatePasskeySecret_def seal_iff
        hkdf_sealed_def kdf_defs)
next
  case (2 cr e s dek)
  then show ?case
    by (cases s; cases e) (auto simp: UnwrapWithPasskey_def validatePasskeyEnvelope_def validateCommonEnvelope_def custody_simps
        no_password_metadata_def validatePasskeySecret_def open_dek_iff hkdf_sealed_def kdf_defs)
qed (auto simp: hkdf_sealed_def split: prod.splits)

definition server_aad :: "Context \<Rightarrow> bytes \<Rightarrow> bytes" where
  "server_aad ctx credentialID =
     authenticatedData ctx KindServerPasskey 1 @ put_uint32 (word_of_nat (length credentialID)) @ credentialID"

lemma serverPasskeyAAD_iff [simp]:
  "serverPasskeyAAD ctx i = Inr aad \<longleftrightarrow>
     context_ok ctx \<and> 16 \<le> length i \<and> length i \<le> 1024 \<and> aad = server_aad ctx i"
  by (auto simp: serverPasskeyAAD_def server_aad_def res_simps)

interpretation server_passkey: key_custody
  "\<lambda>cr dek (secret, ctx, i). WrapWithServerPasskey cr dek secret ctx i"
  "\<lambda>cr e (secret, ctx, i). UnwrapWithServerPasskey cr e secret ctx i"
  "\<lambda>cr dek (secret, ctx, i). hkdf_sealed cr dek KindServerPasskey secret (server_aad ctx i)"
  "\<lambda>(secret, ctx, i). length secret = 32 \<and> context_ok ctx \<and> 16 \<le> length i \<and> length i \<le> 1024"
proof (unfold_locales, goal_cases)
  case (1 cr dek s source e rest)
  then show ?case
    by (cases s) (auto simp: WrapWithServerPasskey_def custody_simps validateDEK_def validatePasskeySecret_def seal_iff
        hkdf_sealed_def kdf_defs)
next
  case (2 cr e s dek)
  then show ?case
    by (cases s; cases e) (auto simp: UnwrapWithServerPasskey_def validateCommonEnvelope_def custody_simps
        no_password_metadata_def validatePasskeySecret_def open_dek_iff hkdf_sealed_def kdf_defs)
qed (auto simp: hkdf_sealed_def split: prod.splits)

definition password_ok :: "bytes \<Rightarrow> bool" where
  "password_ok password \<longleftrightarrow> okE (validatePassword password)"

lemma validatePassword_iff [simp]: "validatePassword password = Inr u \<longleftrightarrow> password_ok password"
  by (cases "validatePassword password") (auto simp: password_ok_def)

lemma length_passwordVerifier: "crypto_ok cr \<Longrightarrow> length (passwordVerifier cr key aad) = 32"
  by (simp add: passwordVerifier_def crypto_okD)

interpretation password: key_custody
  "\<lambda>cr dek (secret, ctx). WrapWithPassword cr dek secret ctx"
  "\<lambda>cr e (secret, ctx). UnwrapWithPassword cr e secret ctx"
  "\<lambda>cr dek (secret, ctx). password_sealed cr dek secret (authenticatedData ctx KindPassword 1)"
  "\<lambda>(secret, ctx). password_ok secret \<and> context_ok ctx"
proof (unfold_locales, goal_cases)
  case (1 cr dek s source e rest)
  then show ?case
    by (cases s) (auto simp: WrapWithPassword_def custody_simps validateDEK_def seal_iff
        password_sealed_def Let_def)
next
  case (2 cr e s dek)
  then show ?case
    by (cases s; cases e) (auto simp: UnwrapWithPassword_def validatePasswordEnvelope_def validateCommonEnvelope_def
        res_simps deriveKey_ok crypto_okD(1,3) SaltSize_def nonceSize_def VerifierSize_def gcmTagSize_def
        length_passwordVerifier open_dek_iff password_sealed_def Let_def DEKSize_def)
qed (auto simp: password_sealed_def Let_def split: prod.splits)

section \<open>Unambiguous encodings\<close>

lemma text_bytes_inj: "text_bytes s = text_bytes t \<longleftrightarrow> s = t"
proof -
  have "inj (\<lambda>c. word_of_nat (of_char c) :: 8 word)"
  proof (rule injI)
    fix c d :: char
    assume "(word_of_nat (of_char c) :: 8 word) = word_of_nat (of_char d)"
    then have "take_bit 8 (of_char c :: nat) = take_bit 8 (of_char d)" by (simp add: word_of_nat_eq_iff)
    moreover have "(of_char c :: nat) < 256" "(of_char d :: nat) < 256" by (rule nat_of_char_less_256)+
    ultimately have "(of_char c :: nat) = of_char d" by (simp add: take_bit_eq_mod)
    then show "c = d" by simp
  qed
  then show ?thesis unfolding text_bytes_def by (blast dest: map_injective)
qed

lemma length_text_bytes [simp]: "length (text_bytes s) = length s"
  by (simp add: text_bytes_def)

lemma put_uint32_inj:
  assumes "put_uint32 v = put_uint32 w"
  shows "v = w"
proof (rule bit_word_eqI)
  fix n assume n: "n < LENGTH(32)"
  have part: "bit (ucast (drop_bit k v) :: 8 word) m = bit (ucast (drop_bit k w) :: 8 word) m" if "k \<in> {0, 8, 16, 24}" for k m
    using assms that by (auto simp: put_uint32_def)
  consider "n < 8" | "8 \<le> n" "n < 16" | "16 \<le> n" "n < 24" | "24 \<le> n" "n < 32" using n by fastforce
  then show "bit v n \<longleftrightarrow> bit w n"
  proof cases
    case 1 then show ?thesis using part [of 0 n] by (simp add: bit_simps)
  next
    case 2 then have "n - 8 < 8" by simp
    with 2 show ?thesis using part [of 8 "n - 8"] by (simp add: bit_simps)
  next
    case 3 then have "n - 16 < 8" by simp
    with 3 show ?thesis using part [of 16 "n - 16"] by (simp add: bit_simps)
  next
    case 4 then have "n - 24 < 8" by simp
    with 4 show ?thesis using part [of 24 "n - 24"] by (simp add: bit_simps)
  qed
qed

lemma length_put_uint32 [simp]: "length (put_uint32 w) = 4"
  by (simp add: put_uint32_def)

lemma length_prefix_inj:
  assumes "put_uint32 (word_of_nat (length a)) @ a @ x = put_uint32 (word_of_nat (length b)) @ b @ y"
    and "length a \<le> 4096" "length b \<le> 4096"
  shows "a = b \<and> x = y"
proof -
  have "put_uint32 (word_of_nat (length a)) = put_uint32 (word_of_nat (length b))" and rest: "a @ x = b @ y"
    using assms(1) by (simp_all add: append_eq_append_conv)
  then have "(word_of_nat (length a) :: 32 word) = word_of_nat (length b)" by (blast dest: put_uint32_inj)
  then have "length a = length b" using assms(2,3) by (simp add: word_of_nat_eq_iff take_bit_eq_mod)
  with rest show ?thesis by simp
qed

section \<open>Credentials\<close>

text \<open>The four ways to hold a key side by side: what a credential binds, and the functions that use it.\<close>

datatype credential = ByPassword bytes | ByRecovery bytes | ByPasskey bytes | ByServer bytes bytes

fun cred_kind :: "credential \<Rightarrow> Kind" where
  "cred_kind (ByPassword _) = KindPassword"
| "cred_kind (ByRecovery _) = KindRecovery"
| "cred_kind (ByPasskey _) = KindPasskey"
| "cred_kind (ByServer _ _) = KindServerPasskey"

fun cred_id :: "credential \<Rightarrow> bytes" where
  "cred_id (ByServer _ i) = i"
| "cred_id _ = []"

fun cred_ok :: "credential \<Rightarrow> bool" where
  "cred_ok (ByPassword p) = password_ok p"
| "cred_ok (ByRecovery s) = (length s = 32)"
| "cred_ok (ByPasskey s) = (length s = 32)"
| "cred_ok (ByServer s i) = (length s = 32 \<and> 16 \<le> length i \<and> length i \<le> 1024)"

fun wrap_with :: "crypto \<Rightarrow> bytes \<Rightarrow> credential \<Rightarrow> Context \<Rightarrow> bytes \<Rightarrow> (kerr, Envelope \<times> bytes) result" where
  "wrap_with cr dek (ByPassword p) ctx = WrapWithPassword cr dek p ctx"
| "wrap_with cr dek (ByRecovery s) ctx = WrapWithRecovery cr dek s ctx"
| "wrap_with cr dek (ByPasskey s) ctx = WrapWithPasskey cr dek s ctx"
| "wrap_with cr dek (ByServer s i) ctx = WrapWithServerPasskey cr dek s ctx i"

fun unwrap_with :: "crypto \<Rightarrow> Envelope option \<Rightarrow> credential \<Rightarrow> Context \<Rightarrow> (kerr, bytes) result" where
  "unwrap_with cr e (ByPassword p) ctx = UnwrapWithPassword cr e p ctx"
| "unwrap_with cr e (ByRecovery s) ctx = UnwrapWithRecovery cr e s ctx"
| "unwrap_with cr e (ByPasskey s) ctx = UnwrapWithPasskey cr e s ctx"
| "unwrap_with cr e (ByServer s i) ctx = UnwrapWithServerPasskey cr e s ctx i"

fun bound_data :: "credential \<Rightarrow> Context \<Rightarrow> bytes" where
  "bound_data (ByServer _ i) ctx = server_aad ctx i"
| "bound_data c ctx = authenticatedData ctx (cred_kind c) 1"

fun wrapping_key :: "crypto \<Rightarrow> credential \<Rightarrow> bytes \<Rightarrow> bytes" where
  "wrapping_key cr (ByPassword p) salt =
     cr_hkdf cr (argon_root cr p salt DefaultProfile) salt (hkdfInfo KindPassword ''aead'') 32"
| "wrapping_key cr (ByRecovery s) salt = cr_hkdf cr s salt (hkdfInfo KindRecovery ''aead'') 32"
| "wrapping_key cr (ByPasskey s) salt = cr_hkdf cr s salt (hkdfInfo KindPasskey ''aead'') 32"
| "wrapping_key cr (ByServer s _) salt = cr_hkdf cr s salt (hkdfInfo KindServerPasskey ''aead'') 32"

lemma context_okD: "context_ok ctx \<Longrightarrow> length (cx_user ctx) \<le> 4096 \<and> length (cx_vault ctx) \<le> 4096"
  by (auto simp: context_ok_def validateContext_def okE_iff res_simps maxContextIDSize_def)

lemma authenticatedData_app:
  "authenticatedData ctx kind version @ x =
     text_bytes ''omni-money/key-envelope/aad'' @ 0 # word_of_nat version
     # put_uint32 (word_of_nat (length (text_bytes (kind_text kind)))) @ text_bytes (kind_text kind)
     @ put_uint32 (word_of_nat (length (text_bytes (cx_user ctx)))) @ text_bytes (cx_user ctx)
     @ put_uint32 (word_of_nat (length (text_bytes (cx_vault ctx)))) @ text_bytes (cx_vault ctx) @ x"
  by (simp add: authenticatedData_def appendLengthPrefixed_def)

lemma authenticatedData_inj:
  assumes "authenticatedData ctx kind 1 @ x = authenticatedData ctx' kind' 1 @ y"
    and "context_ok ctx" "context_ok ctx'" "length (kind_text kind) \<le> 4096" "length (kind_text kind') \<le> 4096"
  shows "kind_text kind = kind_text kind' \<and> ctx = ctx' \<and> x = y"
proof -
  note bounds = assms(4,5) context_okD [OF assms(2)] context_okD [OF assms(3)]
  note eq = assms(1) [unfolded authenticatedData_app same_append_eq list.inject, THEN conjunct2, THEN conjunct2]
  have kind: "kind_text kind = kind_text kind'" using length_prefix_inj [OF eq] bounds by (simp add: text_bytes_inj)
  note eq1 = length_prefix_inj [OF eq, THEN conjunct2]
  have user: "cx_user ctx = cx_user ctx'" using length_prefix_inj [OF eq1] bounds by (simp add: text_bytes_inj)
  note eq2 = length_prefix_inj [OF eq1, THEN conjunct2]
  have "cx_vault ctx = cx_vault ctx'" "x = y" using length_prefix_inj [OF eq2] bounds by (simp_all add: text_bytes_inj)
  with kind user show ?thesis by (cases ctx; cases ctx') simp
qed

lemma server_aad_eq: "server_aad ctx i = authenticatedData ctx KindServerPasskey 1 @ put_uint32 (word_of_nat (length i)) @ i @ []"
  by (simp add: server_aad_def)

lemma bound_data_inj:
  assumes "bound_data c ctx = bound_data c' ctx'" "cred_ok c" "cred_ok c'" "context_ok ctx" "context_ok ctx'"
  shows "cred_kind c = cred_kind c' \<and> ctx = ctx' \<and> cred_id c = cred_id c'"
proof -
  have plain: "\<exists>x. bound_data c ctx = authenticatedData ctx (cred_kind c) 1 @ x
      \<and> x = (case c of ByServer _ i \<Rightarrow> put_uint32 (word_of_nat (length i)) @ i @ [] | _ \<Rightarrow> [])" for c ctx
    by (cases c) (simp_all add: server_aad_eq)
  have short: "length (kind_text (cred_kind c)) \<le> 4096" for c by (cases c) simp_all
  have kinds: "kind_text (cred_kind c) = kind_text (cred_kind c') \<Longrightarrow> cred_kind c = cred_kind c'" for c c'
    by (cases c; cases c') simp_all
  obtain x y where x: "bound_data c ctx = authenticatedData ctx (cred_kind c) 1 @ x"
      "x = (case c of ByServer _ i \<Rightarrow> put_uint32 (word_of_nat (length i)) @ i @ [] | _ \<Rightarrow> [])"
    and y: "bound_data c' ctx' = authenticatedData ctx' (cred_kind c') 1 @ y"
      "y = (case c' of ByServer _ i \<Rightarrow> put_uint32 (word_of_nat (length i)) @ i @ [] | _ \<Rightarrow> [])"
    using plain [of c ctx] plain [of c' ctx'] by blast
  have "kind_text (cred_kind c) = kind_text (cred_kind c') \<and> ctx = ctx' \<and> x = y"
    by (rule authenticatedData_inj [OF assms(1) [unfolded x(1) y(1)] assms(4,5) short short])
  then have same: "cred_kind c = cred_kind c'" "ctx = ctx'" "x = y" using kinds by blast+
  have "cred_id c = cred_id c'"
  proof (cases c)
    case (ByServer s i)
    then obtain s' i' where c': "c' = ByServer s' i'" using same(1) by (cases c') simp_all
    have "put_uint32 (word_of_nat (length i)) @ i @ [] = put_uint32 (word_of_nat (length i')) @ i' @ []"
      using same(3) x(2) y(2) ByServer c' by simp
    moreover have "length i \<le> 4096" "length i' \<le> 4096" using assms(2,3) ByServer c' by simp_all
    ultimately have "i = i'" using length_prefix_inj [of i "[]" i' "[]"] by blast
    then show ?thesis by (simp add: ByServer c')
  qed (use same(1) in \<open>cases c'; simp\<close>)+
  with same show ?thesis by blast
qed

lemma hkdfInfo_inj:
  "hkdfInfo (cred_kind c) p = hkdfInfo (cred_kind c') p' \<Longrightarrow> p \<in> {''aead'', ''verifier''} \<Longrightarrow> p' \<in> {''aead'', ''verifier''}
     \<Longrightarrow> cred_kind c = cred_kind c' \<and> p = p'"
  by (cases c; cases c') (auto simp: hkdfInfo_def text_bytes_inj)

section \<open>The wrapped form\<close>

definition sealed_with :: "crypto \<Rightarrow> bytes \<Rightarrow> credential \<Rightarrow> Context \<Rightarrow> bytes \<Rightarrow> bytes \<Rightarrow> Envelope" where
  "sealed_with cr dek c ctx salt nonce =
     (case c of ByPassword p \<Rightarrow> password_sealed cr dek p (bound_data c ctx) salt nonce
      | ByRecovery s \<Rightarrow> hkdf_sealed cr dek KindRecovery s (bound_data c ctx) salt nonce
      | ByPasskey s \<Rightarrow> hkdf_sealed cr dek KindPasskey s (bound_data c ctx) salt nonce
      | ByServer s i \<Rightarrow> hkdf_sealed cr dek KindServerPasskey s (bound_data c ctx) salt nonce)"

interpretation held: key_custody
  "\<lambda>cr dek (c, ctx). wrap_with cr dek c ctx"
  "\<lambda>cr e (c, ctx). unwrap_with cr e c ctx"
  "\<lambda>cr dek (c, ctx). sealed_with cr dek c ctx"
  "\<lambda>(c, ctx). cred_ok c \<and> context_ok ctx"
proof (unfold_locales, goal_cases)
  case (1 cr dek s source e rest)
  obtain c ctx where s: "s = (c, ctx)" by (cases s)
  show ?case
    using password.wrap_law [OF 1, where s = "(_, ctx)"] recovery.wrap_law [OF 1, where s = "(_, ctx)"]
      passkey.wrap_law [OF 1, where s = "(_, ctx)"] server_passkey.wrap_law [OF 1, where s = "(_, ctx, _)"]
    by (cases c) (auto simp: s sealed_with_def)
next
  case (2 cr e s dek)
  obtain c ctx where s: "s = (c, ctx)" by (cases s)
  show ?case
    using password.unwrap_law [OF 2, where s = "(_, ctx)"] recovery.unwrap_law [OF 2, where s = "(_, ctx)"]
      passkey.unwrap_law [OF 2, where s = "(_, ctx)"] server_passkey.unwrap_law [OF 2, where s = "(_, ctx, _)"]
    by (cases c) (auto simp: s sealed_with_def)
qed (auto simp: sealed_with_def hkdf_sealed_def password_sealed_def Let_def split: prod.splits credential.splits)

lemma sealed_with_fields:
  "ev_kind (sealed_with cr dek c ctx salt nonce) = cred_kind c"
  "ev_ciphertext (sealed_with cr dek c ctx salt nonce) = cr_seal cr (wrapping_key cr c salt) nonce dek (bound_data c ctx)"
  by (cases c; simp add: sealed_with_def hkdf_sealed_def password_sealed_def Let_def)+

lemma sealed_with_valid:
  "crypto_ok cr \<Longrightarrow> length dek = 32 \<Longrightarrow> length salt = 32 \<Longrightarrow> length nonce = 12 \<Longrightarrow>
     validateKeyEnvelope (sealed_with cr dek c ctx salt nonce) (cred_kind c) = Inr ()"
  by (cases c) (simp_all add: validateKeyEnvelope_def sealed_with_def hkdf_sealed_def password_sealed_def Let_def
      passwordKDF_def crypto_okD length_passwordVerifier)

section \<open>Properties\<close>

text \<open>Parameters with the promised behaviour, for the witnesses: keys and codes are padded inputs, sealing appends a
  checksum of the authenticated data.\<close>

definition pad :: "nat \<Rightarrow> bytes \<Rightarrow> bytes" where
  "pad n xs = take n (xs @ replicate n 0)"

definition sample_crypto :: crypto where
  "sample_crypto =
     \<lparr>cr_argon = (\<lambda>password salt iterations memory parallelism n. pad n password),
      cr_hkdf = (\<lambda>secret salt info n. pad n (take 8 (rev info) @ secret)),
      cr_hmac = (\<lambda>key message. pad 32 (take 8 key @ rev message)),
      cr_seal = (\<lambda>key nonce plain aad. pad 16 (take 8 key @ rev aad) @ plain),
      cr_open = (\<lambda>key nonce cipher aad.
        if length cipher \<ge> 16 \<and> take 16 cipher = pad 16 (take 8 key @ rev aad) then Some (drop 16 cipher) else None)\<rparr>"

lemma length_pad [simp]: "length (pad n xs) = n"
  by (simp add: pad_def)

lemma sample_crypto_ok: "crypto_ok sample_crypto"
proof -
  have "length c \<ge> 16 \<and> take 16 c = pad 16 t \<and> drop 16 c = p \<longleftrightarrow> c = pad 16 t @ p" for c t p
    by auto (metis append_take_drop_id)
  then show ?thesis by (auto simp: crypto_ok_def sample_crypto_def)
qed

definition sample_context :: Context where
  "sample_context = \<lparr>cx_user = ''alice-0123456789'', cx_vault = ''vault-0123456789''\<rparr>"

lemma sample_context_ok: "context_ok sample_context"
  by (simp add: context_ok_def validateContext_def sample_context_def maxContextIDSize_def)

lemma sample_wrap: "okE (wrap_with sample_crypto (replicate 32 7) (ByServer (replicate 32 1) (replicate 16 2)) sample_context (replicate 44 3))"
  using held.wrap_ok [OF sample_crypto_ok, where s = "(ByServer (replicate 32 1) (replicate 16 2), sample_context)"]
  by (simp add: sample_context_ok)

text \<open>C10: unwrapping inverts wrapping, and nothing else. For every kind of credential, wrapping succeeds exactly for a key of
  32 bytes, an acceptable credential and context and a source with 44 more bytes; the control store accepts the
  envelope; and an envelope unwraps to a key exactly when wrapping that key with that credential in that context can
  produce it. A password that unwraps also verifies.\<close>

theorem envelope_unwrap_exact:
  assumes "crypto_ok cr"
  shows "(okE (wrap_with cr dek c ctx source) \<longleftrightarrow> length dek = 32 \<and> cred_ok c \<and> context_ok ctx \<and> 44 \<le> length source)
    \<and> (wrap_with cr dek c ctx source = Inr (e, rest) \<longrightarrow>
        validateKeyEnvelope e (cred_kind c) = Inr () \<and> unwrap_with cr (Some e) c ctx = Inr dek)
    \<and> (unwrap_with cr (Some e) c ctx = Inr dek \<longrightarrow> (\<exists>source rest. wrap_with cr dek c ctx source = Inr (e, rest)))
    \<and> (UnwrapWithPassword cr (Some e) password ctx = Inr dek \<longrightarrow> VerifyPassword cr (Some e) password ctx = Inr True)"
proof (intro conjI impI)
  show "okE (wrap_with cr dek c ctx source) \<longleftrightarrow> length dek = 32 \<and> cred_ok c \<and> context_ok ctx \<and> 44 \<le> length source"
    using held.wrap_ok [OF assms, where s = "(c, ctx)"] by simp
next
  assume wrap: "wrap_with cr dek c ctx source = Inr (e, rest)"
  then show "unwrap_with cr (Some e) c ctx = Inr dek" using held.unwrap_exact [OF assms, where s = "(c, ctx)"] by auto
  show "validateKeyEnvelope e (cred_kind c) = Inr ()"
    using held.wrap_law [OF assms, where s = "(c, ctx)"] wrap by (auto intro: sealed_with_valid [OF assms])
next
  assume "unwrap_with cr (Some e) c ctx = Inr dek"
  then show "\<exists>source rest. wrap_with cr dek c ctx source = Inr (e, rest)"
    using held.unwrap_exact [OF assms, where s = "(c, ctx)"] by auto
next
  assume "UnwrapWithPassword cr (Some e) password ctx = Inr dek"
  then show "VerifyPassword cr (Some e) password ctx = Inr True"
    by (auto simp: UnwrapWithPassword_def VerifyPassword_def res_simps Let_def password_ok_def dest!: open_dek_verified)
qed

theorem envelope_unwrap_exact_witness:
  "\<exists>e rest. wrap_with sample_crypto (replicate 32 7) (ByServer (replicate 32 1) (replicate 16 2)) sample_context (replicate 44 3) = Inr (e, rest)
    \<and> unwrap_with sample_crypto (Some e) (ByServer (replicate 32 1) (replicate 16 2)) sample_context = Inr (replicate 32 7)"
  using okE_pair [OF sample_wrap]
    envelope_unwrap_exact [OF sample_crypto_ok, of "replicate 32 7" "ByServer (replicate 32 1) (replicate 16 2)" sample_context
      "replicate 44 3"] by blast

text \<open>C11: an envelope is bound to its user, its vault, its kind and, for the server's custody, its credential. Whoever unwraps it
  under another binding has found two different authenticated texts for which AES-GCM produces the same ciphertext and
  tag; the length-prefixed encoding of the binding adds no collision of its own, also not by the wrap-around of a
  32-bit length. An envelope of another kind is refused.\<close>

theorem envelope_bound_to_context:
  assumes "crypto_ok cr"
    and wrap: "wrap_with cr dek c ctx source = Inr (e, rest)"
    and unwrap: "unwrap_with cr (Some e) c' ctx' = Inr dek'"
  shows "cred_kind c' = cred_kind c
    \<and> (ctx' = ctx \<and> cred_id c' = cred_id c
       \<or> bound_data c' ctx' \<noteq> bound_data c ctx
         \<and> cr_seal cr (wrapping_key cr c' (ev_salt e)) (ev_nonce e) dek' (bound_data c' ctx')
           = cr_seal cr (wrapping_key cr c (ev_salt e)) (ev_nonce e) dek (bound_data c ctx))"
proof -
  have s: "cred_ok c" "context_ok ctx" "e = sealed_with cr dek c ctx (ev_salt e) (ev_nonce e)"
    using held.wrap_law [OF assms(1), where s = "(c, ctx)"] wrap held.sealed_fields [where s = "(c, ctx)"] by auto
  have s': "cred_ok c'" "context_ok ctx'" "e = sealed_with cr dek' c' ctx' (ev_salt e) (ev_nonce e)"
    using held.unwrap_law [OF assms(1), where s = "(c', ctx')"] unwrap by auto
  note f = sealed_with_fields [of cr dek c ctx "ev_salt e" "ev_nonce e", folded s(3)]
  note f' = sealed_with_fields [of cr dek' c' ctx' "ev_salt e" "ev_nonce e", folded s'(3)]
  have "cred_kind c' = cred_kind c" using f(1) f'(1) by simp
  moreover have "ctx' = ctx \<and> cred_id c' = cred_id c \<or> bound_data c' ctx' \<noteq> bound_data c ctx"
    using bound_data_inj [OF _ s'(1) s(1) s'(2) s(2)] by blast
  ultimately show ?thesis using f(2) f'(2) by auto
qed

theorem envelope_bound_to_context_witness:
  "\<exists>e rest. wrap_with sample_crypto (replicate 32 7) (ByServer (replicate 32 1) (replicate 16 2)) sample_context (replicate 44 3) = Inr (e, rest)
    \<and> cred_kind (ByServer (replicate 32 1) (replicate 16 2)) = KindServerPasskey"
proof -
  obtain e rest where wrap: "wrap_with sample_crypto (replicate 32 7) (ByServer (replicate 32 1) (replicate 16 2)) sample_context
      (replicate 44 3) = Inr (e, rest)" using okE_pair [OF sample_wrap] by blast
  have "unwrap_with sample_crypto (Some e) (ByServer (replicate 32 1) (replicate 16 2)) sample_context = Inr (replicate 32 7)"
    using held.unwrap_exact [OF sample_crypto_ok, where s = "(ByServer (replicate 32 1) (replicate 16 2), sample_context)"] wrap by auto
  from envelope_bound_to_context [OF sample_crypto_ok wrap this] wrap show ?thesis by auto
qed

lemma store_valid_common:
  "validateKeyEnvelope e kind = Inr () \<Longrightarrow> kind \<noteq> KindPassword \<Longrightarrow>
     validateCommonEnvelope (Some e) kind ''hkdf-sha256'' = Inr e \<and> no_password_metadata e = Inr e"
  by (cases kind) (auto simp: validateKeyEnvelope_def validateCommonEnvelope_def no_password_metadata_def res_simps size_defs)

lemma store_valid_password: "validateKeyEnvelope e KindPassword = Inr () \<Longrightarrow> validatePasswordEnvelope (Some e) = Inr e"
  by (auto simp: validateKeyEnvelope_def validatePasswordEnvelope_def validateCommonEnvelope_def passwordKDF_def res_simps size_defs)

text \<open>Argon2id restricted to the one profile, salt size, output size and password length the format admits.\<close>

definition only_default_profile :: "crypto \<Rightarrow> crypto" where
  "only_default_profile cr = cr\<lparr>cr_argon := (\<lambda>password salt iterations memory parallelism n.
     if (memory, iterations, parallelism) = DefaultProfile \<and> length salt = 32 \<and> n = 32 \<and> length password \<le> 1048576
     then cr_argon cr password salt iterations memory parallelism n else [])\<rparr>"

lemma only_default_profile_simps [simp]:
  "cr_hkdf (only_default_profile cr) = cr_hkdf cr" "cr_hmac (only_default_profile cr) = cr_hmac cr"
  "cr_open (only_default_profile cr) = cr_open cr"
  "length salt = 32 \<Longrightarrow> length password \<le> 1048576 \<Longrightarrow>
     argon_root (only_default_profile cr) password salt DefaultProfile = argon_root cr password salt DefaultProfile"
  "deriveKey (only_default_profile cr) = deriveKey cr"
  "passwordVerifier (only_default_profile cr) = passwordVerifier cr"
  "open_dek (only_default_profile cr) = open_dek cr"
  by (auto simp: only_default_profile_def argon_root_def DefaultProfile_def DEKSize_def deriveKey_def passwordVerifier_def
      open_dek_def open_envelope_def fun_eq_iff)

lemma password_okD: "password_ok p \<Longrightarrow> length p \<le> 1048576"
  by (auto simp: password_ok_def validatePassword_def okE_iff res_simps maxPasswordSize_def)

lemma validatePasswordEnvelopeD:
  "validatePasswordEnvelope envelope = Inr e \<Longrightarrow> ev_profile e = DefaultProfile \<and> length (ev_salt e) = 32"
  by (auto simp: validatePasswordEnvelope_def validateCommonEnvelope_def res_simps SaltSize_def)

lemma argon_root_only_default:
  "validatePasswordEnvelope envelope = Inr e \<Longrightarrow> password_ok p \<Longrightarrow>
     argon_root (only_default_profile cr) p (ev_salt e) (ev_profile e) = argon_root cr p (ev_salt e) (ev_profile e)"
  using validatePasswordEnvelopeD [of envelope e] password_okD [of p] by simp

lemmas unwrap_envelope_defs = UnwrapWithPassword_def UnwrapWithRecovery_def UnwrapWithPasskey_def UnwrapWithServerPasskey_def
  validatePasswordEnvelope_def validateRecoveryEnvelope_def validatePasskeyEnvelope_def validateCommonEnvelope_def

text \<open>What a failing unwrap tells. For an envelope the control store accepts and a valid context every failure is the one
  authentication error, whether the credential is malformed, wrong, or the envelope was altered; an absent envelope or one
  of another kind is an invalid envelope. And no envelope, however corrupted, makes the server run Argon2id with anything but
  the fixed profile, a 32-byte salt and a password of at most one mebibyte: with an Argon2id that works for these inputs only,
  every answer is the same.\<close>

theorem envelope_failures_uniform:
  assumes "crypto_ok cr" "context_ok ctx" "cred_kind c = KindServerPasskey \<Longrightarrow> 16 \<le> length (cred_id c) \<and> length (cred_id c) \<le> 1024"
  shows "(validateKeyEnvelope e (cred_kind c) = Inr () \<longrightarrow> unwrap_with cr (Some e) c ctx = Inl err \<longrightarrow> err = ErrAuthentication)
    \<and> unwrap_with cr None c ctx = Inl ErrInvalidEnvelope
    \<and> (ev_kind e \<noteq> cred_kind c \<longrightarrow> unwrap_with cr (Some e) c ctx = Inl ErrInvalidEnvelope)
    \<and> unwrap_with (only_default_profile cr) envelope c ctx = unwrap_with cr envelope c ctx
    \<and> VerifyPassword (only_default_profile cr) envelope password ctx = VerifyPassword cr envelope password ctx"
proof (intro conjI impI)
  assume valid: "validateKeyEnvelope e (cred_kind c) = Inr ()" and err: "unwrap_with cr (Some e) c ctx = Inl err"
  show "err = ErrAuthentication"
  proof (cases c)
    case (ByPassword p)
    then show ?thesis using valid err store_valid_password [of e] assms(1,2)
      by (auto simp: UnwrapWithPassword_def res_simps Let_def deriveKey_ok context_ok_def dest: open_dek_error)
  next
    case (ByRecovery s)
    then show ?thesis using valid err store_valid_common [of e KindRecovery] assms(1,2)
      by (auto simp: UnwrapWithRecovery_def validateRecoveryEnvelope_def recoveryKDF_def res_simps deriveKey_ok context_ok_def
          dest: open_dek_error)
  next
    case (ByPasskey s)
    then show ?thesis using valid err store_valid_common [of e KindPasskey] assms(1,2)
      by (auto simp: UnwrapWithPasskey_def validatePasskeyEnvelope_def passkeyKDF_def res_simps deriveKey_ok context_ok_def
          dest: open_dek_error)
  next
    case (ByServer s i)
    then have "serverPasskeyAAD ctx i \<noteq> Inl x" for x
      using assms(2,3) by (auto simp: serverPasskeyAAD_def res_simps context_ok_def)
    with ByServer show ?thesis using valid err store_valid_common [of e KindServerPasskey] assms(1)
      by (auto simp: UnwrapWithServerPasskey_def passkeyKDF_def res_simps deriveKey_ok dest: open_dek_error)
  qed
next
  show "unwrap_with cr None c ctx = Inl ErrInvalidEnvelope"
    by (cases c) (simp_all add: unwrap_envelope_defs)
next
  assume "ev_kind e \<noteq> cred_kind c"
  then show "unwrap_with cr (Some e) c ctx = Inl ErrInvalidEnvelope"
    by (cases c) (simp_all add: unwrap_envelope_defs)
next
  show "unwrap_with (only_default_profile cr) envelope c ctx = unwrap_with cr envelope c ctx"
    by (cases c) (auto simp: UnwrapWithPassword_def UnwrapWithRecovery_def UnwrapWithPasskey_def UnwrapWithServerPasskey_def Let_def res_simps
        argon_root_only_default intro!: bindE_cong)
next
  show "VerifyPassword (only_default_profile cr) envelope password ctx = VerifyPassword cr envelope password ctx"
    by (auto simp: VerifyPassword_def Let_def password_ok_def [symmetric] argon_root_only_default intro!: bindE_cong)
qed

theorem envelope_failures_uniform_witness:
  "unwrap_with sample_crypto None (ByRecovery (replicate 32 1)) sample_context = Inl ErrInvalidEnvelope
   \<and> (\<forall>err. unwrap_with sample_crypto (Some (sealed_with sample_crypto (replicate 32 7) (ByRecovery (replicate 32 1)) sample_context
        (replicate 32 2) (replicate 12 3))) (ByRecovery []) sample_context = Inl err \<longrightarrow> err = ErrAuthentication)"
  using envelope_failures_uniform [OF sample_crypto_ok sample_context_ok, of "ByRecovery (replicate 32 1)"]
    envelope_failures_uniform [OF sample_crypto_ok sample_context_ok, of "ByRecovery []"
      "sealed_with sample_crypto (replicate 32 7) (ByRecovery (replicate 32 1)) sample_context (replicate 32 2) (replicate 12 3)"]
    sealed_with_valid [OF sample_crypto_ok, of "replicate 32 7" "replicate 32 2" "replicate 12 3" "ByRecovery (replicate 32 1)" sample_context]
  by simp

end
