(* ===== verification/AccountService.thy ===== *)
theory AccountService
  imports KeyEnvelope LoginThrottle SessionProperties
begin

text \<open>
  The account service of \<open>backend/serverauth/service.go\<close>, which joins the control store, the key envelopes, the login
  throttle, the sessions and the vault manager, with \<open>openVaultSession\<close> of \<open>server.go\<close>. A method is a function of the whole
  state that yields its answer or error together with the new state; the state also has the account locks and the KDF
  slots in use, so that a lock a method forgets to give back would stay in it. \<open>lockAccount\<close> never waits: what another
  request holds is an error, so a method runs on its account without interference. SHA-256, the base64url codec and
  \<open>Manager.Acquire\<close> run to its end are parameters; the random source is part of the state. The work of
  \<open>runDummyPasswordWork\<close> has no result.
\<close>

section \<open>State and errors\<close>

datatype aerr =
    ErrInvalidCredentials
  | ErrInvalidRecovery
  | ErrPasswordPolicy
  | ErrInvalidAccountData
  | ErrAuthenticationBusy
  | ErrAlreadySetup
  | ErrSetupUnauthorized
  | LoginThrottledError int
  | StoreError cerr
  | EnvelopeError kerr
  | VaultError vault_error
  | SessionError session_error

record AuthService =
  as_store :: store
  as_throttle :: throttle_store
  as_server :: server
  as_locked :: "string list"
  as_kdf :: nat
  as_random :: bytes

record auth_env =
  ae_control :: control_env
  ae_crypto :: crypto
  ae_sha256 :: "bytes \<Rightarrow> bytes"
  ae_b64_encode :: "bytes \<Rightarrow> string"
  ae_b64_decode :: "string \<Rightarrow> bytes option"
  ae_capacity :: nat
  ae_webauthn :: bool
  ae_custody :: bytes
  ae_setup :: "bytes option"
  ae_acquire :: "string \<Rightarrow> string \<Rightarrow> bytes \<Rightarrow> server \<Rightarrow> (vault_error, nat) result \<times> server"

type_synonym 'a act = "AuthService \<Rightarrow> (aerr, 'a) result \<times> AuthService"

definition returnA :: "'a \<Rightarrow> 'a act" where
  "returnA x s = (Inr x, s)"

definition failA :: "aerr \<Rightarrow> 'a act" where
  "failA e s = (Inl e, s)"

definition bindA :: "'a act \<Rightarrow> ('a \<Rightarrow> 'b act) \<Rightarrow> 'b act" where
  "bindA m f s = (case m s of (Inl e, s1) \<Rightarrow> (Inl e, s1) | (Inr x, s1) \<Rightarrow> f x s1)"

definition modifyA :: "(AuthService \<Rightarrow> AuthService) \<Rightarrow> unit act" where
  "modifyA f s = (Inr (), f s)"

definition mapErrA :: "(aerr \<Rightarrow> aerr) \<Rightarrow> 'a act \<Rightarrow> 'a act" where
  "mapErrA f m s = (case m s of (r, s1) \<Rightarrow> (mapErr f r, s1))"

definition liftE :: "(aerr, 'a) result \<Rightarrow> 'a act" where
  "liftE r s = (r, s)"

definition readStore :: "(store \<Rightarrow> (cerr, 'a) result) \<Rightarrow> 'a act" where
  "readStore f s = (mapErr StoreError (f (as_store s)), s)"

text \<open>A read whose error the method inspects itself.\<close>

definition lookStore :: "(store \<Rightarrow> 'r) \<Rightarrow> ('r \<Rightarrow> 'a act) \<Rightarrow> 'a act" where
  "lookStore f k s = k (f (as_store s)) s"

definition onStore :: "(store \<Rightarrow> (cerr, 'a) result \<times> store) \<Rightarrow> 'a act" where
  "onStore f s = (case f (as_store s) of (r, S) \<Rightarrow> (mapErr StoreError r, s\<lparr>as_store := S\<rparr>))"

definition onRandom :: "(bytes \<Rightarrow> (kerr, 'a \<times> bytes) result) \<Rightarrow> 'a act" where
  "onRandom f s = (case f (as_random s) of Inl e \<Rightarrow> (Inl (EnvelopeError e), s) | Inr (x, rest) \<Rightarrow> (Inr x, s\<lparr>as_random := rest\<rparr>))"

section \<open>Locks and slots\<close>

definition reserveKDF :: "auth_env \<Rightarrow> unit act" where
  "reserveKDF env s =
     (if as_kdf s < ae_capacity env then (Inr (), s\<lparr>as_kdf := as_kdf s + 1\<rparr>) else (Inl ErrAuthenticationBusy, s))"

definition releaseKDF :: "AuthService \<Rightarrow> AuthService" where
  "releaseKDF s = s\<lparr>as_kdf := as_kdf s - 1\<rparr>"

definition lockAccount :: "string \<Rightarrow> unit act" where
  "lockAccount key s =
     (if key \<in> set (as_locked s) then (Inl ErrAuthenticationBusy, s) else (Inr (), s\<lparr>as_locked := key # as_locked s\<rparr>))"

definition unlockAccount :: "string \<Rightarrow> AuthService \<Rightarrow> AuthService" where
  "unlockAccount key s = s\<lparr>as_locked := remove1 key (as_locked s)\<rparr>"

text \<open>A deferred unlock around a body; \<open>busy\<close> is what the method gives back when the lock is taken.\<close>

definition withLock :: "string \<Rightarrow> (AuthService \<Rightarrow> AuthService) \<Rightarrow> 'a act \<Rightarrow> 'a act" where
  "withLock key busy body s =
     (case lockAccount key s of
        (Inl e, s1) \<Rightarrow> (Inl e, busy s1)
      | (Inr _, s1) \<Rightarrow> (case body s1 of (r, s2) \<Rightarrow> (r, unlockAccount key s2)))"

text \<open>A slot around one derivation.\<close>

definition withKDF :: "auth_env \<Rightarrow> 'a act \<Rightarrow> 'a act" where
  "withKDF env body s =
     (case reserveKDF env s of
        (Inl e, s1) \<Rightarrow> (Inl e, s1)
      | (Inr _, s1) \<Rightarrow> (case body s1 of (r, s2) \<Rightarrow> (r, releaseKDF s2)))"

definition runDummyPassword :: "auth_env \<Rightarrow> unit act" where
  "runDummyPassword env = withKDF env (returnA ())"

section \<open>Small checks\<close>

definition validateNewPassword :: "bytes \<Rightarrow> (aerr, unit) result" where
  "validateNewPassword password = guardE (12 \<le> length password \<and> length password \<le> 1024) ErrPasswordPolicy"

definition validateAccountSecret :: "bytes \<Rightarrow> (aerr, unit) result" where
  "validateAccountSecret secret = guardE (length secret = 32) ErrInvalidAccountData"

definition normalizeLoginEmail :: "auth_env \<Rightarrow> string \<Rightarrow> (aerr, string) result" where
  "normalizeLoginEmail env raw =
     (let email = env_lower (ae_control env) (TrimSpace raw) in
      if length email < 3 \<or> length email > 254 \<or> (\<exists>c\<in>set email. byte c = 13 \<or> byte c = 10 \<or> byte c = 0)
      then Inl ErrInvalidCredentials
      else if env_address (ae_control env) email \<noteq> Some email \<or> count_list email (CHR ''@'') \<noteq> 1 then Inl ErrInvalidCredentials
      else Inr email)"

definition hex_char :: "nat \<Rightarrow> char" where
  "hex_char n = char_of (if n < 10 then 48 + n else 87 + n)"

definition hex_encode :: "bytes \<Rightarrow> string" where
  "hex_encode bs = concat (map (\<lambda>b. [hex_char (unat b div 16), hex_char (unat b mod 16)]) bs)"

definition LoginThrottleKey :: "auth_env \<Rightarrow> string \<Rightarrow> string" where
  "LoginThrottleKey env email =
     hex_encode (ae_sha256 env (text_bytes ''omni-money/login-throttle/v1'' @ [0] @ text_bytes email))"

definition decodeFixedSecret :: "auth_env \<Rightarrow> string \<Rightarrow> nat \<Rightarrow> bytes option" where
  "decodeFixedSecret env encoded n =
     (if encoded = [] then None
      else case ae_b64_decode env encoded of
        None \<Rightarrow> None
      | Some raw \<Rightarrow> if length raw \<noteq> n \<or> ae_b64_encode env raw \<noteq> encoded then None else Some raw)"

definition HashBearerToken :: "auth_env \<Rightarrow> bytes \<Rightarrow> bytes option" where
  "HashBearerToken env token = (if length token < 32 \<or> length token > 4096 then None else Some (ae_sha256 env token))"

definition HashEncodedBearerToken :: "auth_env \<Rightarrow> string \<Rightarrow> bytes option" where
  "HashEncodedBearerToken env encoded =
     (case decodeFixedSecret env encoded 32 of None \<Rightarrow> None | Some raw \<Rightarrow> HashBearerToken env raw)"

definition GenerateBearerToken :: "auth_env \<Rightarrow> (string \<times> bytes) act" where
  "GenerateBearerToken env =
     bindA (onRandom (randomBytes 32)) (\<lambda>raw.
     case HashBearerToken env raw of
       None \<Rightarrow> failA (StoreError ErrInput)
     | Some digest \<Rightarrow> returnA (ae_b64_encode env raw, digest))"

definition Authorize :: "auth_env \<Rightarrow> bytes \<Rightarrow> bool" where
  "Authorize env candidate = (case ae_setup env of None \<Rightarrow> False | Some digest \<Rightarrow> ae_sha256 env candidate = digest)"

section \<open>The throttle\<close>

definition checkThrottle :: "string \<Rightarrow> int \<Rightarrow> unit act" where
  "checkThrottle key now s =
     (case checkLoginThrottle key now (as_throttle s) of
        Inl e \<Rightarrow> (Inl (StoreError e), s)
      | Inr retryAfter \<Rightarrow> if retryAfter > 0 then (Inl (LoginThrottledError retryAfter), s) else (Inr (), s))"

definition failLogin :: "string \<Rightarrow> int \<Rightarrow> 'a act" where
  "failLogin key now s = (Inl ErrInvalidCredentials, s\<lparr>as_throttle := recordLoginFailure key now (as_throttle s)\<rparr>)"

definition clearThrottle :: "string \<Rightarrow> AuthService \<Rightarrow> AuthService" where
  "clearThrottle key s = s\<lparr>as_throttle := clearLoginFailures key (as_throttle s)\<rparr>"

section \<open>Sessions and vaults\<close>

definition openVaultSession ::
  "auth_env \<Rightarrow> UserSummary \<Rightarrow> string \<Rightarrow> bytes \<Rightarrow> string \<Rightarrow> string \<Rightarrow> int \<Rightarrow> Session act" where
  "openVaultSession env user vaultID key sid csrf clock s =
     (case ae_acquire env (us_id user) vaultID key (as_server s) of
        (Inl e, v) \<Rightarrow> (Inl (VaultError e), s\<lparr>as_server := v\<rparr>)
      | (Inr l, v) \<Rightarrow>
          (case CreateVaultSession clock sid csrf user l (srv_vault v) (srv_sessions v) of
             (r, roots, m) \<Rightarrow>
               let srv = (settle v roots m)\<lparr>srv_used := insert sid (srv_used v)\<rparr> in
               case r of
                 Inl e \<Rightarrow> (case Release l (srv_vault srv) of
                   (ts, w) \<Rightarrow> (Inl (SessionError e), s\<lparr>as_server := srv\<lparr>srv_vault := put_threads (vm_threads (srv_vault srv)) ts w\<rparr>\<rparr>))
               | Inr session \<Rightarrow> (Inr session, s\<lparr>as_server := srv\<rparr>)))"

text \<open>\<open>DeleteAllSessionsForUser\<close> and \<open>BeginUserDrain\<close> after a change of credentials or rights; an error of the latter is ignored. The
  wait of \<open>finishDrain\<close> comes after the account lock and is a goroutine of the vault manager.\<close>

definition beginDrain :: "string \<Rightarrow> server \<Rightarrow> server" where
  "beginDrain user v =
     (if \<not> okE (validateUserID user) then v
      else case BeginUserDrain user (srv_vault v) of (ts, w) \<Rightarrow> v\<lparr>srv_vault := put_threads (vm_threads (srv_vault v)) ts w\<rparr>)"

definition evictUser :: "string \<Rightarrow> AuthService \<Rightarrow> AuthService" where
  "evictUser user s =
     (case DeleteAllSessionsForUser user (srv_sessions (as_server s)) of
        (n, roots, m) \<Rightarrow> s\<lparr>as_server := beginDrain user (settle (as_server s) roots m)\<rparr>)"

section \<open>New accounts\<close>

definition prepareAccount ::
  "auth_env \<Rightarrow> string \<Rightarrow> string \<Rightarrow> string \<Rightarrow> string \<Rightarrow> bytes \<Rightarrow> bytes \<Rightarrow> NewUserInput act" where
  "prepareAccount env userID vaultID email displayName password recoverySecret =
     bindA (onRandom GenerateDEK) (\<lambda>dek.
     let binding = \<lparr>cx_user = userID, cx_vault = vaultID\<rparr> in
     bindA (onRandom (WrapWithPassword (ae_crypto env) dek password binding)) (\<lambda>passwordEnvelope.
     bindA (onRandom (WrapWithRecovery (ae_crypto env) dek recoverySecret binding)) (\<lambda>recoveryEnvelope.
     returnA \<lparr>nu_id = userID, nu_email = email, nu_display = displayName, nu_vault = vaultID,
       nu_password = passwordEnvelope, nu_recovery = Some ([], recoveryEnvelope)\<rparr>)))"

record BootstrapInput =
  bi_token :: bytes
  bi_email :: string
  bi_display :: string
  bi_password :: bytes
  bi_recovery :: bytes

text \<open>The identifiers of \<open>GenerateID\<close> are arguments.\<close>

definition Service_Bootstrap :: "auth_env \<Rightarrow> string \<times> string \<times> string \<Rightarrow> BootstrapInput \<Rightarrow> int \<Rightarrow> UserSummary act" where
  "Service_Bootstrap env ids input now =
     (case ids of (userID, vaultID, recoveryID) \<Rightarrow>
     bindA (readStore IsBootstrapped) (\<lambda>bootstrapped.
     if bootstrapped then failA ErrAlreadySetup
     else if \<not> Authorize env (bi_token input) then failA ErrSetupUnauthorized
     else
     bindA (liftE (validateNewPassword (bi_password input))) (\<lambda>_.
     bindA (liftE (validateAccountSecret (bi_recovery input))) (\<lambda>_.
     bindA (withKDF env (prepareAccount env userID vaultID (bi_email input) (bi_display input) (bi_password input) (bi_recovery input)))
       (\<lambda>account.
       mapErrA (\<lambda>e. if e = StoreError ErrAlreadyBootstrapped then ErrAlreadySetup else e)
         (onStore (BootstrapFirstAdmin (ae_control env) recoveryID account now)))))))"

record AcceptInvitationInput =
  ai_token :: string
  ai_display :: string
  ai_password :: bytes
  ai_recovery :: bytes

definition Service_AcceptInvitation ::
  "auth_env \<Rightarrow> string \<times> string \<times> string \<Rightarrow> AcceptInvitationInput \<Rightarrow> int \<Rightarrow> UserSummary act" where
  "Service_AcceptInvitation env ids input now =
     (case ids of (userID, vaultID, recoveryID) \<Rightarrow>
     case HashEncodedBearerToken env (ai_token input) of
       None \<Rightarrow> failA (StoreError ErrNotFound)
     | Some hash \<Rightarrow>
     bindA (readStore (GetInvitationByTokenHash hash)) (\<lambda>invitation.
     withLock (''invitation:'' @ in_id invitation) (\<lambda>s. s)
       (bindA (liftE (validateNewPassword (ai_password input))) (\<lambda>_.
        bindA (liftE (validateAccountSecret (ai_recovery input))) (\<lambda>_.
        bindA (withKDF env (prepareAccount env userID vaultID (in_email invitation) (ai_display input) (ai_password input) (ai_recovery input)))
          (\<lambda>account. onStore (AcceptInvitation (ae_control env) recoveryID hash account now)))))))"

section \<open>Login\<close>

text \<open>The kind of the envelope a passkey row decodes to; a row with the legacy marker has none.\<close>

definition passkey_kind :: "control_env \<Rightarrow> passkey_row \<Rightarrow> Kind" where
  "passkey_kind env k =
     (if pk_envelope k = legacyUnlockMarker then KindOther []
      else case env_decode env (pk_envelope k) of None \<Rightarrow> KindOther [] | Some e \<Rightarrow> ev_kind e)"

fun upgrade_rows :: "auth_env \<Rightarrow> Context \<Rightarrow> bytes \<Rightarrow> int \<Rightarrow> passkey_row list \<Rightarrow> unit act" where
  "upgrade_rows env binding dek now [] = returnA ()"
| "upgrade_rows env binding dek now (k # ks) =
     (if passkey_kind (ae_control env) k = KindServerPasskey then upgrade_rows env binding dek now ks
      else
        bindA (onRandom (WrapWithServerPasskey (ae_crypto env) dek (ae_custody env) binding (pk_id k))) (\<lambda>envelope.
        bindA (onStore (ReplacePasskeyEnvelope (ae_control env) k envelope now)) (\<lambda>_.
        upgrade_rows env binding dek now ks)))"

definition upgradePasskeyEnvelopes :: "auth_env \<Rightarrow> string \<Rightarrow> string \<Rightarrow> bytes \<Rightarrow> int \<Rightarrow> unit act" where
  "upgradePasskeyEnvelopes env userID vaultID dek now =
     (if \<not> ae_webauthn env then returnA ()
      else bindA (readStore (ListPasskeyCredentials userID)) (upgrade_rows env \<lparr>cx_user = userID, cx_vault = vaultID\<rparr> dek now))"

text \<open>A credential that was replaced or an account that was disabled meanwhile is a wrong credential.\<close>

definition recordSuccess :: "auth_env \<Rightarrow> string \<Rightarrow> PasswordCredential \<Rightarrow> int \<Rightarrow> unit act" where
  "recordSuccess env userID credential now =
     mapErrA (\<lambda>e. if e = StoreError ErrCredentialConflict \<or> e = StoreError ErrForbidden then ErrInvalidCredentials else e)
       (onStore (RecordSuccessfulLogin (ae_control env) userID credential now))"

definition login_finish ::
  "auth_env \<Rightarrow> string \<Rightarrow> UserSummary \<Rightarrow> string \<Rightarrow> PasswordCredential \<Rightarrow> bytes \<Rightarrow> string \<Rightarrow> string \<Rightarrow> int \<Rightarrow> int \<Rightarrow> Session act" where
  "login_finish env key user vaultID credential dek sid csrf clock now =
     bindA (recordSuccess env (us_id user) credential now) (\<lambda>_.
     bindA (upgradePasskeyEnvelopes env (us_id user) vaultID dek now) (\<lambda>_.
     bindA (modifyA (clearThrottle key)) (\<lambda>_.
     openVaultSession env user vaultID dek sid csrf clock)))"

text \<open>Under both locks, with a slot that every path gives back.\<close>

definition login_user ::
  "auth_env \<Rightarrow> string \<Rightarrow> string \<Rightarrow> bytes \<Rightarrow> string \<Rightarrow> string \<Rightarrow> int \<Rightarrow> int \<Rightarrow> Session act" where
  "login_user env key userID password sid csrf clock now s =
     (case GetUser userID (as_store s) of
        Inl e \<Rightarrow> if e \<noteq> ErrNotFound then (Inl (StoreError e), releaseKDF s) else failLogin key now (releaseKDF s)
      | Inr user \<Rightarrow>
          if us_state user \<noteq> UserActive then failLogin key now (releaseKDF s)
          else if \<not> okE (validateNewPassword password) then failLogin key now (releaseKDF s)
          else case GetPasswordCredential (ae_control env) (us_id user) (as_store s) of
            Inl e \<Rightarrow> (Inl (StoreError e), releaseKDF s)
          | Inr credential \<Rightarrow>
              case LookupVaultID (us_id user) (as_store s) of
                Inl e \<Rightarrow> (Inl (StoreError e), releaseKDF s)
              | Inr vaultID \<Rightarrow>
                  case UnwrapWithPassword (ae_crypto env) (Some (pc_envelope credential)) password
                         \<lparr>cx_user = us_id user, cx_vault = vaultID\<rparr> of
                    Inl e \<Rightarrow> if e = ErrAuthentication then failLogin key now (releaseKDF s) else (Inl (EnvelopeError e), releaseKDF s)
                  | Inr dek \<Rightarrow> login_finish env key user vaultID credential dek sid csrf clock now (releaseKDF s))"

definition login_email ::
  "auth_env \<Rightarrow> string \<Rightarrow> string \<Rightarrow> bytes \<Rightarrow> string \<Rightarrow> string \<Rightarrow> int \<Rightarrow> int \<Rightarrow> Session act" where
  "login_email env key email password sid csrf clock now s =
     (case GetUserByEmail (ae_control env) email (as_store s) of
        Inl e \<Rightarrow> if e = ErrNotFound then failLogin key now (releaseKDF s) else (Inl (StoreError e), releaseKDF s)
      | Inr user \<Rightarrow> withLock (''user:'' @ us_id user) releaseKDF (login_user env key (us_id user) password sid csrf clock now) s)"

definition Login :: "auth_env \<Rightarrow> string \<Rightarrow> bytes \<Rightarrow> string \<Rightarrow> string \<Rightarrow> int \<Rightarrow> int \<Rightarrow> Session act" where
  "Login env rawEmail password sid csrf clock now =
     (case normalizeLoginEmail env rawEmail of
        Inl _ \<Rightarrow> bindA (runDummyPassword env) (\<lambda>_. failA ErrInvalidCredentials)
      | Inr email \<Rightarrow>
          let key = LoginThrottleKey env email in
          bindA (checkThrottle key now) (\<lambda>_.
          bindA (reserveKDF env) (\<lambda>_.
          withLock (''email:'' @ email) releaseKDF (login_email env key email password sid csrf clock now))))"

section \<open>Proving the current password\<close>

text \<open>What \<open>Reauthenticate\<close> and \<open>unwrapVaultWithPassword\<close> check before they look at the credential: the throttle of a known account,
  the password policy, the state of the account.\<close>

definition refuseLogin :: "string \<Rightarrow> int \<Rightarrow> 'a act" where
  "refuseLogin key now = (if key \<noteq> [] then failLogin key now else failA ErrInvalidCredentials)"

definition passwordChecks :: "auth_env \<Rightarrow> (cerr, UserSummary) result \<Rightarrow> bytes \<Rightarrow> int \<Rightarrow> string act" where
  "passwordChecks env found password now =
     (let key = (case found of Inl _ \<Rightarrow> [] | Inr user \<Rightarrow> LoginThrottleKey env (us_email user)) in
      bindA (if okE found then checkThrottle key now else returnA ()) (\<lambda>_.
      if \<not> okE (validateNewPassword password) then bindA (runDummyPassword env) (\<lambda>_. refuseLogin key now)
      else case found of
        Inl e \<Rightarrow> bindA (runDummyPassword env) (\<lambda>_. if e \<noteq> ErrNotFound then failA (StoreError e) else refuseLogin key now)
      | Inr user \<Rightarrow>
          if us_state user \<noteq> UserActive then bindA (runDummyPassword env) (\<lambda>_. refuseLogin key now) else returnA key))"

definition passwordPreamble :: "auth_env \<Rightarrow> string \<Rightarrow> bytes \<Rightarrow> int \<Rightarrow> string act" where
  "passwordPreamble env userID password now = lookStore (GetUser userID) (\<lambda>found. passwordChecks env found password now)"

definition Reauthenticate :: "auth_env \<Rightarrow> string \<Rightarrow> bytes \<Rightarrow> int \<Rightarrow> unit act" where
  "Reauthenticate env userID password now =
     withLock (''user:'' @ userID) (\<lambda>s. s)
       (bindA (passwordPreamble env userID password now) (\<lambda>key.
        bindA (readStore (GetPasswordCredential (ae_control env) userID)) (\<lambda>credential.
        bindA (readStore (LookupVaultID userID)) (\<lambda>vaultID.
        bindA (withKDF env (liftE (mapErr EnvelopeError (VerifyPassword (ae_crypto env) (Some (pc_envelope credential)) password
          \<lparr>cx_user = userID, cx_vault = vaultID\<rparr>)))) (\<lambda>verified.
        if \<not> verified then failLogin key now
        else bindA (recordSuccess env userID credential now) (\<lambda>_. modifyA (clearThrottle key)))))))"

definition unwrapOrFail :: "auth_env \<Rightarrow> string \<Rightarrow> int \<Rightarrow> Envelope \<Rightarrow> bytes \<Rightarrow> Context \<Rightarrow> bytes act" where
  "unwrapOrFail env key now envelope password binding =
     bindA (withKDF env (returnA (UnwrapWithPassword (ae_crypto env) (Some envelope) password binding))) (\<lambda>r.
     case r of
       Inl e \<Rightarrow> if e = ErrAuthentication then failLogin key now else failA (EnvelopeError e)
     | Inr dek \<Rightarrow> returnA dek)"

definition unwrapVaultWithPassword :: "auth_env \<Rightarrow> string \<Rightarrow> bytes \<Rightarrow> int \<Rightarrow> (bytes \<times> string) act" where
  "unwrapVaultWithPassword env userID password now =
     bindA (passwordPreamble env userID password now) (\<lambda>key.
     bindA (readStore (GetPasswordCredential (ae_control env) userID)) (\<lambda>credential.
     bindA (readStore (LookupVaultID userID)) (\<lambda>vaultID.
     bindA (unwrapOrFail env key now (pc_envelope credential) password \<lparr>cx_user = userID, cx_vault = vaultID\<rparr>) (\<lambda>dek.
     bindA (modifyA (clearThrottle key)) (\<lambda>_. returnA (dek, vaultID))))))"

section \<open>Changing credentials\<close>

definition changePasswordLocked :: "auth_env \<Rightarrow> string \<Rightarrow> bytes \<Rightarrow> bytes \<Rightarrow> bool \<Rightarrow> int \<Rightarrow> nat act" where
  "changePasswordLocked env userID currentPassword newPassword revokePasskeys now =
     lookStore (GetUser userID) (\<lambda>found.
     case found of
       Inl _ \<Rightarrow> bindA (runDummyPassword env) (\<lambda>_. failA ErrInvalidCredentials)
     | Inr user \<Rightarrow>
         if us_state user \<noteq> UserActive then bindA (runDummyPassword env) (\<lambda>_. failA ErrInvalidCredentials)
         else
         let key = LoginThrottleKey env (us_email user) in
         bindA (checkThrottle key now) (\<lambda>_.
         bindA (readStore (GetPasswordCredential (ae_control env) userID)) (\<lambda>credential.
         bindA (readStore (LookupVaultID userID)) (\<lambda>vaultID.
         let binding = \<lparr>cx_user = userID, cx_vault = vaultID\<rparr> in
         bindA (unwrapOrFail env key now (pc_envelope credential) currentPassword binding) (\<lambda>dek.
         bindA (withKDF env (onRandom (WrapWithPassword (ae_crypto env) dek newPassword binding))) (\<lambda>replacement.
         bindA (onStore (ReplacePasswordCredentialWithPasskeyPolicy (ae_control env) userID credential replacement revokePasskeys now)) (\<lambda>revoked.
         bindA (modifyA (clearThrottle key)) (\<lambda>_.
         bindA (modifyA (evictUser userID)) (\<lambda>_. returnA revoked)))))))))"

definition ChangePassword :: "auth_env \<Rightarrow> string \<Rightarrow> bytes \<Rightarrow> bytes \<Rightarrow> bool \<Rightarrow> int \<Rightarrow> nat act" where
  "ChangePassword env userID currentPassword newPassword revokePasskeys now =
     bindA (liftE (validateNewPassword newPassword)) (\<lambda>_.
     if currentPassword = newPassword then failA ErrPasswordPolicy
     else withLock (''user:'' @ userID) (\<lambda>s. s) (changePasswordLocked env userID currentPassword newPassword revokePasskeys now))"

definition rotateRecoveryLocked :: "auth_env \<Rightarrow> string \<Rightarrow> string \<Rightarrow> bytes \<Rightarrow> bytes \<Rightarrow> int \<Rightarrow> unit act" where
  "rotateRecoveryLocked env recoveryID userID currentPassword newRecoverySecret now =
     bindA (unwrapVaultWithPassword env userID currentPassword now) (\<lambda>(dek, vaultID).
     bindA (readStore (GetActiveRecoveryEnvelope (ae_control env) userID)) (\<lambda>expected.
     let binding = \<lparr>cx_user = userID, cx_vault = vaultID\<rparr> in
     bindA (liftE (case UnwrapWithRecovery (ae_crypto env) (Some (re_envelope expected)) newRecoverySecret binding of
         Inr _ \<Rightarrow> Inl ErrInvalidAccountData
       | Inl e \<Rightarrow> if e \<noteq> ErrAuthentication then Inl (EnvelopeError e) else Inr ())) (\<lambda>_.
     bindA (onRandom (WrapWithRecovery (ae_crypto env) dek newRecoverySecret binding)) (\<lambda>replacement.
     bindA (onStore (RotateRecoveryEnvelope (ae_control env) recoveryID userID expected ([], replacement) now)) (\<lambda>_.
     modifyA (evictUser userID))))))"

definition RotateRecoveryCode :: "auth_env \<Rightarrow> string \<Rightarrow> string \<Rightarrow> bytes \<Rightarrow> bytes \<Rightarrow> int \<Rightarrow> unit act" where
  "RotateRecoveryCode env recoveryID userID currentPassword newRecoverySecret now =
     bindA (liftE (validateAccountSecret newRecoverySecret)) (\<lambda>_.
     withLock (''user:'' @ userID) (\<lambda>s. s) (rotateRecoveryLocked env recoveryID userID currentPassword newRecoverySecret now))"

section \<open>Password reset\<close>

record ResetInput =
  ri_token :: string
  ri_recovery :: bytes
  ri_password :: bytes
  ri_new_recovery :: bytes

definition buildResetEnvelopes :: "auth_env \<Rightarrow> ResetInput \<Rightarrow> RecoveryEnvelope \<Rightarrow> Context \<Rightarrow> (Envelope \<times> Envelope) act" where
  "buildResetEnvelopes env input expected binding =
     (case UnwrapWithRecovery (ae_crypto env) (Some (re_envelope expected)) (ri_recovery input) binding of
        Inl e \<Rightarrow> failA (if e = ErrAuthentication then ErrInvalidRecovery else EnvelopeError e)
      | Inr dek \<Rightarrow>
          bindA (withKDF env (onRandom (WrapWithPassword (ae_crypto env) dek (ri_password input) binding))) (\<lambda>passwordEnvelope.
          bindA (onRandom (WrapWithRecovery (ae_crypto env) dek (ri_new_recovery input) binding)) (\<lambda>recoveryEnvelope.
          returnA (passwordEnvelope, recoveryEnvelope))))"

definition completePasswordResetLocked ::
  "auth_env \<Rightarrow> string \<Rightarrow> ResetInput \<Rightarrow> bytes \<Rightarrow> PasswordResetTicket \<Rightarrow> int \<Rightarrow> PasswordResetTicket act" where
  "completePasswordResetLocked env recoveryID input hash ticket now =
     bindA (liftE (validateNewPassword (ri_password input))) (\<lambda>_.
     bindA (liftE (mapErr (\<lambda>_. ErrInvalidRecovery) (validateAccountSecret (ri_recovery input)))) (\<lambda>_.
     bindA (liftE (validateAccountSecret (ri_new_recovery input))) (\<lambda>_.
     bindA (lookStore (GetUser (pt_user ticket)) (\<lambda>found.
       case found of
         Inl _ \<Rightarrow> failA ErrInvalidRecovery
       | Inr user \<Rightarrow> if us_state user \<noteq> UserActive then failA ErrInvalidRecovery else returnA ())) (\<lambda>_.
     bindA (readStore (LookupVaultID (pt_user ticket))) (\<lambda>vaultID.
     bindA (readStore (GetActiveRecoveryEnvelope (ae_control env) (pt_user ticket))) (\<lambda>expected.
     bindA (buildResetEnvelopes env input expected \<lparr>cx_user = pt_user ticket, cx_vault = vaultID\<rparr>) (\<lambda>(passwordEnvelope, recoveryEnvelope).
     bindA (onStore (CompletePasswordReset (ae_control env) recoveryID
         \<lparr>cp_hash = hash, cp_expected = expected, cp_password = passwordEnvelope, cp_recovery = ([], recoveryEnvelope)\<rparr> now)) (\<lambda>result.
     bindA (modifyA (evictUser (pt_user ticket))) (\<lambda>_. returnA result)))))))))"

definition Service_CompletePasswordReset :: "auth_env \<Rightarrow> string \<Rightarrow> ResetInput \<Rightarrow> int \<Rightarrow> PasswordResetTicket act" where
  "Service_CompletePasswordReset env recoveryID input now =
     (case HashEncodedBearerToken env (ri_token input) of
        None \<Rightarrow> failA (StoreError ErrNotFound)
      | Some hash \<Rightarrow>
          bindA (readStore (GetPasswordResetTicketByTokenHash hash)) (\<lambda>ticket.
          withLock (''user:'' @ pt_user ticket) (\<lambda>s. s) (completePasswordResetLocked env recoveryID input hash ticket now)))"

section \<open>Administration\<close>

definition Service_CreateInvitation ::
  "auth_env \<Rightarrow> string \<Rightarrow> string \<Rightarrow> string \<Rightarrow> Role \<Rightarrow> int \<Rightarrow> int \<Rightarrow> (Invitation \<times> string) act" where
  "Service_CreateInvitation env generated actor email role expires now =
     bindA (GenerateBearerToken env) (\<lambda>(token, hash).
     bindA (onStore (CreateInvitation (ae_control env) generated actor
       \<lparr>ci_id = [], ci_email = email, ci_role = role, ci_hash = hash, ci_expires = expires\<rparr> now)) (\<lambda>invitation.
     returnA (invitation, token)))"

definition Service_CreatePasswordReset ::
  "auth_env \<Rightarrow> string \<Rightarrow> string \<Rightarrow> string \<Rightarrow> int \<Rightarrow> int \<Rightarrow> (PasswordResetTicket \<times> string) act" where
  "Service_CreatePasswordReset env generated actor target expires now =
     bindA (GenerateBearerToken env) (\<lambda>(token, hash).
     bindA (onStore (CreatePasswordResetTicket generated actor target [] hash expires now)) (\<lambda>ticket.
     returnA (ticket, token)))"

definition Service_DisableUser :: "string \<Rightarrow> string \<Rightarrow> int \<Rightarrow> unit act" where
  "Service_DisableUser actor target now =
     withLock (''user:'' @ target) (\<lambda>s. s)
       (bindA (onStore (DisableUser actor target now)) (\<lambda>_. modifyA (evictUser target)))"

definition Service_EnableUser :: "string \<Rightarrow> string \<Rightarrow> int \<Rightarrow> unit act" where
  "Service_EnableUser actor target now = withLock (''user:'' @ target) (\<lambda>s. s) (onStore (EnableUser actor target now))"

definition Service_SetUserRole :: "string \<Rightarrow> string \<Rightarrow> Role \<Rightarrow> int \<Rightarrow> unit act" where
  "Service_SetUserRole actor target role now =
     withLock (''user:'' @ target) (\<lambda>s. s)
       (bindA (onStore (SetUserRole actor target role now)) (\<lambda>_. modifyA (evictUser target)))"

definition Service_RevokeInvitation :: "string \<Rightarrow> string \<Rightarrow> int \<Rightarrow> unit act" where
  "Service_RevokeInvitation actor invitation now = onStore (RevokeInvitation actor invitation now)"

definition Service_RevokePasswordReset :: "string \<Rightarrow> string \<Rightarrow> int \<Rightarrow> unit act" where
  "Service_RevokePasswordReset actor ticket now = onStore (RevokePasswordResetTicket actor ticket now)"

definition Service_ListInvitations :: "Invitation list act" where
  "Service_ListInvitations = readStore ListInvitations"

definition Service_ListPasswordResets :: "PasswordResetTicket list act" where
  "Service_ListPasswordResets = readStore ListPasswordResetTickets"

text \<open>The inventory of a user: when the password and the recovery envelope were made, and the passkeys.\<close>

definition ListCredentials :: "auth_env \<Rightarrow> string \<Rightarrow> (int \<times> int \<times> passkey_row list) act" where
  "ListCredentials env userID =
     lookStore (GetUser userID) (\<lambda>found.
     case found of
       Inl _ \<Rightarrow> failA (StoreError ErrForbidden)
     | Inr user \<Rightarrow>
         if us_state user \<noteq> UserActive then failA (StoreError ErrForbidden)
         else
         bindA (readStore (GetPasswordCredential (ae_control env) userID)) (\<lambda>password.
         bindA (readStore (GetActiveRecoveryEnvelope (ae_control env) userID)) (\<lambda>recovery.
         bindA (readStore (ListPasskeyCredentials userID)) (\<lambda>keys.
         returnA (pc_updated password, re_created recovery, keys)))))"

end
