(* ===== verification/AccountProperties.thy ===== *)
theory AccountProperties
  imports AccountService
begin

text \<open>
  What the account service promises: its methods only drive the components through their own operations and give back
  what they took; a session needs the password; a refused login says nothing about the account.
\<close>

section \<open>Effects of actions\<close>

text \<open>
  \<open>within R m\<close>: whatever \<open>m\<close> answers, the state after it is related by \<open>R\<close> to the state before. A relation that is kept by what
  the methods are made of is kept by the methods.
\<close>

definition within :: "(AuthService \<Rightarrow> AuthService \<Rightarrow> bool) \<Rightarrow> 'a act \<Rightarrow> bool" where
  "within R m \<longleftrightarrow> (\<forall>s. R s (snd (m s)))"

named_theorems action_intros \<open>effects of actions, by their form\<close>

lemma within_cases [action_intros]:
  "(\<And>x. r = Inl x \<Longrightarrow> within R (f x)) \<Longrightarrow> (\<And>x. r = Inr x \<Longrightarrow> within R (g x)) \<Longrightarrow>
     within R (case r of Inl x \<Rightarrow> f x | Inr x \<Rightarrow> g x)"
  by (cases r) auto

lemma within_option [action_intros]:
  "within R f \<Longrightarrow> (\<And>x. r = Some x \<Longrightarrow> within R (g x)) \<Longrightarrow> within R (case r of None \<Rightarrow> f | Some x \<Rightarrow> g x)"
  by (cases r) auto

lemma within_pair [action_intros]: "(\<And>x y. within R (g x y)) \<Longrightarrow> within R (case r of (x, y) \<Rightarrow> g x y)"
  by (cases r) auto

lemma within_if [action_intros]: "within R m \<Longrightarrow> within R n \<Longrightarrow> within R (if b then m else n)"
  by simp

lemma within_look [action_intros]: "(\<And>x. within R (k x)) \<Longrightarrow> within R (lookStore f k)"
  by (simp add: within_def lookStore_def)

lemma within_mapErrA [action_intros]: "within R m \<Longrightarrow> within R (mapErrA f m)"
  by (simp add: within_def mapErrA_def split_beta)

lemma snd_withLock:
  "snd (withLock key busy body s) = (if key \<in> set (as_locked s) then busy s
     else unlockAccount key (snd (body (s\<lparr>as_locked := key # as_locked s\<rparr>))))"
  by (simp add: withLock_def lockAccount_def split: prod.split)

lemma snd_withKDF:
  "snd (withKDF env body s) = (if as_kdf s < ae_capacity env then releaseKDF (snd (body (s\<lparr>as_kdf := as_kdf s + 1\<rparr>))) else s)"
  by (simp add: withKDF_def reserveKDF_def split: prod.split)

lemma snd_bindA: "snd (bindA m f s) = (case fst (m s) of Inl _ \<Rightarrow> snd (m s) | Inr x \<Rightarrow> snd (f x (snd (m s))))"
  by (simp add: bindA_def split: prod.split sum.split)

section \<open>Successful actions\<close>

named_theorems act_simps \<open>when an action succeeds\<close>

lemma bindA_Inr [act_simps]: "bindA m f s = (Inr y, u) \<longleftrightarrow> (\<exists>x t. m s = (Inr x, t) \<and> f x t = (Inr y, u))"
  by (auto simp: bindA_def split: prod.splits sum.splits)

lemma basic_Inr [act_simps]:
  "returnA x s = (Inr y, u) \<longleftrightarrow> x = y \<and> u = s" "failA e s = (Inr y, u) \<longleftrightarrow> False"
  "liftE r s = (Inr y, u) \<longleftrightarrow> r = Inr y \<and> u = s" "modifyA g s = (Inr z, u) \<longleftrightarrow> u = g s"
  "readStore f s = (Inr y, u) \<longleftrightarrow> f (as_store s) = Inr y \<and> u = s" "failLogin key now s = (Inr y, u) \<longleftrightarrow> False"
  "lookStore h k s = k (h (as_store s)) s"
  by (auto simp: returnA_def failA_def liftE_def modifyA_def readStore_def failLogin_def lookStore_def res_simps)

lemma onStore_Inr [act_simps]:
  "onStore op s = (Inr y, u) \<longleftrightarrow> (\<exists>S. op (as_store s) = (Inr y, S) \<and> u = s\<lparr>as_store := S\<rparr>)"
  by (auto simp: onStore_def res_simps split: prod.splits)

lemma onRandom_Inr [act_simps]:
  "onRandom draw s = (Inr y, u) \<longleftrightarrow> (\<exists>rest. draw (as_random s) = Inr (y, rest) \<and> u = s\<lparr>as_random := rest\<rparr>)"
  by (auto simp: onRandom_def split: sum.splits)

lemma mapErrA_Inr [act_simps]: "mapErrA g m s = (Inr y, u) \<longleftrightarrow> m s = (Inr y, u)"
  by (auto simp: mapErrA_def res_simps split: prod.splits)

lemma checkThrottle_Inr [act_simps]:
  "checkThrottle key now s = (Inr y, u) \<longleftrightarrow> u = s \<and> (\<exists>left. checkLoginThrottle key now (as_throttle s) = Inr left \<and> left \<le> 0)"
  by (auto simp: checkThrottle_def split: sum.splits)

lemma reserveKDF_Inr [act_simps]: "reserveKDF env s = (Inr y, u) \<longleftrightarrow> as_kdf s < ae_capacity env \<and> u = s\<lparr>as_kdf := as_kdf s + 1\<rparr>"
  by (auto simp: reserveKDF_def)

lemma withLock_Inr [act_simps]:
  "withLock key busy body s = (Inr y, u) \<longleftrightarrow> key \<notin> set (as_locked s)
     \<and> (\<exists>t. body (s\<lparr>as_locked := key # as_locked s\<rparr>) = (Inr y, t) \<and> u = unlockAccount key t)"
  by (auto simp: withLock_def lockAccount_def split: prod.splits)

lemma withKDF_Inr [act_simps]:
  "withKDF env body s = (Inr y, u) \<longleftrightarrow> as_kdf s < ae_capacity env
     \<and> (\<exists>t. body (s\<lparr>as_kdf := as_kdf s + 1\<rparr>) = (Inr y, t) \<and> u = releaseKDF t)"
  by (auto simp: withKDF_def reserveKDF_def split: prod.splits)

section \<open>Relations kept by the methods\<close>

locale service_relation =
  fixes env :: auth_env
    and R :: "AuthService \<Rightarrow> AuthService \<Rightarrow> bool"
  assumes same: "R s s"
    and seq: "R s t \<Longrightarrow> R t u \<Longrightarrow> R s u"
    and store_step: "control_step (ae_control env) (as_store s) S \<Longrightarrow> R s (s\<lparr>as_store := S\<rparr>)"
    and random: "R s (s\<lparr>as_random := r\<rparr>)"
    and throttle: "T = recordLoginFailure key now (as_throttle s) \<or> T = clearLoginFailures key (as_throttle s) \<Longrightarrow>
      R s (s\<lparr>as_throttle := T\<rparr>)"
    and evict: "R s (evictUser user s)"
    and lock: "R (s\<lparr>as_locked := key # as_locked s\<rparr>) t \<Longrightarrow> R s (unlockAccount key t)"
    and slot: "R (s\<lparr>as_kdf := as_kdf s + 1\<rparr>) t \<Longrightarrow> R s (releaseKDF t)"
begin

lemma bind: "within R m \<Longrightarrow> (\<And>x. within R (f x)) \<Longrightarrow> within R (bindA m f)"
  unfolding within_def snd_bindA by (auto split: sum.split intro: seq)

lemma on_store: "(\<And>S. control_step (ae_control env) S (snd (op S))) \<Longrightarrow> within R (onStore op)"
  unfolding within_def onStore_def by (auto simp: split_beta intro: store_step)

lemma basic: "within R (returnA x)" "within R (failA e)" "within R (liftE r)" "within R (readStore g)"
  "within R (onRandom draw)" "within R (failLogin key now)" "within R (checkThrottle key now)"
  "within R (modifyA (clearThrottle key))" "within R (modifyA (evictUser user))"
  by (auto simp: within_def returnA_def failA_def liftE_def readStore_def onRandom_def failLogin_def checkThrottle_def modifyA_def
      clearThrottle_def same random evict intro: throttle split: sum.split)

lemma locked: "within R body \<Longrightarrow> within R (withLock key (\<lambda>s. s) body)"
  by (simp add: within_def snd_withLock same lock)

lemma slotted: "within R body \<Longrightarrow> within R (withKDF env body)"
  by (simp add: within_def snd_withKDF same slot)

lemmas rules = bind basic locked slotted action_intros

lemma dummy: "within R (runDummyPassword env)"
  unfolding runDummyPassword_def by (intro rules)

lemma preamble: "within R (passwordPreamble env userID password now)"
  unfolding passwordPreamble_def passwordChecks_def Let_def refuseLogin_def by (intro rules dummy)

lemma prepare: "within R (prepareAccount env userID vaultID email displayName password recoverySecret)"
  unfolding prepareAccount_def Let_def by (intro rules)

lemma recorded: "within R (recordSuccess env userID credential now)"
  unfolding recordSuccess_def by (intro rules on_store step_login)

lemma unwrapped: "within R (unwrapOrFail env key now envelope password binding)"
  unfolding unwrapOrFail_def by (intro rules)

lemma upgrade: "within R (upgradePasskeyEnvelopes env userID vaultID dek now)"
proof -
  have "within R (upgrade_rows env b dek now ks)" for b ks
    by (induction ks) (auto intro!: rules on_store step_replace_passkey)
  then show ?thesis unfolding upgradePasskeyEnvelopes_def by (intro rules)
qed

lemma methods:
  "within R (Service_Bootstrap env ids bootstrap now)"
  "within R (Service_AcceptInvitation env ids invited now)"
  "within R (Reauthenticate env userID password now)"
  "within R (ChangePassword env userID password newPassword revokePasskeys now)"
  "within R (RotateRecoveryCode env recoveryID userID password newRecovery now)"
  "within R (Service_CompletePasswordReset env recoveryID reset now)"
  "within R (Service_CreateInvitation env generated actor email role expires now)"
  "within R (Service_CreatePasswordReset env generated actor target expires now)"
  "within R (Service_DisableUser actor target now)"
  "within R (Service_EnableUser actor target now)"
  "within R (Service_SetUserRole actor target role now)"
  "within R (Service_RevokeInvitation actor invitation now)"
  "within R (Service_RevokePasswordReset actor ticket now)"
proof -
  show "within R (Service_Bootstrap env ids bootstrap now)"
    unfolding Service_Bootstrap_def by (intro rules prepare on_store step_bootstrap)
  show "within R (Service_AcceptInvitation env ids invited now)"
    unfolding Service_AcceptInvitation_def by (intro rules prepare on_store step_accept)
  show "within R (Reauthenticate env userID password now)"
    unfolding Reauthenticate_def by (intro rules preamble recorded)
  show "within R (ChangePassword env userID password newPassword revokePasskeys now)"
    unfolding ChangePassword_def changePasswordLocked_def Let_def by (intro rules dummy unwrapped on_store step_replace_password)
  show "within R (RotateRecoveryCode env recoveryID userID password newRecovery now)"
    unfolding RotateRecoveryCode_def rotateRecoveryLocked_def unwrapVaultWithPassword_def Let_def
    by (intro rules preamble unwrapped on_store step_rotate)
  show "within R (Service_CompletePasswordReset env recoveryID reset now)"
    unfolding Service_CompletePasswordReset_def completePasswordResetLocked_def buildResetEnvelopes_def
    by (intro rules on_store step_complete_reset)
  show "within R (Service_CreateInvitation env generated actor email role expires now)"
    unfolding Service_CreateInvitation_def GenerateBearerToken_def by (intro rules on_store step_invite)
  show "within R (Service_CreatePasswordReset env generated actor target expires now)"
    unfolding Service_CreatePasswordReset_def GenerateBearerToken_def by (intro rules on_store step_create_ticket)
  show "within R (Service_DisableUser actor target now)"
    unfolding Service_DisableUser_def by (intro rules on_store step_disable)
  show "within R (Service_EnableUser actor target now)"
    unfolding Service_EnableUser_def by (intro rules on_store step_enable)
  show "within R (Service_SetUserRole actor target role now)"
    unfolding Service_SetUserRole_def by (intro rules on_store step_role)
  show "within R (Service_RevokeInvitation actor invitation now)"
    unfolding Service_RevokeInvitation_def by (intro on_store step_revoke_invitation)
  show "within R (Service_RevokePasswordReset actor ticket now)"
    unfolding Service_RevokePasswordReset_def by (intro on_store step_revoke_ticket)
qed

lemmas methodsD = methods [unfolded within_def, rule_format]

end

section \<open>Locks and slots are given back\<close>

definition balanced :: "AuthService \<Rightarrow> AuthService \<Rightarrow> bool" where
  "balanced s t \<longleftrightarrow> as_locked t = as_locked s \<and> as_kdf t = as_kdf s"

interpretation balanced: service_relation env balanced
  by unfold_locales (auto simp: balanced_def evictUser_def unlockAccount_def releaseKDF_def split: prod.splits)

text \<open>The inner part of a login gives back the slot its caller took.\<close>

definition freed :: "AuthService \<Rightarrow> AuthService \<Rightarrow> bool" where
  "freed s t \<longleftrightarrow> as_locked t = as_locked s \<and> as_kdf t = as_kdf s - 1"

lemma freed_release: "within balanced m \<Longrightarrow> freed s (snd (m (releaseKDF s)))"
  by (simp add: freed_def within_def balanced_def releaseKDF_def)

lemma freed_releaseKDF: "freed s (releaseKDF s)"
  by (simp add: freed_def releaseKDF_def)

lemma freed_withLock: "within freed body \<Longrightarrow> within freed (withLock key releaseKDF body)"
  by (simp add: within_def snd_withLock unlockAccount_def freed_def releaseKDF_def)

lemma balanced_reserve: "within freed m \<Longrightarrow> within balanced (bindA (reserveKDF env) (\<lambda>_. m))"
  by (simp add: within_def bindA_def reserveKDF_def freed_def balanced_def)

lemma balanced_open: "within balanced (openVaultSession env user vaultID k sid csrf clock)"
  by (auto simp: within_def balanced_def openVaultSession_def Let_def split: prod.splits sum.splits)

lemma balanced_finish: "within balanced (login_finish env key user vaultID credential dek sid csrf clock now)"
  unfolding login_finish_def
  by (intro balanced.rules balanced.recorded balanced.upgrade balanced_open)

lemma freed_login_user: "within freed (login_user env key userID password sid csrf clock now)"
  unfolding within_def login_user_def
  by (auto intro!: freed_release freed_releaseKDF balanced.basic balanced_finish split: sum.split)

lemma freed_login_email: "within freed (login_email env key email password sid csrf clock now)"
  using freed_withLock [OF freed_login_user] unfolding within_def login_email_def
  by (auto intro!: freed_release freed_releaseKDF balanced.basic split: sum.split)

lemma balanced_login: "within balanced (Login env rawEmail password sid csrf clock now)"
  unfolding Login_def Let_def
  by (intro balanced.rules balanced.dummy balanced_reserve freed_withLock freed_login_email)

section \<open>Only the components' own operations\<close>

definition throttle_good :: "AuthService \<Rightarrow> bool" where
  "throttle_good s \<longleftrightarrow> throttle_ok (ts_rows (as_throttle s))"

definition driven :: "auth_env \<Rightarrow> AuthService \<Rightarrow> AuthService \<Rightarrow> bool" where
  "driven env s t \<longleftrightarrow> (control_step (ae_control env))\<^sup>*\<^sup>* (as_store s) (as_store t)
    \<and> (server_inv (as_server s) \<longrightarrow> server_step\<^sup>*\<^sup>* (as_server s) (as_server t))
    \<and> srv_used (as_server t) = srv_used (as_server s)
    \<and> (throttle_good s \<longrightarrow> throttle_good t)"

lemma server_steps_inv: "server_step\<^sup>*\<^sup>* s t \<Longrightarrow> server_inv s \<Longrightarrow> server_inv t"
  by (rule sessions.inv_steps)

lemma begin_drain_steps:
  assumes "server_inv v"
  shows "server_step\<^sup>*\<^sup>* v (beginDrain user v)"
proof (cases "okE (validateUserID user)")
  case True
  obtain ts w where d: "BeginUserDrain user (srv_vault v) = (ts, w)" by fastforce
  have u: "validateUserID user = Inr ()" using okE_projr [OF True] by simp
  have leases: "vm_leases w = vm_leases (srv_vault v)"
    using d by (auto simp: BeginUserDrain_def upd_ent_def split: option.splits)
  have "vault_any (srv_vault v) (put_threads (vm_threads (srv_vault v)) ts w)"
    unfolding vault_any_def using vault_step.drain [OF u d] by blast
  moreover have "\<forall>l\<in>#owned v. \<not> ls_released (lease (put_threads (vm_threads (srv_vault v)) ts w) l)"
    using assms leases by (auto simp: server_inv_def root_live_def lease_def put_threads_def)
  ultimately have "server_step v (v\<lparr>srv_vault := put_threads (vm_threads (srv_vault v)) ts w\<rparr>)" by (rule server_step.vault)
  then show ?thesis using True d by (simp add: beginDrain_def r_into_rtranclp)
qed (simp add: beginDrain_def)

lemma throttle_record:
  assumes "throttle_ok (ts_rows T)"
  shows "throttle_ok (ts_rows (recordLoginFailure key now T))"
proof (cases "valid_call key now loginThrottlePolicy T")
  case True
  then show ?thesis using register_good [OF True] by (simp add: recordLoginFailure_def good_store_def)
next
  case False
  then have "snd (RegisterLoginFailure key now loginThrottlePolicy T) = T"
    using assms by (auto simp: RegisterLoginFailure_def valid_call_def res_simps validateOperationTime_def bindE_def split: sum.splits if_splits)
  then show ?thesis using assms by (simp add: recordLoginFailure_def)
qed

lemma throttle_clear: "throttle_ok (ts_rows T) \<Longrightarrow> throttle_ok (ts_rows (clearLoginFailures key T))"
  by (auto simp: clearLoginFailures_def ClearLoginFailures_def throttle_ok_def distinct_del_where table_simps split: sum.splits)

lemma driven_evict: "driven env s (evictUser user s)"
proof -
  obtain n roots m where d: "DeleteAllSessionsForUser user (srv_sessions (as_server s)) = (n, roots, m)" by (metis prod_cases3)
  have step: "server_step (as_server s) (settle (as_server s) roots m)" by (rule server_step.delete_user [OF d])
  have "server_step\<^sup>*\<^sup>* (as_server s) (beginDrain user (settle (as_server s) roots m))" if "server_inv (as_server s)"
    using step begin_drain_steps [OF server_inv_step [OF step that]] by (meson converse_rtranclp_into_rtranclp)
  moreover have "srv_used (beginDrain user (settle (as_server s) roots m)) = srv_used (as_server s)"
    by (simp add: beginDrain_def settle_def split: prod.split)
  ultimately show ?thesis using d by (simp add: driven_def evictUser_def throttle_good_def)
qed

interpretation driven: service_relation env "driven env"
proof (unfold_locales, goal_cases)
  case (2 s t u)
  then show ?case unfolding driven_def by (metis rtranclp_trans server_steps_inv)
next
  case (5 T key now s)
  then show ?case using throttle_record throttle_clear by (auto simp: driven_def throttle_good_def)
next
  case (6 s user)
  show ?case by (rule driven_evict)
qed (auto simp: driven_def throttle_good_def unlockAccount_def releaseKDF_def)

text \<open>What \<open>Acquire\<close> does to the server: steps of the vault manager, at the end of which the lease it answers with exists and
  belongs to nobody yet.\<close>

definition acquire_ok :: "auth_env \<Rightarrow> bool" where
  "acquire_ok env \<longleftrightarrow> (\<forall>u v k srv r srv'. ae_acquire env u v k srv = (r, srv') \<longrightarrow>
     (\<exists>w. srv' = srv\<lparr>srv_vault := w\<rparr>) \<and> (server_inv srv \<longrightarrow> server_step\<^sup>*\<^sup>* srv srv')
     \<and> (\<forall>l. r = Inr l \<longrightarrow> l \<notin># owned srv' \<and> l < length (vm_leases (srv_vault srv'))))"

text \<open>The effect of a login: the same, and that its session identifier is used.\<close>

definition opened :: "auth_env \<Rightarrow> string \<Rightarrow> AuthService \<Rightarrow> AuthService \<Rightarrow> bool" where
  "opened env sid s t \<longleftrightarrow> (control_step (ae_control env))\<^sup>*\<^sup>* (as_store s) (as_store t)
    \<and> (server_inv (as_server s) \<longrightarrow> server_step\<^sup>*\<^sup>* (as_server s) (as_server t))
    \<and> srv_used (as_server t) \<subseteq> insert sid (srv_used (as_server s))
    \<and> (throttle_good s \<longrightarrow> throttle_good t)"

lemma opened_driven: "driven env s t \<Longrightarrow> opened env sid s t"
  by (auto simp: driven_def opened_def)

lemma create_failed:
  "CreateVaultSession now sid csrf user l v m = (Inl e, roots, m') \<Longrightarrow> roots = [] \<and> m' = m"
  by (auto simp: CreateVaultSession_def createSession_def Let_def split: if_splits option.splits sum.splits prod.splits)

lemma release_unowned_step:
  assumes inv: "server_inv v" and l: "l \<notin># owned v" "l < length (vm_leases (srv_vault v))"
    and run: "Release l (srv_vault v) = (ts, x)"
  shows "server_step v (v\<lparr>srv_vault := put_threads (vm_threads (srv_vault v)) ts x\<rparr>)"
proof (rule server_step.vault)
  show "vault_any (srv_vault v) (put_threads (vm_threads (srv_vault v)) ts x)"
    unfolding vault_any_def using vault_step.release [OF l(2) run] by blast
  show "\<forall>i\<in>#owned v. \<not> ls_released (lease (put_threads (vm_threads (srv_vault v)) ts x) i)"
  proof
    fix i assume i: "i \<in># owned v"
    then have "\<not> ls_released (lease (srv_vault v) i)" "i \<noteq> l" "i < length (vm_leases (srv_vault v))"
      using inv l by (auto simp: server_inv_def root_live_def)
    then show "\<not> ls_released (lease (put_threads (vm_threads (srv_vault v)) ts x) i)"
      using Release_leases [OF run] by (simp add: lease_def put_threads_def)
  qed
qed

lemma opened_open:
  assumes "acquire_ok env" "new_secret (as_server s) sid"
  shows "opened env sid s (snd (openVaultSession env user vaultID k sid csrf clock s))"
proof -
  obtain r v where a: "ae_acquire env (us_id user) vaultID k (as_server s) = (r, v)" by fastforce
  have spec: "(\<exists>w. v = (as_server s)\<lparr>srv_vault := w\<rparr>)" "server_inv (as_server s) \<longrightarrow> server_step\<^sup>*\<^sup>* (as_server s) v"
    "\<And>l. r = Inr l \<Longrightarrow> l \<notin># owned v \<and> l < length (vm_leases (srv_vault v))"
    using assms(1)[unfolded acquire_ok_def, rule_format, OF a] by auto
  then obtain w where v: "v = (as_server s)\<lparr>srv_vault := w\<rparr>" by blast
  show ?thesis
  proof (cases r)
    case (Inl e)
    then show ?thesis using a v spec(2) by (auto simp: openVaultSession_def opened_def throttle_good_def)
  next
    case (Inr l)
    obtain q roots m where c: "CreateVaultSession clock sid csrf user l (srv_vault v) (srv_sessions v) = (q, roots, m)" by (metis prod_cases3)
    define srv where "srv = (settle v roots m)\<lparr>srv_used := insert sid (srv_used v)\<rparr>"
    have new: "new_secret v sid" using assms(2) v by (simp add: new_secret_def)
    have "server_step v srv" unfolding srv_def by (rule server_step.login [OF new _ c]) (use spec(3) Inr in blast)
    then have steps: "server_step\<^sup>*\<^sup>* (as_server s) srv" if "server_inv (as_server s)"
      using spec(2) that by (auto intro: rtranclp.rtrancl_into_rtrancl)
    have used: "srv_used srv = insert sid (srv_used (as_server s))" using v by (simp add: srv_def)
    obtain ts x where rel: "Release l (srv_vault srv) = (ts, x)" by fastforce
    have "server_step\<^sup>*\<^sup>* (as_server s) (srv\<lparr>srv_vault := put_threads (vm_threads (srv_vault srv)) ts x\<rparr>)"
      if "server_inv (as_server s)" "q = Inl e" for e
    proof (rule rtranclp.rtrancl_into_rtrancl [OF steps [OF that(1)] release_unowned_step])
      show "server_inv srv" using server_steps_inv [OF steps [OF that(1)] that(1)] .
      have "roots = [] \<and> m = srv_sessions v" using create_failed c that(2) by blast
      then show "l \<notin># owned srv" "l < length (vm_leases (srv_vault srv))"
        using spec(3) [OF Inr] by (simp_all add: srv_def settle_def owned_def)
    qed (rule rel)
    then show ?thesis
      using a c Inr used rel steps by (auto simp: openVaultSession_def opened_def throttle_good_def srv_def [symmetric] split: sum.split)
  qed
qed

lemma opened_trans:
  "driven env s t \<Longrightarrow> opened env sid t u \<Longrightarrow> opened env sid s u"
  unfolding driven_def opened_def by (metis rtranclp_trans server_steps_inv)

text \<open>A login with a fresh session identifier.\<close>

definition fresh_login :: "auth_env \<Rightarrow> string \<Rightarrow> AuthService \<Rightarrow> AuthService \<Rightarrow> bool" where
  "fresh_login env sid s t \<longleftrightarrow> (new_secret (as_server s) sid \<longrightarrow> opened env sid s t)"

lemma fresh_driven: "driven env s t \<Longrightarrow> fresh_login env sid s t"
  by (simp add: fresh_login_def opened_driven)

lemma fresh_trans: "driven env s t \<Longrightarrow> fresh_login env sid t u \<Longrightarrow> fresh_login env sid s u"
  by (auto simp: fresh_login_def new_secret_def driven_def intro: opened_trans [unfolded driven_def])

lemma fresh_bind: "within (driven env) m \<Longrightarrow> (\<And>x. within (fresh_login env sid) (f x)) \<Longrightarrow> within (fresh_login env sid) (bindA m f)"
  unfolding within_def snd_bindA by (auto split: sum.split intro: fresh_driven fresh_trans)

lemma fresh_within: "within (driven env) m \<Longrightarrow> within (fresh_login env sid) m"
  by (simp add: within_def fresh_driven)

lemma fresh_finish:
  "acquire_ok env \<Longrightarrow> within (fresh_login env sid) (login_finish env key user vaultID credential dek sid csrf clock now)"
  unfolding login_finish_def
  by (intro fresh_bind driven.recorded driven.upgrade driven.basic) (simp add: within_def fresh_login_def opened_open)

lemma fresh_slot: "fresh_login env sid (releaseKDF s) t \<Longrightarrow> fresh_login env sid s t"
  "fresh_login env sid s (releaseKDF t) = fresh_login env sid s t" "fresh_login env sid (s\<lparr>as_kdf := n\<rparr>) t = fresh_login env sid s t"
  "fresh_login env sid s (unlockAccount key t) = fresh_login env sid s t" "fresh_login env sid (s\<lparr>as_locked := L\<rparr>) t = fresh_login env sid s t"
  by (simp_all add: fresh_login_def opened_def releaseKDF_def unlockAccount_def throttle_good_def)

lemma fresh_release: "within (fresh_login env sid) m \<Longrightarrow> fresh_login env sid s (snd (m (releaseKDF s)))"
  unfolding within_def by (blast intro: fresh_slot(1))

lemma fresh_releaseKDF: "fresh_login env sid s (releaseKDF s)"
  using driven.same by (simp add: fresh_slot fresh_driven)

lemma fresh_withLock: "within (fresh_login env sid) body \<Longrightarrow> within (fresh_login env sid) (withLock key releaseKDF body)"
  unfolding within_def snd_withLock using fresh_releaseKDF by (auto simp: fresh_slot(4)) (metis fresh_slot(5))

lemma fresh_login_user:
  assumes "acquire_ok env"
  shows "within (fresh_login env sid) (login_user env key userID password sid csrf clock now)"
  unfolding within_def login_user_def
  by (auto intro!: fresh_release fresh_releaseKDF fresh_finish [OF assms] fresh_within [OF driven.basic(6)] split: sum.split)

lemma fresh_login_email:
  assumes "acquire_ok env"
  shows "within (fresh_login env sid) (login_email env key email password sid csrf clock now)"
  using fresh_withLock [OF fresh_login_user [OF assms]] unfolding within_def login_email_def
  by (auto intro!: fresh_release fresh_releaseKDF fresh_within [OF driven.basic(6)] split: sum.split)

lemma fresh_reserve: "within (fresh_login env sid) m \<Longrightarrow> within (fresh_login env sid) (bindA (reserveKDF env) (\<lambda>_. m))"
  unfolding within_def snd_bindA reserveKDF_def using fresh_driven [OF driven.same] by (auto) (metis fresh_slot(3))

lemma fresh_Login:
  assumes "acquire_ok env"
  shows "within (fresh_login env sid) (Login env rawEmail password sid csrf clock now)"
  unfolding Login_def Let_def
  by (intro action_intros fresh_bind fresh_reserve fresh_withLock fresh_login_email [OF assms] driven.basic driven.dummy fresh_within [OF driven.basic(2)])

section \<open>Histories of the service\<close>

text \<open>Any sequence of calls, with whatever sessions and vaults do between them.\<close>

inductive auth_step :: "auth_env \<Rightarrow> AuthService \<Rightarrow> AuthService \<Rightarrow> bool" for env where
  call_login: "new_secret (as_server s) sid \<Longrightarrow> auth_step env s (snd (Login env email password sid csrf clock now s))"
| call_bootstrap: "auth_step env s (snd (Service_Bootstrap env ids bi now s))"
| call_accept: "auth_step env s (snd (Service_AcceptInvitation env ids ai now s))"
| call_reauthenticate: "auth_step env s (snd (Reauthenticate env userID password now s))"
| call_change: "auth_step env s (snd (ChangePassword env userID password new b now s))"
| call_rotate: "auth_step env s (snd (RotateRecoveryCode env recoveryID userID password secret now s))"
| call_reset: "auth_step env s (snd (Service_CompletePasswordReset env recoveryID ri now s))"
| call_invite: "auth_step env s (snd (Service_CreateInvitation env generated actor email role expires now s))"
| call_create_reset: "auth_step env s (snd (Service_CreatePasswordReset env generated actor target expires now s))"
| call_disable: "auth_step env s (snd (Service_DisableUser actor target now s))"
| call_enable: "auth_step env s (snd (Service_EnableUser actor target now s))"
| call_role: "auth_step env s (snd (Service_SetUserRole actor target role now s))"
| call_revoke_invitation: "auth_step env s (snd (Service_RevokeInvitation actor i now s))"
| call_revoke_reset: "auth_step env s (snd (Service_RevokePasswordReset actor i now s))"
| serve: "server_step (as_server s) v \<Longrightarrow> auth_step env s (s\<lparr>as_server := v\<rparr>)"

lemma withinD: "within R m \<Longrightarrow> R s (snd (m s))"
  by (simp add: within_def)

lemma driven_parts:
  "driven env s t \<Longrightarrow> (control_step (ae_control env))\<^sup>*\<^sup>* (as_store s) (as_store t)
     \<and> (server_inv (as_server s) \<longrightarrow> server_step\<^sup>*\<^sup>* (as_server s) (as_server t)) \<and> (throttle_good s \<longrightarrow> throttle_good t)"
  by (simp add: driven_def)

lemma auth_step_parts:
  assumes "auth_step env s t" "acquire_ok env"
  shows "((control_step (ae_control env))\<^sup>*\<^sup>* (as_store s) (as_store t)
     \<and> (server_inv (as_server s) \<longrightarrow> server_step\<^sup>*\<^sup>* (as_server s) (as_server t)) \<and> (throttle_good s \<longrightarrow> throttle_good t))
     \<and> balanced s t"
  using assms(1)
proof cases
  case (call_login sid email password csrf clock now)
  then show ?thesis using withinD [OF fresh_Login [OF assms(2)]] withinD [OF balanced_login]
    by (auto simp: fresh_login_def opened_def)
next
  case (serve v)
  then show ?thesis by (auto simp: balanced_def throttle_good_def)
qed (simp only:, intro conjI [OF driven_parts] driven.methodsD balanced.methodsD)+

interpretation accounts: step_machine
  "\<lambda>s. fresh_store (as_store s) \<and> as_server s = server_start c \<and> ts_rows (as_throttle s) = [] \<and> as_locked s = [] \<and> as_kdf s = 0"
  "\<lambda>s t. auth_step env s t \<and> acquire_ok env"
  "\<lambda>s. store_ok (as_store s) \<and> server_inv (as_server s) \<and> throttle_good s \<and> as_locked s = [] \<and> as_kdf s = 0"
proof (unfold_locales, goal_cases)
  case (1 s)
  then show ?case using fresh_ok server_inv_start by (simp add: throttle_good_def throttle_ok_def)
next
  case (2 s t)
  then show ?case using auth_step_parts [of env s t] steps_ok server_steps_inv by (auto simp: balanced_def)
qed

section \<open>Inside a login\<close>

lemma upgrade_server: "as_server (snd (upgradePasskeyEnvelopes env userID vaultID dek now s)) = as_server s"
proof -
  have "as_server (snd (upgrade_rows env b dek now ks s)) = as_server s" for b ks s
  proof (induction ks arbitrary: s)
    case (Cons k ks)
    then show ?case by (simp add: snd_bindA onRandom_def onStore_def split: sum.split prod.split)
  qed (simp add: returnA_def)
  then show ?thesis by (simp add: upgradePasskeyEnvelopes_def returnA_def snd_bindA readStore_def split: sum.split)
qed

lemma openVaultSession_Inr:
  assumes "openVaultSession env user vaultID k sid csrf clock s = (Inr session, t)"
  obtains l v roots m where "ae_acquire env (us_id user) vaultID k (as_server s) = (Inr l, v)"
    "CreateVaultSession clock sid csrf user l (srv_vault v) (srv_sessions v) = (Inr session, roots, m)"
    "t = s\<lparr>as_server := (settle v roots m)\<lparr>srv_used := insert sid (srv_used v)\<rparr>\<rparr>"
  using assms by (auto simp: openVaultSession_def Let_def split: prod.splits sum.splits)

lemma login_finish_Inr:
  assumes "login_finish env key user vaultID credential dek sid csrf clock now s = (Inr session, t)"
  obtains l v roots m where "fst (RecordSuccessfulLogin (ae_control env) (us_id user) credential now (as_store s)) = Inr ()"
    "ae_acquire env (us_id user) vaultID dek (as_server s) = (Inr l, v)"
    "CreateVaultSession clock sid csrf user l (srv_vault v) (srv_sessions v) = (Inr session, roots, m)"
    "srv_sessions (as_server t) = m"
proof -
  obtain s1 s2 where rec: "recordSuccess env (us_id user) credential now s = (Inr (), s1)"
    and up: "upgradePasskeyEnvelopes env (us_id user) vaultID dek now s1 = (Inr (), s2)"
    and op: "openVaultSession env user vaultID dek sid csrf clock (clearThrottle key s2) = (Inr session, t)"
    using assms by (auto simp: login_finish_def act_simps)
  have r: "fst (RecordSuccessfulLogin (ae_control env) (us_id user) credential now (as_store s)) = Inr ()" "as_server s1 = as_server s"
    using rec by (auto simp: recordSuccess_def act_simps)
  have "as_server (clearThrottle key s2) = as_server s"
    using r(2) upgrade_server [of env "us_id user" vaultID dek now s1] up by (simp add: clearThrottle_def)
  then show thesis using openVaultSession_Inr [OF op] r(1) that by (fastforce simp: settle_def)
qed

lemma login_user_Inr:
  assumes "login_user env key userID password sid csrf clock now s = (Inr session, t)"
  obtains user credential vaultID dek where "GetUser userID (as_store s) = Inr user" "us_state user = UserActive"
    "validateNewPassword password = Inr ()" "GetPasswordCredential (ae_control env) (us_id user) (as_store s) = Inr credential"
    "LookupVaultID (us_id user) (as_store s) = Inr vaultID"
    "UnwrapWithPassword (ae_crypto env) (Some (pc_envelope credential)) password \<lparr>cx_user = us_id user, cx_vault = vaultID\<rparr> = Inr dek"
    "login_finish env key user vaultID credential dek sid csrf clock now (releaseKDF s) = (Inr session, t)"
  using assms by (auto simp: login_user_def act_simps okE_iff split: sum.splits if_splits)

lemma Login_Inr:
  assumes "Login env rawEmail password sid csrf clock now s = (Inr session, s')"
  obtains email known t u where "normalizeLoginEmail env rawEmail = Inr email"
    "\<exists>left. checkLoginThrottle (LoginThrottleKey env email) now (as_throttle s) = Inr left \<and> left \<le> 0"
    "GetUserByEmail (ae_control env) email (as_store s) = Inr known"
    "login_user env (LoginThrottleKey env email) (us_id known) password sid csrf clock now t = (Inr session, u)"
    "as_store t = as_store s" "as_server t = as_server s" "as_server s' = as_server u"
proof (cases "normalizeLoginEmail env rawEmail")
  case (Inr email)
  let ?k = "LoginThrottleKey env email" and ?s = "s\<lparr>as_kdf := as_kdf s + 1, as_locked := (''email:'' @ email) # as_locked s\<rparr>"
  obtain t where free: "\<exists>left. checkLoginThrottle ?k now (as_throttle s) = Inr left \<and> left \<le> 0"
    and run: "login_email env ?k email password sid csrf clock now ?s = (Inr session, t)" and s': "s' = unlockAccount (''email:'' @ email) t"
    using assms Inr by (auto simp: Login_def Let_def act_simps)
  obtain known u where "GetUserByEmail (ae_control env) email (as_store s) = Inr known"
    "login_user env ?k (us_id known) password sid csrf clock now (?s\<lparr>as_locked := (''user:'' @ us_id known) # as_locked ?s\<rparr>) = (Inr session, u)"
    "as_server t = as_server u"
    using run by (auto simp: login_email_def act_simps unlockAccount_def split: sum.splits if_splits)
  then show ?thesis using that Inr free s' by (simp add: unlockAccount_def)
qed (use assms in \<open>simp add: Login_def act_simps\<close>)

text \<open>Concrete parameters: primitives that keep the laws though they hide nothing, a codec for envelopes that reads back what it
  writes, and \<open>Acquire\<close> either refusing or answering with the root lease of an open vault.\<close>

definition plain_crypto :: crypto where
  "plain_crypto =
     \<lparr>cr_argon = (\<lambda>password salt iterations memory parallelism n. replicate n 0), cr_hkdf = (\<lambda>secret salt info n. replicate n 0),
      cr_hmac = (\<lambda>key message. replicate 32 0), cr_seal = (\<lambda>key nonce plain aad. plain @ replicate 16 0),
      cr_open = (\<lambda>key nonce cipher aad.
        if length cipher \<ge> 16 \<and> drop (length cipher - 16) cipher = replicate 16 0 then Some (take (length cipher - 16) cipher) else None)\<rparr>"

lemma plain_crypto_ok: "crypto_ok plain_crypto"
proof -
  have "c = p @ replicate 16 0 \<longleftrightarrow> length c \<ge> 16 \<and> drop (length c - 16) c = replicate 16 0 \<and> take (length c - 16) c = p" for c p :: bytes
    by (auto) (metis append_take_drop_id)
  then show ?thesis by (auto simp: crypto_ok_def plain_crypto_def)
qed

definition sample_encode :: "Envelope \<Rightarrow> string" where
  "sample_encode e =
     (case ev_kind e of KindPassword \<Rightarrow> CHR ''p'' | KindRecovery \<Rightarrow> CHR ''r'' | KindPasskey \<Rightarrow> CHR ''k'' | _ \<Rightarrow> CHR ''s'')
     # map (\<lambda>b. char_of (unat b)) (ev_salt e @ ev_nonce e @ ev_ciphertext e @ ev_verifier e)"

definition sample_decode :: "string \<Rightarrow> Envelope option" where
  "sample_decode s =
     (case s of
        [] \<Rightarrow> None
      | c # cs \<Rightarrow>
          let bs = text_bytes cs; p = (c = CHR ''p'') in
          Some \<lparr>ev_version = 1,
            ev_kind = (if p then KindPassword else if c = CHR ''r'' then KindRecovery else if c = CHR ''k'' then KindPasskey else KindServerPasskey),
            ev_kdf = (if p then ''argon2id-hkdf-sha256'' else ''hkdf-sha256''), ev_profile = (if p then DefaultProfile else (0, 0, 0)),
            ev_salt = take 32 bs, ev_nonce = take 12 (drop 32 bs), ev_ciphertext = take 48 (drop 44 bs), ev_verifier = drop 92 bs\<rparr>)"

definition sample_auth :: auth_env where
  "sample_auth =
     \<lparr>ae_control = sample_env\<lparr>env_encode := sample_encode, env_decode := sample_decode\<rparr>, ae_crypto = plain_crypto, ae_sha256 = (\<lambda>_. replicate 32 0),
      ae_b64_encode = map (\<lambda>b. char_of (unat b)), ae_b64_decode = (\<lambda>s. Some (text_bytes s)),
      ae_capacity = 2, ae_webauthn = False, ae_custody = replicate 32 1, ae_setup = Some (replicate 32 0),
      ae_acquire = (\<lambda>user vault key srv. (Inl ErrClosed, srv))\<rparr>"

lemma sample_acquire_ok: "acquire_ok sample_auth"
proof -
  have "\<exists>w. srv = srv\<lparr>srv_vault := w\<rparr>" for srv :: server by (rule exI [of _ "srv_vault srv"]) simp
  then show ?thesis by (auto simp: acquire_ok_def sample_auth_def)
qed

definition sample_service :: AuthService where
  "sample_service =
     \<lparr>as_store = \<lparr>st_db = Some empty_control, st_closed = False\<rparr>, as_throttle = \<lparr>ts_rows = [], ts_open = True, ts_writes = 0\<rparr>,
      as_server = server_start DefaultSessionConfig, as_locked = [], as_kdf = 0, as_random = replicate 200 9\<rparr>"

definition sample_start :: BootstrapInput where
  "sample_start = \<lparr>bi_token = replicate 32 5, bi_email = ''alice@x'', bi_display = ''Alice'', bi_password = replicate 12 1, bi_recovery = replicate 32 2\<rparr>"

definition sample_started :: "auth_env \<Rightarrow> (aerr, UserSummary) result \<times> AuthService" where
  "sample_started env =
     Service_Bootstrap env (''alice-0123456789'', ''vault-0123456789'', ''recovery-0123456'') sample_start sample_time sample_service"

definition sample_login_auth :: auth_env where
  "sample_login_auth = sample_auth\<lparr>ae_acquire := (\<lambda>user vault key srv. (Inr 0, srv\<lparr>srv_vault := sv4\<rparr>))\<rparr>"

lemma sample_start_ok: "okE (fst (sample_started sample_auth))"
  by code_simp

section \<open>Properties\<close>



text \<open>C8: a session needs the password. A login that yields a session was for a well-formed address that is not locked out and
  belongs to an active account, with a password within the policy that unwraps the stored credential of this account in the
  context of this account and its vault; the login was recorded on that very credential; the vault was acquired with the
  unwrapped key; and the session is the one created for this account on the acquired lease.\<close>

theorem login_needs_credential:
  assumes "Login env rawEmail password sid csrf clock now s = (Inr session, s')"
  shows "\<exists>email known user credential vaultID dek l v roots m.
     normalizeLoginEmail env rawEmail = Inr email
     \<and> (\<exists>left. checkLoginThrottle (LoginThrottleKey env email) now (as_throttle s) = Inr left \<and> left \<le> 0)
     \<and> GetUserByEmail (ae_control env) email (as_store s) = Inr known \<and> GetUser (us_id known) (as_store s) = Inr user
     \<and> us_state user = UserActive \<and> 12 \<le> length password \<and> length password \<le> 1024
     \<and> GetPasswordCredential (ae_control env) (us_id user) (as_store s) = Inr credential
     \<and> LookupVaultID (us_id user) (as_store s) = Inr vaultID
     \<and> UnwrapWithPassword (ae_crypto env) (Some (pc_envelope credential)) password \<lparr>cx_user = us_id user, cx_vault = vaultID\<rparr> = Inr dek
     \<and> fst (RecordSuccessfulLogin (ae_control env) (us_id user) credential now (as_store s)) = Inr ()
     \<and> ae_acquire env (us_id user) vaultID dek (as_server s) = (Inr l, v)
     \<and> CreateVaultSession clock sid csrf user l (srv_vault v) (srv_sessions v) = (Inr session, roots, m)
     \<and> srv_sessions (as_server s') = m"
proof -
  obtain email known t u where l: "normalizeLoginEmail env rawEmail = Inr email"
    "\<exists>left. checkLoginThrottle (LoginThrottleKey env email) now (as_throttle s) = Inr left \<and> left \<le> 0"
    "GetUserByEmail (ae_control env) email (as_store s) = Inr known"
    and run: "login_user env (LoginThrottleKey env email) (us_id known) password sid csrf clock now t = (Inr session, u)"
    and t: "as_store t = as_store s" "as_server t = as_server s" "as_server s' = as_server u"
    using Login_Inr [OF assms] by metis
  obtain user credential vaultID dek where c: "GetUser (us_id known) (as_store s) = Inr user" "us_state user = UserActive"
    "validateNewPassword password = Inr ()" "GetPasswordCredential (ae_control env) (us_id user) (as_store s) = Inr credential"
    "LookupVaultID (us_id user) (as_store s) = Inr vaultID"
    "UnwrapWithPassword (ae_crypto env) (Some (pc_envelope credential)) password \<lparr>cx_user = us_id user, cx_vault = vaultID\<rparr> = Inr dek"
    and fin: "login_finish env (LoginThrottleKey env email) user vaultID credential dek sid csrf clock now (releaseKDF t) = (Inr session, u)"
    using login_user_Inr [OF run] t(1) by metis
  obtain l v roots m where f: "fst (RecordSuccessfulLogin (ae_control env) (us_id user) credential now (as_store s)) = Inr ()"
    "ae_acquire env (us_id user) vaultID dek (as_server s) = (Inr l, v)"
    "CreateVaultSession clock sid csrf user l (srv_vault v) (srv_sessions v) = (Inr session, roots, m)"
    "srv_sessions (as_server s') = m"
    using login_finish_Inr [OF fin] t by (metis (no_types, lifting) releaseKDF_def AuthService.select_convs AuthService.surjective AuthService.update_convs(5))
  show ?thesis using l c f by (auto simp: validateNewPassword_def res_simps)
qed

theorem login_needs_credential_witness:
  "\<exists>session s' (user :: UserSummary) credential vaultID dek.
     Login sample_login_auth ''alice@x'' (replicate 12 1) sx_id sx_csrf 1000 (sample_time + 1000) (snd (sample_started sample_login_auth)) = (Inr session, s')
     \<and> GetPasswordCredential (ae_control sample_login_auth) (us_id user) (as_store (snd (sample_started sample_login_auth))) = Inr credential
     \<and> UnwrapWithPassword (ae_crypto sample_login_auth) (Some (pc_envelope credential)) (replicate 12 1)
         \<lparr>cx_user = us_id user, cx_vault = vaultID\<rparr> = Inr dek"
proof -
  let ?l = "Login sample_login_auth ''alice@x'' (replicate 12 1) sx_id sx_csrf 1000 (sample_time + 1000) (snd (sample_started sample_login_auth))"
  have "okE (fst ?l)" by code_simp
  then obtain session where run: "?l = (Inr session, snd ?l)" by (metis okE_iff prod.collapse)
  show ?thesis using run login_needs_credential [OF run] by blast
qed

lemma login_user_refused:
  assumes "GetUser userID (as_store s) = Inr user"
    and "us_state user = UserDisabled \<or> length password < 12 \<or> 1024 < length password
      \<or> (\<exists>credential vaultID. GetPasswordCredential (ae_control env) (us_id user) (as_store s) = Inr credential
          \<and> LookupVaultID (us_id user) (as_store s) = Inr vaultID
          \<and> UnwrapWithPassword (ae_crypto env) (Some (pc_envelope credential)) password \<lparr>cx_user = us_id user, cx_vault = vaultID\<rparr>
              = Inl ErrAuthentication)"
  shows "login_user env key userID password sid csrf clock now s = failLogin key now (releaseKDF s)"
  using assms by (auto simp: login_user_def validateNewPassword_def)

text \<open>C12: a refused login says nothing about the account. While neither the address nor the account is locked out or busy, an
  unknown address, a disabled account, a password outside the policy and a wrong password all get the same answer and
  leave the same trace: one more failure of this address in the throttle, and nothing else.\<close>

theorem login_refusals_uniform:
  assumes email: "normalizeLoginEmail env rawEmail = Inr email"
    and free: "checkLoginThrottle (LoginThrottleKey env email) now (as_throttle s) = Inr 0" "as_kdf s < ae_capacity env"
      "''email:'' @ email \<notin> set (as_locked s)"
    and cause: "GetUserByEmail (ae_control env) email (as_store s) = Inl ErrNotFound
      \<or> (\<exists>known user. GetUserByEmail (ae_control env) email (as_store s) = Inr known \<and> ''user:'' @ us_id known \<notin> set (as_locked s)
         \<and> GetUser (us_id known) (as_store s) = Inr user
         \<and> (us_state user = UserDisabled \<or> length password < 12 \<or> 1024 < length password
            \<or> (\<exists>credential vaultID. GetPasswordCredential (ae_control env) (us_id user) (as_store s) = Inr credential
                \<and> LookupVaultID (us_id user) (as_store s) = Inr vaultID
                \<and> UnwrapWithPassword (ae_crypto env) (Some (pc_envelope credential)) password \<lparr>cx_user = us_id user, cx_vault = vaultID\<rparr>
                    = Inl ErrAuthentication)))"
  shows "Login env rawEmail password sid csrf clock now s =
    (Inl ErrInvalidCredentials, s\<lparr>as_throttle := recordLoginFailure (LoginThrottleKey env email) now (as_throttle s)\<rparr>)"
proof -
  let ?k = "LoginThrottleKey env email" and ?s = "s\<lparr>as_kdf := as_kdf s + 1, as_locked := (''email:'' @ email) # as_locked s\<rparr>"
  let ?t = "recordLoginFailure ?k now (as_throttle s)"
  have "login_email env ?k email password sid csrf clock now ?s
      = (Inl ErrInvalidCredentials, s\<lparr>as_throttle := ?t, as_locked := (''email:'' @ email) # as_locked s\<rparr>)"
    using cause
    by (elim disjE exE conjE)
      (simp_all add: login_email_def withLock_def lockAccount_def unlockAccount_def login_user_refused failLogin_def releaseKDF_def)
  then show ?thesis
    using email free by (simp add: Login_def Let_def bindA_def checkThrottle_def reserveKDF_def withLock_def lockAccount_def unlockAccount_def)
qed

theorem login_refusals_uniform_witness:
  "Login sample_auth ''bob@x'' (replicate 12 1) sx_id sx_csrf 1000 sample_time sample_service =
    (Inl ErrInvalidCredentials, sample_service\<lparr>as_throttle :=
       recordLoginFailure (LoginThrottleKey sample_auth ''bob@x'') sample_time (as_throttle sample_service)\<rparr>)"
proof -
  have email: "normalizeLoginEmail sample_auth ''bob@x'' = Inr ''bob@x''" by code_simp
  have free: "checkLoginThrottle (LoginThrottleKey sample_auth ''bob@x'') sample_time (as_throttle sample_service) = Inr 0" by code_simp
  have slot: "as_kdf sample_service < ae_capacity sample_auth" and lock: "''email:'' @ ''bob@x'' \<notin> set (as_locked sample_service)"
    by (simp_all add: sample_service_def sample_auth_def)
  have unknown: "GetUserByEmail (ae_control sample_auth) ''bob@x'' (as_store sample_service) = Inl ErrNotFound" by code_simp
  show ?thesis by (rule login_refusals_uniform [OF email free slot lock disjI1 [OF unknown]])
qed

end
