(* ===== verification/AccountKeys.thy ===== *)
theory AccountKeys
  imports AccountProperties
begin

text \<open>
  The key of a vault through the life of its account: which key the stored envelopes of an account hold, and that creating the
  account, changing the password, rotating the recovery code and completing a reset leave it the same.
\<close>

section \<open>Reading credentials\<close>

text \<open>\<open>encoding/json\<close> reads back the envelopes it wrote.\<close>

definition json_ok :: "control_env \<Rightarrow> bool" where
  "json_ok env \<longleftrightarrow> (\<forall>e kind. validateKeyEnvelope e kind = Inr () \<longrightarrow> env_decode env (env_encode env e) = Some e)"

lemma decode_encode:
  assumes "json_ok env" "encodeKeyEnvelope env e kind = Inr json" "2 \<le> length json"
  shows "decodeKeyEnvelope env json kind = Inr e"
  using assms by (auto simp: encodeKeyEnvelope_def decodeKeyEnvelope_def json_ok_def res_simps Let_def)

definition password_opens :: "auth_env \<Rightarrow> store \<Rightarrow> string \<Rightarrow> string \<Rightarrow> bytes \<Rightarrow> bytes \<Rightarrow> bool" where
  "password_opens env S user vault password dek \<longleftrightarrow> LookupVaultID user S = Inr vault
     \<and> (\<exists>c. GetPasswordCredential (ae_control env) user S = Inr c
          \<and> UnwrapWithPassword (ae_crypto env) (Some (pc_envelope c)) password \<lparr>cx_user = user, cx_vault = vault\<rparr> = Inr dek)"

definition recovery_opens :: "auth_env \<Rightarrow> store \<Rightarrow> string \<Rightarrow> string \<Rightarrow> bytes \<Rightarrow> bytes \<Rightarrow> bool" where
  "recovery_opens env S user vault secret dek \<longleftrightarrow> LookupVaultID user S = Inr vault
     \<and> (\<exists>r. GetActiveRecoveryEnvelope (ae_control env) user S = Inr r
          \<and> UnwrapWithRecovery (ae_crypto env) (Some (re_envelope r)) secret \<lparr>cx_user = user, cx_vault = vault\<rparr> = Inr dek)"

text \<open>A store whose account \<open>i\<close> has this password and this recovery envelope as JSON.\<close>

definition has_password :: "store \<Rightarrow> string \<Rightarrow> string \<Rightarrow> bool" where
  "has_password S i json \<longleftrightarrow> (\<exists>db. control_database S = Inr db \<and> normalizeID i = Inr i \<and> i \<in> user_ids (users db)
     \<and> (\<forall>r\<in>set (passwords db). pw_user r = i \<longrightarrow> pw_json r = json))"

definition has_recovery :: "store \<Rightarrow> string \<Rightarrow> string \<Rightarrow> bool" where
  "has_recovery S i json \<longleftrightarrow> (\<exists>db. control_database S = Inr db \<and> normalizeID i = Inr i \<and> i \<in> user_ids (users db)
     \<and> (\<forall>r\<in>set (recoveries db). rc_user r = i \<and> rc_active r \<longrightarrow> rc_json r = json))"

lemma control_database_Inr: "control_database S = Inr db \<longleftrightarrow> \<not> st_closed S \<and> st_db S = Some db"
  by (auto simp: control_database_def res_simps)

lemma database_ok: "store_ok S \<Longrightarrow> control_database S = Inr db \<Longrightarrow> control_ok db"
  by (simp add: store_ok_def control_database_Inr)

lemma has_password_read:
  assumes "store_ok S" "has_password S i json" "decodeKeyEnvelope env json KindPassword = Inr e"
  shows "\<exists>c. GetPasswordCredential env i S = Inr c \<and> pc_envelope c = e"
proof -
  obtain db where db: "control_database S = Inr db" "normalizeID i = Inr i" "i \<in> user_ids (users db)"
    and rows: "\<forall>r\<in>set (passwords db). pw_user r = i \<longrightarrow> pw_json r = json" using assms(2) unfolding has_password_def by blast
  have "i \<in> pw_user ` set (passwords db)" using database_ok [OF assms(1) db(1)] db(3) by (simp add: control_ok_def passwords_ok_def)
  then obtain r where "List.find (\<lambda>p. pw_user p = i) (passwords db) = Some r"
    by (metis (mono_tags, lifting) find_None_iff imageE option.exhaust)
  with find_SomeD [OF this] rows show ?thesis using db(1,2) assms(3) by (auto simp: GetPasswordCredential_def)
qed

lemma has_recovery_read:
  assumes "store_ok S" "has_recovery S i json" "decodeKeyEnvelope env json KindRecovery = Inr e"
  shows "\<exists>r. GetActiveRecoveryEnvelope env i S = Inr r \<and> re_envelope r = e"
proof -
  obtain db where db: "control_database S = Inr db" "normalizeID i = Inr i" "i \<in> user_ids (users db)"
    and rows: "\<forall>r\<in>set (recoveries db). rc_user r = i \<and> rc_active r \<longrightarrow> rc_json r = json" using assms(2) unfolding has_recovery_def by blast
  have "count_where (\<lambda>r. rc_user r = i \<and> rc_active r) (recoveries db) = 1"
    using database_ok [OF assms(1) db(1)] db(3) by (simp add: control_ok_def recoveries_ok_def)
  then obtain r where "List.find (\<lambda>r. rc_user r = i \<and> rc_active r) (recoveries db) = Some r"
    using count_where_pos [of "\<lambda>r. rc_user r = i \<and> rc_active r" "recoveries db"]
    by (metis (mono_tags, lifting) find_None_iff less_numeral_extra(1) option.exhaust)
  with find_SomeD [OF this] rows show ?thesis using db(1,2) assms(3) by (auto simp: GetActiveRecoveryEnvelope_def)
qed

section \<open>Reading after writing\<close>

text \<open>The vault of a user does not change while the rows of the users only change in other columns.\<close>

definition same_vaults :: "control_db \<Rightarrow> control_db \<Rightarrow> bool" where
  "same_vaults db db' \<longleftrightarrow> map u_id (users db') = map u_id (users db) \<and> map u_vault (users db') = map u_vault (users db)"

lemma find_map_field:
  "map k us = map k us' \<Longrightarrow> map g us = map g us' \<Longrightarrow>
     map_option g (List.find (\<lambda>u. k u = i) us) = map_option g (List.find (\<lambda>u. k u = i) us')"
proof (induction us arbitrary: us')
  case (Cons u us)
  then obtain v vs where "us' = v # vs" by (cases us') auto
  then show ?case using Cons by auto
qed simp

lemma same_vaults_lookup:
  assumes "same_vaults db db'" "control_database S = Inr db" "control_database S' = Inr db'"
  shows "LookupVaultID i S' = LookupVaultID i S"
proof -
  have m: "map_option u_vault (List.find (\<lambda>u. u_id u = j) (users db')) = map_option u_vault (List.find (\<lambda>u. u_id u = j) (users db))" for j
    using assms(1) unfolding same_vaults_def by (intro find_map_field) auto
  have "bindE (ofOption ErrNotFound m) (\<lambda>u. Inr (u_vault u)) = ofOption ErrNotFound (map_option u_vault m)" for m :: "user_row option"
    by (cases m) simp_all
  then show ?thesis using assms(2,3) m by (simp add: LookupVaultID_def)
qed

lemma same_vaults_ids: "same_vaults db db' \<Longrightarrow> user_ids (users db') = user_ids (users db)"
  unfolding same_vaults_def user_ids_def by (metis list.set_map)

lemma advance_same_vaults:
  assumes "advanceUserUpdatedAt i now db = Inr db'"
  shows "same_vaults db db'" "passwords db' = passwords db" "recoveries db' = recoveries db"
  using assms by (auto simp: advanceUserUpdatedAt_def update_user_def same_vaults_def table_simps split: if_splits)

lemma active_user_id: "requireActiveUser i db = Inr u \<Longrightarrow> i \<in> user_ids (users db)"
  by (auto simp: requireActiveUser_def loadRoleAndState_def user_ids_def res_simps dest!: find_SomeD intro: rev_image_eqI split: if_splits)

text \<open>What a successful store operation does to the credentials of the account.\<close>

lemma replace_outcome:
  assumes "store_ok S" "ReplacePasswordCredentialWithPasskeyPolicy env user expected e b time S = (Inr n, S')"
  obtains db db' json where "control_database S = Inr db" "control_database S' = Inr db'" "same_vaults db db'" "recoveries db' = recoveries db"
    "encodeKeyEnvelope env e KindPassword = Inr json" "2 \<le> length json" "has_password S' user json" "store_ok S'"
proof -
  obtain db json newJSON db1 db3 where a: "control_database S = Inr db" "normalizeID user = Inr user"
      "encodeKeyEnvelope env e KindPassword = Inr newJSON" "requireActiveUser user db = Inr ()"
    and sp: "set_password (password_matches user json (pc_updated expected)) newJSON time db = Inr db1"
      "count_where (password_matches user json (pc_updated expected)) (passwords db) = 1"
    and adv: "advanceUserUpdatedAt user time (if b then db1\<lparr>passkeys := del_where (\<lambda>k. pk_user k = user) (passkeys db1)\<rparr> else db1) = Inr db3"
    and S': "control_database S' = Inr db3"
    using assms(2) by (auto simp: ReplacePasswordCredentialWithPasskeyPolicy_def withImmediate_Inr res_simps Let_def control_database_Inr
        validateOperationTime_def normalizeID_def split: sum.splits if_splits)
  note pw = set_password_effect [OF database_ok [OF assms(1) a(1)] sp, of user]
  obtain p where "p \<in> set (passwords db)" "password_matches user json (pc_updated expected) p"
    using sp(2) count_where_pos [of _ "passwords db"] by (metis less_numeral_extra(1))
  then have "2 \<le> length newJSON" using sp(1) by (auto simp: set_password_def not_less split: if_splits)
  moreover have frame: "users (if b then db1\<lparr>passkeys := x\<rparr> else db1) = users db" "recoveries (if b then db1\<lparr>passkeys := x\<rparr> else db1) = recoveries db"
    "passwords (if b then db1\<lparr>passkeys := x\<rparr> else db1) = passwords db1" for x
    using sp(1) by (auto simp: set_password_def split: if_splits)
  have sv: "same_vaults db db3" using advance_same_vaults(1) [OF adv] by (simp add: same_vaults_def frame)
  have "user \<in> user_ids (users db)" by (rule active_user_id [OF a(4)])
  then have "has_password S' user newJSON"
    using S' a(2) pw(1) advance_same_vaults(2) [OF adv] same_vaults_ids [OF sv] by (auto simp: has_password_def frame password_matches_def)
  ultimately show thesis
    using that a(1,3) S' sv advance_same_vaults(3) [OF adv] replace_password.keeps [OF assms(2,1)] by (simp add: frame)
qed

lemma rotate_outcome:
  assumes "store_ok S" "RotateRecoveryEnvelope env generated user expected (rid, e) time S = (Inr x, S')"
  obtains db db' json where "control_database S = Inr db" "control_database S' = Inr db'" "same_vaults db db'" "passwords db' = passwords db"
    "encodeKeyEnvelope env e KindRecovery = Inr json" "2 \<le> length json" "has_recovery S' user json" "store_ok S'"
proof -
  obtain db i eid json created newJSON db1 db2 db3 where a: "control_database S = Inr db" "normalizeID user = Inr user"
      "encodeKeyEnvelope env e KindRecovery = Inr newJSON" "requireActiveUser user db = Inr ()"
    and rv: "revokeExpectedRecoveryEnvelope user eid json created time db = Inr (db1, True)"
    and ins: "insert_recovery i user newJSON time db1 = Inr db2" and adv: "advanceUserUpdatedAt user time db2 = Inr db3"
    and S': "control_database S' = Inr db3"
    using assms(2) by (auto simp: RotateRecoveryEnvelope_def withImmediate_Inr res_simps control_database_Inr insertActiveRecoveryEnvelope_def
        validateOperationTime_def normalizeID_def split: sum.splits if_splits)
  have d: "2 \<le> length newJSON" "users db2 = users db" "passwords db2 = passwords db"
    "\<forall>r\<in>set (recoveries db2). rc_user r = user \<and> rc_active r \<longrightarrow> rc_json r = newJSON"
    using rv ins by (auto simp: revokeExpectedRecoveryEnvelope_def insert_recovery_def Let_def split: if_splits)
  have sv: "same_vaults db db3" using advance_same_vaults(1) [OF adv] d(2) by (simp add: same_vaults_def)
  have "user \<in> user_ids (users db)" by (rule active_user_id [OF a(4)])
  then have "has_recovery S' user newJSON"
    using S' a(2) d(4) advance_same_vaults(3) [OF adv] same_vaults_ids [OF sv] by (auto simp: has_recovery_def)
  then show thesis
    using that a(1,3) S' sv d(1,3) advance_same_vaults(2) [OF adv] rotate_recovery.keeps [OF assms(2,1)] by simp
qed

lemma reset_outcome:
  assumes "store_ok S" "CompletePasswordReset env generated input time S = (Inr t, S')"
  obtains db db' passwordJSON recoveryJSON where "control_database S = Inr db" "control_database S' = Inr db'" "same_vaults db db'"
    "encodeKeyEnvelope env (cp_password input) KindPassword = Inr passwordJSON" "2 \<le> length passwordJSON"
    "encodeKeyEnvelope env (snd (cp_recovery input)) KindRecovery = Inr recoveryJSON" "2 \<le> length recoveryJSON"
    "normalizeID (pt_user t) = Inr (pt_user t) \<Longrightarrow> has_password S' (pt_user t) passwordJSON"
    "normalizeID (pt_user t) = Inr (pt_user t) \<Longrightarrow> has_recovery S' (pt_user t) recoveryJSON"
    "store_ok S'" "pt_user t = re_user (cp_expected input)"
proof -
  obtain db db' s eid json created passwordJSON rid recoveryJSON where
    a: "st_db S = Some db" "\<not> st_closed S" "S' = S\<lparr>st_db := Some db'\<rparr>" and s: "s \<in> set (tickets db)"
      "tk_state s = PasswordResetPending" "requireActiveUser (tk_user s) db = Inr ()" "tk_user s = re_user (cp_expected input)"
    and e: "encodeKeyEnvelope env (cp_password input) KindPassword = Inr passwordJSON"
      "encodeKeyEnvelope env (snd (cp_recovery input)) KindRecovery = Inr recoveryJSON"
    and run: "complete_reset_tx s eid json created passwordJSON rid recoveryJSON time db = Inr db'"
    and t: "t = scanPasswordResetTicket (s\<lparr>tk_state := PasswordResetConsumed, tk_resolved := Some time\<rparr>)"
    using assms(2) by (auto simp: CompletePasswordReset_def complete_reset_checks_def withImmediate_Inr res_simps Let_def
        validateOperationTime_def normalizeID_def split: sum.splits if_splits dest!: find_SomeD)
  have ok: "control_ok db" using assms(1) a(1) by (simp add: store_ok_def)
  note fin = complete_tx_effect(1) [OF ok run s(1,2)]
  let ?db1 = "db\<lparr>passkeys := del_where (\<lambda>k. pk_user k = tk_user s) (passkeys db)\<rparr>"
  let ?c = "\<lambda>w. w\<lparr>tk_state := PasswordResetConsumed, tk_resolved := Some time\<rparr>"
  let ?r = "\<lambda>w. w\<lparr>tk_state := PasswordResetRevoked, tk_resolved := Some time\<rparr>"
  let ?p = "\<lambda>p. pw_user p = tk_user s \<and> pw_updated p < time"
  let ?pend = "\<lambda>w. tk_id w = tk_id s \<and> tk_state w = PasswordResetPending"
  let ?rest = "\<lambda>w. tk_user w = tk_user s \<and> tk_state w = PasswordResetPending \<and> tk_id w \<noteq> tk_id s"
  obtain db2 db3 db4 db5 db6 where p: "set_password ?p passwordJSON time ?db1 = Inr db2" "count_where ?p (passwords db) = 1"
    and rv: "revokeExpectedRecoveryEnvelope (tk_user s) eid json created time db2 = Inr (db3, True)"
    and ins: "insert_recovery rid (tk_user s) recoveryJSON time db3 = Inr db4"
    and upd: "update_tickets ?pend ?c db4 = Inr db5" "update_tickets ?rest ?r db5 = Inr db6"
    and adv: "advanceUserUpdatedAt (tk_user s) time db6 = Inr db'"
    using run by (auto simp: complete_reset_tx_def res_simps Let_def insertActiveRecoveryEnvelope_def)
  have us: "users db6 = users db" "2 \<le> length recoveryJSON"
    using upd ins p(1) rv by (auto simp: update_tickets_def insert_recovery_def set_password_def revokeExpectedRecoveryEnvelope_def Let_def
        split: if_splits)
  obtain q where "q \<in> set (passwords db)" "pw_user q = tk_user s \<and> pw_updated q < time"
    using p(2) count_where_pos [of _ "passwords db"] by (metis (mono_tags, lifting) less_numeral_extra(1))
  then have len: "2 \<le> length passwordJSON" using p(1) by (auto simp: set_password_def not_less split: if_splits)
  have sv: "same_vaults db db'" using advance_same_vaults(1) [OF adv] us(1) by (simp add: same_vaults_def)
  have "tk_user s \<in> user_ids (users db')" unfolding same_vaults_ids [OF sv] by (rule active_user_id [OF s(3)])
  moreover have u: "pt_user t = tk_user s" using t by (simp add: scanPasswordResetTicket_def)
  moreover have S': "control_database S' = Inr db'" using a by (simp add: control_database_Inr)
  ultimately have "normalizeID (pt_user t) = Inr (pt_user t) \<Longrightarrow> has_password S' (pt_user t) passwordJSON \<and> has_recovery S' (pt_user t) recoveryJSON"
    using fin by (auto simp: has_password_def has_recovery_def reset_done_def)
  then show thesis
    using that a sv e len us(2) S' s(4) u complete_reset.keeps [OF assms(2,1)] by (simp add: control_database_Inr)
qed

lemma prepared_account:
  assumes "prepareNewUser env generated input = Inr p" "nu_recovery input = Some (rid, e)"
  shows "normalizeID (pu_id p) = Inr (pu_id p)" "pu_vault p = nu_vault input" "pu_id p = nu_id input"
    "encodeKeyEnvelope env (nu_password input) KindPassword = Inr (pu_password_json p)"
    "encodeKeyEnvelope env e KindRecovery = Inr (pu_recovery_json p)"
  using assms by (auto simp: prepareNewUser_def normalizeID_def res_simps split: if_splits)

lemma account_outcome:
  assumes ok: "control_ok db" and ins: "insertPreparedUser p role now db = Inr db1" and role: "users db \<noteq> [] \<or> role = RoleAdmin"
    and db': "users db' = users db1" "passwords db' = passwords db1" "recoveries db' = recoveries db1"
    and S': "control_database S' = Inr db'" and i: "normalizeID (pu_id p) = Inr (pu_id p)"
  shows "has_password S' (pu_id p) (pu_password_json p)" "has_recovery S' (pu_id p) (pu_recovery_json p)"
    "LookupVaultID (pu_id p) S' = Inr (pu_vault p)" "2 \<le> length (pu_password_json p)" "2 \<le> length (pu_recovery_json p)"
proof -
  note new = insertPreparedUser_ok [OF ok ins role] and found = inserted_user [OF ok ins role]
  have rows: "passwords db1 = passwords db @ [\<lparr>pw_user = pu_id p, pw_json = pu_password_json p, pw_created = now, pw_updated = now\<rparr>]"
    "recoveries db1 = recoveries db @ [\<lparr>rc_id = pu_recovery_id p, rc_user = pu_id p, rc_json = pu_recovery_json p,
        rc_active = True, rc_created = now, rc_revoked = None\<rparr>]"
    "pu_id p \<notin> pw_user ` set (passwords db)" "2 \<le> length (pu_password_json p)" "2 \<le> length (pu_recovery_json p)"
    using ins by (auto simp: insertPreparedUser_def insert_user_def insert_password_def insert_recovery_def res_simps split: if_splits)
  have "rc_user ` set (recoveries db) \<subseteq> user_ids (users db)" using ok by (simp add: control_ok_def recoveries_ok_def)
  then have "pu_id p \<notin> rc_user ` set (recoveries db)" using new(4) by blast
  moreover have "pu_id p \<in> user_ids (users db')" using new(2) db'(1) by (simp add: user_ids_def new_user_row_def)
  ultimately show "has_password S' (pu_id p) (pu_password_json p)" "has_recovery S' (pu_id p) (pu_recovery_json p)"
    using S' i rows(1-3) db'(2,3) by (auto simp: has_password_def has_recovery_def image_iff)
  show "LookupVaultID (pu_id p) S' = Inr (pu_vault p)" using S' i found(1) db'(1) by (simp add: LookupVaultID_def new_user_row_def)
qed (use ins in \<open>auto simp: insertPreparedUser_def insert_user_def insert_password_def insert_recovery_def res_simps split: if_splits\<close>)

lemma accept_outcome:
  assumes "store_ok S" "AcceptInvitation env generated hash input time S = (Inr u, S')" "nu_recovery input = Some (rid, e)"
  obtains passwordJSON recoveryJSON where "encodeKeyEnvelope env (nu_password input) KindPassword = Inr passwordJSON" "2 \<le> length passwordJSON"
    "encodeKeyEnvelope env e KindRecovery = Inr recoveryJSON" "2 \<le> length recoveryJSON" "us_id u = nu_id input"
    "has_password S' (us_id u) passwordJSON" "has_recovery S' (us_id u) recoveryJSON" "LookupVaultID (us_id u) S' = Inr (nu_vault input)" "store_ok S'"
proof -
  obtain p v db db1 db' where a: "prepareNewUser env generated input = Inr p" "st_db S = Some db"
      "List.find (\<lambda>v. iv_hash v = hash) (invitations db) = Some v" "insertPreparedUser p (iv_role v) time db = Inr db1"
      "S' = S\<lparr>st_db := Some db'\<rparr>" "\<not> st_closed S" "u = summary p (iv_role v) time"
    and upd: "update_invitations (\<lambda>w. iv_id w = iv_id v \<and> iv_state w = InvitationPending)
      (\<lambda>w. w\<lparr>iv_state := InvitationAccepted, iv_accepted := Some (pu_id p), iv_resolved := Some time\<rparr>) db1 = Inr db'"
    using assms(2) by (auto simp: AcceptInvitation_def withImmediate_Inr res_simps validateOperationTime_def split: sum.splits if_splits)
  have ok: "control_ok db" using assms(1) a(2) by (simp add: store_ok_def)
  have "iv_by v \<in> user_ids (users db)" using find_SomeD [OF a(3)] ok by (auto simp: control_ok_def invitations_ok_def inv_ok_def)
  then have ne: "users db \<noteq> [] \<or> iv_role v = RoleAdmin" by (auto simp: user_ids_def)
  note p = prepared_account [OF a(1) assms(3)]
  have frame: "users db' = users db1" "passwords db' = passwords db1" "recoveries db' = recoveries db1"
    using upd by (auto simp: update_invitations_def split: if_splits)
  have S': "control_database S' = Inr db'" using a(5,6) by (simp add: control_database_Inr)
  have "us_id u = pu_id p" using a(7) by (simp add: summary_def)
  then show thesis
    using that account_outcome [OF ok a(4) ne frame S' p(1)] p(2-5) accept_invitation.keeps [OF assms(2,1)] by simp
qed

lemma bootstrap_outcome:
  assumes "store_ok S" "BootstrapFirstAdmin env generated input time S = (Inr u, S')" "nu_recovery input = Some (rid, e)"
  obtains passwordJSON recoveryJSON where "encodeKeyEnvelope env (nu_password input) KindPassword = Inr passwordJSON" "2 \<le> length passwordJSON"
    "encodeKeyEnvelope env e KindRecovery = Inr recoveryJSON" "2 \<le> length recoveryJSON" "us_id u = nu_id input"
    "has_password S' (us_id u) passwordJSON" "has_recovery S' (us_id u) recoveryJSON" "LookupVaultID (us_id u) S' = Inr (nu_vault input)" "store_ok S'"
proof -
  obtain p db db' where a: "prepareNewUser env generated input = Inr p" "st_db S = Some db" "insertPreparedUser p RoleAdmin time db = Inr db'"
      "S' = S\<lparr>st_db := Some db'\<rparr>" "\<not> st_closed S" "u = summary p RoleAdmin time"
    using assms(2) by (auto simp: BootstrapFirstAdmin_def withImmediate_Inr res_simps validateOperationTime_def split: sum.splits if_splits)
  have ok: "control_ok db" using assms(1) a(2) by (simp add: store_ok_def)
  note p = prepared_account [OF a(1) assms(3)]
  have S': "control_database S' = Inr db'" using a(4,5) by (simp add: control_database_Inr)
  have "us_id u = pu_id p" using a(6) by (simp add: summary_def)
  then show thesis
    using that account_outcome [OF ok a(3) _ refl refl refl S' p(1)] p(2-5) bootstrap.keeps [OF assms(2,1)] by simp
qed

section \<open>The key survives\<close>

lemma opens_password:
  assumes "crypto_ok (ae_crypto env)" "json_ok (ae_control env)" "store_ok S" "has_password S i json"
    "encodeKeyEnvelope (ae_control env) e KindPassword = Inr json" "2 \<le> length json" "LookupVaultID i S = Inr v"
    "WrapWithPassword (ae_crypto env) dek p \<lparr>cx_user = i, cx_vault = v\<rparr> source = Inr (e, rest)"
  shows "password_opens env S i v p dek"
proof -
  have "UnwrapWithPassword (ae_crypto env) (Some e) p \<lparr>cx_user = i, cx_vault = v\<rparr> = Inr dek"
    using password.unwrap_exact [OF assms(1), of e "(p, \<lparr>cx_user = i, cx_vault = v\<rparr>)" dek] assms(8) by auto
  then show ?thesis
    using has_password_read [OF assms(3,4) decode_encode [OF assms(2,5,6)]] assms(7) unfolding password_opens_def by blast
qed

lemma opens_recovery:
  assumes "crypto_ok (ae_crypto env)" "json_ok (ae_control env)" "store_ok S" "has_recovery S i json"
    "encodeKeyEnvelope (ae_control env) e KindRecovery = Inr json" "2 \<le> length json" "LookupVaultID i S = Inr v"
    "WrapWithRecovery (ae_crypto env) dek secret \<lparr>cx_user = i, cx_vault = v\<rparr> source = Inr (e, rest)"
  shows "recovery_opens env S i v secret dek"
proof -
  have "UnwrapWithRecovery (ae_crypto env) (Some e) secret \<lparr>cx_user = i, cx_vault = v\<rparr> = Inr dek"
    using recovery.unwrap_exact [OF assms(1), of e "(secret, \<lparr>cx_user = i, cx_vault = v\<rparr>)" dek] assms(8) by auto
  then show ?thesis
    using has_recovery_read [OF assms(3,4) decode_encode [OF assms(2,5,6)]] assms(7) unfolding recovery_opens_def by blast
qed

lemma keep_opens:
  assumes "control_database S = Inr db" "control_database S' = Inr db'" "same_vaults db db'"
  shows "recoveries db' = recoveries db \<Longrightarrow> recovery_opens env S i v secret dek \<Longrightarrow> recovery_opens env S' i v secret dek"
    and "passwords db' = passwords db \<Longrightarrow> password_opens env S i v p dek \<Longrightarrow> password_opens env S' i v p dek"
  using assms same_vaults_lookup [OF assms(3,1,2), of i]
  by (simp_all add: recovery_opens_def password_opens_def GetActiveRecoveryEnvelope_def GetPasswordCredential_def)

lemma store_frames [simp]:
  "as_store (unlockAccount key s) = as_store s" "as_store (releaseKDF s) = as_store s" "as_store (clearThrottle key s) = as_store s"
  "as_store (evictUser user s) = as_store s"
  by (simp_all add: unlockAccount_def releaseKDF_def clearThrottle_def evictUser_def split: prod.split)

definition evicted :: "string \<Rightarrow> AuthService \<Rightarrow> bool" where
  "evicted user s \<longleftrightarrow> list_all (\<lambda>(i, r). ss_user (sr_session r) \<noteq> user) (sm_sessions (srv_sessions (as_server s)))"

lemma evict_gone [simp]: "user \<noteq> [] \<Longrightarrow> evicted user (evictUser user s)"
  by (auto simp: evicted_def evictUser_def beginDrain_def settle_def DeleteAllSessionsForUser_def delete_where_def list_all_iff table_simps
      split: prod.splits)

lemma evicted_unlock [simp]: "evicted user (unlockAccount key s) = evicted user s"
  by (simp add: evicted_def unlockAccount_def)

lemma unwrapOrFail_Inr [act_simps]:
  "unwrapOrFail env key now e p ctx s = (Inr dek, t) \<longleftrightarrow>
     as_kdf s < ae_capacity env \<and> UnwrapWithPassword (ae_crypto env) (Some e) p ctx = Inr dek \<and> t = s"
  by (auto simp: unwrapOrFail_def act_simps releaseKDF_def split: sum.splits if_splits)

lemma normalized_nonempty: "normalizeID i = Inr j \<Longrightarrow> j = i \<and> i \<noteq> []"
  by (auto simp: normalizeID_def split: if_splits)

lemma change_keeps_key:
  assumes env: "crypto_ok (ae_crypto env)" "json_ok (ae_control env)" and ok: "store_ok (as_store s)"
    and run: "ChangePassword env user old new revoke now s = (Inr n, s')"
  shows "\<exists>v dek. password_opens env (as_store s) user v old dek \<and> password_opens env (as_store s') user v new dek
    \<and> (\<forall>secret d. recovery_opens env (as_store s) user v secret d \<longrightarrow> recovery_opens env (as_store s') user v secret d) \<and> evicted user s'"
proof -
  obtain c v dek e source rest where c: "GetPasswordCredential (ae_control env) user (as_store s) = Inr c" "LookupVaultID user (as_store s) = Inr v"
      "UnwrapWithPassword (ae_crypto env) (Some (pc_envelope c)) old \<lparr>cx_user = user, cx_vault = v\<rparr> = Inr dek"
    and wrap: "WrapWithPassword (ae_crypto env) dek new \<lparr>cx_user = user, cx_vault = v\<rparr> source = Inr (e, rest)"
    and rep: "ReplacePasswordCredentialWithPasskeyPolicy (ae_control env) user c e revoke now (as_store s) = (Inr n, as_store s')"
    and gone: "user \<noteq> [] \<Longrightarrow> evicted user s'"
    using run by (auto simp: ChangePassword_def changePasswordLocked_def Let_def act_simps split: sum.splits if_splits)
  obtain db db' json where d: "control_database (as_store s) = Inr db" "control_database (as_store s') = Inr db'" "same_vaults db db'"
      "recoveries db' = recoveries db"
    and j: "encodeKeyEnvelope (ae_control env) e KindPassword = Inr json" "2 \<le> length json" "has_password (as_store s') user json" "store_ok (as_store s')"
    using replace_outcome [OF ok rep] by metis
  have "LookupVaultID user (as_store s') = Inr v" using same_vaults_lookup [OF d(3,1,2)] c(2) by simp
  then have "password_opens env (as_store s') user v new dek" by (rule opens_password [OF env j(4,3,1,2) _ wrap])
  moreover have "user \<noteq> []" using c(2) by (auto simp: LookupVaultID_def res_simps dest: normalized_nonempty)
  ultimately show ?thesis using c gone keep_opens(1) [OF d] unfolding password_opens_def by blast
qed

lemma passwordPreamble_Inr: "passwordPreamble env user p now s = (Inr key, t) \<Longrightarrow> t = s"
  by (auto simp: passwordPreamble_def passwordChecks_def refuseLogin_def Let_def act_simps split: sum.splits if_splits)

lemma unwrapVault_Inr:
  assumes "unwrapVaultWithPassword env user p now s = (Inr (dek, v), t)"
  shows "password_opens env (as_store s) user v p dek" "as_store t = as_store s"
  using assms by (auto simp: unwrapVaultWithPassword_def act_simps password_opens_def dest!: passwordPreamble_Inr)

lemma opens_nonempty: "password_opens env S user v p dek \<Longrightarrow> user \<noteq> []" "recovery_opens env S user v secret dek \<Longrightarrow> user \<noteq> []"
  by (auto simp: password_opens_def recovery_opens_def LookupVaultID_def res_simps dest: normalized_nonempty)

lemma other_secret_Inr [act_simps]:
  "(case r of Inl e \<Rightarrow> if e \<noteq> ErrAuthentication then Inl (EnvelopeError e) else Inr () | Inr _ \<Rightarrow> Inl ErrInvalidAccountData) = Inr ()
     \<longleftrightarrow> r = Inl ErrAuthentication"
  by (auto split: sum.splits if_splits)

lemma active_Inr [act_simps]:
  "(case r of Inl _ \<Rightarrow> failA ErrInvalidRecovery | Inr user \<Rightarrow> if us_state user \<noteq> UserActive then failA ErrInvalidRecovery else returnA ()) s = (Inr (), t)
     \<longleftrightarrow> (\<exists>user. r = Inr user \<and> us_state user = UserActive) \<and> t = s"
  by (auto simp: act_simps split: sum.splits if_splits)

lemma buildResetEnvelopes_Inr:
  assumes "buildResetEnvelopes env ri expected ctx s = (Inr (e1, e2), t)"
  obtains dek src1 src2 r1 r2 where "UnwrapWithRecovery (ae_crypto env) (Some (re_envelope expected)) (ri_recovery ri) ctx = Inr dek"
    "WrapWithPassword (ae_crypto env) dek (ri_password ri) ctx src1 = Inr (e1, r1)"
    "WrapWithRecovery (ae_crypto env) dek (ri_new_recovery ri) ctx src2 = Inr (e2, r2)" "as_store t = as_store s"
  using assms by (auto simp: buildResetEnvelopes_def act_simps split: sum.splits if_splits)

lemma rotate_keeps_key:
  assumes env: "crypto_ok (ae_crypto env)" "json_ok (ae_control env)" and ok: "store_ok (as_store s)"
    and run: "RotateRecoveryCode env recoveryID user password secret now s = (Inr u, s')"
  shows "\<exists>v dek. password_opens env (as_store s) user v password dek \<and> recovery_opens env (as_store s') user v secret dek
    \<and> (\<forall>p d. password_opens env (as_store s) user v p d \<longrightarrow> password_opens env (as_store s') user v p d) \<and> evicted user s'"
proof -
  obtain dek v t expected e source rest x where un: "unwrapVaultWithPassword env user password now
        (s\<lparr>as_locked := (''user:'' @ user) # as_locked s\<rparr>) = (Inr (dek, v), t)"
    and wrap: "WrapWithRecovery (ae_crypto env) dek secret \<lparr>cx_user = user, cx_vault = v\<rparr> source = Inr (e, rest)"
    and rot: "RotateRecoveryEnvelope (ae_control env) recoveryID user expected ([], e) now (as_store t) = (Inr x, as_store s')"
    and gone: "user \<noteq> [] \<Longrightarrow> evicted user s'"
    using run by (auto simp: RotateRecoveryCode_def rotateRecoveryLocked_def Let_def act_simps)
  have o: "password_opens env (as_store s) user v password dek" and t: "as_store t = as_store s" using unwrapVault_Inr [OF un] by simp_all
  obtain db db' json where d: "control_database (as_store s) = Inr db" "control_database (as_store s') = Inr db'" "same_vaults db db'"
      "passwords db' = passwords db"
    and j: "encodeKeyEnvelope (ae_control env) e KindRecovery = Inr json" "2 \<le> length json" "has_recovery (as_store s') user json" "store_ok (as_store s')"
    using rotate_outcome [OF ok rot [unfolded t]] by metis
  have "LookupVaultID user (as_store s') = Inr v" using same_vaults_lookup [OF d(3,1,2)] o by (simp add: password_opens_def)
  then have "recovery_opens env (as_store s') user v secret dek" by (rule opens_recovery [OF env j(4,3,1,2) _ wrap])
  with o gone opens_nonempty(1) [OF o] keep_opens(2) [OF d] show ?thesis by blast
qed

lemma reset_keeps_key:
  assumes env: "crypto_ok (ae_crypto env)" "json_ok (ae_control env)" and ok: "store_ok (as_store s)"
    and run: "Service_CompletePasswordReset env recoveryID ri now s = (Inr ticket, s')"
  shows "\<exists>v dek. recovery_opens env (as_store s) (pt_user ticket) v (ri_recovery ri) dek
    \<and> password_opens env (as_store s') (pt_user ticket) v (ri_password ri) dek
    \<and> recovery_opens env (as_store s') (pt_user ticket) v (ri_new_recovery ri) dek \<and> evicted (pt_user ticket) s'"
proof -
  obtain hash k u where "s' = unlockAccount (''user:'' @ pt_user k) u"
    and locked: "completePasswordResetLocked env recoveryID ri hash k now (s\<lparr>as_locked := (''user:'' @ pt_user k) # as_locked s\<rparr>) = (Inr ticket, u)"
    using run by (auto simp: Service_CompletePasswordReset_def act_simps split: option.splits)
  then obtain v expected e1 e2 t S where k: "LookupVaultID (pt_user k) (as_store s) = Inr v"
      "GetActiveRecoveryEnvelope (ae_control env) (pt_user k) (as_store s) = Inr expected"
    and build: "buildResetEnvelopes env ri expected \<lparr>cx_user = pt_user k, cx_vault = v\<rparr>
        (s\<lparr>as_locked := (''user:'' @ pt_user k) # as_locked s\<rparr>) = (Inr (e1, e2), t)"
    and fin: "CompletePasswordReset (ae_control env) recoveryID
        \<lparr>cp_hash = hash, cp_expected = expected, cp_password = e1, cp_recovery = ([], e2)\<rparr> now (as_store t) = (Inr ticket, S)"
    and s': "s' = unlockAccount (''user:'' @ pt_user k) (evictUser (pt_user k) (t\<lparr>as_store := S\<rparr>))"
    by (auto simp: completePasswordResetLocked_def act_simps)
  have store: "as_store s' = S" and gone: "pt_user k \<noteq> [] \<Longrightarrow> evicted (pt_user k) s'" using s' by simp_all
  obtain dek src1 src2 r1 r2 where
      un: "UnwrapWithRecovery (ae_crypto env) (Some (re_envelope expected)) (ri_recovery ri) \<lparr>cx_user = pt_user k, cx_vault = v\<rparr> = Inr dek"
    and wrap: "WrapWithPassword (ae_crypto env) dek (ri_password ri) \<lparr>cx_user = pt_user k, cx_vault = v\<rparr> src1 = Inr (e1, r1)"
      "WrapWithRecovery (ae_crypto env) dek (ri_new_recovery ri) \<lparr>cx_user = pt_user k, cx_vault = v\<rparr> src2 = Inr (e2, r2)"
    and t: "as_store t = as_store s"
    by (rule buildResetEnvelopes_Inr [OF build]) simp
  obtain db db' pj rj where d: "control_database (as_store s) = Inr db" "control_database (as_store s') = Inr db'" "same_vaults db db'"
    and j: "encodeKeyEnvelope (ae_control env) e1 KindPassword = Inr pj" "2 \<le> length pj"
      "encodeKeyEnvelope (ae_control env) e2 KindRecovery = Inr rj" "2 \<le> length rj"
    and has: "normalizeID (pt_user ticket) = Inr (pt_user ticket) \<Longrightarrow> has_password (as_store s') (pt_user ticket) pj"
      "normalizeID (pt_user ticket) = Inr (pt_user ticket) \<Longrightarrow> has_recovery (as_store s') (pt_user ticket) rj"
    and ok': "store_ok (as_store s')" and u: "pt_user ticket = re_user expected"
    using reset_outcome [OF ok fin [unfolded t]] store by (metis CompletePasswordResetInput.select_convs(2,3,4) snd_conv)
  obtain i where n: "normalizeID (pt_user k) = Inr i" "re_user expected = i"
    using k(2) by (auto simp: GetActiveRecoveryEnvelope_def res_simps dest!: find_SomeD)
  have id: "normalizeID (pt_user k) = Inr (pt_user k)" "re_user expected = pt_user k" "pt_user k \<noteq> []"
    using normalized_nonempty [OF n(1)] n by simp_all
  then have same: "pt_user ticket = pt_user k" using u by simp
  have v: "LookupVaultID (pt_user k) (as_store s') = Inr v" using same_vaults_lookup [OF d(3,1,2)] k(1) by simp
  have "password_opens env (as_store s') (pt_user k) v (ri_password ri) dek"
    using opens_password [OF env ok' _ j(1,2) v wrap(1)] has(1) id same by simp
  moreover have "recovery_opens env (as_store s') (pt_user k) v (ri_new_recovery ri) dek"
    using opens_recovery [OF env ok' _ j(3,4) v wrap(2)] has(2) id same by simp
  ultimately show ?thesis using k un gone id same unfolding recovery_opens_def by auto
qed

lemma prepareAccount_Inr:
  assumes "prepareAccount env userID vaultID email display p secret s = (Inr account, t)"
  obtains dek e1 e2 src1 src2 r1 r2 where
    "WrapWithPassword (ae_crypto env) dek p \<lparr>cx_user = userID, cx_vault = vaultID\<rparr> src1 = Inr (e1, r1)"
    "WrapWithRecovery (ae_crypto env) dek secret \<lparr>cx_user = userID, cx_vault = vaultID\<rparr> src2 = Inr (e2, r2)"
    "nu_id account = userID" "nu_vault account = vaultID" "nu_password account = e1" "nu_recovery account = Some ([], e2)"
    "as_store t = as_store s"
  using assms by (auto simp: prepareAccount_def Let_def act_simps)

lemma created_key:
  assumes env: "crypto_ok (ae_crypto env)" "json_ok (ae_control env)"
    and account: "prepareAccount env userID vaultID email display p secret s = (Inr account, t)"
    and stored: "\<And>rid e. nu_recovery account = Some (rid, e) \<Longrightarrow> \<exists>pj rj.
      encodeKeyEnvelope (ae_control env) (nu_password account) KindPassword = Inr pj \<and> 2 \<le> length pj
      \<and> encodeKeyEnvelope (ae_control env) e KindRecovery = Inr rj \<and> 2 \<le> length rj \<and> us_id u = nu_id account
      \<and> has_password S' (us_id u) pj \<and> has_recovery S' (us_id u) rj \<and> LookupVaultID (us_id u) S' = Inr (nu_vault account) \<and> store_ok S'"
  shows "us_id u = userID \<and> (\<exists>dek. password_opens env S' userID vaultID p dek \<and> recovery_opens env S' userID vaultID secret dek)"
proof -
  obtain dek e1 e2 src1 src2 r1 r2 where
      w: "WrapWithPassword (ae_crypto env) dek p \<lparr>cx_user = userID, cx_vault = vaultID\<rparr> src1 = Inr (e1, r1)"
      "WrapWithRecovery (ae_crypto env) dek secret \<lparr>cx_user = userID, cx_vault = vaultID\<rparr> src2 = Inr (e2, r2)"
    and a: "nu_id account = userID" "nu_vault account = vaultID" "nu_password account = e1" "nu_recovery account = Some ([], e2)"
    using prepareAccount_Inr [OF account] by metis
  obtain pj rj where j: "encodeKeyEnvelope (ae_control env) e1 KindPassword = Inr pj" "2 \<le> length pj"
      "encodeKeyEnvelope (ae_control env) e2 KindRecovery = Inr rj" "2 \<le> length rj"
    and u: "us_id u = userID" "has_password S' userID pj" "has_recovery S' userID rj" "LookupVaultID userID S' = Inr vaultID" "store_ok S'"
    using stored [OF a(4)] a(1-3) by metis
  show ?thesis
    using u(1) opens_password [OF env u(5,2) j(1,2) u(4) w(1)] opens_recovery [OF env u(5,3) j(3,4) u(4) w(2)] by blast
qed

lemma accept_creates_key:
  assumes env: "crypto_ok (ae_crypto env)" "json_ok (ae_control env)" and ok: "store_ok (as_store s)"
    and run: "Service_AcceptInvitation env (userID, vaultID, recoveryID) ai now s = (Inr u, s')"
  shows "us_id u = userID \<and> (\<exists>dek. password_opens env (as_store s') userID vaultID (ai_password ai) dek
    \<and> recovery_opens env (as_store s') userID vaultID (ai_recovery ai) dek)"
proof -
  obtain hash invitation account t where "GetInvitationByTokenHash hash (as_store s) = Inr invitation"
    and account: "prepareAccount env userID vaultID (in_email invitation) (ai_display ai) (ai_password ai) (ai_recovery ai)
        (s\<lparr>as_locked := (''invitation:'' @ in_id invitation) # as_locked s, as_kdf := Suc (as_kdf s)\<rparr>) = (Inr account, t)"
    and acc: "AcceptInvitation (ae_control env) recoveryID hash account now (as_store t) = (Inr u, as_store s')"
    using run by (auto simp: Service_AcceptInvitation_def act_simps split: option.splits)
  have "as_store t = as_store s" by (rule prepareAccount_Inr [OF account]) simp
  with acc have done_on: "AcceptInvitation (ae_control env) recoveryID hash account now (as_store s) = (Inr u, as_store s')" by simp
  show ?thesis by (rule created_key [OF env account]) (rule accept_outcome [OF ok done_on], assumption, blast)
qed

lemma bootstrap_creates_key:
  assumes env: "crypto_ok (ae_crypto env)" "json_ok (ae_control env)" and ok: "store_ok (as_store s)"
    and run: "Service_Bootstrap env (userID, vaultID, recoveryID) bi now s = (Inr u, s')"
  shows "us_id u = userID \<and> (\<exists>dek. password_opens env (as_store s') userID vaultID (bi_password bi) dek
    \<and> recovery_opens env (as_store s') userID vaultID (bi_recovery bi) dek)"
proof -
  obtain s1 account t where
      account: "prepareAccount env userID vaultID (bi_email bi) (bi_display bi) (bi_password bi) (bi_recovery bi) s1 = (Inr account, t)"
    and s1: "as_store s1 = as_store s"
    and acc: "BootstrapFirstAdmin (ae_control env) recoveryID account now (as_store t) = (Inr u, as_store s')"
    using run by (auto simp: Service_Bootstrap_def act_simps split: if_splits)
  have "as_store t = as_store s" by (rule prepareAccount_Inr [OF account]) (simp add: s1)
  with acc have done_on: "BootstrapFirstAdmin (ae_control env) recoveryID account now (as_store s) = (Inr u, as_store s')" by simp
  show ?thesis by (rule created_key [OF env account]) (rule bootstrap_outcome [OF ok done_on], assumption, blast)
qed

section \<open>Properties\<close>

lemma text_bytes_chars [simp]: "text_bytes (map (\<lambda>b. char_of (unat b)) bs) = bs"
proof -
  have "unat b mod 256 = unat b" for b :: "8 word" using unsigned_less [of b, where 'a = nat] by simp
  then show ?thesis by (simp add: text_bytes_def map_idI)
qed

lemma text_bytes_append [simp]: "text_bytes (xs @ ys) = text_bytes xs @ text_bytes ys"
  by (simp add: text_bytes_def)

lemma sample_json_ok: "json_ok (ae_control sample_auth)"
  unfolding json_ok_def
proof (intro allI impI)
  fix e kind assume v: "validateKeyEnvelope e kind = Inr ()"
  have "length (ev_salt e) = 32" "length (ev_nonce e) = 12" "length (ev_ciphertext e) = 48" "ev_version e = 1" "ev_kind e = kind"
    using v by (auto simp: validateKeyEnvelope_def res_simps)
  moreover from v have "kind = KindPassword \<and> ev_kdf e = ''argon2id-hkdf-sha256'' \<and> ev_profile e = DefaultProfile
      \<or> kind \<in> {KindRecovery, KindPasskey, KindServerPasskey} \<and> ev_kdf e = ''hkdf-sha256'' \<and> ev_profile e = (0, 0, 0)"
    by (auto simp: validateKeyEnvelope_def res_simps split: Kind.splits)
  ultimately show "env_decode (ae_control sample_auth) (env_encode (ae_control sample_auth) e) = Some e"
    by (cases e) (auto simp: sample_auth_def sample_encode_def sample_decode_def Let_def)
qed

text \<open>C7: the key of a vault survives every change of credentials, and only the holder of a credential can make one. A successful
  change of the password was given the old password; afterwards the new one opens the vault with the same key and the
  recovery code still does. A successful rotation was given the password; afterwards the new code opens the vault with the
  same key and the password still does. A successful reset was given the recovery code; afterwards the new password and
  the new code open the vault with the same key. After each, no session of the account is left. A new account can open
  its vault with its password and with its recovery code, by the same key.\<close>

theorem vault_key_survives:
  assumes "crypto_ok (ae_crypto env)" "json_ok (ae_control env)" "store_ok (as_store s)"
  shows "(ChangePassword env user old new revoke now s = (Inr n, s1) \<longrightarrow>
      (\<exists>v dek. password_opens env (as_store s) user v old dek \<and> password_opens env (as_store s1) user v new dek
        \<and> (\<forall>secret d. recovery_opens env (as_store s) user v secret d \<longrightarrow> recovery_opens env (as_store s1) user v secret d) \<and> evicted user s1))
    \<and> (RotateRecoveryCode env recoveryID user password secret now s = (Inr x, s2) \<longrightarrow>
      (\<exists>v dek. password_opens env (as_store s) user v password dek \<and> recovery_opens env (as_store s2) user v secret dek
        \<and> (\<forall>p d. password_opens env (as_store s) user v p d \<longrightarrow> password_opens env (as_store s2) user v p d) \<and> evicted user s2))
    \<and> (Service_CompletePasswordReset env recoveryID ri now s = (Inr ticket, s3) \<longrightarrow>
      (\<exists>v dek. recovery_opens env (as_store s) (pt_user ticket) v (ri_recovery ri) dek
        \<and> password_opens env (as_store s3) (pt_user ticket) v (ri_password ri) dek
        \<and> recovery_opens env (as_store s3) (pt_user ticket) v (ri_new_recovery ri) dek \<and> evicted (pt_user ticket) s3))
    \<and> (Service_AcceptInvitation env (userID, vaultID, recoveryID) ai now s = (Inr u, s4) \<longrightarrow>
      (\<exists>dek. password_opens env (as_store s4) userID vaultID (ai_password ai) dek \<and> recovery_opens env (as_store s4) userID vaultID (ai_recovery ai) dek))
    \<and> (Service_Bootstrap env (userID, vaultID, recoveryID) bi now s = (Inr w, s5) \<longrightarrow>
      (\<exists>dek. password_opens env (as_store s5) userID vaultID (bi_password bi) dek \<and> recovery_opens env (as_store s5) userID vaultID (bi_recovery bi) dek))"
  using change_keeps_key [OF assms] rotate_keeps_key [OF assms] reset_keeps_key [OF assms] accept_creates_key [OF assms]
    bootstrap_creates_key [OF assms] by simp

theorem vault_key_survives_witness:
  "\<exists>w s dek. sample_started sample_auth = (Inr w, s)
    \<and> password_opens sample_auth (as_store s) ''alice-0123456789'' ''vault-0123456789'' (replicate 12 1) dek
    \<and> recovery_opens sample_auth (as_store s) ''alice-0123456789'' ''vault-0123456789'' (replicate 32 2) dek"
proof -
  have env: "crypto_ok (ae_crypto sample_auth)" "store_ok (as_store sample_service)"
    using plain_crypto_ok fresh_ok by (simp_all add: sample_auth_def sample_service_def fresh_store_def)
  let ?s = "snd (sample_started sample_auth)"
  obtain w where run: "sample_started sample_auth = (Inr w, ?s)" using sample_start_ok by (metis okE_iff prod.collapse)
  have "\<exists>dek. password_opens sample_auth (as_store ?s) ''alice-0123456789'' ''vault-0123456789'' (bi_password sample_start) dek
      \<and> recovery_opens sample_auth (as_store ?s) ''alice-0123456789'' ''vault-0123456789'' (bi_recovery sample_start) dek"
    using vault_key_survives [OF env(1) sample_json_ok env(2), THEN conjunct2, THEN conjunct2, THEN conjunct2, THEN conjunct2, THEN mp,
      OF run [unfolded sample_started_def]] by (simp only: sample_started_def)
  then show ?thesis using run by (auto simp: sample_start_def)
qed

end
