(* ===== verification/Spec2Isabelle.thy ===== *)
theory Spec2Isabelle
  imports Saves SaveWorker AITransactions ControlReads LoginThrottle RateLimit VaultProperties RequestProperties AccountKeys
begin

text \<open>
  \<^bold>\<open>Omni Money: a verification library.\<close>

  Omni Money is a household ledger. Its Go back end keeps a ledger in SQLite (\<open>src/backend/database\<close>) and
  changes it through a service (\<open>src/backend/core\<close>) that validates every request
  (\<open>src/backend/validation\<close>), recomputes running balances, enforces image quotas and a policy for links
  between card and bank transactions, and accepts slow saves into a durable queue run by one worker per
  database instance. The multi-user server puts around it a control store of accounts, invitations and
  credentials (\<open>src/backend/control\<close>), a manager of open per-user vaults (\<open>src/backend/vault\<close>), sessions that own
  leases of these vaults, a stack of request guards (\<open>src/backend/middleware\<close>), and the account service
  (\<open>src/backend/serverauth\<close>) that joins them with the key envelopes (\<open>src/backend/keyenvelope\<close>): logging in unwraps the
  key of the user's vault with the password, opens the vault and creates a session on a lease of it.

  \<^bold>\<open>Reading the library.\<close> A Go function that can fail returns \<open>'e + 'a\<close> (\<open>Inl\<close> the error); \<open>bindE\<close> is the
  sequence of early returns, \<open>guardE\<close> a check, \<open>foldE\<close> a loop that stops at the first error. \<open>int64\<close> is
  \<open>64 word\<close>. A table is a list of rows in row-id order; \<open>upd_where\<close>, \<open>del_where\<close>, \<open>count_where\<close> are the SQL
  statements; declared constraints and triggers are part of the statement that can violate them. A write
  handler is a function of the service that yields the new ledger and its answer, or an error, in which
  case nothing is committed (\<open>svc_write\<close>).

  \<^bold>\<open>Theories, from the bottom up.\<close>
  \<^item> \<open>Prelude\<close>: results, loops, tables, the \<open>step_machine\<close> interface (invariants of step relations).
  \<^item> \<open>GoText\<close>, \<open>GoJSON\<close>, \<open>GoTime\<close>: what the sources use of Go's \<open>unicode/utf8\<close>, \<open>strings\<close>, \<open>encoding/json\<close> (arrays
    of strings) and \<open>time.Parse\<close>.
  \<^item> \<open>Validation\<close>: \<open>validation/amount.go\<close>, \<open>tag.go\<close>, \<open>text.go\<close>; the interface \<open>text_policy\<close> with its two
    implementations; checked arithmetic is exact, tag names are canonical, settings round-trip.
  \<^item> \<open>ImageContainer\<close>: the container walks of \<open>core/image_security.go\<close>; every read is checked and none is out of range, GIF
    and WebP acceptance equals a grammar of its own, nothing follows the end of a JPEG or PNG.
  \<^item> \<open>LedgerSchema\<close>, \<open>Service\<close>: the tables of \<open>database.go\<close> and the service of \<open>service_instance.go\<close>; the interface
    \<open>ledger_handler\<close> (a handler needs the database and keeps an invariant), interpreted for all sixteen write
    handlers.
  \<^item> \<open>Balance\<close>: \<open>recalculateBalanceIn\<close> against exact integer prefix sums; the balance history.
  \<^item> \<open>Images\<close>, \<open>Links\<close>, \<open>Tags\<close>, \<open>Transactions\<close>: the handlers of \<open>service.go\<close> and \<open>card_reconciliation.go\<close>;
    \<open>LedgerInvariant\<close> and \<open>LedgerHistory\<close> join them: every ledger reached by the handlers is consistent.
  \<^item> \<open>Saves\<close>, \<open>SaveWorker\<close>: \<open>transaction_saves.go\<close> and \<open>transaction_save_worker.go\<close>; requests are applied at most
    once, finished answers are final, the queue drains, and no wake-up is lost.

  \<^item> \<open>AITransactions\<close>: \<open>ai_transaction.go\<close>; an idempotency key is used once and the daily quota counts exactly what was
    created.
  \<^item> \<open>Control\<close>, \<open>ControlCredentials\<close>, \<open>ControlInvariant\<close>, \<open>ControlHistory\<close>, \<open>ControlReads\<close>: the control store with its
    tables, checks and every operation of \<open>src/backend/control\<close>; the interfaces \<open>store_operation\<close> and
    \<open>settled_operation\<close>; in every reachable store an administrator is active and every account has its
    credentials, invitations and reset tickets work once, replaced passwords are refused.
  \<^item> \<open>LoginThrottle\<close>, \<open>RateLimit\<close>: the lock-out of accounts and the sliding windows of \<open>ratelimit.go\<close>.
  \<^item> \<open>VaultManager\<close>, \<open>VaultInvariant\<close>, \<open>VaultHistory\<close>, \<open>VaultProperties\<close>: \<open>vault/manager.go\<close> as a step relation: the
    stretches of code between two locks or waits of the goroutines that acquire, open, drain, close and
    restore a vault are the steps, the goroutines a multiset. Live leases have an open database, no file is
    open twice, drains and restores exclude users.
  \<^item> \<open>Sessions\<close>, \<open>SessionInvariant\<close>, \<open>SessionProperties\<close>: the session manager of \<open>session.go\<close> beside the vault manager:
    \<open>server_step\<close> interleaves every method of the one with every step of the other, and the invariant says
    which root lease belongs to which session.
  \<^item> \<open>Requests\<close>, \<open>RequestProperties\<close>: the authentication, cross-site and recent-authentication guards in the order
    \<open>server_router.go\<close> stacks them, with what a handler may rely on.
  \<^item> \<open>KeyEnvelope\<close>: \<open>keyenvelope/envelope.go\<close> and \<open>server_passkey.go\<close> over cryptographic primitives that are parameters;
    the interface \<open>key_custody\<close> (unwrapping inverts wrapping and nothing else) for each kind of credential.
  \<^item> \<open>AccountService\<close>, \<open>AccountProperties\<close>, \<open>AccountKeys\<close>: \<open>serverauth/service.go\<close>; a method is an action on the joint state
    of store, throttle, sessions, vaults, account locks, KDF slots and random source. The interface \<open>service_relation\<close>
    (what the parts keep, the methods keep) gives that every history of the service is one of its components and that
    no lock or slot is left behind; a login needs the password, refusals are uniform, and the key of a vault survives
    every change of credentials.

  \<^bold>\<open>Bounds.\<close> The queue loop is a \<open>partial_function\<close>: it is proved to return. The closure of a tag deletion is
  iterated once per stored tag, the preview three rounds more; both are proved complete. All other loops
  are structural or carry a termination proof.

  \<^bold>\<open>Not modelled.\<close> CSV export and import (\<open>service.go\<close>, \<open>service_csv_full.go\<close>): an import is a write of the ledger outside the
  step relations here; a restore keeps images beyond the quotas and deletes the idempotency claims and usage rows of AI
  requests, and appending does not prune links, so statements on histories are about histories without imports.
  WebAuthn ceremonies and the checks on the setup file, HTTP encoding and routing, the desktop shell and its account
  migration, file permissions, encryption at rest, schema migrations and snapshots as files are I/O. Pixel decoding,
  SHA-256, Argon2id, HKDF, HMAC and AES-GCM, the JSON of whole requests, answers and envelopes, Unicode case tables and the
  host syntax of \<open>net/url\<close> are parameters. Failures of the SQLite driver are outside the model: its transactions are atomic,
  stored rows decode (the errors of reading a stored answer or passkey that does not, and the \<open>json_valid\<close> checks on text
  that \<open>encoding/json\<close> wrote, have no counterpart). Failures of the random source are modelled where keys and tokens are
  drawn. Contexts are cancelled only where a vault is closed. The limiter's requests arrive in the order of their times,
  though \<open>ratelimit.go\<close> reads the clock before it takes its mutex. New session identifiers are assumed never to repeat.
\<close>

end
